(* ===== verification/Prelude.thy ===== *)
theory Prelude
  imports Complex_Main "HOL-Library.AList"
begin

section \<open>Shared vocabulary of the development\<close>

text \<open>
  What every component uses: Python exceptions as values, insertion-ordered dictionaries, the
  few string operations the bridge calls, and the collections of rules the component proofs
  share.

  Conventions. A Python float that holds a clock reading or a duration is a \<open>real\<close> (exact
  arithmetic, no rounding); a Python int is an \<open>int\<close>, or a \<open>nat\<close> where the code only counts.
  A \<open>str\<close> is a list of characters, one per UTF-8 byte. A function that may raise returns
  \<open>py_exc + 'a\<close>, with \<open>Inl\<close> for the exception.
\<close>

named_theorems res_iff "when a computation that may raise succeeds"
named_theorems wf_intros "well-formedness is kept by the operations"

subsection \<open>Exceptions\<close>

text \<open>An exception is the name of its class and its message, the two things handlers look at.\<close>

datatype py_exc = PyExc (exc_class: string) (exc_msg: string)

type_synonym 'a res = "py_exc + 'a"

abbreviation ValueError :: "string \<Rightarrow> py_exc" where
  "ValueError m \<equiv> PyExc ''ValueError'' m"

definition bindE :: "'a res \<Rightarrow> ('a \<Rightarrow> 'b res) \<Rightarrow> 'b res" where
  "bindE m f = (case m of Inl e \<Rightarrow> Inl e | Inr x \<Rightarrow> f x)"

definition guardE :: "bool \<Rightarrow> py_exc \<Rightarrow> unit res" where
  "guardE b e = (if b then Inr () else Inl e)"

definition raised :: "'a res \<Rightarrow> bool" where
  "raised m = (case m of Inl _ \<Rightarrow> True | Inr _ \<Rightarrow> False)"

lemma bindE_simps [simp]:
  "bindE (Inl e) f = Inl e"
  "bindE (Inr x) f = f x"
  by (simp_all add: bindE_def)

lemma guardE_simps [simp]:
  "guardE True e = Inr ()"
  "guardE False e = Inl e"
  by (simp_all add: guardE_def)

lemma raised_simps [simp]: "raised (Inl e)" "\<not> raised (Inr x)"
  by (simp_all add: raised_def)

lemma bindE_Inr [res_iff]: "bindE m f = Inr y \<longleftrightarrow> (\<exists>x. m = Inr x \<and> f x = Inr y)"
  by (cases m) auto

lemma guardE_Inr [res_iff]: "guardE b e = Inr u \<longleftrightarrow> b"
  by (cases b) auto

lemma bindE_guardE_Inr [res_iff]: "bindE (guardE b e) f = Inr y \<longleftrightarrow> b \<and> f () = Inr y"
  by (cases b) auto

lemma raised_bindE: "raised (bindE m f) \<longleftrightarrow> raised m \<or> (\<exists>x. m = Inr x \<and> raised (f x))"
  by (cases m) auto

lemma not_raised_iff: "\<not> raised m \<longleftrightarrow> (\<exists>x. m = Inr x)"
  by (cases m) auto

subsection \<open>Insertion-ordered dictionaries\<close>

text \<open>
  A Python dict is an association list in insertion order: \<open>d[k] = v\<close> overwrites in place or
  appends (\<^const>\<open>AList.update\<close>), \<open>d.get(k)\<close> is \<^const>\<open>map_of\<close> and \<open>d.pop(k, None)\<close> is
  \<^const>\<open>AList.delete\<close>.
\<close>

type_synonym ('k, 'v) dict = "('k \<times> 'v) list"

abbreviation dget :: "('k, 'v) dict \<Rightarrow> 'k \<Rightarrow> 'v option" where
  "dget d k \<equiv> map_of d k"

abbreviation dput :: "'k \<Rightarrow> 'v \<Rightarrow> ('k, 'v) dict \<Rightarrow> ('k, 'v) dict" where
  "dput k v d \<equiv> AList.update k v d"

abbreviation dpop :: "'k \<Rightarrow> ('k, 'v) dict \<Rightarrow> ('k, 'v) dict" where
  "dpop k d \<equiv> AList.delete k d"

definition dget_or :: "('k, 'v) dict \<Rightarrow> 'k \<Rightarrow> 'v \<Rightarrow> 'v" where
  "dget_or d k v = (case dget d k of None \<Rightarrow> v | Some x \<Rightarrow> x)"

text \<open>\<open>d[k]\<close>, which raises for a missing key\<close>

definition ditem :: "(string, 'v) dict \<Rightarrow> string \<Rightarrow> 'v res" where
  "ditem d k = (case dget d k of None \<Rightarrow> Inl (PyExc ''KeyError'' k) | Some v \<Rightarrow> Inr v)"

definition dkeys :: "('k, 'v) dict \<Rightarrow> 'k list" where
  "dkeys d = map fst d"

lemma dget_dput [simp]: "dget (dput k v d) k' = (if k' = k then Some v else dget d k')"
  by (simp add: update_conv)

lemma dget_dpop [simp]: "dget (dpop k d) k' = (if k' = k then None else dget d k')"
  by (simp add: AList.delete_conv)

lemma dget_or_dput [simp]: "dget_or (dput k v d) k' w = (if k' = k then v else dget_or d k' w)"
  by (simp add: dget_or_def)

lemma distinct_dkeys_dput [wf_intros]: "distinct (dkeys d) \<Longrightarrow> distinct (dkeys (dput k v d))"
  unfolding dkeys_def by (rule distinct_update)

lemma dkeys_dput: "set (dkeys (dput k v d)) = insert k (set (dkeys d))"
  by (induction d) (auto simp: dkeys_def)

lemma dkeys_dpop: "set (dkeys (dpop k d)) = set (dkeys d) - {k}"
  by (simp add: dkeys_def delete_keys del: set_map)

lemma dkeys_dput_old: "dget d k = Some w \<Longrightarrow> dkeys (dput k v d) = dkeys d"
  by (induction d) (auto simp: dkeys_def split: if_splits)

lemma dget_None_iff: "dget d k = None \<longleftrightarrow> k \<notin> set (dkeys d)"
  by (simp add: dkeys_def map_of_eq_None_iff)

text \<open>In a dictionary the entries that satisfy a property are its keys that do.\<close>

lemma length_filter_dict:
  assumes "distinct (dkeys d)"
  shows "length (filter (\<lambda>(k, v). P v) d) = card {k \<in> set (dkeys d). P (the (dget d k))}"
  using assms
proof (induction d)
  case Nil
  then show ?case by (simp add: dkeys_def)
next
  case (Cons kv d)
  obtain k v where kv: "kv = (k, v)" by fastforce
  have k: "k \<notin> set (dkeys d)" and d: "distinct (dkeys d)"
    using Cons.prems by (auto simp: kv dkeys_def)
  have "{k' \<in> set (dkeys (kv # d)). P (the (dget (kv # d) k'))}
      = (if P v then insert k else id) {k' \<in> set (dkeys d). P (the (dget d k'))}"
    using k by (auto simp: kv dkeys_def split: if_splits)
  then show ?case using Cons.IH [OF d] k by (simp add: kv)
qed

subsection \<open>Strings\<close>

definition startswith :: "string \<Rightarrow> string \<Rightarrow> bool" where
  "startswith s p = (take (length p) s = p)"

definition endswith :: "string \<Rightarrow> string \<Rightarrow> bool" where
  "endswith s p = (length p \<le> length s \<and> drop (length s - length p) s = p)"

fun contains :: "string \<Rightarrow> string \<Rightarrow> bool" where
  "contains [] p = (p = [])"
| "contains (c # cs) p = (startswith (c # cs) p \<or> contains cs p)"

definition lower_char :: "char \<Rightarrow> char" where
  "lower_char c = (let n = (of_char c :: nat) in if 65 \<le> n \<and> n \<le> 90 then char_of (n + 32) else c)"

definition upper_char :: "char \<Rightarrow> char" where
  "upper_char c = (let n = (of_char c :: nat) in if 97 \<le> n \<and> n \<le> 122 then char_of (n - 32) else c)"

definition lower :: "string \<Rightarrow> string" where
  "lower s = map lower_char s"

definition upper :: "string \<Rightarrow> string" where
  "upper s = map upper_char s"

definition digit_char :: "nat \<Rightarrow> char" where
  "digit_char d = char_of (48 + d)"

text \<open>\<open>str(n)\<close> for a non-negative integer.\<close>

fun dec_nat :: "nat \<Rightarrow> string" where
  "dec_nat n = (if n < 10 then [digit_char n] else dec_nat (n div 10) @ [digit_char (n mod 10)])"

declare dec_nat.simps [simp del]

definition dec_int :: "int \<Rightarrow> string" where
  "dec_int i = (if i < 0 then ''-'' @ dec_nat (nat (- i)) else dec_nat (nat i))"

text \<open>\<open>s.split(c)\<close> for a one-character separator\<close>

fun split_on :: "char \<Rightarrow> string \<Rightarrow> string list" where
  "split_on c [] = [[]]"
| "split_on c (x # xs) =
     (if x = c then [] # split_on c xs
      else (case split_on c xs of p # ps \<Rightarrow> (x # p) # ps | [] \<Rightarrow> [[x]]))"

lemma split_on_word: "c \<notin> set w \<Longrightarrow> split_on c (w @ c # s) = w # split_on c s"
  by (induction w) auto

text \<open>\<open>c.join(ws)\<close> for a one-character separator\<close>

definition join_char :: "char \<Rightarrow> string list \<Rightarrow> string" where
  "join_char c ws = (case ws of [] \<Rightarrow> [] | w # ws' \<Rightarrow> w @ concat (map ((#) c) ws'))"

lemma join_char_Cons: "join_char c (w # v # vs) = w @ c # join_char c (v # vs)"
  by (simp add: join_char_def)

lemma join_char_simps [simp]: "join_char c [] = []" "join_char c [w] = w"
  by (simp_all add: join_char_def)

lemma startswith_append [simp]: "startswith (p @ s) p"
  by (simp add: startswith_def)

lemma startswith_iff: "startswith s p \<longleftrightarrow> (\<exists>r. s = p @ r)"
  by (metis append_eq_conv_conj append_take_drop_id startswith_def)

lemma contains_startswith: "startswith s p \<Longrightarrow> contains s p"
  by (cases s) (auto simp: startswith_def)

lemma contains_append_mid: "contains (a @ p @ b) p"
proof (induction a)
  case Nil
  then show ?case by (simp add: contains_startswith)
next
  case (Cons x a)
  then show ?case by simp
qed

lemma contains_iff: "contains s p \<longleftrightarrow> (\<exists>a b. s = a @ p @ b)"
proof
  assume "contains s p"
  then show "\<exists>a b. s = a @ p @ b"
  proof (induction s p rule: contains.induct)
    case (1 p)
    then show ?case by simp
  next
    case (2 c cs p)
    then consider "startswith (c # cs) p" | "contains cs p" by auto
    then show ?case
    proof cases
      case 1
      then obtain r where "c # cs = p @ r" by (auto simp: startswith_iff)
      then have "c # cs = [] @ p @ r" by simp
      then show ?thesis by blast
    next
      case 2
      with "2.IH" obtain a b where "cs = a @ p @ b" by blast
      then have "c # cs = (c # a) @ p @ b" by simp
      then show ?thesis by blast
    qed
  qed
next
  assume "\<exists>a b. s = a @ p @ b"
  then show "contains s p" using contains_append_mid by blast
qed

lemma lower_append [simp]: "lower (a @ b) = lower a @ lower b"
  by (simp add: lower_def)

lemma length_lower [simp]: "length (lower s) = length s"
  by (simp add: lower_def)

subsection \<open>Rounding and clamping\<close>

text \<open>\<open>round(x, n)\<close>, to the nearest multiple of \<open>10 ^ -n\<close> and to an even one half way.\<close>

definition round_half_even :: "real \<Rightarrow> int" where
  "round_half_even x =
     (let f = \<lfloor>x\<rfloor>; d = x - of_int f in
      if d < 1 / 2 then f else if 1 / 2 < d then f + 1 else if even f then f else f + 1)"

definition py_round :: "nat \<Rightarrow> real \<Rightarrow> real" where
  "py_round n x = of_int (round_half_even (x * 10 ^ n)) / 10 ^ n"

lemma round_half_even_mono: "x \<le> y \<Longrightarrow> round_half_even x \<le> round_half_even y"
proof -
  assume xy: "x \<le> y"
  then consider "\<lfloor>x\<rfloor> = \<lfloor>y\<rfloor>" | "\<lfloor>x\<rfloor> + 1 \<le> \<lfloor>y\<rfloor>" using floor_mono [of x y] by linarith
  then show ?thesis
  proof cases
    case 1
    then show ?thesis using xy by (auto simp: round_half_even_def Let_def)
  next
    case 2
    then show ?thesis by (auto simp: round_half_even_def Let_def)
  qed
qed

lemma round_half_even_of_int [simp]: "round_half_even (of_int i) = i"
  by (simp add: round_half_even_def)

lemma py_round_mono: "x \<le> y \<Longrightarrow> py_round n x \<le> py_round n y"
  unfolding py_round_def by (intro divide_right_mono) (auto intro: round_half_even_mono mult_right_mono)

lemma py_round_of_int [simp]: "py_round n (of_int i) = of_int i"
proof -
  have "(of_int i * 10 ^ n :: real) = of_int (i * 10 ^ n)" by simp
  then show ?thesis unfolding py_round_def by (simp only: round_half_even_of_int) simp
qed

lemma py_round_0 [simp]: "py_round n 0 = 0"
  using py_round_of_int [of n 0] by simp

lemma py_round_1 [simp]: "py_round n 1 = 1"
  using py_round_of_int [of n 1] by simp

definition clamp :: "real \<Rightarrow> real \<Rightarrow> real \<Rightarrow> real" where
  "clamp low high v = max low (min high v)"

lemma clamp_bounds: "low \<le> high \<Longrightarrow> low \<le> clamp low high v \<and> clamp low high v \<le> high"
  by (simp add: clamp_def)

lemma clamp_id: "low \<le> v \<Longrightarrow> v \<le> high \<Longrightarrow> clamp low high v = v"
  by (simp add: clamp_def)

subsection \<open>Lists\<close>

lemma filter_sub: "(\<And>x. x \<in> set xs \<Longrightarrow> P x \<Longrightarrow> Q x) \<Longrightarrow> filter P (filter Q xs) = filter P xs"
  by (induction xs) auto

lemma length_filter_mono:
  "(\<And>x. x \<in> set xs \<Longrightarrow> P x \<Longrightarrow> Q x) \<Longrightarrow> length (filter P xs) \<le> length (filter Q xs)"
  by (induction xs) auto

text \<open>The last \<open>n\<close> elements, Python's \<open>xs[-n:]\<close> for positive \<open>n\<close>.\<close>

definition last_n :: "nat \<Rightarrow> 'a list \<Rightarrow> 'a list" where
  "last_n n xs = drop (length xs - n) xs"

lemma length_last_n [simp]: "length (last_n n xs) = min n (length xs)"
  by (simp add: last_n_def)

lemma set_last_n: "set (last_n n xs) \<subseteq> set xs"
  by (simp add: last_n_def set_drop_subset)

end
