(* ===== verification/Bytes.thy ===== *)
theory Bytes
  imports Prelude "HOL-Library.Word"
begin

section \<open>Byte strings\<close>

text \<open>
  Python \<open>bytes\<close> as lists of 8-bit words, with what the bridge uses of the standard library on
  them: big-endian integers (\<open>int.from_bytes\<close>, \<open>int.to_bytes\<close>, the \<open>struct\<close> codes B, I, Q
  and q in big-endian order), \<open>bytes.hex\<close> and \<open>bytes.fromhex\<close>, and the UTF-8 encoding of a
  string. Fixed-width fields come with their width, so that a concatenation can be split again.
\<close>

type_synonym byte = "8 word"
type_synonym bytes = "byte list"

subsection \<open>Big-endian integers\<close>

primrec be_bytes :: "nat \<Rightarrow> nat \<Rightarrow> bytes" where
  "be_bytes 0 n = []"
| "be_bytes (Suc k) n = be_bytes k (n div 256) @ [of_nat n]"

definition be_nat :: "bytes \<Rightarrow> nat" where
  "be_nat bs = foldl (\<lambda>a b. a * 256 + unat b) 0 bs"

lemma length_be_bytes [simp]: "length (be_bytes k n) = k"
  by (induction k arbitrary: n) auto

lemma be_nat_Nil [simp]: "be_nat [] = 0"
  by (simp add: be_nat_def)

lemma be_nat_snoc [simp]: "be_nat (bs @ [b]) = be_nat bs * 256 + unat b"
  by (simp add: be_nat_def)

lemma unat_byte_lt: "unat (b :: byte) < 256"
  using unsigned_less [of b] by simp

lemma unat_of_nat_byte: "unat (of_nat n :: byte) = n mod 256"
  by (simp add: unat_of_nat)

lemma be_nat_be_bytes: "be_nat (be_bytes k n) = n mod 256 ^ k"
proof (induction k arbitrary: n)
  case 0
  then show ?case by simp
next
  case (Suc k)
  have "be_nat (be_bytes (Suc k) n) = (n div 256) mod 256 ^ k * 256 + n mod 256"
    by (simp add: Suc unat_of_nat_byte)
  also have "\<dots> = n mod 256 ^ Suc k"
    by (simp add: mod_mult2_eq)
  finally show ?case .
qed

lemma be_nat_lt: "be_nat bs < 256 ^ length bs"
proof (induction bs rule: rev_induct)
  case Nil
  then show ?case by simp
next
  case (snoc b bs)
  have "be_nat (bs @ [b]) < (be_nat bs + 1) * 256"
    using unat_byte_lt [of b] by simp
  also have "\<dots> \<le> 256 ^ length bs * 256"
    using snoc by (intro mult_right_mono) auto
  finally show ?case by simp
qed

lemma be_bytes_be_nat: "length bs = k \<Longrightarrow> be_bytes k (be_nat bs) = bs"
proof (induction bs arbitrary: k rule: rev_induct)
  case Nil
  then show ?case by simp
next
  case (snoc b bs)
  then obtain k' where k: "k = Suc k'" "length bs = k'" by auto
  have "(be_nat bs * 256 + unat b) div 256 = be_nat bs"
    using unat_byte_lt [of b] by simp
  moreover have "unat (of_nat (be_nat bs * 256 + unat b) :: byte) = unat b"
    using unat_byte_lt [of b] by (simp only: unat_of_nat_byte) simp
  then have "(of_nat (be_nat bs * 256 + unat b) :: byte) = b"
    by (simp only: word_unat_eq_iff)
  ultimately show ?case using snoc.IH k by simp
qed

lemma be_bytes_inj: "be_bytes k m = be_bytes k n \<Longrightarrow> m < 256 ^ k \<Longrightarrow> n < 256 ^ k \<Longrightarrow> m = n"
  by (metis be_nat_be_bytes mod_less)

subsection \<open>Packing with a range check\<close>

definition struct_error :: py_exc where
  "struct_error = PyExc ''struct.error'' ''argument out of range''"

text \<open>\<open>struct.pack\<close> of an unsigned field of \<open>k\<close> bytes.\<close>

definition pack_u :: "nat \<Rightarrow> int \<Rightarrow> bytes res" where
  "pack_u k v = (if 0 \<le> v \<and> v < 256 ^ k then Inr (be_bytes k (nat v)) else Inl struct_error)"

text \<open>\<open>struct.pack\<close> and \<open>struct.unpack\<close> of a two's complement field of \<open>k\<close> bytes.\<close>

definition pack_s :: "nat \<Rightarrow> int \<Rightarrow> bytes res" where
  "pack_s k v =
     (if - (256 ^ k div 2) \<le> v \<and> v < 256 ^ k div 2 then Inr (be_bytes k (nat (v mod 256 ^ k)))
      else Inl struct_error)"

definition unpack_s :: "nat \<Rightarrow> bytes \<Rightarrow> int" where
  "unpack_s k bs = (let n = int (be_nat bs) in if n < 256 ^ k div 2 then n else n - 256 ^ k)"

lemma pack_u_Inr: "pack_u k v = Inr bs \<longleftrightarrow> 0 \<le> v \<and> v < 256 ^ k \<and> bs = be_bytes k (nat v)"
  by (auto simp: pack_u_def)

lemma pack_s_Inr:
  "pack_s k v = Inr bs \<longleftrightarrow>
     - (256 ^ k div 2) \<le> v \<and> v < 256 ^ k div 2 \<and> bs = be_bytes k (nat (v mod 256 ^ k))"
  by (auto simp: pack_s_def)

lemma pack_u_length: "pack_u k v = Inr bs \<Longrightarrow> length bs = k"
  by (auto simp: pack_u_Inr)

lemma pack_s_length: "pack_s k v = Inr bs \<Longrightarrow> length bs = k"
  by (auto simp: pack_s_Inr)

lemma nat_less_power: "0 \<le> v \<Longrightarrow> v < 256 ^ k \<Longrightarrow> nat v < 256 ^ k"
  by (metis nat_less_iff of_nat_numeral of_nat_power)

lemma be_nat_pack_u: "pack_u k v = Inr bs \<Longrightarrow> int (be_nat bs) = v"
  by (auto simp: pack_u_Inr be_nat_be_bytes nat_less_power)

lemma pack_u_inj: "pack_u k v = Inr bs \<Longrightarrow> pack_u k w = Inr bs \<Longrightarrow> v = w"
  using be_nat_pack_u by metis

lemma unpack_s_pack_s:
  assumes "pack_s k v = Inr bs" and "0 < k"
  shows "unpack_s k bs = v"
proof -
  let ?M = "256 ^ k :: int"
  have M: "even ?M" "0 < ?M" using assms(2) by auto
  from assms(1) have v: "- (?M div 2) \<le> v" "v < ?M div 2" and bs: "bs = be_bytes k (nat (v mod ?M))"
    by (auto simp: pack_s_Inr)
  have "nat (v mod ?M) < 256 ^ k" using M(2) by (simp add: nat_less_power)
  then have n: "int (be_nat bs) = v mod ?M" by (simp add: bs be_nat_be_bytes)
  show ?thesis
  proof (cases "0 \<le> v")
    case True
    then have "v mod ?M = v" using v M by (intro mod_pos_pos_trivial) linarith+
    then show ?thesis using n v(2) by (simp add: unpack_s_def Let_def)
  next
    case False
    have "v mod ?M = (v + ?M) mod ?M" by simp
    also have "\<dots> = v + ?M" using False v M by (intro mod_pos_pos_trivial) linarith+
    finally have eq: "v mod ?M = v + ?M" .
    have "\<not> v + ?M < ?M div 2" using v(1) M by presburger
    then show ?thesis using n eq by (simp add: unpack_s_def Let_def)
  qed
qed

lemma pack_s_unpack_s:
  assumes "length bs = k" and "0 < k"
  shows "pack_s k (unpack_s k bs) = Inr bs"
proof -
  let ?M = "256 ^ k :: int" and ?n = "int (be_nat bs)"
  have M: "even ?M" "0 < ?M" using assms(2) by auto
  have "?n < int (256 ^ length bs)" using be_nat_lt [of bs] by (simp only: of_nat_less_iff)
  then have n: "0 \<le> ?n" "?n < ?M" using assms(1) by simp_all
  have m: "unpack_s k bs mod ?M = ?n"
  proof (cases "?n < ?M div 2")
    case True
    then show ?thesis using n by (simp add: unpack_s_def)
  next
    case False
    then have "unpack_s k bs mod ?M = (?n - ?M) mod ?M" by (simp add: unpack_s_def Let_def)
    also have "\<dots> = ?n mod ?M" by (metis minus_mod_self2)
    finally show ?thesis using n by simp
  qed
  have u: "unpack_s k bs = (if ?n < ?M div 2 then ?n else ?n - ?M)"
    by (simp add: unpack_s_def Let_def)
  obtain H where H: "?M = 2 * H" using M(1) by (rule evenE)
  have "- (?M div 2) \<le> unpack_s k bs" "unpack_s k bs < ?M div 2"
    using n unfolding u H by (auto split: if_splits)
  then show ?thesis using m be_bytes_be_nat [OF assms(1)] by (simp add: pack_s_def)
qed

subsection \<open>Splitting concatenations at fixed widths\<close>

lemma append_eq_width:
  "length a = length c \<Longrightarrow> a @ b = c @ d \<longleftrightarrow> a = c \<and> b = d"
  by auto

subsection \<open>Hexadecimal text\<close>

definition hexdigit :: "nat \<Rightarrow> char" where
  "hexdigit d = (if d < 10 then char_of (48 + d) else char_of (87 + d))"

definition hexval :: "char \<Rightarrow> nat option" where
  "hexval c = (let n = (of_char c :: nat) in
     if 48 \<le> n \<and> n \<le> 57 then Some (n - 48)
     else if 97 \<le> n \<and> n \<le> 102 then Some (n - 87)
     else if 65 \<le> n \<and> n \<le> 70 then Some (n - 55)
     else None)"

definition hex_byte :: "byte \<Rightarrow> string" where
  "hex_byte b = [hexdigit (unat b div 16), hexdigit (unat b mod 16)]"

definition hex :: "bytes \<Rightarrow> string" where
  "hex bs = concat (map hex_byte bs)"

definition is_space :: "char \<Rightarrow> bool" where
  "is_space c = (let n = (of_char c :: nat) in n = 32 \<or> (9 \<le> n \<and> n \<le> 13))"

text \<open>\<open>bytes.fromhex\<close> skips white space between bytes and raises on anything else.\<close>

fun fromhex_opt :: "string \<Rightarrow> bytes option" where
  "fromhex_opt [] = Some []"
| "fromhex_opt (c # cs) =
     (if is_space c then fromhex_opt cs
      else case cs of
        [] \<Rightarrow> None
      | d # ds \<Rightarrow>
          (case (hexval c, hexval d) of
             (Some h, Some l) \<Rightarrow> map_option ((#) (of_nat (16 * h + l))) (fromhex_opt ds)
           | _ \<Rightarrow> None))"

definition fromhex :: "string \<Rightarrow> bytes res" where
  "fromhex s = (case fromhex_opt s of
     None \<Rightarrow> Inl (ValueError ''non-hexadecimal number found in fromhex() arg'')
   | Some bs \<Rightarrow> Inr bs)"

lemma of_char_hexdigit:
  assumes "d < 16"
  shows "of_char (hexdigit d) = (if d < 10 then 48 + d else 87 + d :: nat)"
proof -
  have "(48 + d) mod 256 = 48 + d" "(87 + d) mod 256 = 87 + d"
    using assms by (intro mod_less, linarith)+
  then show ?thesis by (simp only: hexdigit_def of_char_of if_distrib [of of_char])
qed

lemma hexval_hexdigit: "d < 16 \<Longrightarrow> hexval (hexdigit d) = Some d"
  unfolding hexval_def Let_def by (simp add: of_char_hexdigit)

lemma hexdigit_not_space: "d < 16 \<Longrightarrow> \<not> is_space (hexdigit d)"
  unfolding is_space_def Let_def by (simp add: of_char_hexdigit)

lemma fromhex_opt_hex: "fromhex_opt (hex bs @ s) = map_option ((@) bs) (fromhex_opt s)"
proof (induction bs)
  case Nil
  then show ?case by (simp add: hex_def option.map_ident)
next
  case (Cons b bs)
  have d: "unat b div 16 < 16" using unat_byte_lt [of b] by simp
  have m: "16 * (unat b div 16) + unat b mod 16 = unat b" by simp
  have eq: "hex (b # bs) @ s = hexdigit (unat b div 16) # hexdigit (unat b mod 16) # hex bs @ s"
    by (simp add: hex_def hex_byte_def)
  show ?case
    unfolding eq using Cons.IH m
    by (simp add: hexval_hexdigit hexdigit_not_space d option.map_comp comp_def)
qed

lemma fromhex_hex [simp]: "fromhex (hex bs) = Inr bs"
  using fromhex_opt_hex [of bs "[]"] by (simp add: fromhex_def)

lemma hex_inj: "hex a = hex b \<longleftrightarrow> a = b"
  by (metis fromhex_hex sum.inject(2))

lemma length_hex [simp]: "length (hex bs) = 2 * length bs"
  by (induction bs) (auto simp: hex_def hex_byte_def)

lemma hex_Nil_iff [simp]: "hex bs = [] \<longleftrightarrow> bs = []"
  by (metis length_0_conv length_hex mult_eq_0_iff zero_neq_numeral)

text \<open>Hex text has only lower-case hex digits.\<close>

lemma hex_chars:
  assumes "c \<in> set (hex bs)"
  shows "\<exists>d < 16. c = hexdigit d"
proof -
  have "\<exists>b :: byte. c = hexdigit (unat b div 16) \<or> c = hexdigit (unat b mod 16)"
    using assms unfolding hex_def hex_byte_def by fastforce
  then obtain b :: byte where "c = hexdigit (unat b div 16) \<or> c = hexdigit (unat b mod 16)" ..
  moreover have "unat b div 16 < 16" using unat_byte_lt [of b] by linarith
  moreover have "unat b mod 16 < 16" by simp
  ultimately show ?thesis by blast
qed

subsection \<open>Encoding of strings\<close>

text \<open>\<open>s.encode()\<close>: a string is its UTF-8 bytes already.\<close>

definition encode :: "string \<Rightarrow> bytes" where
  "encode s = map (\<lambda>c. of_nat (of_char c)) s"

lemma length_encode [simp]: "length (encode s) = length s"
  by (simp add: encode_def)

lemma encode_inj: "encode s = encode t \<longleftrightarrow> s = t"
proof -
  have "inj (\<lambda>c :: char. of_nat (of_char c) :: byte)"
  proof (rule injI)
    fix c d :: char
    assume "(of_nat (of_char c) :: byte) = of_nat (of_char d)"
    then have "unat (of_nat (of_char c) :: byte) = unat (of_nat (of_char d) :: byte)" by simp
    then have "(of_char c :: nat) mod 256 = of_char d mod 256" by (simp only: unat_of_nat_byte)
    then show "c = d" by simp
  qed
  then show ?thesis unfolding encode_def by (simp add: inj_map_eq_map)
qed

end
