(* ===== verification/Sha256.thy ===== *)
theory Sha256
  imports Bytes
begin

unbundle bit_operations_syntax

section \<open>SHA-256\<close>

text \<open>
  The hash behind every chain of the program is the standard library's \<open>hashlib.sha256\<close>. It is
  defined here as FIPS 180-4 has it, so that no property rests on an assumed hash function: what
  is used of it is that a digest has 32 bytes. Where a property would need that no two inputs
  collide, its statement says instead that a collision is exhibited (\<open>sha256_collision\<close>).
\<close>

type_synonym u32 = "32 word"
type_synonym sha_state = "u32 \<times> u32 \<times> u32 \<times> u32 \<times> u32 \<times> u32 \<times> u32 \<times> u32"

definition sha256_round_constants :: "u32 list" where
  "sha256_round_constants =
    [1116352408, 1899447441, 3049323471, 3921009573, 961987163, 1508970993,
     2453635748, 2870763221, 3624381080, 310598401, 607225278, 1426881987,
     1925078388, 2162078206, 2614888103, 3248222580, 3835390401, 4022224774,
     264347078, 604807628, 770255983, 1249150122, 1555081692, 1996064986,
     2554220882, 2821834349, 2952996808, 3210313671, 3336571891, 3584528711,
     113926993, 338241895, 666307205, 773529912, 1294757372, 1396182291,
     1695183700, 1986661051, 2177026350, 2456956037, 2730485921, 2820302411,
     3259730800, 3345764771, 3516065817, 3600352804, 4094571909, 275423344,
     430227734, 506948616, 659060556, 883997877, 958139571, 1322822218,
     1537002063, 1747873779, 1955562222, 2024104815, 2227730452, 2361852424,
     2428436474, 2756734187, 3204031479, 3329325298]"

definition sha256_initial :: sha_state where
  "sha256_initial =
    (1779033703, 3144134277, 1013904242, 2773480762, 1359893119, 2600822924, 528734635, 1541459225)"

text \<open>Rotation to the right of a 32-bit word.\<close>

definition rotr32 :: "nat \<Rightarrow> u32 \<Rightarrow> u32" where
  "rotr32 n x = drop_bit n x OR push_bit (32 - n) x"

definition small_sigma0 :: "u32 \<Rightarrow> u32" where
  "small_sigma0 x = rotr32 7 x XOR rotr32 18 x XOR drop_bit 3 x"

definition small_sigma1 :: "u32 \<Rightarrow> u32" where
  "small_sigma1 x = rotr32 17 x XOR rotr32 19 x XOR drop_bit 10 x"

definition big_sigma0 :: "u32 \<Rightarrow> u32" where
  "big_sigma0 x = rotr32 2 x XOR rotr32 13 x XOR rotr32 22 x"

definition big_sigma1 :: "u32 \<Rightarrow> u32" where
  "big_sigma1 x = rotr32 6 x XOR rotr32 11 x XOR rotr32 25 x"

definition choose_bits :: "u32 \<Rightarrow> u32 \<Rightarrow> u32 \<Rightarrow> u32" where
  "choose_bits x y z = (x AND y) XOR (NOT x AND z)"

definition majority_bits :: "u32 \<Rightarrow> u32 \<Rightarrow> u32 \<Rightarrow> u32" where
  "majority_bits x y z = (x AND y) XOR (x AND z) XOR (y AND z)"

text \<open>The message schedule: 16 words of the block, then 48 derived from the ones before.\<close>

primrec extend_schedule :: "nat \<Rightarrow> u32 list \<Rightarrow> u32 list" where
  "extend_schedule 0 ws = ws"
| "extend_schedule (Suc k) ws =
     (let n = length ws in
      extend_schedule k
        (ws @ [small_sigma1 (ws ! (n - 2)) + ws ! (n - 7)
               + small_sigma0 (ws ! (n - 15)) + ws ! (n - 16)]))"

fun sha256_round :: "sha_state \<Rightarrow> u32 \<times> u32 \<Rightarrow> sha_state" where
  "sha256_round (a, b, c, d, e, f, g, h) (k, w) =
     (let t1 = h + big_sigma1 e + choose_bits e f g + k + w;
          t2 = big_sigma0 a + majority_bits a b c
      in (t1 + t2, a, b, c, d + t1, e, f, g))"

fun add_state :: "sha_state \<Rightarrow> sha_state \<Rightarrow> sha_state" where
  "add_state (a, b, c, d, e, f, g, h) (a', b', c', d', e', f', g', h') =
     (a + a', b + b', c + c', d + d', e + e', f + f', g + g', h + h')"

text \<open>Cutting a list into pieces of \<open>k\<close> elements.\<close>

function pieces :: "nat \<Rightarrow> 'a list \<Rightarrow> 'a list list" where
  "pieces k xs = (if k = 0 \<or> xs = [] then [] else take k xs # pieces k (drop k xs))"
  by pat_completeness auto
termination
  by (relation "measure (\<lambda>(k, xs). length xs)") auto

declare pieces.simps [simp del]

definition block_words :: "bytes \<Rightarrow> u32 list" where
  "block_words b = map (\<lambda>p. of_nat (be_nat p)) (pieces 4 b)"

definition sha256_block :: "sha_state \<Rightarrow> bytes \<Rightarrow> sha_state" where
  "sha256_block s b =
     add_state s
       (foldl sha256_round s (zip sha256_round_constants (extend_schedule 48 (block_words b))))"

definition sha256_pad :: "bytes \<Rightarrow> bytes" where
  "sha256_pad m =
     m @ [128] @ replicate ((119 - length m mod 64) mod 64) 0 @ be_bytes 8 (8 * length m)"

fun state_words :: "sha_state \<Rightarrow> u32 list" where
  "state_words (a, b, c, d, e, f, g, h) = [a, b, c, d, e, f, g, h]"

definition sha256 :: "bytes \<Rightarrow> bytes" where
  "sha256 m =
     concat (map (\<lambda>w. be_bytes 4 (unat w))
       (state_words (foldl sha256_block sha256_initial (pieces 64 (sha256_pad m)))))"

definition sha256_collision :: "bytes \<Rightarrow> bytes \<Rightarrow> bool" where
  "sha256_collision x y \<longleftrightarrow> x \<noteq> y \<and> sha256 x = sha256 y"

lemma length_sha256 [simp]: "length (sha256 m) = 32"
proof -
  obtain a b c d e f g h where
    "foldl sha256_block sha256_initial (pieces 64 (sha256_pad m)) = (a, b, c, d, e, f, g, h)"
    using prod.exhaust by metis
  then show ?thesis by (simp add: sha256_def)
qed

lemma sha256_eq_cases: "sha256 x = sha256 y \<Longrightarrow> x = y \<or> sha256_collision x y"
  by (auto simp: sha256_collision_def)

lemma sha256_collision_sym: "sha256_collision x y \<Longrightarrow> sha256_collision y x"
  by (auto simp: sha256_collision_def)

text \<open>The padded message is a whole number of 64-byte blocks.\<close>

lemma sha256_pad_blocks: "length (sha256_pad m) mod 64 = 0"
proof -
  define q r where "q = length m div 64" and "r = length m mod 64"
  have m: "length m = 64 * q + r" "r < 64" by (simp_all add: q_def r_def)
  have z: "(119 - r) mod 64 = (if r \<le> 55 then 55 - r else 119 - r)"
  proof (cases "r \<le> 55")
    case True
    then have "119 - r = 64 + (55 - r)" by simp
    then have "(119 - r) mod 64 = (55 - r) mod 64" by (simp only: mod_add_self1)
    then show ?thesis using True by simp
  qed (use m(2) in simp)
  have "length (sha256_pad m) = length m + 1 + (119 - r) mod 64 + 8"
    by (simp add: sha256_pad_def r_def)
  also have "\<dots> = 64 * (q + (if r \<le> 55 then 1 else 2))"
    using m z by (simp split: if_splits)
  finally show ?thesis by (simp only: mod_mult_self1_is_0)
qed

end
