(* ===== verification/Codec.thy ===== *)
theory Codec
  imports Sha256
begin

section \<open>The PoAC record and its wire format\<close>

text \<open>
  \<open>bridge/vapi_bridge/codec.py\<close>: the 228-byte record a device sends, its parser, the check of
  its signature and the check of a chain link. Latitude and longitude travel as IEEE doubles; the
  model keeps their 64-bit patterns, because the codec only moves them. The elliptic-curve
  library and Keccak are not part of the repository: they are arguments of \<open>verify_signature\<close>
  and \<open>compute_device_id\<close>.
\<close>

type_synonym f64 = "64 word"

abbreviation POAC_HASH_SIZE :: nat where "POAC_HASH_SIZE \<equiv> 32"
abbreviation POAC_SIG_SIZE :: nat where "POAC_SIG_SIZE \<equiv> 64"
abbreviation POAC_BODY_SIZE :: nat where "POAC_BODY_SIZE \<equiv> 164"
abbreviation POAC_RECORD_SIZE :: nat where "POAC_RECORD_SIZE \<equiv> 228"

text \<open>The fields on the wire.\<close>

record poac_wire =
  prev_poac_hash :: bytes
  sensor_commitment :: bytes
  model_manifest_hash :: bytes
  world_model_hash :: bytes
  inference_result :: int
  action_code :: int
  confidence :: int
  battery_pct :: int
  monotonic_ctr :: int
  timestamp_ms :: int
  latitude :: f64
  longitude :: f64
  bounty_id :: int
  signature :: bytes

text \<open>The side-car fields the physical-input pipeline fills in, all optional.\<close>

record pitl_fields =
  pitl_l4_distance :: "f64 option"
  pitl_l4_warmed_up :: "bool option"
  pitl_l4_features_json :: "string option"
  pitl_l5_cv :: "f64 option"
  pitl_l5_entropy_bits :: "f64 option"
  pitl_l5_quant_score :: "f64 option"
  pitl_l5_anomaly_signals :: "int option"
  pitl_l5_rhythm_humanity :: "f64 option"
  pitl_l4_drift_velocity :: "f64 option"
  pitl_e4_cognitive_drift :: "f64 option"
  pitl_humanity_prob :: "f64 option"

definition no_pitl :: pitl_fields where
  "no_pitl = \<lparr>pitl_l4_distance = None, pitl_l4_warmed_up = None, pitl_l4_features_json = None,
     pitl_l5_cv = None, pitl_l5_entropy_bits = None, pitl_l5_quant_score = None,
     pitl_l5_anomaly_signals = None, pitl_l5_rhythm_humanity = None,
     pitl_l4_drift_velocity = None, pitl_e4_cognitive_drift = None, pitl_humanity_prob = None\<rparr>"

record poac_record = poac_wire +
  record_hash :: bytes
  device_id :: bytes
  raw_body :: bytes
  schema_version :: int
  pitl :: pitl_fields

definition record_hash_hex :: "poac_record \<Rightarrow> string" where
  "record_hash_hex r = hex (record_hash r)"

definition device_id_hex :: "poac_record \<Rightarrow> string" where
  "device_id_hex r = hex (device_id r)"

subsection \<open>Names of the codes\<close>

definition ACTION_NAMES :: "(int, string) dict" where
  "ACTION_NAMES =
     [(0, ''NONE''), (1, ''REPORT''), (2, ''ALERT''), (3, ''BOUNTY_ACCEPT''),
      (4, ''BOUNTY_DECLINE''), (5, ''BOUNTY_CLAIM''), (6, ''PSM_ENTER''), (7, ''PSM_EXIT''),
      (8, ''MODEL_UPDATE''), (9, ''BOOT''), (10, ''SWARM_SYNC'')]"

definition INFERENCE_NAMES :: "(int, string) dict" where
  "INFERENCE_NAMES =
     [(0, ''NOMINAL''), (1, ''ANOMALY_LOW''), (2, ''ANOMALY_HIGH''), (16, ''STATIONARY''),
      (17, ''WALKING''), (18, ''VEHICLE''), (19, ''FALL'')]"

text \<open>The format \<open>0x{c:02x}\<close> of a code that fits a byte, as every parsed code does.\<close>

definition hex_code :: "int \<Rightarrow> string" where
  "hex_code c = ''0x'' @ hex (be_bytes 1 (nat c))"

definition action_name :: "poac_record \<Rightarrow> string" where
  "action_name r = dget_or ACTION_NAMES (action_code r) (hex_code (action_code r))"

definition inference_name :: "poac_record \<Rightarrow> string" where
  "inference_name r = dget_or INFERENCE_NAMES (inference_result r) (hex_code (inference_result r))"

subsection \<open>Parsing\<close>

definition slice :: "nat \<Rightarrow> nat \<Rightarrow> 'a list \<Rightarrow> 'a list" where
  "slice off n xs = take n (drop off xs)"

definition parse_record :: "bytes \<Rightarrow> poac_record res" where
  "parse_record data =
     (if length data \<noteq> POAC_RECORD_SIZE
      then Inl (ValueError (''Invalid record size: '' @ dec_nat (length data)
             @ '' bytes (expected 228)''))
      else
        (let body = take POAC_BODY_SIZE data in
         Inr \<lparr>prev_poac_hash = slice 0 POAC_HASH_SIZE data,
              sensor_commitment = slice 32 POAC_HASH_SIZE data,
              model_manifest_hash = slice 64 POAC_HASH_SIZE data,
              world_model_hash = slice 96 POAC_HASH_SIZE data,
              inference_result = int (be_nat (slice 128 1 data)),
              action_code = int (be_nat (slice 129 1 data)),
              confidence = int (be_nat (slice 130 1 data)),
              battery_pct = int (be_nat (slice 131 1 data)),
              monotonic_ctr = int (be_nat (slice 132 4 data)),
              timestamp_ms = unpack_s 8 (slice 136 8 data),
              latitude = of_nat (be_nat (slice 144 8 data)),
              longitude = of_nat (be_nat (slice 152 8 data)),
              bounty_id = int (be_nat (slice 160 4 data)),
              signature = slice 164 POAC_SIG_SIZE data,
              record_hash = sha256 body,
              device_id = [],
              raw_body = body,
              schema_version = 0,
              pitl = no_pitl\<rparr>))"

subsection \<open>Signature, device identity, chain link\<close>

text \<open>
  \<open>load_key\<close> is the library's decoding of a SEC1 point (it raises on a point off the curve),
  \<open>encode_dss\<close> its DER encoding of a signature pair, \<open>ec_verify\<close> its verification, which
  raises \<open>InvalidSignature\<close> when the signature does not match.
\<close>

definition verify_signature ::
  "(bytes \<Rightarrow> 'key res) \<Rightarrow> (nat \<Rightarrow> nat \<Rightarrow> bytes) \<Rightarrow> ('key \<Rightarrow> bytes \<Rightarrow> bytes \<Rightarrow> unit res)
   \<Rightarrow> poac_record \<Rightarrow> bytes \<Rightarrow> bool res" where
  "verify_signature load_key encode_dss ec_verify r pubkey_bytes =
     (if length pubkey_bytes \<noteq> 65 \<or> pubkey_bytes ! 0 \<noteq> 4
      then Inl (ValueError (''Invalid public key format (len='' @ dec_nat (length pubkey_bytes)
             @ '')''))
      else bindE (load_key pubkey_bytes) (\<lambda>pubkey.
        let rr = be_nat (take 32 (signature r));
            ss = be_nat (drop 32 (signature r))
        in case ec_verify pubkey (encode_dss rr ss) (raw_body r) of
             Inr () \<Rightarrow> Inr True
           | Inl e \<Rightarrow> (if exc_class e = ''InvalidSignature'' then Inr False else Inl e)))"

definition compute_device_id :: "(bytes \<Rightarrow> bytes) \<Rightarrow> bytes \<Rightarrow> bytes" where
  "compute_device_id keccak pubkey_bytes = keccak pubkey_bytes"

definition verify_chain_link :: "poac_record \<Rightarrow> poac_record \<Rightarrow> bool" where
  "verify_chain_link prev_record r = (prev_poac_hash r = sha256 (raw_body prev_record))"

subsection \<open>Serialisation, as the device side does it\<close>

text \<open>
  \<open>controller/dualshock_emulator.py\<close>, class \<open>PoACRecord\<close>: \<open>serialize_body\<close> and
  \<open>serialize_full\<close>. \<open>struct.pack\<close> raises when a field does not fit its width.
\<close>

definition pack_fields :: "'a poac_wire_scheme \<Rightarrow> bytes res" where
  "pack_fields r =
     bindE (pack_u 1 (inference_result r)) (\<lambda>f1.
     bindE (pack_u 1 (action_code r)) (\<lambda>f2.
     bindE (pack_u 1 (confidence r)) (\<lambda>f3.
     bindE (pack_u 1 (battery_pct r)) (\<lambda>f4.
     bindE (pack_u 4 (monotonic_ctr r)) (\<lambda>f5.
     bindE (pack_s 8 (timestamp_ms r)) (\<lambda>f6.
     bindE (pack_u 4 (bounty_id r)) (\<lambda>f9.
       Inr (f1 @ f2 @ f3 @ f4 @ f5 @ f6 @ be_bytes 8 (unat (latitude r))
            @ be_bytes 8 (unat (longitude r)) @ f9))))))))"

definition serialize_body :: "'a poac_wire_scheme \<Rightarrow> bytes res" where
  "serialize_body r =
     bindE (pack_fields r) (\<lambda>fs.
       Inr (prev_poac_hash r @ sensor_commitment r @ model_manifest_hash r @ world_model_hash r
            @ fs))"

definition serialize_full :: "'a poac_wire_scheme \<Rightarrow> bytes res" where
  "serialize_full r = bindE (serialize_body r) (\<lambda>b. Inr (b @ signature r))"

text \<open>A record whose byte fields have the widths of the format.\<close>

definition wire_widths :: "'a poac_wire_scheme \<Rightarrow> bool" where
  "wire_widths r \<longleftrightarrow>
     length (prev_poac_hash r) = 32 \<and> length (sensor_commitment r) = 32 \<and>
     length (model_manifest_hash r) = 32 \<and> length (world_model_hash r) = 32 \<and>
     length (signature r) = 64"

subsection \<open>Lemmas\<close>

lemma length_slice: "off + n \<le> length xs \<Longrightarrow> length (slice off n xs) = n"
  by (simp add: slice_def)

lemma slice_append2:
  "length a = off \<Longrightarrow> length b = n \<Longrightarrow> slice off n (a @ b @ c) = b"
  by (simp add: slice_def)

lemma length_pack_fields: "pack_fields r = Inr fs \<Longrightarrow> length fs = 36"
  by (auto simp: pack_fields_def bindE_Inr dest!: pack_u_length pack_s_length)

lemma length_serialize_body:
  "serialize_body r = Inr b \<Longrightarrow> wire_widths r \<Longrightarrow> length b = POAC_BODY_SIZE"
  by (auto simp: serialize_body_def bindE_Inr wire_widths_def dest!: length_pack_fields)

lemma parse_record_raises: "length data \<noteq> POAC_RECORD_SIZE \<Longrightarrow> raised (parse_record data)"
  by (simp add: parse_record_def)

lemma parse_record_Inr:
  "parse_record data = Inr r \<Longrightarrow>
     length data = POAC_RECORD_SIZE \<and> raw_body r = take POAC_BODY_SIZE data
     \<and> record_hash r = sha256 (raw_body r) \<and> device_id r = [] \<and> schema_version r = 0"
  by (auto simp: parse_record_def Let_def split: if_splits)

lemma f64_roundtrip: "of_nat (be_nat (be_bytes 8 (unat x))) = (x :: f64)"
proof -
  have "unat x < 256 ^ 8" using unsigned_less [of x] by simp
  then show ?thesis by (simp add: be_nat_be_bytes)
qed

lemma f64_roundtrip': "length bs = 8 \<Longrightarrow> be_bytes 8 (unat (of_nat (be_nat bs) :: f64)) = bs"
proof -
  assume l: "length bs = 8"
  have "be_nat bs < 2 ^ 64" using be_nat_lt [of bs] l by simp
  then have "unat (of_nat (be_nat bs) :: f64) = be_nat bs" by (simp add: unat_of_nat)
  then show ?thesis using be_bytes_be_nat [OF l] by simp
qed

lemma serialize_full_parts:
  assumes "serialize_full r = Inr data"
  obtains f1 f2 f3 f4 f5 f6 f9 where
    "pack_u 1 (inference_result r) = Inr f1" "pack_u 1 (action_code r) = Inr f2"
    "pack_u 1 (confidence r) = Inr f3" "pack_u 1 (battery_pct r) = Inr f4"
    "pack_u 4 (monotonic_ctr r) = Inr f5" "pack_s 8 (timestamp_ms r) = Inr f6"
    "pack_u 4 (bounty_id r) = Inr f9"
    "data = prev_poac_hash r @ sensor_commitment r @ model_manifest_hash r @ world_model_hash r
       @ f1 @ f2 @ f3 @ f4 @ f5 @ f6 @ be_bytes 8 (unat (latitude r))
       @ be_bytes 8 (unat (longitude r)) @ f9 @ signature r"
  using assms
  by (auto simp: serialize_full_def serialize_body_def pack_fields_def bindE_Inr)

lemma parse_of_parts:
  assumes "length h1 = 32" "length h2 = 32" "length h3 = 32" "length h4 = 32"
    and "length f1 = 1" "length f2 = 1" "length f3 = 1" "length f4 = 1" "length f5 = 4"
    and "length f6 = 8" "length f7 = 8" "length f8 = 8" "length f9 = 4" "length sig = 64"
  shows "parse_record (h1 @ h2 @ h3 @ h4 @ f1 @ f2 @ f3 @ f4 @ f5 @ f6 @ f7 @ f8 @ f9 @ sig) =
    (let body = h1 @ h2 @ h3 @ h4 @ f1 @ f2 @ f3 @ f4 @ f5 @ f6 @ f7 @ f8 @ f9 in
     Inr \<lparr>prev_poac_hash = h1, sensor_commitment = h2, model_manifest_hash = h3,
          world_model_hash = h4, inference_result = int (be_nat f1),
          action_code = int (be_nat f2), confidence = int (be_nat f3),
          battery_pct = int (be_nat f4), monotonic_ctr = int (be_nat f5),
          timestamp_ms = unpack_s 8 f6, latitude = of_nat (be_nat f7),
          longitude = of_nat (be_nat f8), bounty_id = int (be_nat f9), signature = sig,
          record_hash = sha256 body, device_id = [], raw_body = body, schema_version = 0,
          pitl = no_pitl\<rparr>)"
  using assms by (simp add: parse_record_def slice_def Let_def)

text \<open>The parser inverts the device's serialiser on every wire field.\<close>

lemma parse_serialize_full:
  assumes ser: "serialize_full r = Inr data" and w: "wire_widths r"
  shows "\<exists>p. parse_record data = Inr p \<and> poac_wire.truncate p = poac_wire.truncate r
             \<and> serialize_body r = Inr (raw_body p)"
proof -
  from ser obtain f1 f2 f3 f4 f5 f6 f9 where f:
    "pack_u 1 (inference_result r) = Inr f1" "pack_u 1 (action_code r) = Inr f2"
    "pack_u 1 (confidence r) = Inr f3" "pack_u 1 (battery_pct r) = Inr f4"
    "pack_u 4 (monotonic_ctr r) = Inr f5" "pack_s 8 (timestamp_ms r) = Inr f6"
    "pack_u 4 (bounty_id r) = Inr f9"
    and data: "data = prev_poac_hash r @ sensor_commitment r @ model_manifest_hash r
       @ world_model_hash r @ f1 @ f2 @ f3 @ f4 @ f5 @ f6 @ be_bytes 8 (unat (latitude r))
       @ be_bytes 8 (unat (longitude r)) @ f9 @ signature r"
    by (rule serialize_full_parts)
  note len = f(1-5,7) [THEN pack_u_length] pack_s_length [OF f(6)]
  have b: "serialize_body r = Inr (prev_poac_hash r @ sensor_commitment r @ model_manifest_hash r
       @ world_model_hash r @ f1 @ f2 @ f3 @ f4 @ f5 @ f6 @ be_bytes 8 (unat (latitude r))
       @ be_bytes 8 (unat (longitude r)) @ f9)"
    using f by (simp add: serialize_body_def pack_fields_def)
  show ?thesis
    unfolding data
    using w len b
    by (subst parse_of_parts)
      (simp_all add: wire_widths_def Let_def f64_roundtrip unpack_s_pack_s [OF f(6)] poac_wire.truncate_def
        f(1-5,7) [THEN be_nat_pack_u])
qed

text \<open>Every record the parser accepts serialises back to the bytes it came from.\<close>

lemma split_widths:
  "length xs = sum_list ns \<Longrightarrow> \<exists>ps. xs = concat ps \<and> map length ps = ns"
proof (induction ns arbitrary: xs)
  case Nil
  then show ?case by simp
next
  case (Cons n ns)
  then have "length (drop n xs) = sum_list ns" by simp
  with Cons.IH obtain ps where ps: "drop n xs = concat ps" "map length ps = ns" by blast
  have "concat (take n xs # ps) = take n xs @ drop n xs" by (simp only: concat.simps ps(1))
  moreover have "map length (take n xs # ps) = n # ns" using Cons.prems ps(2) by simp
  ultimately have "xs = concat (take n xs # ps) \<and> map length (take n xs # ps) = n # ns"
    by (simp only: append_take_drop_id)
  then show ?case by (rule exI)
qed

lemma pack_u_be_nat: "length bs = k \<Longrightarrow> pack_u k (int (be_nat bs)) = Inr bs"
proof -
  assume k: "length bs = k"
  have "int (be_nat bs) < int (256 ^ k)" using be_nat_lt [of bs] k by (simp only: of_nat_less_iff)
  then show ?thesis using k by (simp add: pack_u_def be_bytes_be_nat)
qed

lemma serialize_parse:
  assumes "parse_record data = Inr p"
  shows "serialize_full p = Inr data \<and> wire_widths p"
proof -
  have "length data = sum_list [32, 32, 32, 32, 1, 1, 1, 1, 4, 8, 8, 8, 4, 64]"
    using parse_record_Inr [OF assms] by simp
  from split_widths [OF this] obtain ps where ps: "data = concat ps"
    "map length ps = [32, 32, 32, 32, 1, 1, 1, 1, 4, 8, 8, 8, 4, 64]"
    by (elim exE conjE)
  from ps(2) obtain h1 h2 h3 h4 f1 f2 f3 f4 f5 f6 f7 f8 f9 sg
    where q: "ps = [h1, h2, h3, h4, f1, f2, f3, f4, f5, f6, f7, f8, f9, sg]"
    by (auto simp: map_eq_Cons_conv)
  from ps(2) have len: "length h1 = 32" "length h2 = 32" "length h3 = 32" "length h4 = 32"
    "length f1 = 1" "length f2 = 1" "length f3 = 1" "length f4 = 1" "length f5 = 4"
    "length f6 = 8" "length f7 = 8" "length f8 = 8" "length f9 = 4" "length sg = 64"
    by (simp_all add: q)
  have data: "data = h1 @ h2 @ h3 @ h4 @ f1 @ f2 @ f3 @ f4 @ f5 @ f6 @ f7 @ f8 @ f9 @ sg"
    using ps(1) by (simp add: q)
  have "p = (let body = h1 @ h2 @ h3 @ h4 @ f1 @ f2 @ f3 @ f4 @ f5 @ f6 @ f7 @ f8 @ f9 in
     \<lparr>prev_poac_hash = h1, sensor_commitment = h2, model_manifest_hash = h3,
      world_model_hash = h4, inference_result = int (be_nat f1), action_code = int (be_nat f2),
      confidence = int (be_nat f3), battery_pct = int (be_nat f4),
      monotonic_ctr = int (be_nat f5), timestamp_ms = unpack_s 8 f6,
      latitude = of_nat (be_nat f7), longitude = of_nat (be_nat f8),
      bounty_id = int (be_nat f9), signature = sg, record_hash = sha256 body, device_id = [],
      raw_body = body, schema_version = 0, pitl = no_pitl\<rparr>)"
    using assms unfolding data by (subst (asm) parse_of_parts [OF len]) (simp add: Let_def)
  then show ?thesis
    using len
    by (simp add: data Let_def serialize_full_def serialize_body_def pack_fields_def
        pack_u_be_nat pack_s_unpack_s f64_roundtrip' wire_widths_def)
qed

end
