(* ===== verification/Engine.thy ===== *)
theory Engine
  imports Codec
begin

section \<open>The record generator of the device\<close>

text \<open>
  \<open>controller/dualshock_emulator.py\<close>, class \<open>PoACEngine\<close>: the monotonic counter, the chain
  head and the signing key of a device, and \<open>generate\<close>, which produces the next record. Key
  generation and signing belong to the cryptography library and are arguments. \<open>generate\<close>
  returns the engine as it is left, also when it raises: the counter is advanced before anything
  can fail, the chain head only at the end.
\<close>

record 'k engine =
  eng_counter :: int
  eng_chain_head :: bytes
  eng_private_key :: "'k option"
  eng_public_key :: bytes
  eng_model_hash :: bytes

text \<open>\<open>__init__\<close>, with the generated key pair when the library is installed.\<close>

definition engine_init :: "('k \<times> bytes) option \<Rightarrow> 'k engine" where
  "engine_init keypair =
     (case keypair of
        Some (k, pub) \<Rightarrow>
          \<lparr>eng_counter = 0, eng_chain_head = replicate 32 0, eng_private_key = Some k,
           eng_public_key = pub, eng_model_hash = sha256 [0, 1, 0, 0, 1, 0, 150, 2, 0]\<rparr>
      | None \<Rightarrow>
          \<lparr>eng_counter = 0, eng_chain_head = replicate 32 0, eng_private_key = None,
           eng_public_key = replicate 65 0,
           eng_model_hash = sha256 (encode ''heuristic_fallback_v0'')\<rparr>)"

record gen_args =
  ga_sensor_hash :: bytes
  ga_wm_hash :: bytes
  ga_inference :: int
  ga_action :: int
  ga_confidence :: int
  ga_battery_pct :: int
  ga_bounty_id :: int
  ga_now_ms :: int

definition overflow_error :: py_exc where
  "overflow_error = PyExc ''OverflowError'' ''int too big to convert''"

text \<open>\<open>r.to_bytes(32, 'big') + s.to_bytes(32, 'big')\<close>\<close>

definition raw_signature :: "nat \<times> nat \<Rightarrow> bytes res" where
  "raw_signature rs =
     (if fst rs < 256 ^ 32 \<and> snd rs < 256 ^ 32
      then Inr (be_bytes 32 (fst rs) @ be_bytes 32 (snd rs)) else Inl overflow_error)"

definition unsigned_record :: "'k engine \<Rightarrow> gen_args \<Rightarrow> poac_wire" where
  "unsigned_record e a =
     \<lparr>prev_poac_hash = eng_chain_head e, sensor_commitment = ga_sensor_hash a,
      model_manifest_hash = eng_model_hash e, world_model_hash = ga_wm_hash a,
      inference_result = ga_inference a, action_code = ga_action a,
      confidence = ga_confidence a, battery_pct = ga_battery_pct a,
      monotonic_ctr = eng_counter e, timestamp_ms = ga_now_ms a, latitude = 0, longitude = 0,
      bounty_id = ga_bounty_id a, signature = replicate 64 0\<rparr>"

definition assertE :: "bool \<Rightarrow> string \<Rightarrow> unit res" where
  "assertE b m = guardE b (PyExc ''AssertionError'' m)"

definition sign_record ::
  "('k \<Rightarrow> bytes \<Rightarrow> (nat \<times> nat) res) \<Rightarrow> 'k engine \<Rightarrow> bytes \<Rightarrow> bytes res" where
  "sign_record sign e body =
     (case eng_private_key e of
        None \<Rightarrow> Inr (replicate 64 0)
      | Some k \<Rightarrow> bindE (sign k body) raw_signature)"

definition generate ::
  "('k \<Rightarrow> bytes \<Rightarrow> (nat \<times> nat) res) \<Rightarrow> 'k engine \<Rightarrow> gen_args \<Rightarrow> 'k engine \<times> poac_wire res" where
  "generate sign e a =
     (let e1 = e\<lparr>eng_counter := eng_counter e + 1\<rparr>;
          r = unsigned_record e1 a;
          out = bindE (serialize_body r) (\<lambda>body.
                bindE (assertE (length body = POAC_BODY_SIZE) ''Body size mismatch'') (\<lambda>_.
                bindE (sign_record sign e1 body) (\<lambda>sig.
                let r' = r\<lparr>signature := sig\<rparr> in
                bindE (serialize_full r') (\<lambda>full.
                bindE (assertE (length full = POAC_RECORD_SIZE) ''Record size mismatch'') (\<lambda>_.
                Inr (r', sha256 body))))))
      in case out of
           Inl err \<Rightarrow> (e1, Inl err)
         | Inr (r', h) \<Rightarrow> (e1\<lparr>eng_chain_head := h\<rparr>, Inr r'))"

text \<open>A device that keeps calling \<open>generate\<close>; the records it emits, in order.\<close>

fun generate_run ::
  "('k \<Rightarrow> bytes \<Rightarrow> (nat \<times> nat) res) \<Rightarrow> 'k engine \<Rightarrow> gen_args list \<Rightarrow> 'k engine \<times> poac_wire list"
where
  "generate_run sign e [] = (e, [])"
| "generate_run sign e (a # as) =
     (case generate sign e a of
        (e', Inl _) \<Rightarrow> generate_run sign e' as
      | (e', Inr r) \<Rightarrow> (let (e'', rs) = generate_run sign e' as in (e'', r # rs)))"

subsection \<open>One call\<close>

lemma serialize_body_signature [simp]:
  "serialize_body (r\<lparr>signature := s\<rparr>) = serialize_body r"
  by (simp add: serialize_body_def pack_fields_def)

lemma unsigned_record_simps [simp]:
  "prev_poac_hash (unsigned_record e a) = eng_chain_head e"
  "monotonic_ctr (unsigned_record e a) = eng_counter e"
  by (simp_all add: unsigned_record_def)

lemma generate_Inl:
  "generate sign e a = (e', Inl err) \<Longrightarrow> e' = e\<lparr>eng_counter := eng_counter e + 1\<rparr>"
  by (auto simp: generate_def Let_def split: sum.splits)

lemma generate_Inr:
  assumes "generate sign e a = (e', Inr r)"
  obtains body where
    "prev_poac_hash r = eng_chain_head e" "monotonic_ctr r = eng_counter e + 1"
    "serialize_body r = Inr body" "length body = POAC_BODY_SIZE" "length (signature r) = 64"
    "e' = e\<lparr>eng_counter := eng_counter e + 1, eng_chain_head := sha256 body\<rparr>"
proof -
  let ?e1 = "e\<lparr>eng_counter := eng_counter e + 1\<rparr>"
  let ?r = "unsigned_record ?e1 a"
  from assms obtain body sig full where *:
    "serialize_body ?r = Inr body" "length body = POAC_BODY_SIZE"
    "serialize_full (?r\<lparr>signature := sig\<rparr>) = Inr full" "length full = POAC_RECORD_SIZE"
    "r = ?r\<lparr>signature := sig\<rparr>" "e' = ?e1\<lparr>eng_chain_head := sha256 body\<rparr>"
    by (auto simp: generate_def Let_def assertE_def bindE_Inr guardE_Inr
        split: sum.splits prod.splits)
  then have "length sig = 64" by (auto simp: serialize_full_def)
  with * show thesis by (intro that [of body]) simp_all
qed

lemma generate_Inr_record:
  "generate sign e a = (e', Inr r) \<Longrightarrow>
     \<exists>sig. r = (unsigned_record (e\<lparr>eng_counter := eng_counter e + 1\<rparr>) a)\<lparr>signature := sig\<rparr>"
  by (auto simp: generate_def Let_def bindE_Inr simp del: serialize_body_signature
      split: sum.splits prod.splits)

lemma generate_run_Inl:
  "generate sign e a = (e', Inl err) \<Longrightarrow> generate_run sign e (a # as) = generate_run sign e' as"
  by simp

lemma generate_run_Inr:
  "generate sign e a = (e', Inr r) \<Longrightarrow>
     snd (generate_run sign e (a # as)) = r # snd (generate_run sign e' as)"
  by (simp add: case_prod_unfold Let_def)

declare generate_run.simps(2) [simp del]

text \<open>The outcome of one step of a run, as a case rule.\<close>

lemma generate_run_step:
  obtains (fail) e' err where "generate sign e a = (e', Inl err)"
      "e' = e\<lparr>eng_counter := eng_counter e + 1\<rparr>"
      "generate_run sign e (a # as) = generate_run sign e' as"
  | (emit) e' r body where "generate sign e a = (e', Inr r)"
      "prev_poac_hash r = eng_chain_head e" "monotonic_ctr r = eng_counter e + 1"
      "serialize_body r = Inr body" "length body = POAC_BODY_SIZE" "length (signature r) = 64"
      "e' = e\<lparr>eng_counter := eng_counter e + 1, eng_chain_head := sha256 body\<rparr>"
      "snd (generate_run sign e (a # as)) = r # snd (generate_run sign e' as)"
proof (cases "generate sign e a")
  case (Pair e' out)
  show thesis
  proof (cases out)
    case (Inl err)
    with Pair have "generate sign e a = (e', Inl err)" by simp
    then show thesis by (intro fail generate_Inl generate_run_Inl)
  next
    case (Inr r)
    with Pair have g: "generate sign e a = (e', Inr r)" by simp
    then obtain body where
      "prev_poac_hash r = eng_chain_head e" "monotonic_ctr r = eng_counter e + 1"
      "serialize_body r = Inr body" "length body = POAC_BODY_SIZE" "length (signature r) = 64"
      "e' = e\<lparr>eng_counter := eng_counter e + 1, eng_chain_head := sha256 body\<rparr>"
      by (rule generate_Inr)
    then show thesis by (rule emit [OF g]) (rule generate_run_Inr [OF g])
  qed
qed

subsection \<open>The chain a run produces\<close>

text \<open>\<open>chained h rs\<close>: the first record names \<open>h\<close>, every other the hash of the body before it.\<close>

fun chained :: "bytes \<Rightarrow> poac_wire list \<Rightarrow> bool" where
  "chained h [] = True"
| "chained h (r # rs) =
     (prev_poac_hash r = h
      \<and> (case serialize_body r of Inl _ \<Rightarrow> False | Inr body \<Rightarrow> chained (sha256 body) rs))"

lemma generate_run_chained: "chained (eng_chain_head e) (snd (generate_run sign e as))"
proof (induction as arbitrary: e)
  case Nil
  then show ?case by simp
next
  case (Cons a as)
  show ?case
  proof (cases rule: generate_run_step [of sign e a as])
    case (fail e' err)
    then show ?thesis using Cons.IH [of e'] by simp
  next
    case (emit e' r body)
    then show ?thesis using Cons.IH [of e'] by simp
  qed
qed

lemma generate_run_counters:
  "sorted_wrt (<) (eng_counter e # map monotonic_ctr (snd (generate_run sign e as)))"
proof (induction as arbitrary: e)
  case Nil
  then show ?case by simp
next
  case (Cons a as)
  show ?case
  proof (cases rule: generate_run_step [of sign e a as])
    case (fail e' err)
    then show ?thesis using Cons.IH [of e'] by auto
  next
    case (emit e' r body)
    then show ?thesis using Cons.IH [of e'] by auto
  qed
qed

lemma generate_run_length: "length (snd (generate_run sign e as)) \<le> length as"
proof (induction as arbitrary: e)
  case Nil
  then show ?case by simp
next
  case (Cons a as)
  show ?case
  proof (cases rule: generate_run_step [of sign e a as])
    case (fail e' err)
    then show ?thesis using Cons.IH [of e'] by simp
  next
    case (emit e' r body)
    then show ?thesis using Cons.IH [of e'] by simp
  qed
qed

text \<open>A run in which no call raised counts without a gap.\<close>

lemma generate_run_no_gap:
  assumes "length (snd (generate_run sign e as)) = length as"
  shows "map monotonic_ctr (snd (generate_run sign e as))
           = map (\<lambda>i. eng_counter e + 1 + int i) [0..<length as]"
  using assms
proof (induction as arbitrary: e)
  case Nil
  then show ?case by simp
next
  case (Cons a as)
  show ?case
  proof (cases rule: generate_run_step [of sign e a as])
    case (fail e' err)
    then show ?thesis using Cons.prems generate_run_length [of sign e' as] by simp
  next
    case (emit e' r body)
    then have "map monotonic_ctr (snd (generate_run sign e' as))
            = map (\<lambda>i. eng_counter e' + 1 + int i) [0..<length as]"
      using Cons.prems by (intro Cons.IH) simp
    moreover have "[0..<Suc (length as)] = 0 # map Suc [0..<length as]"
      by (simp add: map_Suc_upt upt_conv_Cons del: upt_Suc)
    ultimately show ?thesis using emit by (simp del: upt_Suc)
  qed
qed

end
