(* ===== verification/HashChain.thy ===== *)
theory HashChain
  imports Sha256
begin

section \<open>Chains of hashes\<close>

text \<open>
  What the grind chain, the watchdog chain and the record chain have in common: the next head is
  the hash of a preimage built from the head before it and the data of the new link.
  \<open>hash_chain\<close> is the contract of such a preimage: different links, or different heads, never
  give the same bytes. It yields that the head fixes the whole history, unless two preimages that
  the two histories themselves contain collide under SHA-256. (That collisions exist somewhere is
  certain; the conclusion names the position at which one was found.)
\<close>

primrec chain_head :: "(bytes \<Rightarrow> 'p \<Rightarrow> bytes) \<Rightarrow> bytes \<Rightarrow> 'p list \<Rightarrow> bytes" where
  "chain_head pre h [] = h"
| "chain_head pre h (p # ps) = chain_head pre (sha256 (pre h p)) ps"

primrec chain_preimages :: "(bytes \<Rightarrow> 'p \<Rightarrow> bytes) \<Rightarrow> bytes \<Rightarrow> 'p list \<Rightarrow> bytes list" where
  "chain_preimages pre h [] = []"
| "chain_preimages pre h (p # ps) = pre h p # chain_preimages pre (sha256 (pre h p)) ps"

lemma length_chain_preimages [simp]: "length (chain_preimages pre h ps) = length ps"
  by (induction ps arbitrary: h) auto

lemma chain_head_append:
  "chain_head pre h (ps @ qs) = chain_head pre (chain_head pre h ps) qs"
  by (induction ps arbitrary: h) auto

definition collision_between :: "bytes list \<Rightarrow> bytes list \<Rightarrow> bool" where
  "collision_between xs ys \<longleftrightarrow>
     (\<exists>i < min (length xs) (length ys). sha256_collision (xs ! i) (ys ! i))"

lemma collision_between_Cons:
  "collision_between (x # xs) (y # ys) \<longleftrightarrow> sha256_collision x y \<or> collision_between xs ys"
  unfolding collision_between_def by (auto simp: less_Suc_eq_0_disj)

locale hash_chain =
  fixes pre :: "bytes \<Rightarrow> 'p \<Rightarrow> bytes"
    and ok :: "'p \<Rightarrow> bool"
    and view :: "'p \<Rightarrow> 'v"
  assumes pre_inj: "length h = 32 \<Longrightarrow> length h' = 32 \<Longrightarrow> ok p \<Longrightarrow> ok q \<Longrightarrow> pre h p = pre h' q
    \<Longrightarrow> h = h' \<and> view p = view q"
begin

lemma head_fixes_history:
  assumes "length ps = length qs" and "length g = 32" and "length g' = 32"
    and "list_all ok ps" and "list_all ok qs"
    and "chain_head pre g ps = chain_head pre g' qs"
  shows "(g = g' \<and> map view ps = map view qs)
    \<or> collision_between (chain_preimages pre g ps) (chain_preimages pre g' qs)"
  using assms
proof (induction ps qs arbitrary: g g' rule: list_induct2)
  case Nil
  then show ?case by simp
next
  case (Cons p ps q qs)
  have "(sha256 (pre g p) = sha256 (pre g' q) \<and> map view ps = map view qs)
    \<or> collision_between (chain_preimages pre (sha256 (pre g p)) ps)
         (chain_preimages pre (sha256 (pre g' q)) qs)"
    by (rule Cons.IH) (use Cons.prems in auto)
  then consider "sha256 (pre g p) = sha256 (pre g' q)" "map view ps = map view qs"
    | "collision_between (chain_preimages pre (sha256 (pre g p)) ps)
         (chain_preimages pre (sha256 (pre g' q)) qs)"
    by blast
  then show ?case
  proof cases
    case 1
    then show ?thesis
      using sha256_eq_cases [OF 1(1)] pre_inj [of g g' p q] Cons.prems
      by (auto simp: collision_between_Cons)
  next
    case 2
    then show ?thesis by (simp add: collision_between_Cons)
  qed
qed

text \<open>Changing one link of a chain changes its head, up to such a collision.\<close>

lemma tampered_link:
  assumes "length g = 32" and "list_all ok (ps @ p # qs)" and "ok p'" and "view p \<noteq> view p'"
    and "chain_head pre g (ps @ p # qs) = chain_head pre g (ps @ p' # qs)"
  shows "collision_between (chain_preimages pre g (ps @ p # qs))
           (chain_preimages pre g (ps @ p' # qs))"
  using head_fixes_history [of "ps @ p # qs" "ps @ p' # qs" g g] assms by auto

end

end
