(* ===== verification/GrindChain.thy ===== *)
theory GrindChain
  imports HashChain
begin

section \<open>The grind integrity chain\<close>

text \<open>
  \<open>bridge/vapi_bridge/grind_chain.py\<close>: one link per counted grind session. The preimage is 74
  bytes when the commitment has 32: previous head, commitment, verdict code, host code and the
  time in nanoseconds. An unknown verdict counts as FLAG, an unknown host state as DISCONNECTED.
  \<open>bytes.fromhex\<close> and \<open>struct.pack\<close> may raise, so the functions return \<open>res\<close>.
\<close>

definition VERDICT_CODES :: "(string, nat) dict" where
  "VERDICT_CODES =
     [(''CLEAR'', 0), (''CERTIFY'', 1), (''FLAG'', 16), (''HOLD'', 17), (''BLOCK'', 32)]"

definition PCC_HOST_CODES :: "(string, nat) dict" where
  "PCC_HOST_CODES =
     [(''EXCLUSIVE_USB'', 1), (''UNKNOWN'', 2), (''EXCLUSIVE_BT'', 16), (''CONTESTED'', 32),
      (''DEGRADED'', 48), (''DISCONNECTED'', 255)]"

definition gic_genesis_tag :: bytes where
  "gic_genesis_tag = encode ''VAPI-GIC-GENESIS-v1''"

definition genesis_gic :: "string \<Rightarrow> int \<Rightarrow> bytes res" where
  "genesis_gic grind_session_id ts_ns =
     bindE (pack_u 8 ts_ns) (\<lambda>ts.
       Inr (sha256 (gic_genesis_tag @ encode grind_session_id @ ts)))"

record gic_link =
  gl_commitment_hash_hex :: string
  gl_pcc_host_state :: string
  gl_fallback_verdict :: string
  gl_ts_ns :: int

definition verdict_code :: "string \<Rightarrow> nat" where
  "verdict_code v = dget_or VERDICT_CODES v (dget_or VERDICT_CODES ''FLAG'' 0)"

definition host_code :: "string \<Rightarrow> nat" where
  "host_code s = dget_or PCC_HOST_CODES s (dget_or PCC_HOST_CODES ''DISCONNECTED'' 0)"

definition gic_input :: "bytes \<Rightarrow> gic_link \<Rightarrow> bytes res" where
  "gic_input prev_gic l =
     bindE (fromhex (gl_commitment_hash_hex l)) (\<lambda>ch.
     bindE (pack_u 8 (gl_ts_ns l)) (\<lambda>ts.
       Inr (prev_gic @ ch @ be_bytes 1 (verdict_code (gl_fallback_verdict l))
            @ be_bytes 1 (host_code (gl_pcc_host_state l)) @ ts)))"

definition compute_gic :: "bytes \<Rightarrow> gic_link \<Rightarrow> bytes res" where
  "compute_gic prev_gic l = bindE (gic_input prev_gic l) (\<lambda>m. Inr (sha256 m))"

text \<open>A grind run: the genesis head, then one call per session.\<close>

fun gic_run :: "bytes \<Rightarrow> gic_link list \<Rightarrow> bytes res" where
  "gic_run h [] = Inr h"
| "gic_run h (l # ls) = bindE (compute_gic h l) (\<lambda>h'. gic_run h' ls)"

subsection \<open>What a link commits to\<close>

definition gic_ok :: "gic_link \<Rightarrow> bool" where
  "gic_ok l \<longleftrightarrow> \<not> raised (fromhex (gl_commitment_hash_hex l)) \<and> 0 \<le> gl_ts_ns l \<and> gl_ts_ns l < 256 ^ 8"

definition gic_view :: "gic_link \<Rightarrow> bytes res \<times> nat \<times> nat \<times> int" where
  "gic_view l = (fromhex (gl_commitment_hash_hex l), verdict_code (gl_fallback_verdict l),
     host_code (gl_pcc_host_state l), gl_ts_ns l)"

definition gic_preimage :: "bytes \<Rightarrow> gic_link \<Rightarrow> bytes" where
  "gic_preimage h l = (case gic_input h l of Inl _ \<Rightarrow> [] | Inr m \<Rightarrow> m)"

lemma verdict_code_lt: "verdict_code v < 256"
  by (auto simp: verdict_code_def VERDICT_CODES_def dget_or_def)

lemma host_code_lt: "host_code s < 256"
  by (auto simp: host_code_def PCC_HOST_CODES_def dget_or_def)

lemma gic_input_Inr:
  "gic_input h l = Inr m \<longleftrightarrow>
     (\<exists>ch ts. fromhex (gl_commitment_hash_hex l) = Inr ch \<and> pack_u 8 (gl_ts_ns l) = Inr ts \<and>
       m = h @ ch @ be_bytes 1 (verdict_code (gl_fallback_verdict l))
             @ be_bytes 1 (host_code (gl_pcc_host_state l)) @ ts)"
  by (auto simp: gic_input_def bindE_Inr)

lemma gic_ok_iff: "gic_ok l \<longleftrightarrow> (\<exists>m. gic_input h l = Inr m)"
  by (auto simp: gic_ok_def gic_input_def bindE_Inr pack_u_def raised_def split: sum.splits)

lemma gic_input_preimage: "gic_ok l \<Longrightarrow> gic_input h l = Inr (gic_preimage h l)"
  using gic_ok_iff [of l h] by (auto simp: gic_preimage_def)

lemma gic_preimage_length:
  "gic_ok l \<Longrightarrow> length h = 32 \<Longrightarrow> length (gl_commitment_hash_hex l) = 64 \<Longrightarrow>
     fromhex (gl_commitment_hash_hex l) = Inr ch \<Longrightarrow> length ch = 32 \<Longrightarrow>
     length (gic_preimage h l) = 74"
  by (auto simp: gic_preimage_def gic_ok_def gic_input_def pack_u_def)

lemma gic_preimage_inj:
  assumes "length h = 32" "length h' = 32" "gic_ok l" "gic_ok l'"
    and eq: "gic_preimage h l = gic_preimage h' l'"
  shows "h = h' \<and> gic_view l = gic_view l'"
proof -
  obtain ch ts where l: "fromhex (gl_commitment_hash_hex l) = Inr ch"
    "pack_u 8 (gl_ts_ns l) = Inr ts" "gic_preimage h l = h @ ch
       @ be_bytes 1 (verdict_code (gl_fallback_verdict l))
       @ be_bytes 1 (host_code (gl_pcc_host_state l)) @ ts"
    using gic_input_preimage [OF assms(3), of h] by (auto simp: gic_input_Inr)
  obtain ch' ts' where l': "fromhex (gl_commitment_hash_hex l') = Inr ch'"
    "pack_u 8 (gl_ts_ns l') = Inr ts'" "gic_preimage h' l' = h' @ ch'
       @ be_bytes 1 (verdict_code (gl_fallback_verdict l'))
       @ be_bytes 1 (host_code (gl_pcc_host_state l')) @ ts'"
    using gic_input_preimage [OF assms(4), of h'] by (auto simp: gic_input_Inr)
  note ts = pack_u_length [OF l(2)] pack_u_length [OF l'(2)]
  have "length (gic_preimage h l) = length (gic_preimage h' l')" using eq by simp
  then have "length ch = length ch'" using l(3) l'(3) ts assms(1,2) by simp
  then have parts: "h = h'" "ch = ch'" "ts = ts'"
    "be_bytes 1 (verdict_code (gl_fallback_verdict l)) = be_bytes 1 (verdict_code (gl_fallback_verdict l'))"
    "be_bytes 1 (host_code (gl_pcc_host_state l)) = be_bytes 1 (host_code (gl_pcc_host_state l'))"
    using eq l(3) l'(3) ts assms(1,2) by simp_all
  then show ?thesis
    using l l' pack_u_inj [of 8 "gl_ts_ns l" ts "gl_ts_ns l'"]
      be_bytes_inj [OF parts(4)] be_bytes_inj [OF parts(5)] verdict_code_lt host_code_lt
    by (simp add: gic_view_def)
qed

interpretation gic: hash_chain gic_preimage gic_ok gic_view
  by unfold_locales (rule gic_preimage_inj)

lemma gic_run_Inr_iff:
  "gic_run h ls = Inr g \<longleftrightarrow> list_all gic_ok ls \<and> g = chain_head gic_preimage h ls"
proof (induction ls arbitrary: h)
  case Nil
  then show ?case by auto
next
  case (Cons l ls)
  have ok: "compute_gic h l = Inr (sha256 (gic_preimage h l))" if "gic_ok l"
    using gic_input_preimage [OF that] by (simp add: compute_gic_def)
  have bad: "\<exists>e. compute_gic h l = Inl e" if "\<not> gic_ok l"
    using that gic_ok_iff [of l h] by (cases "gic_input h l") (auto simp: compute_gic_def)
  show ?case
    by (cases "gic_ok l") (use ok bad Cons.IH in auto)
qed

lemma genesis_gic_length: "genesis_gic sid ts = Inr g \<Longrightarrow> length g = 32"
  by (auto simp: genesis_gic_def bindE_Inr)

end
