(* ===== verification/WatchdogChain.thy ===== *)
theory WatchdogChain
  imports HashChain "HOL-Library.Multiset"
begin

section \<open>The watchdog event chain\<close>

text \<open>
  \<open>bridge/vapi_bridge/watchdog_chain.py\<close>: one link per event of the process that keeps the
  bridge alive. The preimage is always 61 bytes: previous head, event code, process id, the first
  16 bytes of the hash of the session id, and the time. Codes and process ids outside their range
  raise \<open>ValueError\<close>.
\<close>

definition EVENT_CODES :: "(string, int) dict" where
  "EVENT_CODES =
     [(''BRIDGE_START'', 1), (''BRIDGE_HEALTHY'', 2), (''BRIDGE_UNRESPONSIVE'', 3),
      (''BRIDGE_RESTART_TRIGGERED'', 4), (''BRIDGE_RESTART_REFUSED_GIC'', 5),
      (''BRIDGE_RESTART_REFUSED_SID'', 6), (''BRIDGE_DEGRADED_HOST_STATE'', 7),
      (''WATCHDOG_BACKOFF_CEILING'', 254), (''WATCHDOG_HALT'', 255)]"

definition wec_genesis_tag :: bytes where
  "wec_genesis_tag = encode ''VAPI-WEC-GENESIS-v1''"

definition grind_session_id_hash :: "string \<Rightarrow> bytes" where
  "grind_session_id_hash sid = take 16 (sha256 (encode sid))"

definition genesis_wec :: "string \<Rightarrow> int \<Rightarrow> bytes res" where
  "genesis_wec sid ts_ns =
     bindE (pack_u 8 ts_ns) (\<lambda>ts. Inr (sha256 (wec_genesis_tag @ encode sid @ ts)))"

record wec_event =
  we_event_code :: int
  we_pid :: int
  we_session_id :: string
  we_ts_ns :: int

definition wec_input :: "bytes \<Rightarrow> wec_event \<Rightarrow> bytes res" where
  "wec_input prev_wec e =
     bindE (guardE (0 \<le> we_event_code e \<and> we_event_code e \<le> 255)
              (ValueError (''event_code out of range: '' @ dec_int (we_event_code e)))) (\<lambda>_.
     bindE (guardE (0 \<le> we_pid e \<and> we_pid e \<le> 4294967295)
              (ValueError (''pid out of range: '' @ dec_int (we_pid e)))) (\<lambda>_.
     bindE (pack_u 1 (we_event_code e)) (\<lambda>c.
     bindE (pack_u 4 (we_pid e)) (\<lambda>p.
     bindE (pack_u 8 (we_ts_ns e)) (\<lambda>t.
       Inr (prev_wec @ c @ p @ grind_session_id_hash (we_session_id e) @ t))))))"

definition compute_wec :: "bytes \<Rightarrow> wec_event \<Rightarrow> bytes res" where
  "compute_wec prev_wec e = bindE (wec_input prev_wec e) (\<lambda>m. Inr (sha256 m))"

definition wec_ok :: "wec_event \<Rightarrow> bool" where
  "wec_ok e \<longleftrightarrow> 0 \<le> we_event_code e \<and> we_event_code e \<le> 255 \<and> 0 \<le> we_pid e
     \<and> we_pid e \<le> 4294967295 \<and> 0 \<le> we_ts_ns e \<and> we_ts_ns e < 256 ^ 8"

definition wec_view :: "wec_event \<Rightarrow> int \<times> int \<times> bytes \<times> int" where
  "wec_view e = (we_event_code e, we_pid e, grind_session_id_hash (we_session_id e), we_ts_ns e)"

definition wec_preimage :: "bytes \<Rightarrow> wec_event \<Rightarrow> bytes" where
  "wec_preimage h e = (case wec_input h e of Inl _ \<Rightarrow> [] | Inr m \<Rightarrow> m)"

lemma length_grind_session_id_hash [simp]: "length (grind_session_id_hash sid) = 16"
  by (simp add: grind_session_id_hash_def)

lemma wec_input_Inr:
  "wec_input h e = Inr m \<longleftrightarrow>
     (\<exists>c p t. pack_u 1 (we_event_code e) = Inr c \<and> pack_u 4 (we_pid e) = Inr p \<and>
       pack_u 8 (we_ts_ns e) = Inr t \<and>
       m = h @ c @ p @ grind_session_id_hash (we_session_id e) @ t)"
  by (auto simp: wec_input_def bindE_Inr guardE_Inr pack_u_Inr)

lemma wec_ok_iff: "wec_ok e \<longleftrightarrow> (\<exists>m. wec_input h e = Inr m)"
  by (auto simp: wec_input_Inr wec_ok_def pack_u_Inr)

lemma wec_input_preimage: "wec_ok e \<Longrightarrow> wec_input h e = Inr (wec_preimage h e)"
  using wec_ok_iff [of e h] by (auto simp: wec_preimage_def)

lemma wec_preimage_length: "wec_ok e \<Longrightarrow> length h = 32 \<Longrightarrow> length (wec_preimage h e) = 61"
  using wec_input_preimage [of e h] by (auto simp: wec_input_Inr dest!: pack_u_length)

lemma compute_wec_ok: "wec_ok e \<Longrightarrow> compute_wec h e = Inr (sha256 (wec_preimage h e))"
  by (simp add: compute_wec_def wec_input_preimage)

lemma compute_wec_raises: "\<not> wec_ok e \<Longrightarrow> \<exists>x. compute_wec h e = Inl x"
  using wec_ok_iff [of e h] by (cases "wec_input h e") (auto simp: compute_wec_def)

lemma wec_preimage_inj:
  assumes "length h = 32" "length h' = 32" "wec_ok e" "wec_ok e'"
    and eq: "wec_preimage h e = wec_preimage h' e'"
  shows "h = h' \<and> wec_view e = wec_view e'"
proof -
  obtain c p t where e: "pack_u 1 (we_event_code e) = Inr c" "pack_u 4 (we_pid e) = Inr p"
    "pack_u 8 (we_ts_ns e) = Inr t"
    "wec_preimage h e = h @ c @ p @ grind_session_id_hash (we_session_id e) @ t"
    using wec_input_preimage [OF assms(3), of h] by (auto simp: wec_input_Inr)
  obtain c' p' t' where e': "pack_u 1 (we_event_code e') = Inr c'" "pack_u 4 (we_pid e') = Inr p'"
    "pack_u 8 (we_ts_ns e') = Inr t'"
    "wec_preimage h' e' = h' @ c' @ p' @ grind_session_id_hash (we_session_id e') @ t'"
    using wec_input_preimage [OF assms(4), of h'] by (auto simp: wec_input_Inr)
  note len = e(1-3) [THEN pack_u_length] e'(1-3) [THEN pack_u_length]
  from eq e(4) e'(4) have "h = h' \<and> c = c' \<and> p = p' \<and> t = t'
    \<and> grind_session_id_hash (we_session_id e) = grind_session_id_hash (we_session_id e')"
    using len assms(1,2) by simp
  then show ?thesis using e e' by (auto simp: wec_view_def dest: pack_u_inj)
qed

interpretation wec: hash_chain wec_preimage wec_ok wec_view
  by unfold_locales (rule wec_preimage_inj)

lemma genesis_wec_length: "genesis_wec sid ts = Inr g \<Longrightarrow> length g = 32"
  by (auto simp: genesis_wec_def bindE_Inr)

lemma compute_wec_length: "compute_wec h e = Inr g \<Longrightarrow> length g = 32"
  by (auto simp: compute_wec_def bindE_Inr)

subsection \<open>The verifier of a stored log\<close>

text \<open>
  \<open>bridge/vapi_bridge/chain_integrity_verifiers.py\<close>, \<open>verify_wec_links\<close>: every row is checked
  against its own stored predecessor, then the shape of the graph is counted. A row with an empty
  predecessor is a genesis link; recomputing it is not guarded, so a time outside 64 bits raises.
\<close>

record wec_row =
  wr_event :: wec_event
  wr_event_name :: string
  wr_wec_hash :: string
  wr_prev_wec_hash :: string
  wr_metadata_json :: string
  wr_created_at :: real

record wec_report =
  n_rows :: nat
  links_valid :: nat
  n_invalid :: nat
  n_orphans :: nat
  n_forks :: nat
  n_tips :: nat
  head_hex :: "string option"
  tamper_free :: bool
  structurally_sound :: bool

record wec_counts =
  ct_valid :: nat
  ct_invalid :: nat
  ct_orphans :: nat
  ct_prev :: "(string, nat) dict"

text \<open>Whether a row's stored hash is the one recomputed from \<open>prev\<close>; any exception says no.\<close>

definition row_check :: "bytes res \<Rightarrow> wec_row \<Rightarrow> bool" where
  "row_check prev r =
     (case bindE prev (\<lambda>p. compute_wec p (wr_event r)) of
        Inl _ \<Rightarrow> False
      | Inr expected \<Rightarrow> hex expected = wr_wec_hash r)"

definition count_row :: "string set \<Rightarrow> wec_counts \<Rightarrow> wec_row \<Rightarrow> wec_counts res" where
  "count_row wec_set ct r =
     (let prev_hex = wr_prev_wec_hash r;
          tally = (\<lambda>ct b. if b then ct\<lparr>ct_valid := ct_valid ct + 1\<rparr>
                           else ct\<lparr>ct_invalid := ct_invalid ct + 1\<rparr>)
      in if prev_hex = []
         then bindE (genesis_wec (we_session_id (wr_event r)) (we_ts_ns (wr_event r))) (\<lambda>g.
                Inr (tally ct (row_check (Inr g) r)))
         else
           (let ct1 = (if prev_hex \<in> wec_set then ct
                       else ct\<lparr>ct_orphans := ct_orphans ct + 1\<rparr>);
                ct2 = ct1\<lparr>ct_prev := dput prev_hex (dget_or (ct_prev ct1) prev_hex 0 + 1) (ct_prev ct1)\<rparr>
            in Inr (tally ct2 (row_check (fromhex prev_hex) r))))"

fun count_rows :: "string set \<Rightarrow> wec_counts \<Rightarrow> wec_row list \<Rightarrow> wec_counts res" where
  "count_rows S ct [] = Inr ct"
| "count_rows S ct (r # rs) = bindE (count_row S ct r) (\<lambda>ct'. count_rows S ct' rs)"

text \<open>Python's \<open>max(rows, key=ts)\<close> keeps the first row with the largest time.\<close>

fun max_row :: "wec_row \<Rightarrow> wec_row list \<Rightarrow> wec_row" where
  "max_row m [] = m"
| "max_row m (r # rs) =
     (if we_ts_ns (wr_event m) < we_ts_ns (wr_event r) then max_row r rs else max_row m rs)"

definition empty_counts :: wec_counts where
  "empty_counts = \<lparr>ct_valid = 0, ct_invalid = 0, ct_orphans = 0, ct_prev = []\<rparr>"

definition verify_wec_links :: "wec_row list \<Rightarrow> wec_report res" where
  "verify_wec_links rows =
     (case rows of
        [] \<Rightarrow> Inr \<lparr>n_rows = 0, links_valid = 0, n_invalid = 0, n_orphans = 0, n_forks = 0,
                  n_tips = 0, head_hex = None, tamper_free = True, structurally_sound = True\<rparr>
      | r0 # rest \<Rightarrow>
          bindE (count_rows (set (map wr_wec_hash rows)) empty_counts rows) (\<lambda>ct.
            let head = wr_wec_hash (max_row r0 rest);
                tf = (ct_invalid ct = 0)
            in Inr \<lparr>n_rows = length rows, links_valid = ct_valid ct, n_invalid = ct_invalid ct,
                 n_orphans = ct_orphans ct,
                 n_forks = length (filter (\<lambda>(_, c). 1 < c) (ct_prev ct)),
                 n_tips = length (filter (\<lambda>r. wr_wec_hash r \<notin> set (dkeys (ct_prev ct))) rows),
                 head_hex = (if head = [] then None else Some head),
                 tamper_free = tf,
                 structurally_sound = (tf \<and> ct_orphans ct = 0)\<rparr>))"

definition report_intact :: "wec_report \<Rightarrow> bool" where
  "report_intact rep = structurally_sound rep"

subsection \<open>What the verifier computes\<close>

definition row_prev :: "wec_row \<Rightarrow> bytes res" where
  "row_prev r = (if wr_prev_wec_hash r = []
     then genesis_wec (we_session_id (wr_event r)) (we_ts_ns (wr_event r))
     else fromhex (wr_prev_wec_hash r))"

definition row_valid :: "wec_row \<Rightarrow> bool" where
  "row_valid r = row_check (row_prev r) r"

definition row_orphan :: "string set \<Rightarrow> wec_row \<Rightarrow> bool" where
  "row_orphan S r \<longleftrightarrow> wr_prev_wec_hash r \<noteq> [] \<and> wr_prev_wec_hash r \<notin> S"

text \<open>The one exception that is not caught: a genesis row whose time does not fit 64 bits.\<close>

definition row_aborts :: "wec_row \<Rightarrow> bool" where
  "row_aborts r \<longleftrightarrow> wr_prev_wec_hash r = [] \<and> raised (row_prev r)"

definition prevs :: "wec_row list \<Rightarrow> string list" where
  "prevs rows = filter (\<lambda>h. h \<noteq> []) (map wr_prev_wec_hash rows)"

lemma raised_genesis: "raised (genesis_wec sid ts) \<longleftrightarrow> \<not> (0 \<le> ts \<and> ts < 256 ^ 8)"
  by (simp add: genesis_wec_def pack_u_def)

lemma count_row_Inr:
  assumes "\<not> row_aborts r"
  obtains ct1 where "count_row S ct r = Inr ct1"
    "ct_valid ct1 = ct_valid ct + (if row_valid r then 1 else 0)"
    "ct_invalid ct1 = ct_invalid ct + (if row_valid r then 0 else 1)"
    "ct_orphans ct1 = ct_orphans ct + (if row_orphan S r then 1 else 0)"
    "ct_prev ct1 = (if wr_prev_wec_hash r = [] then ct_prev ct
       else dput (wr_prev_wec_hash r) (dget_or (ct_prev ct) (wr_prev_wec_hash r) 0 + 1) (ct_prev ct))"
proof (cases "wr_prev_wec_hash r = []")
  case True
  then obtain g where g: "genesis_wec (we_session_id (wr_event r)) (we_ts_ns (wr_event r)) = Inr g"
    using assms by (auto simp: row_aborts_def row_prev_def not_raised_iff)
  with True obtain ct1 where ct1: "count_row S ct r = Inr ct1" by (simp add: count_row_def)
  show thesis
    by (rule that [OF ct1])
      (use True g ct1 in \<open>auto simp: count_row_def row_valid_def row_prev_def row_orphan_def\<close>)
next
  case False
  then obtain ct1 where ct1: "count_row S ct r = Inr ct1" by (auto simp: count_row_def Let_def)
  show thesis
    by (rule that [OF ct1])
      (use False ct1 in \<open>auto simp: count_row_def Let_def row_valid_def row_prev_def row_orphan_def\<close>)
qed

definition counts_after :: "string set \<Rightarrow> wec_counts \<Rightarrow> wec_row list \<Rightarrow> wec_counts \<Rightarrow> bool" where
  "counts_after S ct rows ct' \<longleftrightarrow>
     ct_valid ct' = ct_valid ct + length (filter row_valid rows)
     \<and> ct_invalid ct' = ct_invalid ct + length (filter (\<lambda>r. \<not> row_valid r) rows)
     \<and> ct_orphans ct' = ct_orphans ct + length (filter (row_orphan S) rows)
     \<and> (\<forall>h. dget_or (ct_prev ct') h 0 = dget_or (ct_prev ct) h 0 + count_list (prevs rows) h)
     \<and> set (dkeys (ct_prev ct')) = set (dkeys (ct_prev ct)) \<union> set (prevs rows)
     \<and> (distinct (dkeys (ct_prev ct)) \<longrightarrow> distinct (dkeys (ct_prev ct')))"

lemma count_rows_Inr:
  "\<not> list_ex row_aborts rows \<Longrightarrow> \<exists>ct'. count_rows S ct rows = Inr ct' \<and> counts_after S ct rows ct'"
proof (induction rows arbitrary: ct)
  case Nil
  then show ?case by (simp add: prevs_def counts_after_def)
next
  case (Cons r rs)
  then have "\<not> row_aborts r" by simp
  then obtain ct1 where ct1: "count_row S ct r = Inr ct1"
    "ct_valid ct1 = ct_valid ct + (if row_valid r then 1 else 0)"
    "ct_invalid ct1 = ct_invalid ct + (if row_valid r then 0 else 1)"
    "ct_orphans ct1 = ct_orphans ct + (if row_orphan S r then 1 else 0)"
    "ct_prev ct1 = (if wr_prev_wec_hash r = [] then ct_prev ct
       else dput (wr_prev_wec_hash r) (dget_or (ct_prev ct) (wr_prev_wec_hash r) 0 + 1) (ct_prev ct))"
    by (rule count_row_Inr)
  from Cons obtain ct' where ct': "count_rows S ct1 rs = Inr ct'" "counts_after S ct1 rs ct'"
    by fastforce
  then have "counts_after S ct (r # rs) ct'"
    using ct1(2-) unfolding counts_after_def by (auto simp: prevs_def dkeys_dput wf_intros)
  then show ?case using ct1(1) ct'(1) by auto
qed

lemma count_rows_raises: "list_ex row_aborts rows \<Longrightarrow> raised (count_rows S ct rows)"
proof (induction rows arbitrary: ct)
  case Nil
  then show ?case by simp
next
  case (Cons r rs)
  show ?case
  proof (cases "row_aborts r")
    case True
    then show ?thesis
      by (auto simp: row_aborts_def row_prev_def count_row_def raised_def split: sum.splits)
  next
    case False
    then obtain ct1 where "count_row S ct r = Inr ct1" by (rule count_row_Inr)
    then show ?thesis using Cons False by simp
  qed
qed

text \<open>The report of the verifier, field by field, in terms of the rows alone.\<close>

definition report_of :: "wec_row list \<Rightarrow> wec_report \<Rightarrow> bool" where
  "report_of rows rep \<longleftrightarrow>
     n_rows rep = length rows
     \<and> links_valid rep = length (filter row_valid rows)
     \<and> n_invalid rep = length (filter (\<lambda>r. \<not> row_valid r) rows)
     \<and> n_orphans rep = length (filter (row_orphan (set (map wr_wec_hash rows))) rows)
     \<and> n_forks rep = card {h \<in> set (prevs rows). 1 < count_list (prevs rows) h}
     \<and> n_tips rep = length (filter (\<lambda>r. wr_wec_hash r \<notin> set (prevs rows)) rows)
     \<and> (tamper_free rep \<longleftrightarrow> list_all row_valid rows)
     \<and> (report_intact rep \<longleftrightarrow> list_all row_valid rows
          \<and> (\<forall>r \<in> set rows. wr_prev_wec_hash r \<noteq> [] \<longrightarrow> wr_prev_wec_hash r \<in> wr_wec_hash ` set rows))"

lemma filter_empty_list_all: "length (filter (\<lambda>r. \<not> P r) xs) = 0 \<longleftrightarrow> list_all P xs"
  by (induction xs) auto

lemma verify_wec_links_report:
  assumes "\<not> list_ex row_aborts rows"
  shows "\<exists>rep. verify_wec_links rows = Inr rep \<and> report_of rows rep"
proof (cases rows)
  case Nil
  then show ?thesis by (simp add: verify_wec_links_def report_of_def report_intact_def prevs_def)
next
  case (Cons r0 rest)
  let ?S = "set (map wr_wec_hash rows)"
  obtain ct where ct: "count_rows ?S empty_counts rows = Inr ct" "counts_after ?S empty_counts rows ct"
    using count_rows_Inr [OF assms] by blast
  have key: "dget (ct_prev ct) h = Some (count_list (prevs rows) h)" if "h \<in> set (prevs rows)" for h
  proof -
    have "dget_or (ct_prev ct) h 0 = count_list (prevs rows) h" "h \<in> set (dkeys (ct_prev ct))"
      using ct(2) that by (auto simp: counts_after_def empty_counts_def dget_or_def)
    then show ?thesis by (auto simp: dget_or_def dget_None_iff split: option.splits)
  qed
  have keys: "set (dkeys (ct_prev ct)) = set (prevs rows)" "distinct (dkeys (ct_prev ct))"
    using ct(2) by (auto simp: counts_after_def empty_counts_def dkeys_def)
  have forks: "length (filter (\<lambda>(_, c). 1 < c) (ct_prev ct))
      = card {h \<in> set (prevs rows). 1 < count_list (prevs rows) h}"
    unfolding length_filter_dict [OF keys(2)] keys(1) using key by (metis (mono_tags) option.sel)
  have orphans: "ct_orphans ct = 0 \<longleftrightarrow> (\<forall>r \<in> set rows. wr_prev_wec_hash r \<noteq> []
      \<longrightarrow> wr_prev_wec_hash r \<in> wr_wec_hash ` set rows)"
    using ct(2) by (auto simp: counts_after_def empty_counts_def filter_empty_conv row_orphan_def)
  have invalid: "ct_invalid ct = 0 \<longleftrightarrow> list_all row_valid rows"
    using ct(2) filter_empty_list_all [of row_valid rows]
    by (simp add: counts_after_def empty_counts_def)
  let ?head = "wr_wec_hash (max_row r0 rest)"
  let ?rep = "\<lparr>n_rows = length rows, links_valid = ct_valid ct, n_invalid = ct_invalid ct,
    n_orphans = ct_orphans ct, n_forks = length (filter (\<lambda>(_, c). 1 < c) (ct_prev ct)),
    n_tips = length (filter (\<lambda>r. wr_wec_hash r \<notin> set (dkeys (ct_prev ct))) rows),
    head_hex = (if ?head = [] then None else Some ?head), tamper_free = (ct_invalid ct = 0),
    structurally_sound = (ct_invalid ct = 0 \<and> ct_orphans ct = 0)\<rparr>"
  have "verify_wec_links rows = Inr ?rep"
    using ct(1) unfolding Cons by (simp add: verify_wec_links_def Let_def)
  moreover have "report_of rows ?rep"
    using ct(2) forks orphans invalid
    unfolding report_of_def report_intact_def counts_after_def empty_counts_def keys(1) by simp
  ultimately show ?thesis by blast
qed

lemma verify_wec_links_raises: "list_ex row_aborts rows \<Longrightarrow> raised (verify_wec_links rows)"
  using count_rows_raises [of rows]
  by (cases rows) (auto simp: verify_wec_links_def raised_bindE)

text \<open>The verdict does not depend on the order in which the rows are read.\<close>

lemma filter_length_mset: "mset xs = mset ys \<Longrightarrow> length (filter P xs) = length (filter P ys)"
  by (metis mset_filter size_mset)

lemma report_of_perm:
  assumes "mset rows = mset rows'"
  shows "report_of rows rep \<longleftrightarrow> report_of rows' rep"
proof -
  have set: "set rows = set rows'" and len: "length rows = length rows'"
    using assms by (auto dest: mset_eq_setD mset_eq_length)
  have "mset (prevs rows) = mset (prevs rows')"
    by (simp add: prevs_def mset_filter assms)
  then have cnt: "count_list (prevs rows) h = count_list (prevs rows') h" for h
    by (metis count_mset)
  have prevs: "set (prevs rows) = set (prevs rows')" by (simp add: prevs_def set)
  have hashes: "set (map wr_wec_hash rows) = set (map wr_wec_hash rows')" by (simp add: set)
  show ?thesis
    unfolding report_of_def hashes prevs cnt len filter_length_mset [OF assms]
    by (simp only: list_all_iff set)
qed

end
