(* ===== verification/ChainLog.thy ===== *)
theory ChainLog
  imports HashChain
begin

section \<open>Stored chains\<close>

text \<open>
  What the watchdog log and the grind log share: rows that carry a time and the hex of a hash,
  where a row's hash is recomputed by a \<open>link\<close> function from the hash of the row before it, or
  from nothing for the first row of a session. \<open>linked\<close> says that a list of rows is such a chain
  with strictly increasing times; \<open>verify_loop\<close> is the recomputation both status queries run.
\<close>

fun linked :: "(bytes option \<Rightarrow> 'r \<Rightarrow> bytes res) \<Rightarrow> (bytes option \<Rightarrow> 'r \<Rightarrow> bool) \<Rightarrow> ('r \<Rightarrow> int)
    \<Rightarrow> ('r \<Rightarrow> string) \<Rightarrow> bytes option \<Rightarrow> int \<Rightarrow> 'r list \<Rightarrow> bool" where
  "linked link good ts hx p t [] = True"
| "linked link good ts hx p t (r # rs) =
     (t < ts r \<and> good p r
      \<and> (\<exists>h. link p r = Inr h \<and> hx r = hex h \<and> linked link good ts hx (Some h) (ts r) rs))"

text \<open>
  The loop compares each row with its recomputation and stops at the first mismatch; an exception
  of the recomputation is not caught.
\<close>

definition stored_prev :: "string option \<Rightarrow> bytes option res" where
  "stored_prev prev = (case prev of None \<Rightarrow> Inr None
     | Some x \<Rightarrow> bindE (fromhex x) (\<lambda>h. Inr (Some h)))"

fun verify_loop :: "(bytes option \<Rightarrow> 'r \<Rightarrow> bytes res) \<Rightarrow> ('r \<Rightarrow> string) \<Rightarrow> string option
    \<Rightarrow> 'r list \<Rightarrow> bool res" where
  "verify_loop link hx prev [] = Inr True"
| "verify_loop link hx prev (r # rs) =
     bindE (stored_prev prev) (\<lambda>p.
     bindE (link p r) (\<lambda>expected.
       if hex expected \<noteq> hx r then Inr False else verify_loop link hx (Some (hx r)) rs))"

text \<open>\<open>ORDER BY key ASC\<close> and \<open>DESC\<close>; rows with equal keys stay in the order of insertion.\<close>

definition order_asc :: "('r \<Rightarrow> 'k::linorder) \<Rightarrow> 'r list \<Rightarrow> 'r list" where
  "order_asc key rows = sort_key key rows"

definition order_desc :: "('r \<Rightarrow> 'k::linordered_ab_group_add) \<Rightarrow> 'r list \<Rightarrow> 'r list" where
  "order_desc key rows = sort_key (\<lambda>r. - key r) rows"

definition sql_limit :: "int \<Rightarrow> 'r list \<Rightarrow> 'r list" where
  "sql_limit n rows = (if n < 0 then rows else take (nat n) rows)"

definition first_row :: "'r list \<Rightarrow> 'r option" where
  "first_row rows = (case rows of [] \<Rightarrow> None | r # _ \<Rightarrow> Some r)"

lemma stored_prev_simps [simp]:
  "stored_prev None = Inr None"
  "stored_prev (Some (hex h)) = Inr (Some h)"
  by (simp_all add: stored_prev_def fromhex_hex)

lemma set_order [simp]:
  "set (order_asc key rows) = set rows" "set (order_desc key' rows) = set rows"
  by (simp_all add: order_asc_def order_desc_def)

lemma length_order [simp]:
  "length (order_asc key rows) = length rows" "length (order_desc key' rows) = length rows"
  by (simp_all add: order_asc_def order_desc_def)

lemma order_Nil_iff [simp]:
  "order_asc key rows = [] \<longleftrightarrow> rows = []" "order_desc key' rows = [] \<longleftrightarrow> rows = []"
  by (metis length_0_conv length_order(1)) (metis length_0_conv length_order(2))

lemma order_Nil [simp]: "order_asc key [] = []" "order_desc key' [] = []"
  by simp_all

lemma first_row_simps [simp]: "first_row [] = None" "first_row (r # rs) = Some r"
  by (simp_all add: first_row_def)

lemma order_asc_sorted: "sorted_wrt (<) (map key rows) \<Longrightarrow> order_asc key rows = rows"
  unfolding order_asc_def by (simp add: sort_key_id_if_sorted strict_sorted_imp_sorted)

lemma order_desc_sorted:
  assumes "sorted_wrt (<) (map key rows)"
  shows "order_desc key rows = rev rows"
  unfolding order_desc_def
proof (rule map_sorted_distinct_set_unique [of "\<lambda>r. - key r"])
  have dist: "distinct (map key rows)" using assms by (simp add: strict_sorted_iff)
  then have inj: "inj_on (\<lambda>r. - key r) (set rows)" by (auto simp: distinct_map inj_on_def)
  then show "inj_on (\<lambda>r. - key r) (set (sort_key (\<lambda>r. - key r) rows) \<union> set (rev rows))" by simp
  show "sorted (map (\<lambda>r. - key r) (sort_key (\<lambda>r. - key r) rows))" by simp
  have "distinct rows" using dist by (simp add: distinct_map)
  with inj show "distinct (map (\<lambda>r. - key r) (sort_key (\<lambda>r. - key r) rows))"
    "distinct (map (\<lambda>r. - key r) (rev rows))"
    by (simp_all add: distinct_map)
  have "sorted_wrt (\<lambda>x y. - key y \<le> - key x) rows"
    using assms unfolding sorted_wrt_map by (rule sorted_wrt_mono_rel [rotated]) auto
  then show "sorted (map (\<lambda>r. - key r) (rev rows))" by (simp add: sorted_wrt_map sorted_wrt_rev)
qed simp

text \<open>Two lists of rows with the same times, hashes and links are linked alike.\<close>

definition same_link :: "(bytes option \<Rightarrow> 'r \<Rightarrow> bytes res) \<Rightarrow> ('r \<Rightarrow> int) \<Rightarrow> ('r \<Rightarrow> string)
    \<Rightarrow> 'r \<Rightarrow> 'r \<Rightarrow> bool" where
  "same_link link ts hx x y \<longleftrightarrow> ts x = ts y \<and> hx x = hx y \<and> (\<forall>p. link p x = link p y)"

lemma linked_cong:
  "list_all2 (same_link link ts hx) xs ys \<Longrightarrow>
     linked link (\<lambda>_ _. True) ts hx p t xs = linked link (\<lambda>_ _. True) ts hx p t ys"
  by (induction xs ys arbitrary: p t rule: list_all2_induct) (auto simp: same_link_def)

lemma verify_loop_map:
  assumes "\<And>p x. link p (f x) = link p x" and "\<And>x. hx (f x) = hx x"
  shows "verify_loop link hx prev (map f rows) = verify_loop link hx prev rows"
  by (induction rows arbitrary: prev) (simp_all add: assms cong: if_cong)

lemma order_asc_map:
  assumes "\<And>x. key (f x) = key x"
  shows "order_asc key (map f rows) = map f (order_asc key rows)"
proof -
  have ins: "insort_key key (f x) (map f xs) = map f (insort_key key x xs)" for x xs
    by (induction xs) (simp_all add: assms)
  show ?thesis
    unfolding order_asc_def sort_key_def by (induction rows) (simp_all add: ins)
qed

subsection \<open>Lemmas of such chains\<close>

locale chain_log =
  fixes link :: "bytes option \<Rightarrow> 'r \<Rightarrow> bytes res"
    and good :: "bytes option \<Rightarrow> 'r \<Rightarrow> bool"
    and ts :: "'r \<Rightarrow> int"
    and hx :: "'r \<Rightarrow> string"
  assumes link_length: "link p r = Inr h \<Longrightarrow> length h = 32"
begin

abbreviation chain :: "bytes option \<Rightarrow> int \<Rightarrow> 'r list \<Rightarrow> bool" where
  "chain \<equiv> linked link good ts hx"

lemma chain_sorted: "chain p t rs \<Longrightarrow> sorted_wrt (<) (t # map ts rs)"
  by (induction rs arbitrary: p t) fastforce+

lemma chain_snoc:
  assumes "chain p t rs" and "rs \<noteq> []" and "hx (last rs) = hex h" and "ts (last rs) < ts r"
    and "good (Some h) r" and "link (Some h) r = Inr h'" and "hx r = hex h'"
  shows "chain p t (rs @ [r])"
  using assms
proof (induction rs arbitrary: p t)
  case Nil
  then show ?case by simp
next
  case (Cons x xs)
  then obtain g where g: "t < ts x" "good p x" "link p x = Inr g" "hx x = hex g" "chain (Some g) (ts x) xs"
    by auto
  show ?case
  proof (cases "xs = []")
    case True
    then have "g = h" using g(4) Cons.prems by (simp add: hex_inj)
    then show ?thesis using g Cons.prems True by auto
  next
    case False
    then have "chain (Some g) (ts x) (xs @ [r])"
      using Cons.prems by (intro Cons.IH [OF g(5)]) auto
    then show ?thesis using g by auto
  qed
qed

lemma chain_last_hash: "chain p t rs \<Longrightarrow> rs \<noteq> [] \<Longrightarrow> \<exists>h. hx (last rs) = hex h"
  by (induction rs arbitrary: p t) auto

lemma chain_latest:
  assumes "chain p t rs" and "rs \<noteq> []"
  shows "first_row (order_desc ts rs) = Some (last rs)"
proof -
  have "order_desc ts rs = rev rs" using chain_sorted [OF assms(1)] by (intro order_desc_sorted) auto
  then show ?thesis using assms(2) by (cases rs rule: rev_cases) (auto simp: first_row_def)
qed

lemma chain_order: "chain p t rs \<Longrightarrow> order_asc ts rs = rs"
  using chain_sorted [of p t rs] by (auto intro: order_asc_sorted)

lemma verify_take:
  "chain p t rs \<Longrightarrow> verify_loop link hx (map_option hex p) (take k rs) = Inr True"
proof (induction rs arbitrary: p t k)
  case Nil
  then show ?case by simp
next
  case (Cons r rs)
  then obtain h where h: "link p r = Inr h" "hx r = hex h" "chain (Some h) (ts r) rs" by auto
  show ?case
  proof (cases k)
    case (Suc k')
    have "verify_loop link hx (Some (hex h)) (take k' rs) = Inr True"
      using Cons.IH [OF h(3), of k'] by simp
    then show ?thesis using h(1,2) Suc by (cases p) auto
  qed simp
qed

lemma verify_chain: "chain None t rs \<Longrightarrow> verify_loop link hx None rs = Inr True"
  using verify_take [of None t rs "length rs"] by simp

lemma chain_link_rows:
  assumes "chain p t rs" and "\<forall>g. p = Some g \<longrightarrow> length g = 32" and "r \<in> set rs"
  shows "\<exists>q h. good q r \<and> link q r = Inr h \<and> hx r = hex h
    \<and> (\<forall>g. q = Some g \<longrightarrow> length g = 32 \<and> (p = Some g \<or> hex g \<in> hx ` set rs))"
  using assms
proof (induction rs arbitrary: p t)
  case Nil
  then show ?case by simp
next
  case (Cons x xs)
  then obtain h where h: "good p x" "link p x = Inr h" "hx x = hex h" "chain (Some h) (ts x) xs" by auto
  show ?case
  proof (cases "r = x")
    case True
    then show ?thesis using h Cons.prems(2) by auto
  next
    case False
    then have "\<exists>q h'. good q r \<and> link q r = Inr h' \<and> hx r = hex h'
      \<and> (\<forall>g. q = Some g \<longrightarrow> length g = 32 \<and> (Some h = Some g \<or> hex g \<in> hx ` set xs))"
      using Cons.IH [OF h(4)] link_length [OF h(2)] Cons.prems(3) by auto
    then show ?thesis using h(3) by fastforce
  qed
qed

text \<open>What a positive verdict means: every stored hash is the recomputed one.\<close>

lemma verify_loop_True:
  "verify_loop link hx prev rs = Inr True \<Longrightarrow> i < length rs \<Longrightarrow>
     \<exists>p h. stored_prev (if i = 0 then prev else Some (hx (rs ! (i - 1)))) = Inr p
       \<and> link p (rs ! i) = Inr h \<and> hx (rs ! i) = hex h"
proof (induction rs arbitrary: prev i)
  case Nil
  then show ?case by simp
next
  case (Cons r rs)
  from Cons.prems obtain p h where h: "stored_prev prev = Inr p" "link p r = Inr h" "hx r = hex h"
    "verify_loop link hx (Some (hx r)) rs = Inr True"
    by (auto simp: bindE_Inr split: if_splits)
  show ?case
  proof (cases i)
    case 0
    then show ?thesis using h by auto
  next
    case (Suc j)
    then show ?thesis using Cons.IH [OF h(4), of j] Cons.prems(2) by (cases j) auto
  qed
qed

end

end
