(* ===== verification/WatchdogStore.thy ===== *)
theory WatchdogStore
  imports WatchdogChain ChainLog
begin

section \<open>The stored watchdog log: its writer and its status query\<close>

text \<open>
  \<open>bridge/vapi_bridge/store/snapshots.py\<close>: the table \<open>watchdog_event_log\<close> as the list of its
  rows in the order of insertion, the writer \<open>insert_watchdog_event\<close> with its monotonicity guard in its
  three transactions (the latest time, the latest hash, the insertion), which other calls may come between,
  and \<open>get_watchdog_event_chain_status\<close>, which recomputes the chain of a session. Where SQL
  leaves the order of equal keys open, the first row inserted is taken.
\<close>

type_synonym wec_log = "wec_row list"

abbreviation row_ts :: "wec_row \<Rightarrow> int" where
  "row_ts r \<equiv> we_ts_ns (wr_event r)"

abbreviation row_sid :: "wec_row \<Rightarrow> string" where
  "row_sid r \<equiv> we_session_id (wr_event r)"

definition session_rows :: "string \<Rightarrow> wec_log \<Rightarrow> wec_row list" where
  "session_rows sid wlog = filter (\<lambda>r. row_sid r = sid) wlog"

definition get_prev_watchdog_event_hash :: "wec_log \<Rightarrow> string \<Rightarrow> bytes option res" where
  "get_prev_watchdog_event_hash wlog sid =
     (case first_row (order_desc row_ts (if sid \<noteq> [] then session_rows sid wlog else wlog)) of
        None \<Rightarrow> Inr None
      | Some r \<Rightarrow> bindE (fromhex (wr_wec_hash r)) (\<lambda>h. Inr (Some h)))"

definition prev_ts :: "wec_log \<Rightarrow> string \<Rightarrow> int" where
  "prev_ts wlog sid =
     (let ts = map row_ts (session_rows sid wlog) in if ts = [] then 0 else Max (set ts))"

record wec_call =
  wq_event_code :: int
  wq_event_name :: string
  wq_pid :: int
  wq_session_id :: string
  wq_ts_ns :: int
  wq_metadata_json :: string
  wq_now :: real

text \<open>The three transactions of one call: its time, its row, the insertion.\<close>

definition stamp_ts :: "wec_log \<Rightarrow> wec_call \<Rightarrow> int" where
  "stamp_ts wlog q =
     (let p = prev_ts wlog (wq_session_id q) in if wq_ts_ns q \<le> p then p + 1 else wq_ts_ns q)"

definition link_event :: "wec_log \<Rightarrow> int \<Rightarrow> wec_call \<Rightarrow> wec_row res" where
  "link_event wlog ts q =
     (let sid = wq_session_id q;
          ev = \<lparr>we_event_code = wq_event_code q, we_pid = wq_pid q, we_session_id = sid, we_ts_ns = ts\<rparr>
      in bindE (get_prev_watchdog_event_hash wlog sid) (\<lambda>prev.
         bindE (case prev of
                  None \<Rightarrow> bindE (genesis_wec sid ts) (\<lambda>g. Inr (g, []))
                | Some h \<Rightarrow> Inr (h, hex h)) (\<lambda>(prev_wec, prev_wec_hex).
         bindE (compute_wec prev_wec ev) (\<lambda>wec.
           Inr \<lparr>wr_event = ev, wr_event_name = take 64 (wq_event_name q),
                wr_wec_hash = hex wec, wr_prev_wec_hash = prev_wec_hex,
                wr_metadata_json = wq_metadata_json q, wr_created_at = wq_now q\<rparr>))))"

definition append_event :: "wec_log \<Rightarrow> wec_row \<Rightarrow> wec_log res" where
  "append_event wlog row =
     bindE (guardE (row_ts row < 2 ^ 63)
              (PyExc ''OverflowError'' ''Python int too large to convert to SQLite INTEGER'')) (\<lambda>_. Inr (wlog @ [row]))"

text \<open>A call that nothing comes between.\<close>

definition insert_watchdog_event :: "wec_log \<Rightarrow> wec_call \<Rightarrow> (wec_log \<times> string) res" where
  "insert_watchdog_event wlog q =
     bindE (link_event wlog (stamp_ts wlog q) q) (\<lambda>row.
     bindE (append_event wlog row) (\<lambda>wlog'. Inr (wlog', wr_wec_hash row)))"

text \<open>
  Calls in progress, each under a number: one has read the latest time, or has its row. A call that
  raises, or whose process dies, is gone.
\<close>

datatype wec_stage = Stamped wec_call int | Linked wec_call wec_row

fun stage_call :: "wec_stage \<Rightarrow> wec_call" where
  "stage_call (Stamped q ts) = q"
| "stage_call (Linked q row) = q"

datatype wec_action = BeginCall nat wec_call | LinkCall nat | AppendCall nat | AbandonCall nat

type_synonym wec_state = "wec_log \<times> (nat \<times> wec_stage) list"

definition drop_call :: "nat \<Rightarrow> (nat \<times> wec_stage) list \<Rightarrow> (nat \<times> wec_stage) list" where
  "drop_call i pend = filter (\<lambda>(j, st). j \<noteq> i) pend"

fun wec_act :: "wec_action \<Rightarrow> wec_state \<Rightarrow> wec_state" where
  "wec_act (BeginCall i q) (wlog, pend) = (wlog, (i, Stamped q (stamp_ts wlog q)) # drop_call i pend)"
| "wec_act (LinkCall i) (wlog, pend) =
     (case map_of pend i of
        Some (Stamped q ts) \<Rightarrow>
          (case link_event wlog ts q of
             Inl e \<Rightarrow> (wlog, drop_call i pend)
           | Inr row \<Rightarrow> (wlog, (i, Linked q row) # drop_call i pend))
      | _ \<Rightarrow> (wlog, pend))"
| "wec_act (AppendCall i) (wlog, pend) =
     (case map_of pend i of
        Some (Linked q row) \<Rightarrow>
          (case append_event wlog row of
             Inl e \<Rightarrow> (wlog, drop_call i pend)
           | Inr wlog' \<Rightarrow> (wlog', drop_call i pend))
      | _ \<Rightarrow> (wlog, pend))"
| "wec_act (AbandonCall i) (wlog, pend) = (wlog, drop_call i pend)"

definition wec_run :: "wec_action list \<Rightarrow> wec_state" where
  "wec_run acts = fold wec_act acts ([], [])"

record wec_status =
  ws_grind_session_id :: string
  ws_chain_length :: nat
  ws_latest_wec_hash :: string
  ws_chain_intact :: bool
  ws_last_event_code :: "int option"
  ws_last_event_name :: string
  ws_last_event_ts :: real
  ws_restarts_last_hour :: nat
  ws_genesis_ts :: real

text \<open>
  The recomputation of one row: the previous row's stored hash, or the genesis, is the predecessor,
  and the session of the query replaces the one of the row.
\<close>

definition wec_link :: "string \<Rightarrow> bytes option \<Rightarrow> wec_row \<Rightarrow> bytes res" where
  "wec_link sid p r =
     bindE (case p of None \<Rightarrow> genesis_wec sid (row_ts r) | Some h \<Rightarrow> Inr h) (\<lambda>prev.
       compute_wec prev ((wr_event r)\<lparr>we_session_id := sid\<rparr>))"

definition get_watchdog_event_chain_status ::
  "wec_log \<Rightarrow> string \<Rightarrow> int \<Rightarrow> int \<Rightarrow> wec_status res" where
  "get_watchdog_event_chain_status wlog sid limit now_ns =
     (let rows = sql_limit limit (order_asc row_ts (if sid \<noteq> [] then session_rows sid wlog else wlog))
      in if rows = []
         then Inr \<lparr>ws_grind_session_id = sid, ws_chain_length = 0, ws_latest_wec_hash = [],
                   ws_chain_intact = True, ws_last_event_code = None, ws_last_event_name = [],
                   ws_last_event_ts = 0, ws_restarts_last_hour = 0, ws_genesis_ts = 0\<rparr>
         else
           (let latest = last rows;
                sid_for_chain = (if sid \<noteq> [] then sid else row_sid latest);
                restart_code = dget_or EVENT_CODES ''BRIDGE_RESTART_TRIGGERED'' 0;
                cutoff_ns = now_ns - 3600000000000
            in bindE (verify_loop (wec_link sid_for_chain) wr_wec_hash None rows) (\<lambda>intact.
               Inr \<lparr>ws_grind_session_id = sid_for_chain, ws_chain_length = length rows,
                    ws_latest_wec_hash = wr_wec_hash latest, ws_chain_intact = intact,
                    ws_last_event_code = Some (we_event_code (wr_event latest)),
                    ws_last_event_name = wr_event_name latest,
                    ws_last_event_ts = real_of_int (row_ts latest) / 1000000000,
                    ws_restarts_last_hour =
                      length (filter (\<lambda>r. we_event_code (wr_event r) = restart_code
                                          \<and> cutoff_ns \<le> row_ts r) rows),
                    ws_genesis_ts = real_of_int (row_ts (hd rows)) / 1000000000\<rparr>)))"

subsection \<open>The invariant of the log\<close>

text \<open>A row names its session and the predecessor it was chained to (none for a genesis row).\<close>

definition wec_good :: "string \<Rightarrow> bytes option \<Rightarrow> wec_row \<Rightarrow> bool" where
  "wec_good sid p r \<longleftrightarrow> row_sid r = sid
     \<and> wr_prev_wec_hash r = (case p of None \<Rightarrow> [] | Some g \<Rightarrow> hex g)"

interpretation wl: chain_log "wec_link sid" "wec_good sid" row_ts wr_wec_hash for sid
  by unfold_locales (auto simp: wec_link_def bindE_Inr dest: compute_wec_length)

definition log_inv :: "wec_log \<Rightarrow> bool" where
  "log_inv wlog \<longleftrightarrow>
     (\<forall>r \<in> set wlog. row_sid r \<noteq> [])
     \<and> (\<forall>sid. sid \<noteq> []
          \<longrightarrow> linked (wec_link sid) (wec_good sid) row_ts wr_wec_hash None 0 (session_rows sid wlog))"

lemma prev_ts_bound:
  assumes "r \<in> set (session_rows sid wlog)"
  shows "row_ts r \<le> prev_ts wlog sid"
proof -
  have "row_ts r \<in> set (map row_ts (session_rows sid wlog))" using assms by simp
  then show ?thesis by (auto simp: prev_ts_def Let_def intro!: Max_ge)
qed

lemma prev_ts_empty: "session_rows sid wlog = [] \<Longrightarrow> prev_ts wlog sid = 0"
  by (simp add: prev_ts_def)

lemma session_rows_snoc:
  "session_rows sid (wlog @ [r]) = session_rows sid wlog @ (if row_sid r = sid then [r] else [])"
  by (simp add: session_rows_def)

lemma event_session [simp]: "row_sid r = sid \<Longrightarrow> (wr_event r)\<lparr>we_session_id := sid\<rparr> = wr_event r"
  by auto

text \<open>The writer keeps the invariant.\<close>

lemma insert_keeps_log_inv:
  assumes inv: "log_inv wlog" and sid: "wq_session_id q \<noteq> []"
    and ins: "insert_watchdog_event wlog q = Inr (wlog', wec_hex)"
  shows "log_inv wlog'"
proof -
  define sid where "sid = wq_session_id q"
  define ts where "ts = stamp_ts wlog q"
  define ev where "ev = \<lparr>we_event_code = wq_event_code q, we_pid = wq_pid q, we_session_id = sid, we_ts_ns = ts\<rparr>"
  let ?rows = "session_rows sid wlog"
  have sid: "sid \<noteq> []" using sid by (simp add: sid_def)
  have chain: "wl.chain sid None 0 ?rows" using inv sid by (simp add: log_inv_def)
  have ts: "prev_ts wlog sid < ts" by (simp add: ts_def stamp_ts_def sid_def Let_def)
  from ins obtain prev pw ph wec where ins':
    "get_prev_watchdog_event_hash wlog sid = Inr prev"
    "(case prev of None \<Rightarrow> bindE (genesis_wec sid ts) (\<lambda>g. Inr (g, [])) | Some h \<Rightarrow> Inr (h, hex h))
       = Inr (pw, ph)"
    "compute_wec pw ev = Inr wec"
    "wlog' = wlog @ [\<lparr>wr_event = ev, wr_event_name = take 64 (wq_event_name q), wr_wec_hash = hex wec,
       wr_prev_wec_hash = ph, wr_metadata_json = wq_metadata_json q, wr_created_at = wq_now q\<rparr>]"
    unfolding insert_watchdog_event_def link_event_def append_event_def Let_def ts_def [symmetric] sid_def [symmetric]
      ev_def [symmetric]
    by (auto simp: bindE_Inr guardE_Inr split: prod.splits)
  define r where "r = \<lparr>wr_event = ev, wr_event_name = take 64 (wq_event_name q), wr_wec_hash = hex wec,
    wr_prev_wec_hash = ph, wr_metadata_json = wq_metadata_json q, wr_created_at = wq_now q\<rparr>"
  have r: "row_ts r = ts" "row_sid r = sid" "wlog' = wlog @ [r]" "wr_wec_hash r = hex wec"
    using ins'(4) by (simp_all add: r_def ev_def)
  have step: "wec_good sid prev r \<and> wec_link sid prev r = Inr wec"
    using ins'(2,3) by (cases prev) (auto simp: wec_good_def wec_link_def r_def ev_def bindE_Inr)
  have new: "wl.chain sid None 0 (?rows @ [r])"
  proof (cases "?rows = []")
    case True
    then have "prev = None"
      using ins'(1) sid by (simp add: get_prev_watchdog_event_hash_def first_row_def)
    then show ?thesis using True ts r step prev_ts_empty [OF True] by auto
  next
    case False
    obtain h where h: "wr_wec_hash (last ?rows) = hex h"
      using wl.chain_last_hash [OF chain False] by blast
    then have "prev = Some h"
      using ins'(1) sid wl.chain_latest [OF chain False]
      by (simp add: get_prev_watchdog_event_hash_def fromhex_hex)
    moreover have "row_ts (last ?rows) < row_ts r"
      using prev_ts_bound [of "last ?rows" sid wlog] False ts r by simp
    ultimately show ?thesis using wl.chain_snoc [OF chain False h, of r wec] step r by simp
  qed
  show ?thesis
    using inv sid new r unfolding log_inv_def by (auto simp: session_rows_snoc)
qed

subsection \<open>The status of an honest log\<close>

lemma sql_limit_take: "0 < limit \<Longrightarrow> sql_limit limit rows = take (nat limit) rows"
  by (simp add: sql_limit_def)

lemma honest_status:
  assumes inv: "log_inv wlog" and sid: "sid \<noteq> []" and ne: "session_rows sid wlog \<noteq> []"
    and lim: "0 < limit"
  obtains st where "get_watchdog_event_chain_status wlog sid limit now = Inr st"
    "ws_chain_intact st" "ws_grind_session_id st = sid"
    "ws_chain_length st = min (nat limit) (length (session_rows sid wlog))"
    "ws_latest_wec_hash st = wr_wec_hash (last (take (nat limit) (session_rows sid wlog)))"
    "ws_last_event_ts st = real_of_int (row_ts (last (take (nat limit) (session_rows sid wlog)))) / 1000000000"
proof -
  let ?rows = "session_rows sid wlog"
  have chain: "wl.chain sid None 0 ?rows" using inv sid by (simp add: log_inv_def)
  have "sql_limit limit (order_asc row_ts ?rows) = take (nat limit) ?rows"
    using wl.chain_order [OF chain] lim by (simp add: sql_limit_take)
  moreover have "take (nat limit) ?rows \<noteq> []" using ne lim by simp
  ultimately show thesis
    using that sid wl.verify_take [OF chain, of "nat limit"]
    unfolding get_watchdog_event_chain_status_def Let_def by (simp add: min.commute)
qed

text \<open>The offline verifier agrees: every row of an honest session is valid and has its parent.\<close>

lemma linked_row_valid:
  assumes "wec_good sid q r" "wec_link sid q r = Inr h" "wr_wec_hash r = hex h"
    and "\<forall>g. q = Some g \<longrightarrow> length g = 32"
  shows "row_valid r" and "\<not> row_aborts r"
proof -
  have "row_prev r = (case q of None \<Rightarrow> genesis_wec sid (row_ts r) | Some g \<Rightarrow> Inr g)"
    using assms(1,4) by (cases q) (auto simp: wec_good_def row_prev_def fromhex_hex hex_Nil_iff)
  then show "row_valid r" "\<not> row_aborts r"
    using assms(1-3)
    by (auto simp: row_valid_def row_check_def row_aborts_def wec_link_def wec_good_def bindE_Inr)
qed

lemma honest_session_verifies:
  assumes "log_inv wlog" and "sid \<noteq> []"
  shows "\<exists>rep. verify_wec_links (session_rows sid wlog) = Inr rep \<and> report_intact rep
    \<and> n_invalid rep = 0 \<and> n_orphans rep = 0"
proof -
  let ?rows = "session_rows sid wlog"
  have chain: "wl.chain sid None 0 ?rows" using assms by (simp add: log_inv_def)
  have rows: "row_valid r \<and> \<not> row_aborts r
    \<and> (wr_prev_wec_hash r \<noteq> [] \<longrightarrow> wr_prev_wec_hash r \<in> wr_wec_hash ` set ?rows)"
    if mem: "r \<in> set ?rows" for r
  proof -
    obtain q h where q: "wec_good sid q r" "wec_link sid q r = Inr h" "wr_wec_hash r = hex h"
      "\<forall>g. q = Some g \<longrightarrow> length g = 32 \<and> hex g \<in> wr_wec_hash ` set ?rows"
      using wl.chain_link_rows [OF chain _ mem] by auto
    then show ?thesis
      using linked_row_valid [OF q(1-3)] by (auto simp: wec_good_def split: option.splits)
  qed
  then have "\<not> list_ex row_aborts ?rows" by (auto simp: list_ex_iff)
  then obtain rep where rep: "verify_wec_links ?rows = Inr rep" "report_of ?rows rep"
    using verify_wec_links_report by blast
  have "n_invalid rep = 0 \<and> n_orphans rep = 0 \<and> report_intact rep"
    using rep(2) rows by (auto simp: report_of_def filter_empty_conv row_orphan_def list_all_iff)
  then show ?thesis using rep(1) by blast
qed

subsection \<open>Calls that do not overlap\<close>

text \<open>No two calls of one session are in progress at once.\<close>

fun act_apart :: "wec_action \<Rightarrow> wec_state \<Rightarrow> bool" where
  "act_apart (BeginCall i q) (wlog, pend) \<longleftrightarrow> wq_session_id q \<noteq> [] \<and>
     list_all (\<lambda>(j, st). wq_session_id (stage_call st) \<noteq> wq_session_id q) pend"
| "act_apart a s \<longleftrightarrow> True"

fun run_apart :: "wec_action list \<Rightarrow> wec_state \<Rightarrow> bool" where
  "run_apart [] s \<longleftrightarrow> True"
| "run_apart (a # acts) s \<longleftrightarrow> act_apart a s \<and> run_apart acts (wec_act a s)"

text \<open>A call in progress would still read what it has read.\<close>

fun stage_ok :: "wec_log \<Rightarrow> wec_stage \<Rightarrow> bool" where
  "stage_ok wlog (Stamped q ts) \<longleftrightarrow> ts = stamp_ts wlog q"
| "stage_ok wlog (Linked q row) \<longleftrightarrow> link_event wlog (stamp_ts wlog q) q = Inr row"

definition sessions :: "(nat \<times> wec_stage) list \<Rightarrow> string list" where
  "sessions pend = map (\<lambda>(j, st). wq_session_id (stage_call st)) pend"

fun wec_inv :: "wec_state \<Rightarrow> bool" where
  "wec_inv (wlog, pend) \<longleftrightarrow> log_inv wlog \<and> distinct (sessions pend) \<and> [] \<notin> set (sessions pend) \<and>
     list_all (\<lambda>(j, st). stage_ok wlog st) pend"

lemma sessions_drop: "distinct (sessions pend) \<Longrightarrow> distinct (sessions (drop_call i pend))"
  "set (sessions (drop_call i pend)) \<subseteq> set (sessions pend)"
  unfolding sessions_def drop_call_def by (auto simp: distinct_map_filter)

lemma drop_subset: "set (drop_call i pend) \<subseteq> set pend"
  by (auto simp: drop_call_def)

lemma wec_inv_drop: "wec_inv (wlog, pend) \<Longrightarrow> wec_inv (wlog, drop_call i pend)"
  using sessions_drop(1) [of pend i] sessions_drop(2) [of i pend] drop_subset [of i pend] by (auto simp: list_all_iff)

lemma session_dropped:
  assumes "distinct (sessions pend)" and "(i, st) \<in> set pend"
  shows "wq_session_id (stage_call st) \<notin> set (sessions (drop_call i pend))"
proof
  assume "wq_session_id (stage_call st) \<in> set (sessions (drop_call i pend))"
  then obtain j st' where "(j, st') \<in> set pend" "j \<noteq> i" "wq_session_id (stage_call st') = wq_session_id (stage_call st)"
    by (auto simp: sessions_def drop_call_def)
  moreover have "inj_on (\<lambda>(j, st). wq_session_id (stage_call st)) (set pend)"
    using assms(1) by (simp add: sessions_def distinct_map)
  ultimately show False using inj_onD [of _ "set pend" "(j, st')" "(i, st)"] assms(2) by fastforce
qed

text \<open>A row of another session changes nothing for a call.\<close>

lemma stage_ok_other:
  assumes "stage_ok wlog st" and "row_sid row \<noteq> wq_session_id (stage_call st)" and "wq_session_id (stage_call st) \<noteq> []"
  shows "stage_ok (wlog @ [row]) st"
proof -
  let ?sid = "wq_session_id (stage_call st)"
  have "session_rows ?sid (wlog @ [row]) = session_rows ?sid wlog" using assms(2) by (simp add: session_rows_snoc)
  then have "stamp_ts (wlog @ [row]) (stage_call st) = stamp_ts wlog (stage_call st)"
    "get_prev_watchdog_event_hash (wlog @ [row]) ?sid = get_prev_watchdog_event_hash wlog ?sid"
    using assms(3) by (simp_all add: stamp_ts_def prev_ts_def get_prev_watchdog_event_hash_def)
  then show ?thesis using assms(1) by (cases st) (simp_all add: link_event_def)
qed

lemma link_event_session: "link_event wlog ts q = Inr row \<Longrightarrow> row_sid row = wq_session_id q"
  by (auto simp: link_event_def Let_def bindE_Inr split: prod.splits)

lemma wec_inv_act:
  assumes "wec_inv (wlog, pend)" and "act_apart a (wlog, pend)"
  shows "wec_inv (wec_act a (wlog, pend))"
proof (cases a)
  case (BeginCall i q)
  have "wq_session_id q \<notin> set (sessions pend)" using assms(2) by (auto simp: BeginCall sessions_def list_all_iff)
  then have "wq_session_id q \<notin> set (sessions (drop_call i pend))" using sessions_drop(2) by blast
  moreover have "sessions ((i, Stamped q ts) # drop_call i pend) = wq_session_id q # sessions (drop_call i pend)" for ts
    by (simp add: sessions_def)
  ultimately show ?thesis using wec_inv_drop [OF assms(1), of i] assms(2) by (auto simp: BeginCall)
next
  case (LinkCall i)
  show ?thesis
  proof (cases "\<exists>q ts row. map_of pend i = Some (Stamped q ts) \<and> link_event wlog ts q = Inr row")
    case True
    then obtain q ts row where m: "map_of pend i = Some (Stamped q ts)" "link_event wlog ts q = Inr row" by blast
    have mem: "(i, Stamped q ts) \<in> set pend" by (rule map_of_SomeD [OF m(1)])
    then have "ts = stamp_ts wlog q" "wq_session_id q \<noteq> []"
      using assms(1) by (force simp: list_all_iff sessions_def)+
    moreover have "wq_session_id q \<notin> set (sessions (drop_call i pend))"
      using session_dropped [OF _ mem] assms(1) by simp
    moreover have "sessions ((i, Linked q row) # drop_call i pend) = wq_session_id q # sessions (drop_call i pend)"
      by (simp add: sessions_def)
    ultimately show ?thesis using wec_inv_drop [OF assms(1), of i] m by (auto simp: LinkCall)
  next
    case False
    then show ?thesis
      using assms(1) wec_inv_drop [OF assms(1), of i] by (auto simp: LinkCall split: option.split wec_stage.split sum.split)
  qed
next
  case (AppendCall i)
  show ?thesis
  proof (cases "\<exists>q row wlog'. map_of pend i = Some (Linked q row) \<and> append_event wlog row = Inr wlog'")
    case True
    then obtain q row wlog' where m: "map_of pend i = Some (Linked q row)" "append_event wlog row = Inr wlog'" by blast
    have mem: "(i, Linked q row) \<in> set pend" by (rule map_of_SomeD [OF m(1)])
    then have l: "link_event wlog (stamp_ts wlog q) q = Inr row" "wq_session_id q \<noteq> []"
      using assms(1) by (force simp: list_all_iff sessions_def)+
    have w: "wlog' = wlog @ [row]" using m(2) by (auto simp: append_event_def bindE_Inr)
    have "insert_watchdog_event wlog q = Inr (wlog', wr_wec_hash row)"
      using l(1) m(2) by (simp add: insert_watchdog_event_def)
    from insert_keeps_log_inv [OF _ l(2) this] have "log_inv wlog'" using assms(1) by simp
    moreover have "stage_ok wlog' st" if "(j, st) \<in> set (drop_call i pend)" for j st
    proof -
      have "wq_session_id (stage_call st) \<in> set (sessions (drop_call i pend))" using that by (force simp: sessions_def)
      then have "wq_session_id (stage_call st) \<noteq> wq_session_id q" "wq_session_id (stage_call st) \<noteq> []"
        using session_dropped [OF _ mem] sessions_drop(2) [of i pend] assms(1) by auto
      then show ?thesis
        using stage_ok_other [of wlog st row] link_event_session [OF l(1)] assms(1) that drop_subset [of i pend]
        unfolding w by (auto simp: list_all_iff)
    qed
    ultimately show ?thesis
      using wec_inv_drop [OF assms(1), of i] m by (auto simp: AppendCall list_all_iff)
  next
    case False
    then show ?thesis
      using assms(1) wec_inv_drop [OF assms(1), of i] by (auto simp: AppendCall split: option.split wec_stage.split sum.split)
  qed
next
  case (AbandonCall i)
  then show ?thesis using wec_inv_drop [OF assms(1)] by simp
qed

lemma log_inv_Nil: "log_inv []"
  by (simp add: log_inv_def session_rows_def)

lemma wec_inv_fold: "wec_inv s \<Longrightarrow> run_apart acts s \<Longrightarrow> wec_inv (fold wec_act acts s)"
proof (induction acts arbitrary: s)
  case (Cons a acts)
  then show ?case using wec_inv_act [of "fst s" "snd s" a] by simp
qed simp

lemma run_log_inv: "run_apart acts ([], []) \<Longrightarrow> log_inv (fst (wec_run acts))"
  using wec_inv_fold [of "([], [])" acts] log_inv_Nil
  by (cases "wec_run acts") (simp add: wec_run_def sessions_def)

subsection \<open>Properties\<close>

text \<open>
  C23: A log written by calls with session names, whose transactions interleave across sessions in any
  order, with clocks that step back and with calls that raise or die between their transactions, is
  reported intact for every session, by the status query and by the offline verifier, and the status
  counts the session's rows up to its limit, as long as no two calls of one session overlap.
\<close>

theorem written_log_is_intact:
  assumes "run_apart acts ([], [])" and "wec_run acts = (wlog, pend)" and "sid \<noteq> []" and "0 < limit"
    and "session_rows sid wlog \<noteq> []"
  shows "(\<exists>st. get_watchdog_event_chain_status wlog sid limit now = Inr st \<and> ws_chain_intact st
       \<and> ws_chain_length st = min (nat limit) (length (session_rows sid wlog)))
    \<and> (\<exists>rep. verify_wec_links (session_rows sid wlog) = Inr rep \<and> report_intact rep)"
proof
  have inv: "log_inv wlog" using run_log_inv [OF assms(1)] assms(2) by simp
  show "\<exists>st. get_watchdog_event_chain_status wlog sid limit now = Inr st \<and> ws_chain_intact st
       \<and> ws_chain_length st = min (nat limit) (length (session_rows sid wlog))"
    by (rule honest_status [OF inv assms(3,5,4), of now]) blast
  show "\<exists>rep. verify_wec_links (session_rows sid wlog) = Inr rep \<and> report_intact rep"
    using honest_session_verifies [OF inv assms(3)] by blast
qed

definition demo_call :: "int \<Rightarrow> wec_call" where
  "demo_call t = \<lparr>wq_event_code = 1, wq_event_name = ''BRIDGE_START'', wq_pid = 77,
     wq_session_id = ''g1'', wq_ts_ns = t, wq_metadata_json = ''{}'', wq_now = 0\<rparr>"

definition demo_acts :: "wec_action list" where
  "demo_acts = [BeginCall 0 (demo_call 5), LinkCall 0, AppendCall 0, BeginCall 1 (demo_call 3), LinkCall 1, AppendCall 1]"

definition demo_log :: wec_log where
  "demo_log = fst (wec_run demo_acts)"

lemma demo_rows:
  "\<exists>r1 r2. session_rows ''g1'' demo_log = [r1, r2]
     \<and> row_ts r1 = 5 \<and> row_ts r2 = 6" and demo_apart: "run_apart demo_acts ([], [])"
proof -
  obtain g where g: "genesis_wec ''g1'' 5 = Inr g" by (auto simp: genesis_wec_def pack_u_def)
  have w: "\<exists>w. compute_wec p \<lparr>we_event_code = 1, we_pid = 77, we_session_id = ''g1'', we_ts_ns = t\<rparr> = Inr w"
    if "t = 5 \<or> t = 6" for p t
    using that by (auto simp: compute_wec_def wec_input_def pack_u_def)
  obtain w1 where w1: "compute_wec g \<lparr>we_event_code = 1, we_pid = 77, we_session_id = ''g1'', we_ts_ns = 5\<rparr> = Inr w1"
    using w by blast
  obtain w2 where w2: "compute_wec w1 \<lparr>we_event_code = 1, we_pid = 77, we_session_id = ''g1'', we_ts_ns = 6\<rparr> = Inr w2"
    using w by blast
  note [simp] = demo_log_def demo_acts_def wec_run_def demo_call_def stamp_ts_def link_event_def append_event_def guardE_def
    drop_call_def prev_ts_def session_rows_def get_prev_watchdog_event_hash_def order_desc_def first_row_def fromhex_hex Let_def
  show "\<exists>r1 r2. session_rows ''g1'' demo_log = [r1, r2] \<and> row_ts r1 = 5 \<and> row_ts r2 = 6"
    by (simp add: g w1 w2)
  show "run_apart demo_acts ([], [])" by (simp add: g w1 w2)
qed

theorem written_log_is_intact_witness:
  "\<exists>st. get_watchdog_event_chain_status demo_log ''g1'' 100 0 = Inr st
     \<and> ws_chain_intact st \<and> ws_chain_length st = 2"
  using written_log_is_intact [OF demo_apart surjective_pairing, of "''g1''" 100 0] demo_rows
  unfolding demo_log_def [symmetric] by auto

text \<open>
  Two calls of one session that overlap, here with the same event at the same time, both chain to the
  genesis: the status then reports the log intact only if the hash is a fixed point of the formula.
\<close>

definition overlapping_acts :: "wec_action list" where
  "overlapping_acts = [BeginCall 0 (demo_call 5), BeginCall 1 (demo_call 5), LinkCall 0, LinkCall 1, AppendCall 0, AppendCall 1]"

lemma overlapping_calls_fork:
  defines "ev \<equiv> \<lparr>we_event_code = 1, we_pid = 77, we_session_id = ''g1'', we_ts_ns = 5\<rparr>"
  shows "map wr_prev_wec_hash (session_rows ''g1'' (fst (wec_run overlapping_acts))) = [[], []]"
    and "get_watchdog_event_chain_status (fst (wec_run overlapping_acts)) ''g1'' 100 now = Inr st \<Longrightarrow> ws_chain_intact st \<Longrightarrow>
      \<exists>h. compute_wec h ev = Inr h"
proof -
  obtain g where g: "genesis_wec ''g1'' 5 = Inr g" by (auto simp: genesis_wec_def pack_u_def)
  obtain w where w: "compute_wec g ev = Inr w" by (auto simp: ev_def compute_wec_def wec_input_def pack_u_def)
  obtain w2 where w2: "compute_wec w ev = Inr w2" by (auto simp: ev_def compute_wec_def wec_input_def pack_u_def)
  let ?row = "\<lparr>wr_event = ev, wr_event_name = ''BRIDGE_START'', wr_wec_hash = hex w, wr_prev_wec_hash = [],
    wr_metadata_json = ''{}'', wr_created_at = 0\<rparr>"
  have log: "fst (wec_run overlapping_acts) = [?row, ?row]"
    using w by (simp add: overlapping_acts_def wec_run_def demo_call_def stamp_ts_def link_event_def append_event_def guardE_def
      drop_call_def prev_ts_def session_rows_def get_prev_watchdog_event_hash_def order_desc_def first_row_def Let_def g ev_def)
  show "map wr_prev_wec_hash (session_rows ''g1'' (fst (wec_run overlapping_acts))) = [[], []]"
    by (simp add: log session_rows_def ev_def)
  have rows: "sql_limit 100 (order_asc row_ts (session_rows ''g1'' [?row, ?row])) = [?row, ?row]"
    by (simp add: session_rows_def ev_def sql_limit_def order_asc_def)
  have ev: "ev\<lparr>we_session_id := ''g1''\<rparr> = ev" "we_ts_ns ev = 5" by (simp_all add: ev_def)
  assume "get_watchdog_event_chain_status (fst (wec_run overlapping_acts)) ''g1'' 100 now = Inr st" "ws_chain_intact st"
  then have "hex w2 = hex w"
    unfolding log get_watchdog_event_chain_status_def Let_def
    using w w2 by (auto simp: rows ev wec_link_def g fromhex_hex split: if_splits)
  then show "\<exists>h. compute_wec h ev = Inr h" using w2 by (auto simp: hex_inj)
qed

text \<open>
  Once a session has more rows than the limit, the status keeps reporting the row at the limit
  as the latest: its time is older than the newest row's, however many rows follow.
\<close>

theorem status_is_stale_past_limit:
  assumes "log_inv wlog" and "sid \<noteq> []" and "0 < limit" and "nat limit < length (session_rows sid wlog)"
  shows "\<exists>st. get_watchdog_event_chain_status wlog sid limit now = Inr st \<and> ws_chain_length st = nat limit
    \<and> ws_latest_wec_hash st = wr_wec_hash (session_rows sid wlog ! (nat limit - 1))
    \<and> ws_last_event_ts st < real_of_int (row_ts (last (session_rows sid wlog))) / 1000000000"
proof -
  let ?rows = "session_rows sid wlog" and ?n = "nat limit"
  have ne: "?rows \<noteq> []" using assms(4) by auto
  obtain st where st: "get_watchdog_event_chain_status wlog sid limit now = Inr st"
    "ws_chain_length st = min ?n (length ?rows)"
    "ws_latest_wec_hash st = wr_wec_hash (last (take ?n ?rows))"
    "ws_last_event_ts st = real_of_int (row_ts (last (take ?n ?rows))) / 1000000000"
    by (rule honest_status [OF assms(1,2) ne assms(3), of now])
  have last: "last (take ?n ?rows) = ?rows ! (?n - 1)"
    using assms(3,4) ne last_conv_nth [of "take ?n ?rows"] by (simp add: min_absorb2)
  have "wl.chain sid None 0 ?rows" using assms(1,2) by (simp add: log_inv_def)
  from wl.chain_sorted [OF this] have "sorted_wrt (<) (map row_ts ?rows)" by simp
  then have "row_ts (?rows ! (?n - 1)) < row_ts (?rows ! (length ?rows - 1))"
    using assms(3,4) by (intro sorted_wrt_nth_less [of "\<lambda>x y. row_ts x < row_ts y"]) (auto simp: sorted_wrt_map)
  then show ?thesis
    using st last ne assms(4) by (simp add: last_conv_nth divide_strict_right_mono)
qed

theorem status_is_stale_past_limit_witness:
  "\<exists>st. get_watchdog_event_chain_status demo_log ''g1'' 1 0 = Inr st
     \<and> ws_last_event_ts st < 6 / 1000000000"
proof -
  obtain r1 r2 where rows: "session_rows ''g1'' demo_log = [r1, r2]"
    "row_ts r2 = 6" using demo_rows by blast
  have "log_inv demo_log" unfolding demo_log_def by (rule run_log_inv [OF demo_apart])
  from status_is_stale_past_limit [OF this, of "''g1''" 1 0] show ?thesis by (auto simp: rows)
qed

end
