(* ===== verification/Json.thy ===== *)
theory Json
  imports Prelude
begin

section \<open>JSON values\<close>

text \<open>
  The values \<open>json.loads\<close> returns, how Python tests and converts them, and the parser of the
  standard library itself. An object is a dictionary in insertion order, where a repeated key
  keeps its first position and its last value. Text is UTF-8, so an escaped code point becomes its
  UTF-8 bytes. The literals \<open>NaN\<close> and \<open>Infinity\<close>, which Python accepts as floats, are not
  numbers here and are refused.
\<close>

datatype json =
    JNull
  | JBool bool
  | JInt int
  | JFloat real
  | JStr string
  | JArr "json list"
  | JObj "(string \<times> json) list"

fun truthy :: "json \<Rightarrow> bool" where
  "truthy JNull = False"
| "truthy (JBool b) = b"
| "truthy (JInt i) = (i \<noteq> 0)"
| "truthy (JFloat r) = (r \<noteq> 0)"
| "truthy (JStr s) = (s \<noteq> [])"
| "truthy (JArr xs) = (xs \<noteq> [])"
| "truthy (JObj kvs) = (kvs \<noteq> [])"

text \<open>\<open>bool(d.get(k))\<close>, where a missing key is \<open>None\<close>\<close>

definition get_truthy :: "(string \<times> json) list \<Rightarrow> string \<Rightarrow> bool" where
  "get_truthy d k = (case dget d k of None \<Rightarrow> False | Some v \<Rightarrow> truthy v)"

definition jget :: "(string \<times> json) list \<Rightarrow> string \<Rightarrow> json" where
  "jget d k = dget_or d k JNull"

subsection \<open>Numbers in text\<close>

definition is_digit :: "char \<Rightarrow> bool" where
  "is_digit c = (let n = (of_char c :: nat) in 48 \<le> n \<and> n \<le> 57)"

definition digits_val :: "string \<Rightarrow> nat" where
  "digits_val ds = foldl (\<lambda>n c. 10 * n + (of_char c - 48)) 0 ds"

definition is_blank :: "char \<Rightarrow> bool" where
  "is_blank c = (let n = (of_char c :: nat) in n = 32 \<or> (9 \<le> n \<and> n \<le> 13) \<or> (28 \<le> n \<and> n \<le> 31))"

definition strip :: "string \<Rightarrow> string" where
  "strip s = rev (dropWhile is_blank (rev (dropWhile is_blank s)))"

lemma of_char_digit: "d < 10 \<Longrightarrow> of_char (digit_char d) = 48 + d"
  unfolding digit_char_def by (simp add: of_char_of)

lemma is_digit_char: "d < 10 \<Longrightarrow> is_digit (digit_char d)"
  unfolding is_digit_def Let_def by (simp add: of_char_digit)

lemma dec_nat_digits: "list_all is_digit (dec_nat n)"
  by (induction n rule: dec_nat.induct) (subst dec_nat.simps, simp add: is_digit_char)

lemma dec_nat_nonempty [simp]: "dec_nat n \<noteq> []"
  by (subst dec_nat.simps) simp

lemma digits_val_snoc: "digits_val (ds @ [c]) = 10 * digits_val ds + (of_char c - 48)"
  by (simp add: digits_val_def)

lemma digits_val_dec_nat: "digits_val (dec_nat n) = n"
proof (induction n rule: dec_nat.induct)
  case (1 n)
  show ?case
  proof (cases "n < 10")
    case True
    then show ?thesis by (subst dec_nat.simps) (simp add: digits_val_def of_char_digit)
  next
    case False
    then have "dec_nat n = dec_nat (n div 10) @ [digit_char (n mod 10)]" by (subst dec_nat.simps) simp
    then show ?thesis using 1 False by (simp add: digits_val_snoc of_char_digit)
  qed
qed

lemma dec_int_chars: "set (dec_int i) \<subseteq> insert (CHR ''-'') (Collect is_digit)"
  using dec_nat_digits [of "nat i"] dec_nat_digits [of "nat (- i)"] by (auto simp: dec_int_def list_all_iff)

lemma dec_int_inj: "dec_int i = dec_int j \<longleftrightarrow> i = j"
proof
  assume eq: "dec_int i = dec_int j"
  have minus: "CHR ''-'' \<notin> set (dec_nat n)" for n
    using dec_nat_digits [of n] by (auto simp: list_all_iff is_digit_def)
  have sign: "k < 0 \<longleftrightarrow> CHR ''-'' \<in> set (dec_int k)" for k using minus by (simp add: dec_int_def)
  have nat_inj: "dec_nat m = dec_nat n \<Longrightarrow> m = n" for m n by (metis digits_val_dec_nat)
  show "i = j"
  proof (cases "i < 0")
    case True
    then have "j < 0" using eq sign by metis
    then have "nat (- i) = nat (- j)" using True eq by (intro nat_inj) (simp add: dec_int_def)
    then show ?thesis using True \<open>j < 0\<close> by simp
  next
    case False
    then have "\<not> j < 0" using eq sign by metis
    then have "nat i = nat j" using False eq by (intro nat_inj) (simp add: dec_int_def)
    then show ?thesis using False \<open>\<not> j < 0\<close> by simp
  qed
qed simp

text \<open>An unsigned decimal literal: integer digits, an optional fraction, an optional exponent.\<close>

definition take_fraction :: "string \<Rightarrow> (string \<times> string) option" where
  "take_fraction s =
     (case s of
        c # r \<Rightarrow> if c = CHR ''.'' \<and> takeWhile is_digit r \<noteq> []
                then Some (takeWhile is_digit r, dropWhile is_digit r) else None
      | [] \<Rightarrow> None)"

definition take_exponent :: "string \<Rightarrow> (int \<times> string) option" where
  "take_exponent s =
     (case s of
        c # r \<Rightarrow>
          if c = CHR ''e'' \<or> c = CHR ''E''
          then (let (sg, r') = (case r of
                        d # q \<Rightarrow> if d = CHR ''-'' then (-1, q) else if d = CHR ''+'' then (1, q) else (1, r)
                      | [] \<Rightarrow> (1, r))
                in if takeWhile is_digit r' = [] then None
                   else Some (sg * int (digits_val (takeWhile is_digit r')), dropWhile is_digit r'))
          else None
      | [] \<Rightarrow> None)"

definition scale10 :: "real \<Rightarrow> int \<Rightarrow> real" where
  "scale10 x e = (if 0 \<le> e then x * 10 ^ nat e else x / 10 ^ nat (- e))"

definition decimal_value :: "string \<Rightarrow> string \<Rightarrow> int \<Rightarrow> real" where
  "decimal_value ip fp e = scale10 (real (digits_val (ip @ fp))) (e - int (length fp))"

definition parse_number :: "string \<Rightarrow> (json \<times> string) option" where
  "parse_number s =
     (let (neg, s1) = (case s of c # r \<Rightarrow> if c = CHR ''-'' then (True, r) else (False, s) | [] \<Rightarrow> (False, s));
          ds = takeWhile is_digit s1;
          ip = (if startswith ds ''0'' then ''0'' else ds);
          s2 = drop (length ip) s1;
          fr = take_fraction s2;
          s3 = (case fr of None \<Rightarrow> s2 | Some (_, r) \<Rightarrow> r);
          ex = take_exponent s3
      in if ip = [] then None
         else if fr = None \<and> ex = None
         then Some (JInt (if neg then - int (digits_val ip) else int (digits_val ip)), s2)
         else
           (let v = decimal_value ip (case fr of None \<Rightarrow> [] | Some (f, _) \<Rightarrow> f)
                      (case ex of None \<Rightarrow> 0 | Some (e, _) \<Rightarrow> e)
            in Some (JFloat (if neg then - v else v),
                     (case ex of None \<Rightarrow> s3 | Some (_, r) \<Rightarrow> r))))"

text \<open>\<open>float(s)\<close> of a text: surrounding blanks, a sign, then a decimal literal in full.\<close>

definition parse_float :: "string \<Rightarrow> real option" where
  "parse_float t =
     (let s = strip t;
          (neg, s1) = (case s of
              c # r \<Rightarrow> if c = CHR ''-'' then (True, r) else if c = CHR ''+'' then (False, r) else (False, s)
            | [] \<Rightarrow> (False, s));
          ip = takeWhile is_digit s1;
          s2 = dropWhile is_digit s1;
          (fp, s3) = (case s2 of
              c # r \<Rightarrow> if c = CHR ''.'' then (takeWhile is_digit r, dropWhile is_digit r) else ([], s2)
            | [] \<Rightarrow> ([], s2));
          (e, s4) = (case take_exponent s3 of None \<Rightarrow> (0, s3) | Some er \<Rightarrow> er)
      in if ip = [] \<and> fp = [] \<or> s4 \<noteq> [] then None
         else Some ((if neg then -1 else 1) * decimal_value ip fp e))"

text \<open>\<open>int(s)\<close> of a text\<close>

definition parse_int :: "string \<Rightarrow> int option" where
  "parse_int t =
     (let s = strip t;
          (neg, s1) = (case s of
              c # r \<Rightarrow> if c = CHR ''-'' then (True, r) else if c = CHR ''+'' then (False, r) else (False, s)
            | [] \<Rightarrow> (False, s))
      in if s1 = [] \<or> \<not> list_all is_digit s1 then None
         else Some ((if neg then -1 else 1) * int (digits_val s1)))"

abbreviation TypeError :: "string \<Rightarrow> py_exc" where
  "TypeError m \<equiv> PyExc ''TypeError'' m"

text \<open>\<open>float(v)\<close> and \<open>int(v)\<close> of a JSON value\<close>

definition py_float :: "json \<Rightarrow> real res" where
  "py_float v =
     (case v of
        JBool b \<Rightarrow> Inr (if b then 1 else 0)
      | JInt i \<Rightarrow> Inr (real_of_int i)
      | JFloat r \<Rightarrow> Inr r
      | JStr s \<Rightarrow> (case parse_float s of
            None \<Rightarrow> Inl (ValueError (''could not convert string to float: '' @ s))
          | Some r \<Rightarrow> Inr r)
      | _ \<Rightarrow> Inl (TypeError ''float() argument must be a string or a real number''))"

definition trunc :: "real \<Rightarrow> int" where
  "trunc r = (if 0 \<le> r then \<lfloor>r\<rfloor> else \<lceil>r\<rceil>)"

definition py_int :: "json \<Rightarrow> int res" where
  "py_int v =
     (case v of
        JBool b \<Rightarrow> Inr (if b then 1 else 0)
      | JInt i \<Rightarrow> Inr i
      | JFloat r \<Rightarrow> Inr (trunc r)
      | JStr s \<Rightarrow> (case parse_int s of
            None \<Rightarrow> Inl (ValueError (''invalid literal for int() with base 10: '' @ s))
          | Some r \<Rightarrow> Inr r)
      | _ \<Rightarrow> Inl (TypeError ''int() argument must be a string or a real number''))"

subsection \<open>The parser\<close>

definition hex_digit_val :: "char \<Rightarrow> nat option" where
  "hex_digit_val c =
     (let n = (of_char c :: nat) in
      if 48 \<le> n \<and> n \<le> 57 then Some (n - 48)
      else if 97 \<le> n \<and> n \<le> 102 then Some (n - 87)
      else if 65 \<le> n \<and> n \<le> 70 then Some (n - 55)
      else None)"

definition hex4 :: "string \<Rightarrow> (nat \<times> string) option" where
  "hex4 s =
     (case s of
        a # b # c # d # r \<Rightarrow>
          (case (hex_digit_val a, hex_digit_val b, hex_digit_val c, hex_digit_val d) of
             (Some w, Some x, Some y, Some z) \<Rightarrow> Some (4096 * w + 256 * x + 16 * y + z, r)
           | _ \<Rightarrow> None)
      | _ \<Rightarrow> None)"

definition utf8 :: "nat \<Rightarrow> string" where
  "utf8 cp =
     (if cp < 128 then [char_of cp]
      else if cp < 2048 then [char_of (192 + cp div 64), char_of (128 + cp mod 64)]
      else if cp < 65536 then
        [char_of (224 + cp div 4096), char_of (128 + cp div 64 mod 64), char_of (128 + cp mod 64)]
      else [char_of (240 + cp div 262144), char_of (128 + cp div 4096 mod 64),
            char_of (128 + cp div 64 mod 64), char_of (128 + cp mod 64)])"

definition simple_escape :: "char \<Rightarrow> char option" where
  "simple_escape c =
     map_of [(CHR 0x22, CHR 0x22), (CHR 0x5C, CHR 0x5C), (CHR ''/'', CHR ''/''),
       (CHR ''b'', CHR 0x08), (CHR ''f'', CHR 0x0C), (CHR ''n'', CHR 0x0A),
       (CHR ''r'', CHR 0x0D), (CHR ''t'', CHR 0x09)] c"

text \<open>A \<open>\u\<close> escape; a high surrogate joins with a low one that follows at once.\<close>

definition unicode_escape :: "string \<Rightarrow> (string \<times> string) option" where
  "unicode_escape s =
     (case hex4 s of
        None \<Rightarrow> None
      | Some (u, r) \<Rightarrow>
          (if 55296 \<le> u \<and> u \<le> 56319 \<and> startswith r [CHR 0x5C, CHR ''u''] then
             (case hex4 (drop 2 r) of
                None \<Rightarrow> None
              | Some (v, r') \<Rightarrow>
                  if 56320 \<le> v \<and> v \<le> 57343
                  then Some (utf8 (65536 + (u - 55296) * 1024 + (v - 56320)), r')
                  else Some (utf8 u, r))
           else Some (utf8 u, r)))"

text \<open>The body of a string up to its closing quote; one unit of fuel per character is enough.\<close>

fun parse_string :: "nat \<Rightarrow> string \<Rightarrow> (string \<times> string) option" where
  "parse_string 0 s = None"
| "parse_string (Suc n) [] = None"
| "parse_string (Suc n) (c # cs) =
     (if c = CHR 0x22 then Some ([], cs)
      else if c = CHR 0x5C then
        (case cs of
           [] \<Rightarrow> None
         | e # r \<Rightarrow>
             (case (if e = CHR ''u'' then unicode_escape r
                    else map_option (\<lambda>x. ([x], r)) (simple_escape e)) of
                None \<Rightarrow> None
              | Some (x, r') \<Rightarrow> map_option (\<lambda>(y, q). (x @ y, q)) (parse_string n r')))
      else if (of_char c :: nat) < 32 then None
      else map_option (\<lambda>(y, q). (c # y, q)) (parse_string n cs))"

definition is_ws :: "char \<Rightarrow> bool" where
  "is_ws c = (c = CHR '' '' \<or> c = CHR 0x09 \<or> c = CHR 0x0A \<or> c = CHR 0x0D)"

definition skip_ws :: "string \<Rightarrow> string" where
  "skip_ws s = dropWhile is_ws s"

text \<open>
  Values, the rest of an array and the rest of an object. A value that is an array or an object
  consumes a character before it goes on, an element or a member does not before its value, so
  fuel of two per character of the text is enough.
\<close>

fun parse_value :: "nat \<Rightarrow> string \<Rightarrow> (json \<times> string) option"
  and parse_elems :: "nat \<Rightarrow> string \<Rightarrow> (json list \<times> string) option"
  and parse_members :: "nat \<Rightarrow> (string \<times> json) list \<Rightarrow> string \<Rightarrow> ((string \<times> json) list \<times> string) option"
where
  "parse_value 0 s = None"
| "parse_value (Suc n) s =
     (case s of
        [] \<Rightarrow> None
      | c # r \<Rightarrow>
          if c = CHR 0x22 then map_option (\<lambda>(x, q). (JStr x, q)) (parse_string (length s) r)
          else if c = CHR ''{'' then
            (if startswith (skip_ws r) ''}'' then Some (JObj [], drop 1 (skip_ws r))
             else map_option (\<lambda>(kvs, q). (JObj kvs, q)) (parse_members n [] (skip_ws r)))
          else if c = CHR ''['' then
            (if startswith (skip_ws r) '']'' then Some (JArr [], drop 1 (skip_ws r))
             else map_option (\<lambda>(xs, q). (JArr xs, q)) (parse_elems n (skip_ws r)))
          else if startswith s ''null'' then Some (JNull, drop 4 s)
          else if startswith s ''true'' then Some (JBool True, drop 4 s)
          else if startswith s ''false'' then Some (JBool False, drop 5 s)
          else parse_number s)"
| "parse_elems 0 s = None"
| "parse_elems (Suc n) s =
     (case parse_value n s of
        None \<Rightarrow> None
      | Some (v, r) \<Rightarrow>
          (case skip_ws r of
             [] \<Rightarrow> None
           | c # q \<Rightarrow>
               if c = CHR '']'' then Some ([v], q)
               else if c = CHR '','' then map_option (\<lambda>(vs, p). (v # vs, p)) (parse_elems n (skip_ws q))
               else None))"
| "parse_members 0 d s = None"
| "parse_members (Suc n) d s =
     (if \<not> startswith s [CHR 0x22] then None
      else
        (case parse_string (length s) (drop 1 s) of
           None \<Rightarrow> None
         | Some (k, r) \<Rightarrow>
             (if \<not> startswith (skip_ws r) '':'' then None
              else
                (case parse_value n (skip_ws (drop 1 (skip_ws r))) of
                   None \<Rightarrow> None
                 | Some (v, q) \<Rightarrow>
                     (case skip_ws q of
                        [] \<Rightarrow> None
                      | c # p \<Rightarrow>
                          if c = CHR ''}'' then Some (dput k v d, p)
                          else if c = CHR '','' then parse_members n (dput k v d) (skip_ws p)
                          else None)))))"

definition json_loads :: "string \<Rightarrow> json option" where
  "json_loads s =
     (case parse_value (2 * length s + 2) (skip_ws s) of
        Some (v, r) \<Rightarrow> if skip_ws r = [] then Some v else None
      | None \<Rightarrow> None)"

end
