(* ===== verification/Consent.thy ===== *)
theory Consent
  imports Json ChainLog
begin

section \<open>Consent: categories, commitment, ledger and gate\<close>

text \<open>
  \<open>bridge/vapi_bridge/consent_categories.py\<close>: the four categories, their bitmask and the 67-byte
  commitment; \<open>store/consent_mixin.py\<close> and \<open>store/_core.py\<close>: the consent ledger (one row per device
  and type, written by an upsert), its event log and the gate that blocks an operation on a device
  whose consent is revoked. Row ids that only callers outside these files read are left out.
\<close>

unbundle bit_operations_syntax

subsection \<open>Categories\<close>

datatype consent_category = TOURNAMENT_GATE | ANONYMIZED_RESEARCH | MANUFACTURER_CERT | MARKETPLACE

fun cat_value :: "consent_category \<Rightarrow> nat" where
  "cat_value TOURNAMENT_GATE = 0"
| "cat_value ANONYMIZED_RESEARCH = 1"
| "cat_value MANUFACTURER_CERT = 2"
| "cat_value MARKETPLACE = 3"

lemma cat_value_inj [simp]: "cat_value c = cat_value d \<longleftrightarrow> c = d"
  by (cases c; cases d) simp_all

lemma cat_value_less: "cat_value c < 4"
  by (cases c) simp_all

lemma cat_value_onto: "n < 4 \<Longrightarrow> \<exists>c. cat_value c = n"
proof -
  assume "n < 4"
  then have "n = 0 \<or> n = 1 \<or> n = 2 \<or> n = 3" by linarith
  then show ?thesis by (metis cat_value.simps)
qed

text \<open>An \<open>IntEnum\<close> is ordered by its values.\<close>

instantiation consent_category :: linorder
begin

definition less_eq_consent_category :: "consent_category \<Rightarrow> consent_category \<Rightarrow> bool" where
  "less_eq_consent_category c d \<longleftrightarrow> cat_value c \<le> cat_value d"

definition less_consent_category :: "consent_category \<Rightarrow> consent_category \<Rightarrow> bool" where
  "less_consent_category c d \<longleftrightarrow> cat_value c < cat_value d"

instance
  by standard (auto simp: less_eq_consent_category_def less_consent_category_def)

end

definition ALL_CATEGORIES :: "consent_category list" where
  "ALL_CATEGORIES = [TOURNAMENT_GATE, ANONYMIZED_RESEARCH, MANUFACTURER_CERT, MARKETPLACE]"

definition CATEGORY_NAMES :: "(consent_category, string) dict" where
  "CATEGORY_NAMES =
     [(TOURNAMENT_GATE, ''TOURNAMENT_GATE''), (ANONYMIZED_RESEARCH, ''ANONYMIZED_RESEARCH''),
      (MANUFACTURER_CERT, ''MANUFACTURER_CERT''), (MARKETPLACE, ''MARKETPLACE'')]"

definition NAME_TO_CATEGORY :: "(string, consent_category) dict" where
  "NAME_TO_CATEGORY = map (\<lambda>(k, v). (v, k)) CATEGORY_NAMES"

definition category_from_name :: "string \<Rightarrow> consent_category res" where
  "category_from_name name =
     (case dget NAME_TO_CATEGORY name of
        None \<Rightarrow> Inl (ValueError (''unknown consent category: '' @ name))
      | Some c \<Rightarrow> Inr c)"

definition cat_bit :: "consent_category \<Rightarrow> int" where
  "cat_bit c = push_bit (cat_value c) 1"

fun or_bits :: "int \<Rightarrow> consent_category list \<Rightarrow> int" where
  "or_bits bm [] = bm"
| "or_bits bm (c # cs) = or_bits (bm OR cat_bit c) cs"

abbreviation uint32_max :: int where
  "uint32_max \<equiv> 4294967295"

definition categories_to_bitmask :: "consent_category list \<Rightarrow> int res" where
  "categories_to_bitmask cs =
     (let bm = or_bits 0 cs in
      if 0 \<le> bm \<and> bm \<le> uint32_max then Inr bm
      else Inl (ValueError (''bitmask overflow uint32: '' @ dec_int bm)))"

definition bitmask_to_categories :: "int \<Rightarrow> consent_category list res" where
  "bitmask_to_categories bitmask =
     bindE (guardE (0 \<le> bitmask \<and> bitmask \<le> uint32_max)
              (ValueError (''bitmask out of uint32 range: '' @ dec_int bitmask)))
       (\<lambda>_. Inr (filter (\<lambda>c. bitmask AND cat_bit c \<noteq> 0) ALL_CATEGORIES))"

subsection \<open>The commitment\<close>

datatype device_id = DevStr string | DevBytes bytes

text \<open>Hex of 32 bytes, with or without \<open>0x\<close>, 32 raw bytes, or the hash of any other text.\<close>

definition device_id_to_bytes32 :: "device_id \<Rightarrow> bytes res" where
  "device_id_to_bytes32 dev =
     (case dev of
        DevBytes b \<Rightarrow>
          if length b = 32 then Inr b
          else Inl (ValueError (''raw device_id must be 32 bytes, got '' @ dec_nat (length b)))
      | DevStr t \<Rightarrow>
          (let s0 = strip t;
               s = (if startswith s0 ''0x'' \<or> startswith s0 ''0X'' then drop 2 s0 else s0)
           in case fromhex s of
                Inr b \<Rightarrow> if length b = 32 then Inr b else Inr (sha256 (encode t))
              | Inl _ \<Rightarrow> Inr (sha256 (encode t))))"

definition consent_tag :: bytes where
  "consent_tag = encode ''VAPI-CONSENT-v1''"

definition consent_bitmask :: "int + consent_category list \<Rightarrow> int res" where
  "consent_bitmask cats =
     (case cats of
        Inl bitmask \<Rightarrow>
          if 0 \<le> bitmask \<and> bitmask \<le> uint32_max then Inr bitmask
          else Inl (ValueError (''bitmask out of uint32 range: '' @ dec_int bitmask))
      | Inr cs \<Rightarrow> categories_to_bitmask cs)"

definition consent_preimage :: "device_id \<Rightarrow> int + consent_category list \<Rightarrow> int \<Rightarrow> int \<Rightarrow> bytes res" where
  "consent_preimage dev cats expires_at_ts ts_ns =
     bindE (consent_bitmask cats) (\<lambda>bm.
     bindE (guardE (0 \<le> expires_at_ts \<and> expires_at_ts \<le> 18446744073709551615)
              (ValueError (''expires_at_ts out of uint64 range: '' @ dec_int expires_at_ts))) (\<lambda>_.
     bindE (guardE (0 \<le> ts_ns \<and> ts_ns \<le> 18446744073709551615)
              (ValueError (''ts_ns out of uint64 range: '' @ dec_int ts_ns))) (\<lambda>_.
     bindE (device_id_to_bytes32 dev) (\<lambda>dev_b.
     bindE (pack_u 4 bm) (\<lambda>m.
     bindE (pack_u 8 expires_at_ts) (\<lambda>e.
     bindE (pack_u 8 ts_ns) (\<lambda>t.
       Inr (consent_tag @ dev_b @ m @ e @ t))))))))"

definition compute_consent_hash :: "device_id \<Rightarrow> int + consent_category list \<Rightarrow> int \<Rightarrow> int \<Rightarrow> bytes res" where
  "compute_consent_hash dev cats expires_at_ts ts_ns =
     bindE (consent_preimage dev cats expires_at_ts ts_ns) (\<lambda>m. Inr (sha256 m))"

lemma bit_or_bits: "bit (or_bits bm cs) n \<longleftrightarrow> bit bm n \<or> n \<in> cat_value ` set cs"
  by (induction cs arbitrary: bm) (auto simp: bit_or_iff cat_bit_def bit_exp_iff)

lemma take_bit_or_bits: "take_bit 4 bm = bm \<Longrightarrow> take_bit 4 (or_bits bm cs) = or_bits bm cs"
proof (induction cs arbitrary: bm)
  case Nil
  then show ?case by simp
next
  case (Cons c cs)
  have "take_bit 4 (cat_bit c) = cat_bit c"
    by (cases c) (simp_all add: cat_bit_def push_bit_eq_mult take_bit_eq_mod)
  then show ?case using Cons by (simp add: take_bit_or)
qed

lemma or_bits_range: "0 \<le> or_bits 0 cs \<and> or_bits 0 cs < 16"
proof -
  have "take_bit 4 (or_bits 0 cs) = or_bits 0 cs" by (rule take_bit_or_bits) simp
  then show ?thesis
    using take_bit_nonnegative [of 4 "or_bits 0 cs"] take_bit_int_less_exp [of 4 "or_bits 0 cs"] by simp
qed

lemma categories_to_bitmask_Inr: "categories_to_bitmask cs = Inr (or_bits 0 cs)"
  using or_bits_range [of cs] by (simp add: categories_to_bitmask_def Let_def)

lemma and_cat_bit: "bm AND cat_bit c \<noteq> 0 \<longleftrightarrow> bit bm (cat_value c)"
  by (simp add: cat_bit_def bit_iff_and_push_bit_not_eq_0)

lemma sorted_ALL_CATEGORIES: "sorted ALL_CATEGORIES" "distinct ALL_CATEGORIES"
  "set ALL_CATEGORIES = UNIV"
proof -
  show "set ALL_CATEGORIES = UNIV"
    unfolding ALL_CATEGORIES_def by (auto intro: consent_category.exhaust)
qed (simp_all add: ALL_CATEGORIES_def less_eq_consent_category_def)

lemma finite_categories [simp]: "finite (S :: consent_category set)"
  by (rule finite_subset [OF _ finite_set [of ALL_CATEGORIES]]) (simp add: sorted_ALL_CATEGORIES)

lemma filter_ALL_CATEGORIES: "filter P ALL_CATEGORIES = sorted_list_of_set {c. P c}"
  by (rule sorted_distinct_set_unique) (simp_all add: sorted_ALL_CATEGORIES sorted_filter [of id, simplified])

lemma bitmask_to_categories_Inr:
  assumes "0 \<le> bm" and "bm \<le> uint32_max"
  shows "bitmask_to_categories bm = Inr (sorted_list_of_set {c. bit bm (cat_value c)})"
  using assms by (simp add: bitmask_to_categories_def and_cat_bit filter_ALL_CATEGORIES)

lemma categories_roundtrip:
  "bindE (categories_to_bitmask cs) bitmask_to_categories = Inr (sorted_list_of_set (set cs))"
proof -
  have "{c. bit (or_bits 0 cs) (cat_value c)} = set cs" by (auto simp: bit_or_bits)
  then show ?thesis
    using or_bits_range [of cs] by (simp add: categories_to_bitmask_Inr bitmask_to_categories_Inr)
qed

lemma bitmask_roundtrip:
  assumes "bitmask_to_categories bm = Inr cs"
  shows "categories_to_bitmask cs = Inr (bm mod 16)"
proof -
  have cs: "set cs = {c. bit bm (cat_value c)}"
    using assms by (auto simp: bitmask_to_categories_def bindE_guardE_Inr and_cat_bit sorted_ALL_CATEGORIES)
  have "or_bits 0 cs = take_bit 4 bm"
  proof (rule bit_eqI)
    fix n
    have "(\<exists>c. n = cat_value c \<and> bit bm n) \<longleftrightarrow> n < 4 \<and> bit bm n"
      using cat_value_less cat_value_onto [of n] by auto
    then show "bit (or_bits 0 cs) n \<longleftrightarrow> bit (take_bit 4 bm) n"
      by (auto simp: bit_or_bits bit_take_bit_iff cs)
  qed
  then show ?thesis by (simp add: categories_to_bitmask_Inr take_bit_eq_mod)
qed

subsection \<open>What a commitment binds\<close>

lemma device_bytes_length: "device_id_to_bytes32 dev = Inr b \<Longrightarrow> length b = 32"
  by (auto simp: device_id_to_bytes32_def Let_def split: device_id.splits if_splits sum.splits)

lemma consent_preimage_Inr:
  "consent_preimage dev cats ex ts = Inr m \<longleftrightarrow>
     (\<exists>bm dev_b mb eb tb. consent_bitmask cats = Inr bm \<and> device_id_to_bytes32 dev = Inr dev_b
        \<and> pack_u 4 bm = Inr mb \<and> pack_u 8 ex = Inr eb \<and> pack_u 8 ts = Inr tb
        \<and> m = consent_tag @ dev_b @ mb @ eb @ tb)"
  by (auto simp: consent_preimage_def bindE_Inr guardE_Inr pack_u_Inr)

lemma consent_preimage_length: "consent_preimage dev cats ex ts = Inr m \<Longrightarrow> length m = 67"
  by (auto simp: consent_preimage_Inr consent_tag_def encode_def
      dest!: device_bytes_length pack_u_length)

lemma consent_preimage_inj:
  assumes "consent_preimage dev cats ex ts = Inr m" and "consent_preimage dev' cats' ex' ts' = Inr m"
  shows "device_id_to_bytes32 dev = device_id_to_bytes32 dev'
    \<and> consent_bitmask cats = consent_bitmask cats' \<and> ex = ex' \<and> ts = ts'"
proof -
  from assms(1) obtain bm dev_b mb eb tb where a: "consent_bitmask cats = Inr bm"
    "device_id_to_bytes32 dev = Inr dev_b" "pack_u 4 bm = Inr mb" "pack_u 8 ex = Inr eb"
    "pack_u 8 ts = Inr tb" "m = consent_tag @ dev_b @ mb @ eb @ tb"
    unfolding consent_preimage_Inr by (elim exE conjE)
  from assms(2) obtain bm' dev_b' mb' eb' tb' where a': "consent_bitmask cats' = Inr bm'"
    "device_id_to_bytes32 dev' = Inr dev_b'" "pack_u 4 bm' = Inr mb'" "pack_u 8 ex' = Inr eb'"
    "pack_u 8 ts' = Inr tb'" "m = consent_tag @ dev_b' @ mb' @ eb' @ tb'"
    unfolding consent_preimage_Inr by (elim exE conjE)
  note len = a(2) [THEN device_bytes_length] a(3-5) [THEN pack_u_length]
    a'(2) [THEN device_bytes_length] a'(3-5) [THEN pack_u_length]
  have "dev_b = dev_b' \<and> mb = mb' \<and> eb = eb' \<and> tb = tb'"
    using a(6) a'(6) len by simp
  then show ?thesis using a a' pack_u_inj by (metis (no_types, lifting))
qed

subsection \<open>The ledger\<close>

record consent_row =
  cr_consent_given :: bool
  cr_consent_ts :: "real option"
  cr_revoked_at :: "real option"
  cr_revocation_reason :: "string option"
  cr_erasure_requested :: bool
  cr_erasure_completed :: bool
  cr_created_at :: real

record consent_event =
  ce_device_id :: string
  ce_category :: string
  ce_action :: string
  ce_ts :: real
  ce_tx_hash :: string
  ce_reason :: string

record consent_violation =
  cv_device_id :: string
  cv_operation :: string
  cv_blocked_reason :: string
  cv_created_at :: real

record consent_db =
  cd_ledger :: "(string \<times> string, consent_row) dict"
  cd_events :: "consent_event list"
  cd_violations :: "consent_violation list"

definition insert_consent_record ::
  "consent_db \<Rightarrow> string \<Rightarrow> string \<Rightarrow> bool \<Rightarrow> real option \<Rightarrow> real \<Rightarrow> consent_db" where
  "insert_consent_record db dev ty given ts now =
     (let t = (case ts of None \<Rightarrow> now | Some x \<Rightarrow> x);
          row = (case dget (cd_ledger db) (dev, ty) of
             None \<Rightarrow> \<lparr>cr_consent_given = given, cr_consent_ts = Some t, cr_revoked_at = None,
                      cr_revocation_reason = None, cr_erasure_requested = False,
                      cr_erasure_completed = False, cr_created_at = now\<rparr>
           | Some r \<Rightarrow> r\<lparr>cr_consent_given := given, cr_consent_ts := Some t\<rparr>)
      in db\<lparr>cd_ledger := dput (dev, ty) row (cd_ledger db)\<rparr>)"

definition revoke_consent ::
  "consent_db \<Rightarrow> string \<Rightarrow> string \<Rightarrow> string \<Rightarrow> real \<Rightarrow> consent_db \<times> bool" where
  "revoke_consent db dev ty reason now =
     (case dget (cd_ledger db) (dev, ty) of
        None \<Rightarrow> (db, False)
      | Some r \<Rightarrow>
          (db\<lparr>cd_ledger := dput (dev, ty)
                (r\<lparr>cr_consent_given := False, cr_revoked_at := Some now,
                   cr_revocation_reason := Some reason, cr_erasure_requested := True\<rparr>)
                (cd_ledger db)\<rparr>, True))"

text \<open>What the completion of an erasure does to the ledger\<close>

definition complete_erasure :: "consent_db \<Rightarrow> string \<Rightarrow> consent_db" where
  "complete_erasure db dev =
     db\<lparr>cd_ledger := map (\<lambda>(k, r). (k, if fst k = dev then r\<lparr>cr_erasure_completed := True\<rparr> else r)) (cd_ledger db)\<rparr>"

record consent_status =
  cs_consent_given :: bool
  cs_consent_ts :: "real option"
  cs_revoked :: bool
  cs_revocation_reason :: string
  cs_erasure_requested :: bool
  cs_erasure_completed :: bool
  cs_found :: bool

definition get_consent_status :: "consent_db \<Rightarrow> string \<Rightarrow> string \<Rightarrow> consent_status" where
  "get_consent_status db dev ty =
     (case dget (cd_ledger db) (dev, ty) of
        Some r \<Rightarrow> \<lparr>cs_consent_given = cr_consent_given r, cs_consent_ts = cr_consent_ts r,
                   cs_revoked = (cr_revoked_at r \<noteq> None),
                   cs_revocation_reason = (case cr_revocation_reason r of None \<Rightarrow> [] | Some x \<Rightarrow> x),
                   cs_erasure_requested = cr_erasure_requested r,
                   cs_erasure_completed = cr_erasure_completed r, cs_found = True\<rparr>
      | None \<Rightarrow> \<lparr>cs_consent_given = False, cs_consent_ts = None, cs_revoked = False,
                 cs_revocation_reason = [], cs_erasure_requested = False,
                 cs_erasure_completed = False, cs_found = False\<rparr>)"

text \<open>
  The gate logs the violation before it raises, so it returns the state with the exception. An
  empty category falls back to the default type like a missing one.
\<close>

definition check_consent_gate ::
  "consent_db \<Rightarrow> string \<Rightarrow> string \<Rightarrow> string option \<Rightarrow> real \<Rightarrow> consent_db \<times> unit res" where
  "check_consent_gate db dev operation category now =
     (let ty = (case category of None \<Rightarrow> ''biometric_processing''
                | Some c \<Rightarrow> if c = [] then ''biometric_processing'' else c);
          status = get_consent_status db dev ty
      in if cs_erasure_requested status \<or> cs_revoked status then
           (let reason = (if cs_erasure_requested status then ''erasure_requested'' else ''consent_revoked'')
            in (db\<lparr>cd_violations := cd_violations db @
                    [\<lparr>cv_device_id = dev, cv_operation = operation, cv_blocked_reason = reason,
                      cv_created_at = now\<rparr>]\<rparr>,
                Inl (ValueError (''Consent gate: device '' @ dev @ '' blocked for operation '' @ operation
                  @ '' (category='' @ ty @ '') reason: '' @ reason))))
         else (db, Inr ()))"

definition insert_consent_event ::
  "consent_db \<Rightarrow> string \<Rightarrow> string \<Rightarrow> string \<Rightarrow> real option \<Rightarrow> string \<Rightarrow> real \<Rightarrow> consent_db" where
  "insert_consent_event db dev category action ts reason now =
     db\<lparr>cd_events := cd_events db @
          [\<lparr>ce_device_id = dev, ce_category = category, ce_action = action,
            ce_ts = (case ts of None \<Rightarrow> now | Some x \<Rightarrow> x), ce_tx_hash = [], ce_reason = reason\<rparr>]\<rparr>"

definition get_consent_history :: "consent_db \<Rightarrow> string \<Rightarrow> int \<Rightarrow> consent_event list" where
  "get_consent_history db dev limit =
     (if dev = [] then []
      else take (nat (max 1 (min 500 limit)))
             (order_desc ce_ts (rev (filter (\<lambda>e. ce_device_id e = dev) (cd_events db)))))"

definition grant_category_consent ::
  "consent_db \<Rightarrow> string \<Rightarrow> string \<Rightarrow> string \<Rightarrow> int option \<Rightarrow> real \<Rightarrow> consent_db res" where
  "grant_category_consent db dev category consent_hash ts_ns now =
     bindE (guardE (dget NAME_TO_CATEGORY category \<noteq> None)
              (ValueError (''unknown consent category: '' @ category))) (\<lambda>_.
     bindE (guardE (consent_hash = [] \<or> length consent_hash = 64)
              (ValueError (''consent_hash must be 64 hex chars or empty, got ''
                 @ dec_nat (length consent_hash)))) (\<lambda>_.
       let consent_ts = map_option (\<lambda>n. real_of_int n / 1000000000) ts_ns;
           db1 = insert_consent_record db dev category True consent_ts now
       in Inr (insert_consent_event db1 dev category ''GRANT'' consent_ts [] now)))"

definition revoke_category_consent ::
  "consent_db \<Rightarrow> string \<Rightarrow> string \<Rightarrow> string \<Rightarrow> real \<Rightarrow> (consent_db \<times> bool) res" where
  "revoke_category_consent db dev category reason now =
     bindE (guardE (dget NAME_TO_CATEGORY category \<noteq> None)
              (ValueError (''unknown consent category: '' @ category))) (\<lambda>_.
       let (db1, updated) = revoke_consent db dev category reason now
       in Inr (if updated then insert_consent_event db1 dev category ''REVOKE'' None reason now else db1,
               updated))"

definition consent_granted :: "consent_status \<Rightarrow> bool" where
  "consent_granted s \<longleftrightarrow> cs_consent_given s \<and> \<not> cs_revoked s \<and> \<not> cs_erasure_requested s"

definition get_category_consent_status ::
  "consent_db \<Rightarrow> string \<Rightarrow> string \<Rightarrow> (consent_status \<times> bool) res" where
  "get_category_consent_status db dev category =
     bindE (guardE (dget NAME_TO_CATEGORY category \<noteq> None)
              (ValueError (''unknown consent category: '' @ category))) (\<lambda>_.
       let base = get_consent_status db dev category in Inr (base, consent_granted base))"

text \<open>The same query for all categories at once.\<close>

definition get_all_consent_status ::
  "consent_db \<Rightarrow> string \<Rightarrow> (string \<times> consent_status \<times> bool) list" where
  "get_all_consent_status db dev =
     map (\<lambda>cat. let name = dget_or CATEGORY_NAMES cat []; base = get_consent_status db dev name
               in (name, base, consent_granted base)) ALL_CATEGORIES"

definition active_row :: "consent_row \<Rightarrow> bool" where
  "active_row r \<longleftrightarrow> cr_consent_given r \<and> \<not> cr_erasure_requested r \<and> cr_revoked_at r = None"

definition get_active_consent_devices :: "consent_db \<Rightarrow> (string \<times> string \<times> real option) list" where
  "get_active_consent_devices db =
     map (\<lambda>((dev, ty), r). (dev, ty, cr_consent_ts r)) (filter (\<lambda>(_, r). active_row r) (cd_ledger db))"

record consent_coverage =
  cc_total_registered :: nat
  cc_active_consent_count :: nat
  cc_revoked_count :: nat
  cc_erasure_requested_count :: nat
  cc_consent_corpus_defensible :: bool

definition get_consent_corpus_coverage :: "consent_db \<Rightarrow> consent_coverage" where
  "get_consent_corpus_coverage db =
     (let rows = map snd (cd_ledger db);
          revoked = length (filter (\<lambda>r. cr_revoked_at r \<noteq> None) rows);
          erasure = length (filter cr_erasure_requested rows)
      in \<lparr>cc_total_registered = length rows,
          cc_active_consent_count = length (filter active_row rows),
          cc_revoked_count = revoked, cc_erasure_requested_count = erasure,
          cc_consent_corpus_defensible = (revoked = 0 \<and> erasure = 0 \<and> 0 < length rows)\<rparr>)"

subsection \<open>Histories of the ledger\<close>

definition consent_blocked :: "consent_db \<Rightarrow> string \<Rightarrow> string \<Rightarrow> bool" where
  "consent_blocked db dev ty \<longleftrightarrow>
     (case dget (cd_ledger db) (dev, ty) of None \<Rightarrow> False
      | Some r \<Rightarrow> cr_erasure_requested r \<or> cr_revoked_at r \<noteq> None)"

lemma gate_iff:
  "snd (check_consent_gate db dev op cat now) = Inr () \<longleftrightarrow>
     \<not> consent_blocked db dev (case cat of None \<Rightarrow> ''biometric_processing''
         | Some c \<Rightarrow> if c = [] then ''biometric_processing'' else c)"
  by (auto simp: check_consent_gate_def get_consent_status_def consent_blocked_def Let_def
      split: option.splits)

lemma granted_not_blocked: "consent_granted (get_consent_status db dev ty) \<Longrightarrow> \<not> consent_blocked db dev ty"
  by (auto simp: consent_granted_def get_consent_status_def consent_blocked_def split: option.splits)

text \<open>The operations the bridge runs on the ledger, in any order and with any arguments.\<close>

inductive consent_step :: "consent_db \<Rightarrow> consent_db \<Rightarrow> bool" where
  register: "consent_step db (insert_consent_record db dev ty given ts now)"
| revoke: "revoke_consent db dev ty reason now = (db', u) \<Longrightarrow> consent_step db db'"
| grant_category: "grant_category_consent db dev cat h ts now = Inr db' \<Longrightarrow> consent_step db db'"
| revoke_category: "revoke_category_consent db dev cat reason now = Inr (db', u) \<Longrightarrow> consent_step db db'"
| gate: "check_consent_gate db dev op cat now = (db', r) \<Longrightarrow> consent_step db db'"
| erase: "consent_step db (complete_erasure db dev)"

inductive_cases consent_stepE: "consent_step db db'"

lemma insert_consent_record_simps [simp]:
  "cd_events (insert_consent_record db dev ty given ts now) = cd_events db"
  "cd_violations (insert_consent_record db dev ty given ts now) = cd_violations db"
  "consent_blocked (insert_consent_record db dev ty given ts now) d y \<longleftrightarrow> consent_blocked db d y"
  by (auto simp: insert_consent_record_def consent_blocked_def Let_def split: option.splits)

lemma insert_consent_event_simps [simp]:
  "cd_ledger (insert_consent_event db dev c a ts r now) = cd_ledger db"
  "consent_blocked (insert_consent_event db dev c a ts r now) d y \<longleftrightarrow> consent_blocked db d y"
  "\<exists>e. cd_events (insert_consent_event db dev c a ts r now) = cd_events db @ e"
  by (auto simp: insert_consent_event_def consent_blocked_def)

lemma dget_map_rows: "dget (map (\<lambda>(k, r). (k, f k r)) d) k = map_option (f k) (dget d k)"
  by (induction d) auto

lemma complete_erasure_simps [simp]:
  "cd_events (complete_erasure db dev) = cd_events db"
  "consent_blocked (complete_erasure db dev) d y \<longleftrightarrow> consent_blocked db d y"
  by (auto simp: complete_erasure_def consent_blocked_def dget_map_rows split: option.splits)

lemma revoke_consent_keeps:
  assumes "revoke_consent db dev ty reason now = (db', u)"
  shows "consent_blocked db d y \<Longrightarrow> consent_blocked db' d y" and "cd_events db' = cd_events db"
    and "u \<Longrightarrow> consent_blocked db' dev ty"
  using assms by (auto simp: revoke_consent_def consent_blocked_def split: option.splits if_splits)

lemma gate_keeps:
  assumes "check_consent_gate db dev op cat now = (db', r)"
  shows "cd_ledger db' = cd_ledger db" and "cd_events db' = cd_events db"
  using assms by (auto simp: check_consent_gate_def Let_def split: if_splits)

lemma step_keeps_blocked: "consent_step db db' \<Longrightarrow> consent_blocked db d y \<Longrightarrow> consent_blocked db' d y"
proof (induction rule: consent_step.induct)
  case (gate db dev op cat now db' r)
  then show ?case using gate_keeps [OF gate(1)] by (simp add: consent_blocked_def)
qed (auto simp: grant_category_consent_def revoke_category_consent_def bindE_guardE_Inr Let_def
      split: prod.splits dest: revoke_consent_keeps)

lemma step_events: "consent_step db db' \<Longrightarrow> \<exists>es. cd_events db' = cd_events db @ es"
proof (induction rule: consent_step.induct)
  case (gate db dev op cat now db' r)
  then show ?case using gate_keeps [OF gate(1)] by simp
next
  case (revoke_category db dev cat reason now db' u)
  then show ?case
    by (auto simp: revoke_category_consent_def bindE_guardE_Inr Let_def split: prod.splits if_splits
        dest: revoke_consent_keeps(2)) (metis insert_consent_event_simps(3) revoke_consent_keeps(2))
qed (auto simp: grant_category_consent_def bindE_guardE_Inr Let_def insert_consent_event_def
      dest: revoke_consent_keeps(2))

lemma steps_keep_blocked:
  "consent_step\<^sup>*\<^sup>* db db' \<Longrightarrow> consent_blocked db d y \<Longrightarrow> consent_blocked db' d y"
  by (induction rule: rtranclp_induct) (auto intro: step_keeps_blocked)

lemma steps_events: "consent_step\<^sup>*\<^sup>* db db' \<Longrightarrow> \<exists>es. cd_events db' = cd_events db @ es"
proof (induction rule: rtranclp_induct)
  case base
  then show ?case by simp
next
  case (step y z)
  then show ?case using step_events [OF step(2)] by auto
qed

text \<open>A row is revoked exactly when its erasure is requested, and is then not active.\<close>

definition ledger_inv :: "consent_db \<Rightarrow> bool" where
  "ledger_inv db \<longleftrightarrow> distinct (dkeys (cd_ledger db))
     \<and> (\<forall>k r. dget (cd_ledger db) k = Some r \<longrightarrow> (cr_revoked_at r \<noteq> None \<longleftrightarrow> cr_erasure_requested r))"

lemma ledger_inv_record [wf_intros]:
  "ledger_inv db \<Longrightarrow> ledger_inv (insert_consent_record db dev ty given ts now)"
  by (auto simp: ledger_inv_def insert_consent_record_def Let_def wf_intros split: option.splits)

lemma ledger_inv_revoke [wf_intros]:
  "ledger_inv db \<Longrightarrow> ledger_inv (fst (revoke_consent db dev ty reason now))"
  by (auto simp: ledger_inv_def revoke_consent_def wf_intros split: option.splits)

lemma ledger_inv_erase [wf_intros]: "ledger_inv db \<Longrightarrow> ledger_inv (complete_erasure db dev)"
proof -
  have "dkeys (cd_ledger (complete_erasure db dev)) = dkeys (cd_ledger db)"
    by (simp add: complete_erasure_def dkeys_def case_prod_beta comp_def)
  moreover assume inv: "ledger_inv db"
  moreover have "cr_revoked_at r \<noteq> None \<longleftrightarrow> cr_erasure_requested r"
    if row: "dget (cd_ledger (complete_erasure db dev)) k = Some r" for k r
  proof -
    obtain r0 where r0: "dget (cd_ledger db) k = Some r0" "r = (if fst k = dev then r0\<lparr>cr_erasure_completed := True\<rparr> else r0)"
      using row by (auto simp: complete_erasure_def dget_map_rows)
    then have "cr_revoked_at r0 \<noteq> None \<longleftrightarrow> cr_erasure_requested r0" using inv unfolding ledger_inv_def by blast
    then show ?thesis using r0(2) by simp
  qed
  ultimately show "ledger_inv (complete_erasure db dev)" by (simp add: ledger_inv_def)
qed

lemma ledger_inv_event [simp]: "ledger_inv (insert_consent_event db dev c a ts r now) = ledger_inv db"
  by (simp add: ledger_inv_def)

lemma step_keeps_ledger_inv: "consent_step db db' \<Longrightarrow> ledger_inv db \<Longrightarrow> ledger_inv db'"
proof (induction rule: consent_step.induct)
  case (gate db dev op cat now db' r)
  then show ?case using gate_keeps [OF gate(1)] by (simp add: ledger_inv_def)
next
  case (revoke db dev ty reason now db' u)
  then show ?case using ledger_inv_revoke [of db dev ty reason now] by simp
next
  case (revoke_category db dev cat reason now db' u)
  then show ?case using ledger_inv_revoke [of db dev cat reason now]
    by (auto simp: revoke_category_consent_def bindE_guardE_Inr Let_def split: prod.splits if_splits)
qed (auto simp: grant_category_consent_def bindE_guardE_Inr Let_def wf_intros)

lemma steps_keep_ledger_inv: "consent_step\<^sup>*\<^sup>* db db' \<Longrightarrow> ledger_inv db \<Longrightarrow> ledger_inv db'"
  by (induction rule: rtranclp_induct) (auto intro: step_keeps_ledger_inv)

lemma ledger_row_inv:
  assumes "ledger_inv db" and "(k, r) \<in> set (cd_ledger db)"
  shows "cr_revoked_at r \<noteq> None \<longleftrightarrow> cr_erasure_requested r"
proof -
  have "dget (cd_ledger db) k = Some r"
    using assms by (simp add: ledger_inv_def dkeys_def)
  then show ?thesis using assms(1) unfolding ledger_inv_def by blast
qed

lemma coverage_of_inv:
  assumes "ledger_inv db"
  defines "c \<equiv> get_consent_corpus_coverage db"
  shows "cc_revoked_count c = cc_erasure_requested_count c"
    and "cc_active_consent_count c + cc_revoked_count c \<le> cc_total_registered c"
    and "cc_active_consent_count c = length (get_active_consent_devices db)"
proof -
  let ?rows = "map snd (cd_ledger db)"
  have inv: "cr_revoked_at r \<noteq> None \<longleftrightarrow> cr_erasure_requested r" if "r \<in> set ?rows" for r
    using that ledger_row_inv [OF assms(1)] by force
  then have "filter (\<lambda>r. cr_revoked_at r \<noteq> None) ?rows = filter cr_erasure_requested ?rows"
    by (intro filter_cong) auto
  then show "cc_revoked_count c = cc_erasure_requested_count c"
    by (simp add: c_def get_consent_corpus_coverage_def Let_def)
  have "length (filter active_row ?rows) + length (filter (\<lambda>r. cr_revoked_at r \<noteq> None) ?rows)
      \<le> length (filter active_row ?rows) + length (filter (\<lambda>r. \<not> active_row r) ?rows)"
    by (intro add_left_mono length_filter_mono) (auto simp: active_row_def)
  then show "cc_active_consent_count c + cc_revoked_count c \<le> cc_total_registered c"
    using sum_length_filter_compl [of active_row ?rows]
    by (simp add: c_def get_consent_corpus_coverage_def Let_def)
  show "cc_active_consent_count c = length (get_active_consent_devices db)"
    by (simp add: c_def get_consent_corpus_coverage_def Let_def get_active_consent_devices_def
        filter_map comp_def case_prod_unfold)
qed

subsection \<open>Properties\<close>

definition empty_consent_db :: consent_db where
  "empty_consent_db = \<lparr>cd_ledger = [], cd_events = [], cd_violations = []\<rparr>"

lemma empty_ledger_inv: "ledger_inv empty_consent_db"
  by (simp add: empty_consent_db_def ledger_inv_def dkeys_def)

text \<open>
  The bitmask of a list of categories decodes to those categories, each once and in the order
  of the enum, and the bitmask of a decoded mask is the mask without the bits above the four
  categories.
\<close>

theorem consent_bitmask_roundtrip:
  assumes "bitmask_to_categories bm = Inr ds"
  shows "bindE (categories_to_bitmask cs) bitmask_to_categories = Inr (sorted_list_of_set (set cs))
    \<and> categories_to_bitmask ds = Inr (bm mod 16)"
  by (simp only: categories_roundtrip bitmask_roundtrip [OF assms] conj_assoc simp_thms)

theorem consent_bitmask_roundtrip_witness:
  "bitmask_to_categories 41 = Inr [TOURNAMENT_GATE, MARKETPLACE]
   \<and> categories_to_bitmask [TOURNAMENT_GATE, MARKETPLACE] = Inr 9"
proof -
  have dec: "bitmask_to_categories 41 = Inr [TOURNAMENT_GATE, MARKETPLACE]" by code_simp
  then show ?thesis using consent_bitmask_roundtrip [OF dec, of "[]"] by simp
qed

text \<open>
  Two consents with the same commitment name the same device, categories, expiry and time, or
  their two 67-byte preimages are a collision of SHA-256.
\<close>

theorem consent_commitment_binds:
  assumes "consent_preimage dev cats ex ts = Inr m" and "consent_preimage dev' cats' ex' ts' = Inr m'"
    and "compute_consent_hash dev cats ex ts = compute_consent_hash dev' cats' ex' ts'"
  shows "(device_id_to_bytes32 dev = device_id_to_bytes32 dev'
      \<and> consent_bitmask cats = consent_bitmask cats' \<and> ex = ex' \<and> ts = ts')
    \<or> (sha256_collision m m' \<and> length m = 67 \<and> length m' = 67)"
proof -
  have "sha256 m = sha256 m'" using assms by (simp add: compute_consent_hash_def)
  then consider "m = m'" | "sha256_collision m m'" using sha256_eq_cases by blast
  then show ?thesis
  proof cases
    case 1
    then show ?thesis using assms(1,2) consent_preimage_inj by blast
  next
    case 2
    then show ?thesis using assms(1,2) by (simp add: consent_preimage_length)
  qed
qed

theorem consent_commitment_binds_witness:
  "consent_bitmask (Inr [MARKETPLACE, TOURNAMENT_GATE, MARKETPLACE]) = consent_bitmask (Inl 9)"
proof -
  have m: "consent_preimage (DevBytes (replicate 32 0)) (Inr [MARKETPLACE, TOURNAMENT_GATE, MARKETPLACE]) 0 0
      = Inr (consent_tag @ replicate 32 0 @ [0, 0, 0, 9] @ replicate 16 0)"
    "consent_preimage (DevBytes (replicate 32 0)) (Inl 9) 0 0
      = Inr (consent_tag @ replicate 32 0 @ [0, 0, 0, 9] @ replicate 16 0)"
    by code_simp+
  then show ?thesis
    using consent_commitment_binds [OF m] by (auto simp: compute_consent_hash_def sha256_collision_def m)
qed

text \<open>
  C30: A grant after a revocation does not count, although the comments on the ledger say that it updates
  the row and supersedes the revocation in the current state. The upsert leaves the revocation time and
  the erasure request of the row: whatever registrations, grants, revocations, gate checks and
  completed erasures follow, the status stays not granted and the gate keeps raising, while the event
  log keeps every later GRANT.
\<close>

theorem regrant_never_counts:
  assumes "revoke_consent db dev ty reason now = (db1, True)" and "consent_step\<^sup>*\<^sup>* db1 db2"
    and "ty \<noteq> []"
  shows "\<not> consent_granted (get_consent_status db2 dev ty)
    \<and> raised (snd (check_consent_gate db2 dev op (Some ty) later))
    \<and> (\<exists>es. cd_events db2 = cd_events db @ es)"
proof (intro conjI)
  have blocked: "consent_blocked db2 dev ty"
    using steps_keep_blocked [OF assms(2)] revoke_consent_keeps(3) [OF assms(1)] by simp
  then show "\<not> consent_granted (get_consent_status db2 dev ty)" using granted_not_blocked by blast
  show "raised (snd (check_consent_gate db2 dev op (Some ty) later))"
    using blocked gate_iff [of db2 dev op "Some ty" later] assms(3)
    by (cases "snd (check_consent_gate db2 dev op (Some ty) later)") auto
  show "\<exists>es. cd_events db2 = cd_events db @ es"
    using steps_events [OF assms(2)] revoke_consent_keeps(2) [OF assms(1)] by auto
qed

definition demo_revoked :: consent_db where
  "demo_revoked = fst (revoke_consent
     (insert_consent_record empty_consent_db ''d'' ''MARKETPLACE'' True None 1) ''d'' ''MARKETPLACE'' [] 2)"

theorem regrant_never_counts_witness:
  "\<exists>db2. grant_category_consent demo_revoked ''d'' ''MARKETPLACE'' [] None 3 = Inr db2
     \<and> \<not> consent_granted (get_consent_status db2 ''d'' ''MARKETPLACE'')
     \<and> map ce_action (cd_events db2) = [''GRANT'']"
proof -
  obtain db2 where g: "grant_category_consent demo_revoked ''d'' ''MARKETPLACE'' [] None 3 = Inr db2"
    "map ce_action (cd_events db2) = [''GRANT'']"
    by (simp add: grant_category_consent_def NAME_TO_CATEGORY_def CATEGORY_NAMES_def Let_def
        insert_consent_event_def demo_revoked_def insert_consent_record_def revoke_consent_def
        empty_consent_db_def)
  have r: "revoke_consent (insert_consent_record empty_consent_db ''d'' ''MARKETPLACE'' True None 1)
      ''d'' ''MARKETPLACE'' [] 2 = (demo_revoked, True)"
    by (simp add: demo_revoked_def revoke_consent_def insert_consent_record_def empty_consent_db_def)
  have "consent_step\<^sup>*\<^sup>* demo_revoked db2" using consent_step.grant_category [OF g(1)] by blast
  then show ?thesis using regrant_never_counts [OF r] g by auto
qed

text \<open>
  From an empty ledger, every reachable one has one row per device and type, counts a row as
  revoked exactly when its erasure is requested, and reports as many active consents as it lists.
\<close>

theorem consent_counts_agree:
  assumes "consent_step\<^sup>*\<^sup>* empty_consent_db db"
  shows "distinct (dkeys (cd_ledger db))
    \<and> cc_revoked_count (get_consent_corpus_coverage db)
        = cc_erasure_requested_count (get_consent_corpus_coverage db)
    \<and> cc_active_consent_count (get_consent_corpus_coverage db)
        + cc_revoked_count (get_consent_corpus_coverage db)
        \<le> cc_total_registered (get_consent_corpus_coverage db)
    \<and> cc_active_consent_count (get_consent_corpus_coverage db) = length (get_active_consent_devices db)"
proof -
  have inv: "ledger_inv db" by (rule steps_keep_ledger_inv [OF assms empty_ledger_inv])
  then have "distinct (dkeys (cd_ledger db))" by (simp add: ledger_inv_def)
  then show ?thesis using coverage_of_inv [OF inv] by simp
qed

theorem consent_counts_agree_witness:
  "cc_active_consent_count (get_consent_corpus_coverage
      (insert_consent_record empty_consent_db ''d'' ''MARKETPLACE'' True None 1))
   = length (get_active_consent_devices
      (insert_consent_record empty_consent_db ''d'' ''MARKETPLACE'' True None 1))"
  using consent_counts_agree [OF r_into_rtranclp, OF consent_step.register] by blast

end
