(* ===== verification/ActivePlay.thy ===== *)
theory ActivePlay
  imports Json
begin

section \<open>Active play occupancy\<close>

text \<open>
  \<open>bridge/vapi_bridge/active_play_occupancy.py\<close>: the classifier that decides from recent records
  and input frames whether a session shows competitive play, and the gate that combines its state
  with the older trigger-based context. Frames and records are JSON objects; metrics are
  dictionaries of reals, so that a missing key raises as it does in the code. \<open>math.atan2(y, x)\<close> is
  the argument of \<open>x + i y\<close>.
\<close>

definition APOP_COMPETITIVE_STATES :: "string list" where
  "APOP_COMPETITIVE_STATES = [''ACTIVE_MATCH_PLAY'', ''COMPETITIVE_CONTROL'']"

definition APOP_STRICT_ELIGIBLE_STATES :: "string list" where
  "APOP_STRICT_ELIGIBLE_STATES = [''ACTIVE_MATCH_PLAY'', ''COMPETITIVE_CONTROL'', ''MATCH_TRANSITION'']"

definition APOP_GATE_MODES :: "string list" where
  "APOP_GATE_MODES = [''shadow'', ''hybrid'', ''strict'']"

definition BUTTON_BITS :: "(string, nat) dict" where
  "BUTTON_BITS =
     [(''cross'', 0), (''circle'', 1), (''square'', 2), (''triangle'', 3), (''l1'', 4), (''r1'', 5),
      (''dpad_up'', 8), (''dpad_down'', 9), (''dpad_left'', 10), (''dpad_right'', 11),
      (''share'', 12), (''options'', 13)]"

definition BUTTON_NAMES :: "string list" where
  "BUTTON_NAMES =
     [''cross'', ''circle'', ''square'', ''triangle'', ''l1'', ''r1'', ''dpad'', ''options'',
      ''share'', ''touch'']"

record apop_result =
  ap_state :: string
  ap_score :: real
  ap_confidence :: real
  ap_evidence :: "(string \<times> json) list"

subsection \<open>The gate\<close>

definition normalize_active_play_gate_mode :: "string option \<Rightarrow> string" where
  "normalize_active_play_gate_mode mode =
     (let m = (case mode of None \<Rightarrow> ''shadow'' | Some s \<Rightarrow> if s = [] then ''shadow'' else s);
          value = lower (strip m)
      in if value \<in> set APOP_GATE_MODES then value else ''shadow'')"

definition safe_float :: "json \<Rightarrow> real \<Rightarrow> real" where
  "safe_float v d = (case py_float v of Inl _ \<Rightarrow> d | Inr r \<Rightarrow> r)"

definition safe_int :: "json \<Rightarrow> int \<Rightarrow> int" where
  "safe_int v d = (case py_int v of Inl _ \<Rightarrow> d | Inr i \<Rightarrow> i)"

abbreviation clamp01 :: "real \<Rightarrow> real" where
  "clamp01 \<equiv> clamp 0 1"

definition active_play_gate_allows ::
  "string option \<Rightarrow> real option \<Rightarrow> string option \<Rightarrow> string option \<Rightarrow> bool" where
  "active_play_gate_allows state confidence legacy_gameplay_context gate_mode =
     (let mode = normalize_active_play_gate_mode gate_mode;
          legacy_ok = (legacy_gameplay_context \<noteq> Some ''MENU_DETECTED'');
          st = (case state of None \<Rightarrow> ''UNKNOWN_LOW_EVIDENCE''
                | Some s \<Rightarrow> if s = [] then ''UNKNOWN_LOW_EVIDENCE'' else s);
          conf = clamp01 (case confidence of None \<Rightarrow> 0 | Some c \<Rightarrow> c)
      in if mode = ''shadow'' then legacy_ok
         else if mode = ''hybrid'' then
           (if st \<in> set APOP_COMPETITIVE_STATES then True
            else if st = ''NON_COMPETITIVE_MENU'' \<and> 60 / 100 \<le> conf then False
            else legacy_ok)
         else st \<in> set APOP_STRICT_ELIGIBLE_STATES)"

subsection \<open>Scores of the frames\<close>

type_synonym jdict = "(string \<times> json) list"

text \<open>A checkpoint's frames are a list, or a text that holds one; what is not an object is skipped.\<close>

definition flatten_frames :: "jdict list \<Rightarrow> jdict list" where
  "flatten_frames checkpoints =
     concat (map (\<lambda>checkpoint.
       (case (case dget_or checkpoint ''frames'' (JArr []) of
                JStr t \<Rightarrow> (case json_loads t of None \<Rightarrow> JArr [] | Some v \<Rightarrow> v)
              | c \<Rightarrow> c) of
          JArr fs \<Rightarrow> concat (map (\<lambda>f. case f of JObj d \<Rightarrow> [d] | _ \<Rightarrow> []) fs)
        | _ \<Rightarrow> [])) checkpoints)"

definition axis_norm :: "json \<Rightarrow> real" where
  "axis_norm value =
     (let v = safe_float value 0 in
      if 0 \<le> v \<and> v \<le> 255 then clamp (-1) 1 ((v - 128) / 128)
      else if \<bar>v\<bar> \<le> 512 then clamp (-1) 1 (v / 128)
      else clamp (-1) 1 (v / 32768))"

definition trigger_norm :: "json \<Rightarrow> real" where
  "trigger_norm value =
     (let v = max 0 (safe_float value 0) in
      if v \<le> 1 then clamp01 v
      else if v \<le> 255 then clamp01 (v / 255)
      else clamp01 (v / 1023))"

definition buttons_raw :: "jdict \<Rightarrow> int" where
  "buttons_raw frame = safe_int (dget_or frame ''buttons_raw'' (jget frame ''buttons'')) 0"

definition button_flag :: "jdict \<Rightarrow> string \<Rightarrow> bool" where
  "button_flag frame name =
     (if name = ''dpad'' then
        (if list_ex (get_truthy frame)
              [''buttons_dpad_up'', ''buttons_dpad_down'', ''buttons_dpad_left'', ''buttons_dpad_right'']
         then True
         else list_ex (\<lambda>b. bit (buttons_raw frame) b) [8, 9, 10, 11])
      else if name = ''touch'' then
        get_truthy frame ''touch_active'' \<or> get_truthy frame ''buttons_touch''
      else
        (case dget frame (''buttons_'' @ name) of
           Some v \<Rightarrow> truthy v
         | None \<Rightarrow> buttons_raw frame \<noteq> 0
                   \<and> (case dget BUTTON_BITS name of None \<Rightarrow> False | Some b \<Rightarrow> bit (buttons_raw frame) b)))"

definition atan2 :: "real \<Rightarrow> real \<Rightarrow> real" where
  "atan2 y x = Arg (Complex x y)"

definition mean :: "real list \<Rightarrow> real" where
  "mean xs = sum_list xs / real (length xs)"

definition count_if :: "('a \<Rightarrow> bool) \<Rightarrow> 'a list \<Rightarrow> real" where
  "count_if P xs = real (length (filter P xs))"

definition angle_change_rate :: "real list \<Rightarrow> real" where
  "angle_change_rate angles =
     (if length angles < 2 then 0
      else clamp01
        (count_if (\<lambda>(prev, angle). 35 / 100 < \<bar>atan2 (sin (angle - prev)) (cos (angle - prev))\<bar>)
           (zip angles (tl angles))
         / max 1 (real (length angles - 1))))"

definition row_transition_rate :: "bool list list \<Rightarrow> real" where
  "row_transition_rate rows =
     (if length rows < 2 then 0
      else clamp01 (count_if (\<lambda>(prev, cur). prev \<noteq> cur) (zip rows (tl rows)) / real (length rows - 1)))"

definition variance :: "real list \<Rightarrow> real" where
  "variance values =
     (if length values < 2 then 0
      else sum_list (map (\<lambda>v. (v - mean values)\<^sup>2) values) / real (length values))"

definition axis :: "jdict \<Rightarrow> string \<Rightarrow> real" where
  "axis frame k = axis_norm (jget frame k)"

definition norm3 :: "jdict \<Rightarrow> string \<Rightarrow> string \<Rightarrow> string \<Rightarrow> real" where
  "norm3 frame kx ky kz =
     sqrt ((safe_float (jget frame kx) 0)\<^sup>2 + (safe_float (jget frame ky) 0)\<^sup>2
           + (safe_float (jget frame kz) 0)\<^sup>2)"

definition left_mag :: "jdict \<Rightarrow> real" where
  "left_mag f = sqrt ((axis f ''left_stick_x'')\<^sup>2 + (axis f ''left_stick_y'')\<^sup>2)"

definition right_mag :: "jdict \<Rightarrow> real" where
  "right_mag f = sqrt ((axis f ''right_stick_x'')\<^sup>2 + (axis f ''right_stick_y'')\<^sup>2)"

definition score_frames :: "jdict list \<Rightarrow> (string, real) dict" where
  "score_frames frames =
     (if frames = [] then
        [(''stick_score'', 0), (''button_score'', 0), (''trigger_score'', 0), (''imu_score'', 0),
         (''stick_active_fraction'', 0), (''button_active_fraction'', 0),
         (''trigger_hold_fraction'', 0), (''imu_energy'', 0)]
      else
        (let n = real (length frames);
             stick_mags = map (\<lambda>f. max (left_mag f) (right_mag f)) frames;
             stick_angles = map (\<lambda>f. atan2 (axis f ''left_stick_y'') (axis f ''left_stick_x''))
                              (filter (\<lambda>f. 10 / 100 < left_mag f) frames);
             button_rows = map (\<lambda>f. map (button_flag f) BUTTON_NAMES) frames;
             trigger_values = map (\<lambda>f. max (trigger_norm (jget f ''l2_trigger''))
                                           (trigger_norm (jget f ''r2_trigger''))) frames;
             gyro_values = map (\<lambda>f. norm3 f ''gyro_x'' ''gyro_y'' ''gyro_z'') frames;
             accel_values = map (\<lambda>f. norm3 f ''accel_x'' ''accel_y'' ''accel_z'') frames;
             stick_active_fraction = count_if (\<lambda>v. 15 / 100 < v) stick_mags / n;
             stick_mean = sum_list stick_mags / n;
             angle_rate = angle_change_rate stick_angles;
             button_active_fraction = count_if (list_ex id) button_rows / n;
             button_rate = row_transition_rate button_rows;
             trigger_hold_fraction = count_if (\<lambda>v. 20 / 100 < v) trigger_values / n;
             trigger_mean = sum_list trigger_values / n;
             gyro_mean = sum_list gyro_values / n;
             accel_var = variance accel_values
         in [(''stick_score'', clamp01 (70 / 100 * stick_active_fraction + 20 / 100 * stick_mean
                                 + 10 / 100 * angle_rate)),
             (''button_score'', clamp01 (70 / 100 * button_active_fraction + 30 / 100 * button_rate)),
             (''trigger_score'', clamp01 (72 / 100 * trigger_hold_fraction + 28 / 100 * trigger_mean)),
             (''imu_score'', clamp01 (gyro_mean / 6 + min 1 (accel_var * 40))),
             (''stick_active_fraction'', stick_active_fraction),
             (''button_active_fraction'', button_active_fraction),
             (''trigger_hold_fraction'', trigger_hold_fraction),
             (''trigger_mean'', trigger_mean), (''imu_energy'', gyro_mean),
             (''accel_mag_variance'', accel_var), (''button_transition_rate'', button_rate),
             (''stick_angle_change_rate'', angle_rate)]))"

subsection \<open>Scores of the records\<close>

definition trigger_active :: "jdict \<Rightarrow> bool res" where
  "trigger_active r =
     (if get_truthy r ''trigger_active''
      then bindE (py_int (jget r ''trigger_active'')) (\<lambda>i. Inr (i = 1)) else Inr False)"

fun count_triggers :: "jdict list \<Rightarrow> nat res" where
  "count_triggers [] = Inr 0"
| "count_triggers (r # rs) =
     bindE (trigger_active r) (\<lambda>b. bindE (count_triggers rs) (\<lambda>n. Inr (n + (if b then 1 else 0))))"

definition present_values :: "jdict list \<Rightarrow> string \<Rightarrow> real list" where
  "present_values records k =
     map (\<lambda>r. safe_float (jget r k) (1 / 2)) (filter (\<lambda>r. jget r k \<noteq> JNull) records)"

definition mean_or_half :: "real list \<Rightarrow> real" where
  "mean_or_half xs = (if xs = [] then 1 / 2 else mean xs)"

definition score_records :: "jdict list \<Rightarrow> (string, real) dict res" where
  "score_records records =
     (if records = [] then
        Inr [(''record_trigger_active_fraction'', 0), (''physiology_score'', 1 / 2),
             (''humanity_mean'', 1 / 2), (''rhythm_humanity_mean'', 1 / 2)]
      else
        bindE (count_triggers records) (\<lambda>k.
          let trigger_fraction = real k / real (length records);
              humanity_mean = mean_or_half (present_values records ''pitl_humanity_prob'');
              rhythm_mean = mean_or_half (present_values records ''pitl_l5_rhythm_humanity'')
          in Inr [(''record_trigger_active_fraction'', trigger_fraction),
                  (''trigger_active_fraction'', trigger_fraction),
                  (''physiology_score'', clamp01 (70 / 100 * humanity_mean + 30 / 100 * rhythm_mean)),
                  (''humanity_mean'', humanity_mean), (''rhythm_humanity_mean'', rhythm_mean)]))"

subsection \<open>The classifier\<close>

definition confidence_for_state :: "string \<Rightarrow> real \<Rightarrow> real \<Rightarrow> nat \<Rightarrow> nat \<Rightarrow> real" where
  "confidence_for_state state score history n_records n_frames =
     (let evidence_strength = clamp01 (45 / 100 * min 1 (real n_frames / 60)
                                + 55 / 100 * min 1 (real n_records / 100))
      in if state = ''UNKNOWN_LOW_EVIDENCE'' then 20 / 100 + 20 / 100 * evidence_strength
         else if state = ''NON_COMPETITIVE_MENU''
         then clamp01 (55 / 100 + (22 / 100 - min score (22 / 100)) + 20 / 100 * evidence_strength)
         else clamp01 (45 / 100 + 38 / 100 * max score history + 17 / 100 * evidence_strength))"

record apop_scores =
  sc_stick :: real
  sc_button :: real
  sc_trigger :: real
  sc_imu :: real
  sc_score :: real
  sc_history :: real

definition state_for_scores :: "apop_scores \<Rightarrow> nat \<Rightarrow> nat \<Rightarrow> string" where
  "state_for_scores s n_records n_frames =
     (if 42 / 100 \<le> sc_score s \<and> 35 / 100 \<le> sc_stick s
         \<and> (8 / 100 \<le> sc_imu s \<or> 35 / 100 \<le> sc_trigger s \<or> 25 / 100 \<le> sc_button s)
      then ''ACTIVE_MATCH_PLAY''
      else if 22 / 100 \<le> sc_score s
         \<and> (20 / 100 \<le> sc_button s \<or> 35 / 100 \<le> sc_trigger s \<or> 25 / 100 \<le> sc_stick s)
      then ''COMPETITIVE_CONTROL''
      else if 45 / 100 \<le> sc_history s \<and> 14 / 100 \<le> sc_score s then ''MATCH_TRANSITION''
      else if 10 \<le> n_frames \<and> 5 \<le> n_records \<and> sc_score s < 18 / 100 \<and> sc_history s < 25 / 100
      then ''NON_COMPETITIVE_MENU''
      else ''UNKNOWN_LOW_EVIDENCE'')"

definition rounded :: "(string, real) dict \<Rightarrow> jdict" where
  "rounded d = map (\<lambda>(k, v). (k, JFloat (py_round 4 v))) d"

definition classify_active_play_occupancy :: "jdict list \<Rightarrow> jdict list \<Rightarrow> apop_result res" where
  "classify_active_play_occupancy records checkpoints =
     (let frames = flatten_frames checkpoints; nr = length records; nf = length frames in
      if nr < 5 \<and> nf < 10 then
        Inr \<lparr>ap_state = ''UNKNOWN_LOW_EVIDENCE'', ap_score = 0, ap_confidence = 20 / 100,
             ap_evidence = [(''reason'', JStr ''insufficient_records_and_frames''),
               (''n_records'', JInt (int nr)), (''n_frames'', JInt (int nf))]\<rparr>
      else
        (let fm = score_frames frames in
         bindE (score_records records) (\<lambda>rm.
         bindE (ditem rm ''physiology_score'') (\<lambda>phys.
         bindE (ditem fm ''stick_score'') (\<lambda>stick.
         bindE (ditem fm ''button_score'') (\<lambda>button.
         bindE (ditem fm ''trigger_score'') (\<lambda>trigger.
         bindE (ditem fm ''imu_score'') (\<lambda>imu.
         bindE (ditem rm ''trigger_active_fraction'') (\<lambda>taf.
           let score = clamp01 (35 / 100 * stick + 20 / 100 * button + 20 / 100 * trigger
                         + 15 / 100 * imu + 10 / 100 * phys);
               history = clamp01 (45 / 100 * taf + 30 / 100 * phys
                           + 25 / 100 * max stick (max button trigger));
               state = state_for_scores \<lparr>sc_stick = stick, sc_button = button, sc_trigger = trigger,
                         sc_imu = imu, sc_score = score, sc_history = history\<rparr> nr nf;
               evidence = foldl (\<lambda>d (k, v). dput k v d)
                 [(''n_records'', JInt (int nr)), (''n_frames'', JInt (int nf)),
                  (''score'', JFloat (py_round 4 score)),
                  (''history_score'', JFloat (py_round 4 history))]
                 (rounded fm @ rounded rm)
           in Inr \<lparr>ap_state = state, ap_score = py_round 4 score,
                   ap_confidence = py_round 4 (confidence_for_state state score history nr nf),
                   ap_evidence = evidence\<rparr>)))))))))"

subsection \<open>Bounds and errors\<close>

lemma clamp01_bounds [simp]: "0 \<le> clamp01 v" "clamp01 v \<le> 1"
  by (simp_all add: clamp_def)

lemma clamp01_01 [simp]: "clamp01 0 = 0" "clamp01 1 = 1"
  by (simp_all add: clamp_def)

lemma confidence_bounds:
  "0 \<le> confidence_for_state st sc hi nr nf \<and> confidence_for_state st sc hi nr nf \<le> 1"
proof -
  define e where "e = clamp01 (45 / 100 * min 1 (real nf / 60) + 55 / 100 * min 1 (real nr / 100))"
  have "0 \<le> e" "e \<le> 1" by (simp_all add: e_def)
  then show ?thesis
    unfolding confidence_for_state_def Let_def e_def [symmetric] by auto
qed

lemma py_round_unit: "0 \<le> x \<Longrightarrow> x \<le> 1 \<Longrightarrow> 0 \<le> py_round n x \<and> py_round n x \<le> 1"
  using py_round_mono [of 0 x n] py_round_mono [of x 1 n] by simp

lemma score_frames_items:
  "\<exists>x. ditem (score_frames fs) ''stick_score'' = Inr x"
  "\<exists>x. ditem (score_frames fs) ''button_score'' = Inr x"
  "\<exists>x. ditem (score_frames fs) ''trigger_score'' = Inr x"
  "\<exists>x. ditem (score_frames fs) ''imu_score'' = Inr x"
  by (simp_all add: score_frames_def ditem_def Let_def)

lemma classify_bounds:
  assumes "classify_active_play_occupancy records checkpoints = Inr r"
  shows "0 \<le> ap_score r \<and> ap_score r \<le> 1 \<and> 0 \<le> ap_confidence r \<and> ap_confidence r \<le> 1"
  using assms confidence_bounds
  unfolding classify_active_play_occupancy_def Let_def
  by (auto simp: bindE_Inr py_round_unit split: if_splits)

text \<open>
  With no record at all and at least ten frames the metrics of the records lack the key
  \<open>trigger_active_fraction\<close>, which the history score reads.
\<close>

lemma classify_no_records:
  assumes "10 \<le> length (flatten_frames checkpoints)"
  shows "classify_active_play_occupancy [] checkpoints
    = Inl (PyExc ''KeyError'' ''trigger_active_fraction'')"
proof -
  let ?fm = "score_frames (flatten_frames checkpoints)"
  obtain a b c d where "ditem ?fm ''stick_score'' = Inr a" "ditem ?fm ''button_score'' = Inr b"
    "ditem ?fm ''trigger_score'' = Inr c" "ditem ?fm ''imu_score'' = Inr d"
    using score_frames_items [of "flatten_frames checkpoints"] by blast
  then show ?thesis
    using assms
    by (simp add: classify_active_play_occupancy_def score_records_def ditem_def Let_def)
qed

text \<open>
  Whatever the records and the frames are, a classification that comes back has a score and a
  confidence between 0 and 1.
\<close>

theorem classify_scores_bounded:
  assumes "classify_active_play_occupancy records checkpoints = Inr r"
  shows "0 \<le> ap_score r \<and> ap_score r \<le> 1 \<and> 0 \<le> ap_confidence r \<and> ap_confidence r \<le> 1"
  using classify_bounds [OF assms] .

lemma classify_scores_bounded_witness:
  "\<exists>r. classify_active_play_occupancy [] [] = Inr r \<and> ap_confidence r \<le> 1"
proof -
  obtain r where r: "classify_active_play_occupancy [] [] = Inr r"
    by (simp add: classify_active_play_occupancy_def flatten_frames_def Let_def)
  then show ?thesis using classify_scores_bounded [OF r] by blast
qed

text \<open>
  Ten frames of a session without a single record do not give a low-evidence verdict: the
  classifier raises a \<open>KeyError\<close>, because the metrics of no records lack the trigger fraction.
\<close>

theorem classify_without_records_raises:
  assumes "10 \<le> length (flatten_frames checkpoints)"
  shows "classify_active_play_occupancy [] checkpoints
    = Inl (PyExc ''KeyError'' ''trigger_active_fraction'')"
  using classify_no_records [OF assms] .

definition demo_checkpoint :: jdict where
  "demo_checkpoint = [(''frames'', JArr (replicate 10 (JObj [(''left_stick_x'', JInt 128)])))]"

lemma classify_without_records_raises_witness:
  "raised (classify_active_play_occupancy [] [demo_checkpoint])"
proof -
  have "10 \<le> length (flatten_frames [demo_checkpoint])"
    by (simp add: flatten_frames_def demo_checkpoint_def dget_or_def numeral_eq_Suc)
  from classify_without_records_raises [OF this] show ?thesis by simp
qed

end
