(* ===== verification/GrindStore.thy ===== *)
theory GrindStore
  imports GrindChain Consent ActivePlay
begin

section \<open>The rulings, their validation log and the stored grind chain\<close>

text \<open>
  \<open>bridge/vapi_bridge/store/agents.py\<close> and \<open>store/_core.py\<close>: the tables \<open>agent_rulings\<close>,
  \<open>ruling_validation_log\<close> and \<open>active_play_occupancy_log\<close> as lists in the order of insertion
  (their ids count from 1), the grind chain stamped on validation rows, its status query, the gate
  summary, and the erasure of a device's records. A validation row's chain hash and chain time are
  only ever written together and are one optional field here. The text \<open>json.dumps\<close> writes for a
  divergence reason is represented by the object it encodes.
\<close>

record ruling =
  ru_id :: nat
  ru_device_id :: string
  ru_verdict :: string
  ru_confidence :: real
  ru_reasoning :: string
  ru_evidence_json :: string
  ru_commitment_hash :: string
  ru_created_at :: real

datatype reason_text = ReasonFields jdict | ReasonRedacted

record val_row =
  vr_id :: nat
  vr_ruling_id :: nat
  vr_device_id :: string
  vr_llm_verdict :: string
  vr_fallback_verdict :: string
  vr_llm_confidence :: real
  vr_fallback_confidence :: real
  vr_divergence :: bool
  vr_divergence_reason :: "reason_text option"
  vr_pcc_state :: "string option"
  vr_pcc_host_state :: "string option"
  vr_gameplay_context :: "string option"
  vr_created_at :: real
  vr_gic :: "(string \<times> int) option"
  vr_grind_session_id :: "string option"

record apop_row =
  al_validation_id :: nat
  al_ruling_id :: nat
  al_device_id :: string
  al_state :: string
  al_score :: real
  al_confidence :: real
  al_evidence :: jdict
  al_gate_mode :: string
  al_created_at :: real

record agent_event =
  ae_event_type :: string
  ae_device_id :: string
  ae_payload :: jdict
  ae_created_at :: real

record grind_db =
  gd_rulings :: "ruling list"
  gd_validations :: "val_row list"
  gd_apop :: "apop_row list"
  gd_events :: "agent_event list"
  gd_erasures :: "(string \<times> nat \<times> real) list"
  gd_disagreements :: "(nat \<times> string \<times> string \<times> string \<times> real) list"
  gd_consent :: consent_db
  gd_consent_ledger_enabled :: bool
  gd_gic_chain_broken :: bool

definition insert_agent_ruling ::
  "grind_db \<Rightarrow> string \<Rightarrow> string \<Rightarrow> real \<Rightarrow> string \<Rightarrow> string \<Rightarrow> string \<Rightarrow> real \<Rightarrow> grind_db \<times> nat" where
  "insert_agent_ruling db dev verdict conf reasoning evidence commitment now =
     (let i = length (gd_rulings db) + 1
      in (db\<lparr>gd_rulings := gd_rulings db @
               [\<lparr>ru_id = i, ru_device_id = dev, ru_verdict = verdict, ru_confidence = conf,
                 ru_reasoning = reasoning, ru_evidence_json = evidence,
                 ru_commitment_hash = commitment, ru_created_at = now\<rparr>]\<rparr>, i))"

text \<open>The left join keeps the rulings that no validation row names.\<close>

definition get_unvalidated_rulings :: "grind_db \<Rightarrow> int \<Rightarrow> ruling list" where
  "get_unvalidated_rulings db limit =
     sql_limit limit (order_asc ru_created_at
       (filter (\<lambda>r. \<not> list_ex (\<lambda>v. vr_ruling_id v = ru_id r) (gd_validations db)) (gd_rulings db)))"

record val_fields =
  vf_ruling_id :: nat
  vf_device_id :: string
  vf_llm_verdict :: string
  vf_fallback_verdict :: string
  vf_llm_confidence :: real
  vf_fallback_confidence :: real
  vf_divergence :: bool
  vf_divergence_reason :: "jdict option"
  vf_pcc_state :: "string option"
  vf_pcc_host_state :: "string option"
  vf_gameplay_context :: "string option"

definition new_val_row :: "nat \<Rightarrow> val_fields \<Rightarrow> real \<Rightarrow> val_row" where
  "new_val_row i f now =
     \<lparr>vr_id = i, vr_ruling_id = vf_ruling_id f, vr_device_id = vf_device_id f,
      vr_llm_verdict = vf_llm_verdict f, vr_fallback_verdict = vf_fallback_verdict f,
      vr_llm_confidence = vf_llm_confidence f, vr_fallback_confidence = vf_fallback_confidence f,
      vr_divergence = vf_divergence f, vr_divergence_reason = map_option ReasonFields (vf_divergence_reason f),
      vr_pcc_state = vf_pcc_state f, vr_pcc_host_state = vf_pcc_host_state f,
      vr_gameplay_context = vf_gameplay_context f, vr_created_at = now,
      vr_gic = None, vr_grind_session_id = None\<rparr>"

text \<open>With the consent ledger on, the gate may log a violation and raise before the row is written.\<close>

definition insert_validation_record ::
  "grind_db \<Rightarrow> val_fields \<Rightarrow> real \<Rightarrow> grind_db \<times> nat res" where
  "insert_validation_record db f now =
     (let (consent, gate) =
            (if gd_consent_ledger_enabled db
             then check_consent_gate (gd_consent db) (vf_device_id f) ''insert_validation_record'' None now
             else (gd_consent db, Inr ()));
          db1 = db\<lparr>gd_consent := consent\<rparr>;
          i = length (gd_validations db) + 1
      in case gate of
           Inl e \<Rightarrow> (db1, Inl e)
         | Inr _ \<Rightarrow> (db1\<lparr>gd_validations := gd_validations db @ [new_val_row i f now]\<rparr>, Inr i))"

definition update_val_row :: "grind_db \<Rightarrow> nat \<Rightarrow> (val_row \<Rightarrow> val_row) \<Rightarrow> grind_db" where
  "update_val_row db i f =
     db\<lparr>gd_validations := map (\<lambda>r. if vr_id r = i then f r else r) (gd_validations db)\<rparr>"

text \<open>The operator's override keeps the automatic context in its own table.\<close>

definition override_gameplay_context :: "grind_db \<Rightarrow> nat \<Rightarrow> string \<Rightarrow> string \<Rightarrow> real \<Rightarrow> grind_db" where
  "override_gameplay_context db i reason dev now =
     (let old_ctx = (case find (\<lambda>r. vr_id r = i) (gd_validations db) of
             None \<Rightarrow> None | Some r \<Rightarrow> vr_gameplay_context r);
          db1 = update_val_row db i (\<lambda>r. r\<lparr>vr_gameplay_context := Some ''ACTIVE_GAMEPLAY''\<rparr>)
      in db1\<lparr>gd_disagreements := gd_disagreements db1 @
           [(i, dev, case old_ctx of None \<Rightarrow> [] | Some c \<Rightarrow> c, reason, now)]\<rparr>)"

definition insert_active_play_occupancy_log ::
  "grind_db \<Rightarrow> nat \<Rightarrow> nat \<Rightarrow> string \<Rightarrow> apop_result \<Rightarrow> string \<Rightarrow> real \<Rightarrow> grind_db" where
  "insert_active_play_occupancy_log db val_id ruling_id dev res mode now =
     db\<lparr>gd_apop := gd_apop db @
        [\<lparr>al_validation_id = val_id, al_ruling_id = ruling_id, al_device_id = dev,
          al_state = ap_state res, al_score = ap_score res, al_confidence = ap_confidence res,
          al_evidence = ap_evidence res,
          al_gate_mode = (if mode = [] then ''shadow'' else mode), al_created_at = now\<rparr>]\<rparr>"

text \<open>The latest log of each validation row that is asked for.\<close>

definition get_active_play_logs_for_validation_ids :: "grind_db \<Rightarrow> nat list \<Rightarrow> (nat, apop_row) dict" where
  "get_active_play_logs_for_validation_ids db ids =
     foldl (\<lambda>result row. if dget result (al_validation_id row) = None
                          then dput (al_validation_id row) row result else result) []
       (order_desc al_created_at (filter (\<lambda>r. al_validation_id r \<in> set ids) (gd_apop db)))"

definition write_agent_event :: "grind_db \<Rightarrow> string \<Rightarrow> jdict \<Rightarrow> string \<Rightarrow> real \<Rightarrow> grind_db" where
  "write_agent_event db ty payload dev now =
     db\<lparr>gd_events := gd_events db @
        [\<lparr>ae_event_type = ty, ae_device_id = dev, ae_payload = payload, ae_created_at = now\<rparr>]\<rparr>"

subsection \<open>The stored chain\<close>

definition update_grind_chain_hash :: "grind_db \<Rightarrow> nat \<Rightarrow> string \<Rightarrow> int \<Rightarrow> string \<Rightarrow> grind_db res" where
  "update_grind_chain_hash db row_id gic_hex ts_ns sid =
     bindE (guardE (ts_ns < 2 ^ 63)
              (PyExc ''OverflowError'' ''Python int too large to convert to SQLite INTEGER'')) (\<lambda>_.
       Inr (update_val_row db row_id
             (\<lambda>r. r\<lparr>vr_gic := Some (gic_hex, ts_ns),
                    vr_grind_session_id := (if sid = [] then None else Some sid)\<rparr>)))"

definition stamped_rows :: "grind_db \<Rightarrow> string \<Rightarrow> val_row list" where
  "stamped_rows db sid =
     filter (\<lambda>r. vr_gic r \<noteq> None \<and> (sid \<noteq> [] \<longrightarrow> vr_grind_session_id r = Some sid)) (gd_validations db)"

definition gic_ts :: "val_row \<Rightarrow> int" where
  "gic_ts r = (case vr_gic r of None \<Rightarrow> 0 | Some (_, t) \<Rightarrow> t)"

definition gic_hash :: "val_row \<Rightarrow> string" where
  "gic_hash r = (case vr_gic r of None \<Rightarrow> [] | Some (h, _) \<Rightarrow> h)"

definition get_prev_grind_chain_hash :: "grind_db \<Rightarrow> string \<Rightarrow> bytes option res" where
  "get_prev_grind_chain_hash db sid =
     (case first_row (order_desc gic_ts (stamped_rows db sid)) of
        None \<Rightarrow> Inr None
      | Some r \<Rightarrow> bindE (fromhex (gic_hash r)) (\<lambda>h. Inr (Some h)))"

definition get_prev_gic_ts_ns :: "grind_db \<Rightarrow> int" where
  "get_prev_gic_ts_ns db =
     (let ts = map gic_ts (stamped_rows db []) in if ts = [] then 0 else Max (set ts))"

text \<open>A chain row is a stamped row joined with its ruling, for the commitment.\<close>

type_synonym chain_row = "val_row \<times> string"

definition commitment_of :: "grind_db \<Rightarrow> nat \<Rightarrow> string option" where
  "commitment_of db i = map_option ru_commitment_hash (find (\<lambda>ru. ru_id ru = i) (gd_rulings db))"

definition join_rulings :: "grind_db \<Rightarrow> val_row list \<Rightarrow> chain_row list" where
  "join_rulings db rows =
     concat (map (\<lambda>r. case commitment_of db (vr_ruling_id r) of None \<Rightarrow> [] | Some c \<Rightarrow> [(r, c)]) rows)"

abbreviation chain_ts :: "chain_row \<Rightarrow> int" where
  "chain_ts rc \<equiv> gic_ts (fst rc)"

abbreviation chain_hash :: "chain_row \<Rightarrow> string" where
  "chain_hash rc \<equiv> gic_hash (fst rc)"

definition get_ruling_rows_for_chain :: "grind_db \<Rightarrow> string \<Rightarrow> chain_row list" where
  "get_ruling_rows_for_chain db sid = order_asc chain_ts (join_rulings db (stamped_rows db sid))"

definition or_default :: "string option \<Rightarrow> string \<Rightarrow> string" where
  "or_default v d = (case v of None \<Rightarrow> d | Some s \<Rightarrow> if s = [] then d else s)"

definition chain_link_of :: "chain_row \<Rightarrow> gic_link" where
  "chain_link_of rc =
     (let (r, commitment) = rc
      in \<lparr>gl_commitment_hash_hex = commitment,
          gl_pcc_host_state = or_default (vr_pcc_host_state r) ''DISCONNECTED'',
          gl_fallback_verdict = or_default (Some (vr_fallback_verdict r)) ''FLAG'',
          gl_ts_ns = gic_ts r\<rparr>)"

definition gic_row_link :: "string \<Rightarrow> bytes option \<Rightarrow> chain_row \<Rightarrow> bytes res" where
  "gic_row_link sid p rc =
     bindE (case p of None \<Rightarrow> genesis_gic sid (gic_ts (fst rc)) | Some h \<Rightarrow> Inr h) (\<lambda>prev.
       compute_gic prev (chain_link_of rc))"

record grind_status =
  gs_grind_session_id :: string
  gs_chain_length :: nat
  gs_latest_gic_hash :: string
  gs_chain_intact :: bool
  gs_genesis_ts :: real
  gs_latest_ts :: real

definition get_grind_chain_status :: "grind_db \<Rightarrow> string \<Rightarrow> grind_status res" where
  "get_grind_chain_status db sid =
     (let rows = get_ruling_rows_for_chain db sid in
      if rows = []
      then Inr \<lparr>gs_grind_session_id = sid, gs_chain_length = 0, gs_latest_gic_hash = [],
                gs_chain_intact = True, gs_genesis_ts = 0, gs_latest_ts = 0\<rparr>
      else
        bindE (verify_loop (gic_row_link sid) chain_hash None rows) (\<lambda>intact.
          Inr \<lparr>gs_grind_session_id = sid, gs_chain_length = length rows,
               gs_latest_gic_hash = gic_hash (fst (last rows)), gs_chain_intact = intact,
               gs_genesis_ts = real_of_int (gic_ts (fst (hd rows))) / 1000000000,
               gs_latest_ts = real_of_int (gic_ts (fst (last rows))) / 1000000000\<rparr>))"

definition set_gic_chain_broken :: "grind_db \<Rightarrow> bool \<Rightarrow> grind_db" where
  "set_gic_chain_broken db v = db\<lparr>gd_gic_chain_broken := v\<rparr>"

text \<open>
  \<open>main.py\<close>, the check at startup: a broken chain sets the flag; an exception of the status query
  clears it.
\<close>

definition startup_chain_check :: "grind_db \<Rightarrow> string \<Rightarrow> grind_db" where
  "startup_chain_check db sid =
     (case get_grind_chain_status db sid of
        Inr st \<Rightarrow> set_gic_chain_broken db (0 < gs_chain_length st \<and> \<not> gs_chain_intact st)
      | Inl _ \<Rightarrow> set_gic_chain_broken db False)"

subsection \<open>The validation summary and its gate\<close>

record val_summary =
  vs_total :: nat
  vs_divergence_count :: nat
  vs_consecutive_clean :: nat
  vs_gate_n :: int
  vs_gate_passed :: bool
  vs_divergence_rate :: real
  vs_divergence_rate_ok :: bool
  vs_max_divergence_rate :: real
  vs_window_size :: nat
  vs_latest_pcc_state :: "string option"
  vs_latest_pcc_host_state :: "string option"
  vs_latest_gameplay_context :: "string option"
  vs_chain_broken :: bool

definition pcc_attested :: "val_row \<Rightarrow> bool" where
  "pcc_attested r \<longleftrightarrow> vr_pcc_state r = Some ''NOMINAL''
     \<and> vr_pcc_host_state r \<in> {Some ''EXCLUSIVE_USB'', Some ''UNKNOWN''}"

definition gameplay_attested :: "(nat, apop_row) dict \<Rightarrow> string \<Rightarrow> val_row \<Rightarrow> bool" where
  "gameplay_attested logs mode r =
     (case dget logs (vr_id r) of
        Some a \<Rightarrow> active_play_gate_allows (Some (al_state a)) (Some (al_confidence a))
                    (vr_gameplay_context r) (Some mode)
      | None \<Rightarrow> if mode = ''strict'' then False
                else vr_gameplay_context r \<noteq> Some ''MENU_DETECTED'')"

definition clean_row :: "(nat, apop_row) dict \<Rightarrow> string \<Rightarrow> val_row \<Rightarrow> bool" where
  "clean_row logs mode r \<longleftrightarrow> \<not> vr_divergence r \<and> pcc_attested r \<and> gameplay_attested logs mode r"

definition gate_window :: "grind_db \<Rightarrow> int \<Rightarrow> val_row list" where
  "gate_window db gate_n = sql_limit gate_n (order_desc vr_created_at (gd_validations db))"

definition gate_logs :: "grind_db \<Rightarrow> string \<Rightarrow> val_row list \<Rightarrow> (nat, apop_row) dict" where
  "gate_logs db mode window =
     (if mode \<noteq> ''shadow'' \<and> window \<noteq> []
      then get_active_play_logs_for_validation_ids db (map vr_id window) else [])"

definition get_validation_summary :: "grind_db \<Rightarrow> int \<Rightarrow> real \<Rightarrow> string option \<Rightarrow> val_summary" where
  "get_validation_summary db gate_n max_rate gate_mode =
     (let mode = normalize_active_play_gate_mode gate_mode in
      if gd_gic_chain_broken db then
        \<lparr>vs_total = 0, vs_divergence_count = 0, vs_consecutive_clean = 0, vs_gate_n = gate_n,
         vs_gate_passed = False, vs_divergence_rate = 0, vs_divergence_rate_ok = False,
         vs_max_divergence_rate = max_rate, vs_window_size = 0, vs_latest_pcc_state = None,
         vs_latest_pcc_host_state = None, vs_latest_gameplay_context = None, vs_chain_broken = True\<rparr>
      else
        (let window = gate_window db gate_n;
             logs = gate_logs db mode window;
             clean = length (takeWhile (clean_row logs mode) window);
             rate = (if window = [] then 0
                     else py_round 4 (real (length (filter vr_divergence window)) / real (length window)));
             rate_ok = (rate \<le> max_rate)
         in \<lparr>vs_total = length (gd_validations db),
             vs_divergence_count = length (filter vr_divergence (gd_validations db)),
             vs_consecutive_clean = clean, vs_gate_n = gate_n,
             vs_gate_passed = (gate_n \<le> int clean \<and> rate_ok),
             vs_divergence_rate = rate, vs_divergence_rate_ok = rate_ok,
             vs_max_divergence_rate = max_rate, vs_window_size = length window,
             vs_latest_pcc_state = (case window of [] \<Rightarrow> None | r # _ \<Rightarrow> vr_pcc_state r),
             vs_latest_pcc_host_state = (case window of [] \<Rightarrow> None | r # _ \<Rightarrow> vr_pcc_host_state r),
             vs_latest_gameplay_context = (case window of [] \<Rightarrow> None | r # _ \<Rightarrow> vr_gameplay_context r),
             vs_chain_broken = False\<rparr>))"

subsection \<open>Erasure\<close>

definition redaction :: string where
  "redaction = ''[redacted - GDPR Art.17 erasure]''"

definition anonymize_device_records :: "grind_db \<Rightarrow> string \<Rightarrow> grind_db \<times> nat" where
  "anonymize_device_records db dev =
     (db\<lparr>gd_rulings := map (\<lambda>r. if ru_device_id r = dev
                then r\<lparr>ru_evidence_json := ''{}'', ru_reasoning := redaction\<rparr> else r) (gd_rulings db),
         gd_validations := map (\<lambda>r. if vr_device_id r = dev
                then r\<lparr>vr_divergence_reason := Some ReasonRedacted\<rparr> else r) (gd_validations db)\<rparr>,
      length (filter (\<lambda>r. ru_device_id r = dev) (gd_rulings db))
      + length (filter (\<lambda>r. vr_device_id r = dev) (gd_validations db)))"

definition mark_erasure_complete :: "grind_db \<Rightarrow> string \<Rightarrow> real \<Rightarrow> grind_db \<times> nat" where
  "mark_erasure_complete db dev now =
     (let (db1, n) = anonymize_device_records db dev
      in (db1\<lparr>gd_consent := complete_erasure (gd_consent db1) dev,
              gd_erasures := gd_erasures db1 @ [(dev, n, now)]\<rparr>, n))"

subsection \<open>When the gate passes\<close>

lemma takeWhile_all: "length (takeWhile P xs) = length xs \<longleftrightarrow> list_all P xs"
  by (induction xs) auto

lemma gate_window_length: "0 \<le> n \<Longrightarrow> length (gate_window db n) = min (length (gd_validations db)) (nat n)"
  by (simp add: gate_window_def sql_limit_def)

lemma gate_passed_iff:
  assumes "0 < gate_n"
  shows "vs_gate_passed (get_validation_summary db gate_n max_rate mode) \<longleftrightarrow>
     \<not> gd_gic_chain_broken db \<and> 0 \<le> max_rate \<and> gate_n \<le> int (length (gd_validations db))
     \<and> list_all (clean_row (gate_logs db (normalize_active_play_gate_mode mode) (gate_window db gate_n))
                  (normalize_active_play_gate_mode mode)) (gate_window db gate_n)"
    (is "_ \<longleftrightarrow> _ \<and> _ \<and> _ \<and> list_all ?clean ?w")
proof (cases "gd_gic_chain_broken db")
  case True
  then show ?thesis by (simp add: get_validation_summary_def Let_def)
next
  case False
  define rate where "rate = (if ?w = [] then 0
    else py_round 4 (real (length (filter vr_divergence ?w)) / real (length ?w)))"
  have passed: "vs_gate_passed (get_validation_summary db gate_n max_rate mode)
    \<longleftrightarrow> gate_n \<le> int (length (takeWhile ?clean ?w)) \<and> rate \<le> max_rate"
    using False by (simp add: get_validation_summary_def Let_def rate_def)
  have len: "length (takeWhile ?clean ?w) \<le> length ?w" by (rule length_takeWhile_le)
  have w: "length ?w = min (length (gd_validations db)) (nat gate_n)"
    using assms by (simp add: gate_window_length)
  have all: "gate_n \<le> int (length (takeWhile ?clean ?w))
      \<longleftrightarrow> gate_n \<le> int (length (gd_validations db)) \<and> list_all ?clean ?w"
    using takeWhile_all [of ?clean ?w] len w assms by auto
  have "rate = 0" if "list_all ?clean ?w"
  proof -
    have "filter vr_divergence ?w = []"
      using that by (auto simp: filter_empty_conv list_all_iff clean_row_def)
    then show ?thesis by (simp add: rate_def)
  qed
  then show ?thesis using passed all False by auto
qed

subsection \<open>The invariant of the stored chain\<close>

interpretation gl: chain_log "gic_row_link sid" "\<lambda>_ _. True" chain_ts chain_hash for sid
  by unfold_locales (auto simp: gic_row_link_def compute_gic_def bindE_Inr)

definition grind_inv :: "grind_db \<Rightarrow> bool" where
  "grind_inv db \<longleftrightarrow>
     map ru_id (gd_rulings db) = [1..<Suc (length (gd_rulings db))]
     \<and> map vr_id (gd_validations db) = [1..<Suc (length (gd_validations db))]
     \<and> (\<forall>r \<in> set (gd_validations db). vr_gic r \<noteq> None
          \<longrightarrow> commitment_of db (vr_ruling_id r) \<noteq> None \<and> 0 < gic_ts r)
     \<and> (\<forall>sid. sid \<noteq> [] \<longrightarrow> gl.chain sid None 0 (join_rulings db (stamped_rows db sid)))"

lemma grind_invD:
  assumes "grind_inv db"
  shows "map vr_id (gd_validations db) = [1..<Suc (length (gd_validations db))]"
    and "r \<in> set (gd_validations db) \<Longrightarrow> vr_gic r \<noteq> None \<Longrightarrow> commitment_of db (vr_ruling_id r) \<noteq> None"
    and "r \<in> set (gd_validations db) \<Longrightarrow> vr_gic r \<noteq> None \<Longrightarrow> 0 < gic_ts r"
    and "sid \<noteq> [] \<Longrightarrow> gl.chain sid None 0 (join_rulings db (stamped_rows db sid))"
  using assms unfolding grind_inv_def by blast+

lemma join_rulings_append [simp]:
  "join_rulings db [] = []"
  "join_rulings db (xs @ ys) = join_rulings db xs @ join_rulings db ys"
  by (simp_all add: join_rulings_def)

lemma join_rulings_fst:
  "(\<And>r. r \<in> set rows \<Longrightarrow> commitment_of db (vr_ruling_id r) \<noteq> None) \<Longrightarrow> map fst (join_rulings db rows) = rows"
  by (induction rows) (auto simp: join_rulings_def split: option.splits)

lemma stamped_rows_subset: "r \<in> set (stamped_rows db sid) \<Longrightarrow> r \<in> set (gd_validations db) \<and> vr_gic r \<noteq> None"
  by (simp add: stamped_rows_def)

lemma grind_inv_join:
  "grind_inv db \<Longrightarrow> map fst (join_rulings db (stamped_rows db sid)) = stamped_rows db sid"
  using stamped_rows_subset grind_invD(2) by (intro join_rulings_fst) blast

text \<open>On an honest store the status query finds the chain intact and in full.\<close>

lemma honest_chain_status:
  assumes inv: "grind_inv db" and sid: "sid \<noteq> []"
  obtains st where "get_grind_chain_status db sid = Inr st" "gs_chain_intact st"
    "gs_chain_length st = length (stamped_rows db sid)"
    "gs_latest_gic_hash st = (if stamped_rows db sid = [] then [] else gic_hash (last (stamped_rows db sid)))"
proof -
  let ?rows = "join_rulings db (stamped_rows db sid)"
  have chain: "gl.chain sid None 0 ?rows" using inv sid by (rule grind_invD(4))
  have rows: "get_ruling_rows_for_chain db sid = ?rows"
    by (simp add: get_ruling_rows_for_chain_def gl.chain_order [OF chain])
  have fst: "map fst ?rows = stamped_rows db sid" using inv by (rule grind_inv_join)
  then have len: "length ?rows = length (stamped_rows db sid)" by (metis length_map)
  have last: "gic_hash (fst (last ?rows)) = gic_hash (last (stamped_rows db sid))" if "?rows \<noteq> []"
    using last_map [OF that, of fst] fst by simp
  show thesis
    by (rule that [of "the (case get_grind_chain_status db sid of Inl _ \<Rightarrow> None | Inr st \<Rightarrow> Some st)"])
      (use gl.verify_chain [OF chain] rows len last in
        \<open>auto simp: get_grind_chain_status_def Let_def split: if_splits\<close>)
qed

subsection \<open>Erasure and the chain\<close>

lemma find_map: "find P (map f xs) = map_option f (find (P \<circ> f) xs)"
  by (induction xs) auto

definition redact_row :: "string \<Rightarrow> val_row \<Rightarrow> val_row" where
  "redact_row dev r =
     (if vr_device_id r = dev then r\<lparr>vr_divergence_reason := Some ReasonRedacted\<rparr> else r)"

lemma redact_row_simps [simp]:
  "vr_gic (redact_row dev r) = vr_gic r" "vr_ruling_id (redact_row dev r) = vr_ruling_id r"
  "vr_grind_session_id (redact_row dev r) = vr_grind_session_id r"
  "gic_ts (redact_row dev r) = gic_ts r" "gic_hash (redact_row dev r) = gic_hash r"
  "chain_link_of (redact_row dev r, c) = chain_link_of (r, c)"
  by (simp_all add: redact_row_def gic_ts_def gic_hash_def chain_link_of_def)

definition redact_ruling :: "string \<Rightarrow> ruling \<Rightarrow> ruling" where
  "redact_ruling dev r =
     (if ru_device_id r = dev then r\<lparr>ru_evidence_json := ''{}'', ru_reasoning := redaction\<rparr> else r)"

lemma redact_ruling_simps [simp]:
  "ru_id (redact_ruling dev r) = ru_id r"
  "ru_commitment_hash (redact_ruling dev r) = ru_commitment_hash r"
  by (simp_all add: redact_ruling_def)

lemma erasure_rulings:
  "gd_rulings (fst (mark_erasure_complete db dev now)) = map (redact_ruling dev) (gd_rulings db)"
  by (simp add: mark_erasure_complete_def anonymize_device_records_def redact_ruling_def Let_def)

lemma erasure_rows:
  "gd_validations (fst (mark_erasure_complete db dev now)) = map (redact_row dev) (gd_validations db)"
  "commitment_of (fst (mark_erasure_complete db dev now)) = commitment_of db"
proof -
  show "gd_validations (fst (mark_erasure_complete db dev now)) = map (redact_row dev) (gd_validations db)"
    by (simp add: mark_erasure_complete_def anonymize_device_records_def redact_row_def Let_def)
  show "commitment_of (fst (mark_erasure_complete db dev now)) = commitment_of db"
    by (simp add: erasure_rulings commitment_of_def fun_eq_iff find_map option.map_comp comp_def)
qed

lemma erasure_chain_rows:
  "get_ruling_rows_for_chain (fst (mark_erasure_complete db dev now)) sid
     = map (map_prod (redact_row dev) id) (get_ruling_rows_for_chain db sid)"
proof -
  let ?db' = "fst (mark_erasure_complete db dev now)"
  have stamped: "stamped_rows ?db' sid = map (redact_row dev) (stamped_rows db sid)"
    by (simp add: stamped_rows_def erasure_rows(1) filter_map comp_def)
  have "join_rulings ?db' (map (redact_row dev) rows)
      = map (map_prod (redact_row dev) id) (join_rulings db rows)" for rows
    by (induction rows) (simp_all add: join_rulings_def erasure_rows(2) split: option.splits)
  then show ?thesis
    by (simp add: get_ruling_rows_for_chain_def stamped order_asc_map)
qed

lemma erasure_keeps_status:
  "get_grind_chain_status (fst (mark_erasure_complete db dev now)) sid = get_grind_chain_status db sid"
proof -
  let ?F = "map_prod (redact_row dev) (id :: string \<Rightarrow> string)"
  have loop: "verify_loop (gic_row_link sid) chain_hash None (map ?F rows)
      = verify_loop (gic_row_link sid) chain_hash None rows" for rows
    by (rule verify_loop_map) (auto simp: gic_row_link_def split: option.splits)
  show ?thesis
    unfolding get_grind_chain_status_def erasure_chain_rows Let_def loop
    by (simp add: last_map hd_map)
qed

end
