(* ===== verification/Validator.thy ===== *)
theory Validator
  imports GrindStore
begin

section \<open>The validation agent\<close>

text \<open>
  \<open>bridge/vapi_bridge/session_adjudicator_validator.py\<close>: every ruling of the adjudicator is
  compared with the deterministic rules, logged, and, when the session counts, stamped with the
  next head of the grind chain. What the agent reads from outside (clock, capture monitor, recent
  records and frames) is the argument \<open>val_env\<close>. An exception ends the call with the state it has
  reached, which is why \<open>validate_ruling\<close> returns the state together with its result.
\<close>

definition rule_fallback :: "jdict \<Rightarrow> string \<times> real \<times> string" where
  "rule_fallback evidence =
     (if get_truthy evidence ''hard_cheat_codes''
      then (''BLOCK'', 9 / 10, ''Hard cheat code detected (rule fallback).'')
      else if jget evidence ''enrollment_status'' = JStr ''eligible''
      then (''CERTIFY'', 8 / 10, ''Enrollment threshold met (rule fallback).'')
      else if jget evidence ''risk_label'' = JStr ''critical''
      then (''HOLD'', 7 / 10, ''Critical risk trajectory (rule fallback).'')
      else if get_truthy evidence ''advisory_codes''
      then (''FLAG'', 5 / 10, ''Advisory detection(s) (rule fallback).'')
      else (''FLAG'', 5 / 100, ''No anomalies detected (rule fallback).''))"

definition extract_divergence_fields :: "jdict \<Rightarrow> jdict" where
  "extract_divergence_fields ev =
     (if get_truthy ev ''hard_cheat_codes'' then [(''hard_cheat_codes'', jget ev ''hard_cheat_codes'')] else [])
     @ (if get_truthy ev ''advisory_codes'' then [(''advisory_codes'', jget ev ''advisory_codes'')] else [])
     @ (if get_truthy ev ''class_j_ml_bot_risk'' \<and> jget ev ''class_j_ml_bot_risk'' \<noteq> JStr ''LOW''
        then [(''class_j_ml_bot_risk'', jget ev ''class_j_ml_bot_risk'')] else [])
     @ (if get_truthy ev ''ml_bot_candidate'' then [(''ml_bot_candidate'', JBool True)] else [])
     @ (if get_truthy ev ''ceremony_integrity_failed''
        then [(''ceremony_integrity_failed'', JBool True)] else [])
     @ (if get_truthy ev ''enrollment_status'' \<and> jget ev ''enrollment_status'' \<noteq> JStr ''eligible''
        then [(''enrollment_status'', jget ev ''enrollment_status'')] else [])
     @ (if get_truthy ev ''risk_label'' then [(''risk_label'', jget ev ''risk_label'')] else [])"

record val_cfg =
  vc_threshold :: real
  vc_gate_n :: int
  vc_max_rate :: real
  vc_grind_mode :: bool
  vc_grind_session_id :: string
  vc_pcc_smoke_bypass :: bool
  vc_gameplay_discrimination :: bool
  vc_apop_enabled :: bool
  vc_apop_mode :: "string option"
  vc_vhr_hook_enabled :: bool
  vc_session_gamer_address :: string
  vc_curator_wired :: bool
  vc_bus_wired :: bool

record val_env =
  ve_pcc_state :: "string option"
  ve_pcc_host :: "string option"
  ve_records :: "jdict list"
  ve_checkpoints :: "jdict list"
  ve_time_ns :: int
  ve_now :: real

text \<open>The agent's own state: the gate event is emitted once. The bus and the hook are outputs.\<close>

record val_state =
  va_db :: grind_db
  va_gate_emitted :: bool
  va_published :: "(string \<times> jdict) list"
  va_vhr_fired :: "nat list"

definition ruling_evidence :: "ruling \<Rightarrow> jdict res" where
  "ruling_evidence row =
     (case json_loads (if ru_evidence_json row = [] then ''{}'' else ru_evidence_json row) of
        None \<Rightarrow> Inr []
      | Some (JObj d) \<Rightarrow> Inr d
      | Some _ \<Rightarrow> Inl (PyExc ''AttributeError'' ''object has no attribute get''))"

definition diverges :: "val_cfg \<Rightarrow> ruling \<Rightarrow> jdict \<Rightarrow> bool" where
  "diverges cfg row evidence =
     (let (fb_verdict, fb_confidence, _) = rule_fallback evidence
      in ru_verdict row \<noteq> fb_verdict \<and> vc_threshold cfg < \<bar>ru_confidence row - fb_confidence\<bar>)"

definition divergence_payload :: "ruling \<Rightarrow> jdict \<Rightarrow> jdict" where
  "divergence_payload row evidence =
     (let (fb_verdict, fb_confidence, _) = rule_fallback evidence
      in [(''ruling_id'', JInt (int (ru_id row))), (''device_id'', JStr (ru_device_id row)),
          (''llm_verdict'', JStr (ru_verdict row)), (''fallback_verdict'', JStr fb_verdict),
          (''delta_confidence'', JFloat (py_round 4 \<bar>ru_confidence row - fb_confidence\<bar>))])"

definition gameplay_context :: "val_cfg \<Rightarrow> jdict \<Rightarrow> string option res" where
  "gameplay_context cfg evidence =
     bindE (py_float (dget_or evidence ''trigger_active_fraction'' (JFloat (-1)))) (\<lambda>taf.
       Inr (if taf < 0 then None
            else if vc_gameplay_discrimination cfg
            then Some (if 0 < taf then ''ACTIVE_GAMEPLAY'' else ''MENU_DETECTED'')
            else Some ''ACTIVE_GAMEPLAY''))"

definition apop_of :: "val_cfg \<Rightarrow> val_env \<Rightarrow> apop_result option" where
  "apop_of cfg env =
     (if vc_apop_enabled cfg
      then (case classify_active_play_occupancy (ve_records env) (ve_checkpoints env) of
              Inl _ \<Rightarrow> None | Inr r \<Rightarrow> Some r)
      else None)"

definition pcc_eligible :: "val_cfg \<Rightarrow> val_env \<Rightarrow> bool" where
  "pcc_eligible cfg env \<longleftrightarrow> vc_pcc_smoke_bypass cfg
     \<or> (ve_pcc_state env = Some ''NOMINAL''
        \<and> ve_pcc_host env \<in> {Some ''EXCLUSIVE_USB'', Some ''UNKNOWN''})"

definition gameplay_ok :: "val_cfg \<Rightarrow> apop_result option \<Rightarrow> string option \<Rightarrow> bool" where
  "gameplay_ok cfg apop ctx \<longleftrightarrow>
     (if vc_pcc_smoke_bypass cfg then True
      else if vc_apop_enabled cfg
      then active_play_gate_allows (map_option ap_state apop) (map_option ap_confidence apop) ctx
             (Some (normalize_active_play_gate_mode (vc_apop_mode cfg)))
      else ctx \<noteq> Some ''MENU_DETECTED'')"

text \<open>
  The stamp: an empty commitment counts as 32 zero bytes, the time is pushed past the last stamped
  one, the first link of a session starts from its genesis.
\<close>

definition zero_commitment :: string where
  "zero_commitment = concat (replicate 32 ''00'')"

definition stamp_gic ::
  "grind_db \<Rightarrow> nat \<Rightarrow> string \<Rightarrow> string option \<Rightarrow> string \<Rightarrow> string \<Rightarrow> int \<Rightarrow> grind_db res" where
  "stamp_gic db row_id commitment pcc_host fb_verdict sid time_ns =
     (let commitment' = (if commitment = [] then zero_commitment else commitment) in
      bindE (get_prev_grind_chain_hash db sid) (\<lambda>prev.
      let prev_ts = get_prev_gic_ts_ns db;
          ts = (if time_ns \<le> prev_ts then prev_ts + 1 else time_ns);
          link = \<lparr>gl_commitment_hash_hex = commitment',
                  gl_pcc_host_state = (case pcc_host of None \<Rightarrow> [] | Some s \<Rightarrow> s),
                  gl_fallback_verdict = fb_verdict, gl_ts_ns = ts\<rparr>
      in bindE (case prev of None \<Rightarrow> genesis_gic sid ts | Some h \<Rightarrow> Inr h) (\<lambda>p.
         bindE (compute_gic p link) (\<lambda>gic.
           update_grind_chain_hash db row_id (hex gic) ts sid))))"

definition maybe_stamp ::
  "val_cfg \<Rightarrow> val_env \<Rightarrow> grind_db \<Rightarrow> nat \<Rightarrow> ruling \<Rightarrow> string \<Rightarrow> bool \<Rightarrow> bool \<Rightarrow> grind_db" where
  "maybe_stamp cfg env db row_id row fb_verdict divergence gp_ok =
     (if vc_grind_mode cfg \<and> gd_gic_chain_broken db then db
      else if vc_grind_mode cfg \<and> pcc_eligible cfg env \<and> \<not> divergence \<and> gp_ok
      then (case stamp_gic db row_id (ru_commitment_hash row) (ve_pcc_host env) fb_verdict
                   (vc_grind_session_id cfg) (ve_time_ns env) of
              Inl _ \<Rightarrow> db | Inr db' \<Rightarrow> db')
      else db)"

definition maybe_fire_vhr_hook :: "val_cfg \<Rightarrow> val_state \<Rightarrow> nat \<Rightarrow> val_state" where
  "maybe_fire_vhr_hook cfg st ruling_id =
     (if vc_vhr_hook_enabled cfg \<and> vc_curator_wired cfg \<and> vc_session_gamer_address cfg \<noteq> []
      then st\<lparr>va_vhr_fired := va_vhr_fired st @ [ruling_id]\<rparr> else st)"

definition publish :: "val_cfg \<Rightarrow> string \<Rightarrow> jdict \<Rightarrow> val_state \<Rightarrow> val_state" where
  "publish cfg ty payload st =
     (if vc_bus_wired cfg then st\<lparr>va_published := va_published st @ [(ty, payload)]\<rparr> else st)"

definition check_gate :: "val_cfg \<Rightarrow> val_env \<Rightarrow> val_state \<Rightarrow> val_state" where
  "check_gate cfg env st =
     (if va_gate_emitted st then st
      else
        (let mode = normalize_active_play_gate_mode (vc_apop_mode cfg);
             s = get_validation_summary (va_db st) (vc_gate_n cfg) (vc_max_rate cfg)
                   (Some (if vc_apop_enabled cfg then mode else ''shadow''));
             payload = [(''consecutive_clean'', JInt (int (vs_consecutive_clean s))),
                        (''divergence_count'', JInt (int (vs_divergence_count s))),
                        (''gate_n'', JInt (vc_gate_n cfg))];
             advice = ''Set AGENT_DRY_RUN=false via POST /agent/config to enable live enforcement.''
         in if vs_gate_passed s then
              publish cfg ''dry_run_gate_passed'' payload
                (st\<lparr>va_gate_emitted := True,
                    va_db := write_agent_event (va_db st) ''dry_run_gate_passed''
                      (payload @ [(''recommendation'', JStr advice)]) [] (ve_now env)\<rparr>)
            else st))"

definition log_divergence :: "val_cfg \<Rightarrow> val_env \<Rightarrow> ruling \<Rightarrow> jdict \<Rightarrow> val_state \<Rightarrow> val_state" where
  "log_divergence cfg env row evidence st =
     (let payload = divergence_payload row evidence
      in publish cfg ''validation_divergence'' payload
           (st\<lparr>va_db := write_agent_event (va_db st) ''validation_divergence'' payload
                          (ru_device_id row) (ve_now env)\<rparr>))"

definition ruling_fields :: "val_cfg \<Rightarrow> val_env \<Rightarrow> ruling \<Rightarrow> jdict \<Rightarrow> string option \<Rightarrow> val_fields" where
  "ruling_fields cfg env row evidence ctx =
     (let (fb_verdict, fb_confidence, _) = rule_fallback evidence;
          divergence = diverges cfg row evidence
      in \<lparr>vf_ruling_id = ru_id row, vf_device_id = ru_device_id row, vf_llm_verdict = ru_verdict row,
          vf_fallback_verdict = fb_verdict, vf_llm_confidence = ru_confidence row,
          vf_fallback_confidence = fb_confidence, vf_divergence = divergence,
          vf_divergence_reason = (if divergence then Some (extract_divergence_fields evidence) else None),
          vf_pcc_state = ve_pcc_state env, vf_pcc_host_state = ve_pcc_host env,
          vf_gameplay_context = ctx\<rparr>)"

text \<open>What follows the insertion of the validation row.\<close>

definition finish_ruling ::
  "val_cfg \<Rightarrow> val_env \<Rightarrow> ruling \<Rightarrow> jdict \<Rightarrow> string option \<Rightarrow> nat \<Rightarrow> val_state \<Rightarrow> val_state" where
  "finish_ruling cfg env row evidence ctx row_id st =
     (let apop = apop_of cfg env;
          mode = normalize_active_play_gate_mode (vc_apop_mode cfg);
          db1 = (case apop of None \<Rightarrow> va_db st
                 | Some r \<Rightarrow> insert_active_play_occupancy_log (va_db st) row_id (ru_id row)
                               (ru_device_id row) r mode (ve_now env));
          db2 = maybe_stamp cfg env db1 row_id row (fst (rule_fallback evidence))
                  (diverges cfg row evidence) (gameplay_ok cfg apop ctx)
      in check_gate cfg env (maybe_fire_vhr_hook cfg (st\<lparr>va_db := db2\<rparr>) (ru_id row)))"

definition validate_ruling :: "val_cfg \<Rightarrow> val_env \<Rightarrow> ruling \<Rightarrow> val_state \<Rightarrow> val_state \<times> unit res" where
  "validate_ruling cfg env row st =
     (case ruling_evidence row of
        Inl e \<Rightarrow> (st, Inl e)
      | Inr evidence \<Rightarrow>
          (let st1 = (if diverges cfg row evidence then log_divergence cfg env row evidence st else st)
           in case gameplay_context cfg evidence of
                Inl e \<Rightarrow> (st1, Inl e)
              | Inr ctx \<Rightarrow>
                  (case insert_validation_record (va_db st1) (ruling_fields cfg env row evidence ctx)
                          (ve_now env) of
                     (db, Inl e) \<Rightarrow> (st1\<lparr>va_db := db\<rparr>, Inl e)
                   | (db, Inr row_id) \<Rightarrow>
                       (finish_ruling cfg env row evidence ctx row_id (st1\<lparr>va_db := db\<rparr>), Inr ()))))"

text \<open>One polling round: at most 50 rulings, an exception of one does not stop the others.\<close>

fun consume_rulings :: "val_cfg \<Rightarrow> (nat \<Rightarrow> val_env) \<Rightarrow> ruling list \<Rightarrow> val_state \<Rightarrow> val_state" where
  "consume_rulings cfg env [] st = st"
| "consume_rulings cfg env (r # rs) st =
     consume_rulings cfg env rs (fst (validate_ruling cfg (env (ru_id r)) r st))"

definition consume_pending_rulings :: "val_cfg \<Rightarrow> (nat \<Rightarrow> val_env) \<Rightarrow> val_state \<Rightarrow> val_state" where
  "consume_pending_rulings cfg env st =
     consume_rulings cfg env (get_unvalidated_rulings (va_db st) 50) st"

subsection \<open>Every operation keeps the chain\<close>

lemma commitment_of_cong: "gd_rulings db' = gd_rulings db \<Longrightarrow> commitment_of db' = commitment_of db"
  by (simp add: commitment_of_def fun_eq_iff)

lemma join_rulings_cong:
  assumes "gd_rulings db' = gd_rulings db"
  shows "join_rulings db' = join_rulings db"
  by (simp add: join_rulings_def fun_eq_iff commitment_of_cong [OF assms])

lemma grind_inv_cong:
  assumes "gd_rulings db' = gd_rulings db" and "gd_validations db' = gd_validations db"
  shows "grind_inv db' = grind_inv db"
proof -
  have "stamped_rows db' = stamped_rows db" using assms(2) by (simp add: stamped_rows_def fun_eq_iff)
  then show ?thesis
    using assms by (simp add: grind_inv_def commitment_of_cong [OF assms(1)] join_rulings_cong [OF assms(1)])
qed

lemma grind_inv_events [simp]:
  "grind_inv (write_agent_event db ty p d now) = grind_inv db"
  "grind_inv (insert_active_play_occupancy_log db v r d res m now) = grind_inv db"
  "grind_inv (set_gic_chain_broken db b) = grind_inv db"
  "grind_inv (db\<lparr>gd_consent := c\<rparr>) = grind_inv db"
  by (rule grind_inv_cong;
      simp add: write_agent_event_def insert_active_play_occupancy_log_def set_gic_chain_broken_def)+

lemma insert_validation_cases:
  assumes "insert_validation_record db f now = (db', res)"
  obtains (blocked) e where "res = Inl e" "gd_rulings db' = gd_rulings db" "gd_validations db' = gd_validations db"
  | (added) "res = Inr (length (gd_validations db) + 1)" "gd_rulings db' = gd_rulings db"
      "gd_validations db' = gd_validations db @ [new_val_row (length (gd_validations db) + 1) f now]"
      "gd_gic_chain_broken db' = gd_gic_chain_broken db"
  using assms unfolding insert_validation_record_def Let_def
  by (auto split: prod.splits sum.splits if_splits)

lemma grind_inv_insert_validation:
  assumes "insert_validation_record db f now = (db', res)" and inv: "grind_inv db"
  shows "grind_inv db'"
  using assms(1)
proof (cases rule: insert_validation_cases)
  case (blocked e)
  then show ?thesis using inv grind_inv_cong by blast
next
  case added
  have "stamped_rows db' sid = stamped_rows db sid" for sid
    unfolding stamped_rows_def added(3) by (simp add: new_val_row_def)
  then show ?thesis
    using inv added
    unfolding grind_inv_def join_rulings_cong [OF added(2)] commitment_of_cong [OF added(2)]
    by (auto simp: new_val_row_def)
qed

lemma compute_gic_codes:
  assumes "gl_commitment_hash_hex l = gl_commitment_hash_hex l'" and "gl_ts_ns l = gl_ts_ns l'"
    and "host_code (gl_pcc_host_state l) = host_code (gl_pcc_host_state l')"
    and "verdict_code (gl_fallback_verdict l) = verdict_code (gl_fallback_verdict l')"
  shows "compute_gic p l = compute_gic p l'"
  using assms by (simp add: compute_gic_def gic_input_def)

lemma default_codes:
  "host_code (case h of None \<Rightarrow> [] | Some s \<Rightarrow> s) = host_code (or_default h ''DISCONNECTED'')"
  "verdict_code v = verdict_code (or_default (Some v) ''FLAG'')"
  by (auto simp: or_default_def host_code_def verdict_code_def PCC_HOST_CODES_def VERDICT_CODES_def
      dget_or_def split: option.splits)

lemma update_last_val_row:
  assumes "map vr_id (vs @ [r]) = [1..<Suc (length (vs @ [r]))]" and "gd_validations db = vs @ [r]"
  shows "gd_validations (update_val_row db (vr_id r) f) = vs @ [f r]"
proof -
  have "distinct (map vr_id (vs @ [r]))" unfolding assms(1) by simp
  then have "\<forall>x \<in> set vs. vr_id x \<noteq> vr_id r" by (auto simp: image_iff)
  then show ?thesis by (simp add: update_val_row_def assms(2) map_idI)
qed

lemma gic_ts_bound:
  assumes "r \<in> set (stamped_rows db sid)"
  shows "gic_ts r \<le> get_prev_gic_ts_ns db"
proof -
  have "r \<in> set (stamped_rows db [])" using assms by (auto simp: stamped_rows_def)
  then show ?thesis by (auto simp: get_prev_gic_ts_ns_def Let_def intro!: Max_ge)
qed

lemma get_prev_gic_ts_ns_nonneg: "grind_inv db \<Longrightarrow> 0 \<le> get_prev_gic_ts_ns db"
proof (cases "stamped_rows db []")
  case (Cons r rs)
  assume inv: "grind_inv db"
  have "r \<in> set (stamped_rows db [])" using Cons by simp
  then have "0 < gic_ts r \<and> gic_ts r \<le> get_prev_gic_ts_ns db"
    using gic_ts_bound grind_invD(3) [OF inv] stamped_rows_subset by blast
  then show ?thesis by linarith
qed (simp add: get_prev_gic_ts_ns_def)

text \<open>A stamp that succeeds appends one link to the chain of its session.\<close>

lemma stamp_appends_link:
  assumes inv: "grind_inv db" and vals: "gd_validations db = vs @ [r]" and new: "vr_gic r = None"
    and com: "commitment_of db (vr_ruling_id r) = Some c" "c \<noteq> []" and sid: "sid \<noteq> []"
    and stamp: "stamp_gic db (vr_id r) c (vr_pcc_host_state r) (vr_fallback_verdict r) sid t = Inr db'"
  obtains g ts where "gd_rulings db' = gd_rulings db"
    "gd_validations db' = vs @ [r\<lparr>vr_gic := Some (hex g, ts), vr_grind_session_id := Some sid\<rparr>]"
    "get_prev_gic_ts_ns db < ts"
    "bindE (get_prev_grind_chain_hash db sid) (\<lambda>prev. gic_row_link sid prev
       (r\<lparr>vr_gic := Some (hex g, ts), vr_grind_session_id := Some sid\<rparr>, c)) = Inr g"
proof -
  define ts where "ts = (if t \<le> get_prev_gic_ts_ns db then get_prev_gic_ts_ns db + 1 else t)"
  define link where "link = \<lparr>gl_commitment_hash_hex = c,
    gl_pcc_host_state = (case vr_pcc_host_state r of None \<Rightarrow> [] | Some s \<Rightarrow> s),
    gl_fallback_verdict = vr_fallback_verdict r, gl_ts_ns = ts\<rparr>"
  from stamp com(2) obtain prev p g where s: "get_prev_grind_chain_hash db sid = Inr prev"
    "(case prev of None \<Rightarrow> genesis_gic sid ts | Some h \<Rightarrow> Inr h) = Inr p"
    "compute_gic p link = Inr g" "update_grind_chain_hash db (vr_id r) (hex g) ts sid = Inr db'"
    unfolding stamp_gic_def Let_def ts_def [symmetric] by (auto simp: bindE_Inr link_def)
  let ?r = "r\<lparr>vr_gic := Some (hex g, ts), vr_grind_session_id := Some sid\<rparr>"
  have db': "db' = update_val_row db (vr_id r) (\<lambda>r. r\<lparr>vr_gic := Some (hex g, ts), vr_grind_session_id := Some sid\<rparr>)"
    using s(4) sid by (auto simp: update_grind_chain_hash_def bindE_guardE_Inr)
  have "compute_gic p (chain_link_of (?r, c)) = compute_gic p link"
    by (rule compute_gic_codes)
      (simp_all add: chain_link_of_def link_def gic_ts_def default_codes(1) default_codes(2) [symmetric])
  then have "gic_row_link sid prev (?r, c) = Inr g"
    using s(2,3) by (cases prev) (auto simp: gic_row_link_def gic_ts_def)
  moreover have "gd_validations db' = vs @ [?r]"
    using update_last_val_row [OF _ vals] grind_invD(1) [OF inv] by (simp add: db' vals)
  moreover have "gd_rulings db' = gd_rulings db" by (simp add: db' update_val_row_def)
  moreover have "get_prev_gic_ts_ns db < ts" by (simp add: ts_def)
  ultimately show thesis by (intro that [of g ts]) (simp_all add: s(1))
qed

lemma stamp_keeps_inv:
  assumes inv: "grind_inv db" and vals: "gd_validations db = vs @ [r]" and new: "vr_gic r = None"
    and com: "commitment_of db (vr_ruling_id r) = Some c" "c \<noteq> []" and sid: "sid \<noteq> []"
    and stamp: "stamp_gic db (vr_id r) c (vr_pcc_host_state r) (vr_fallback_verdict r) sid t = Inr db'"
  shows "grind_inv db'" and "\<exists>r'. stamped_rows db' sid = stamped_rows db sid @ [r']"
proof -
  obtain g ts where s: "gd_rulings db' = gd_rulings db"
    "gd_validations db' = vs @ [r\<lparr>vr_gic := Some (hex g, ts), vr_grind_session_id := Some sid\<rparr>]"
    "get_prev_gic_ts_ns db < ts"
    "bindE (get_prev_grind_chain_hash db sid) (\<lambda>prev. gic_row_link sid prev
       (r\<lparr>vr_gic := Some (hex g, ts), vr_grind_session_id := Some sid\<rparr>, c)) = Inr g"
    using stamp_appends_link [OF assms] .
  let ?r = "r\<lparr>vr_gic := Some (hex g, ts), vr_grind_session_id := Some sid\<rparr>"
  let ?rows = "join_rulings db (stamped_rows db sid)"
  have stamped: "stamped_rows db' sid' = stamped_rows db sid' @ (if sid' = [] \<or> sid' = sid then [?r] else [])"
    for sid' using new unfolding stamped_rows_def s(2) vals by simp
  have join: "join_rulings db [?r] = [(?r, c)]" using com(1) by (simp add: join_rulings_def)
  have chain: "gl.chain sid None 0 ?rows" using inv sid by (rule grind_invD(4))
  have fst: "map fst ?rows = stamped_rows db sid" using inv by (rule grind_inv_join)
  have new_chain: "gl.chain sid None 0 (?rows @ [(?r, c)])"
  proof (cases "?rows = []")
    case True
    then have "stamped_rows db sid = []" using fst by simp
    then have "gic_row_link sid None (?r, c) = Inr g" using s(4) by (simp add: get_prev_grind_chain_hash_def)
    then show ?thesis
      using True s(3) get_prev_gic_ts_ns_nonneg [OF inv] by (simp add: gic_ts_def gic_hash_def)
  next
    case False
    then have ne: "stamped_rows db sid \<noteq> []" using fst by (metis Nil_is_map_conv)
    obtain h where h: "gic_hash (fst (last ?rows)) = hex h" using gl.chain_last_hash [OF chain False] by auto
    have last: "fst (last ?rows) = last (stamped_rows db sid)" using last_map [OF False, of fst] fst by simp
    have "sorted_wrt (<) (map gic_ts (stamped_rows db sid))"
      using gl.chain_sorted [OF chain] arg_cong [OF fst, of "map gic_ts"] by (simp add: comp_def)
    then have "first_row (order_desc gic_ts (stamped_rows db sid)) = Some (last (stamped_rows db sid))"
      using ne by (simp add: order_desc_sorted first_row_def hd_rev split: list.splits)
    then have link: "gic_row_link sid (Some h) (?r, c) = Inr g"
      using s(4) h by (simp add: get_prev_grind_chain_hash_def last fromhex_hex)
    have "last (stamped_rows db sid) \<in> set (stamped_rows db sid)" using ne by simp
    then have "chain_ts (last ?rows) < chain_ts (?r, c)"
      using gic_ts_bound [of _ db sid] s(3) last by (force simp: gic_ts_def)
    then show ?thesis using gl.chain_snoc [OF chain False h] link by (simp add: gic_hash_def)
  qed
  have "gl.chain sid' None 0 (join_rulings db' (stamped_rows db' sid'))" if "sid' \<noteq> []" for sid'
    using grind_invD(4) [OF inv that] new_chain that
    unfolding join_rulings_cong [OF s(1)] stamped by (auto simp: join)
  moreover have "0 < gic_ts ?r"
    using s(3) get_prev_gic_ts_ns_nonneg [OF inv] by (simp add: gic_ts_def)
  ultimately show "grind_inv db'"
    using inv com(1) unfolding grind_inv_def commitment_of_cong [OF s(1)] s(1) s(2) vals by auto
  show "\<exists>r'. stamped_rows db' sid = stamped_rows db sid @ [r']" using stamped [of sid] by auto
qed

text \<open>The rulings the agent may see: rows of the table, with a commitment.\<close>

definition ruling_in :: "grind_db \<Rightarrow> ruling \<Rightarrow> bool" where
  "ruling_in db row \<longleftrightarrow> row \<in> set (gd_rulings db) \<and> ru_commitment_hash row \<noteq> []"

lemma find_unique: "distinct (map f xs) \<Longrightarrow> x \<in> set xs \<Longrightarrow> find (\<lambda>y. f y = f x) xs = Some x"
  by (induction xs) (auto simp: rev_image_eqI)

lemma commitment_of_in:
  assumes "grind_inv db" and "row \<in> set (gd_rulings db)"
  shows "commitment_of db (ru_id row) = Some (ru_commitment_hash row)"
proof -
  have dist: "distinct (map ru_id (gd_rulings db))"
    using assms(1) by (simp add: grind_inv_def del: upt_Suc)
  have "find (\<lambda>ru. ru_id ru = ru_id row) (gd_rulings db) = Some row"
    using dist assms(2) by (rule find_unique)
  then show ?thesis by (simp add: commitment_of_def)
qed

lemma maybe_stamp_keeps_inv:
  assumes inv: "grind_inv db" and vals: "gd_validations db = vs @ [r]" "vr_gic r = None"
    and row: "ruling_in db row" "vr_ruling_id r = ru_id row" "vr_pcc_host_state r = ve_pcc_host env"
    and sid: "vc_grind_session_id cfg \<noteq> []"
  shows "grind_inv (maybe_stamp cfg env db (vr_id r) row (vr_fallback_verdict r) d g)"
proof (cases "stamp_gic db (vr_id r) (ru_commitment_hash row) (ve_pcc_host env) (vr_fallback_verdict r)
    (vc_grind_session_id cfg) (ve_time_ns env)")
  case (Inr db')
  have "commitment_of db (vr_ruling_id r) = Some (ru_commitment_hash row)" "ru_commitment_hash row \<noteq> []"
    using row commitment_of_in [OF inv] by (auto simp: ruling_in_def)
  then have "grind_inv db'" using stamp_keeps_inv(1) [OF inv vals _ _ sid] Inr row(3) by metis
  then show ?thesis using inv Inr by (simp add: maybe_stamp_def)
qed (simp add: maybe_stamp_def inv)

lemma va_db_simps [simp]:
  "grind_inv (va_db (check_gate cfg env st)) = grind_inv (va_db st)"
  "grind_inv (va_db (log_divergence cfg env row ev st)) = grind_inv (va_db st)"
  "va_db (maybe_fire_vhr_hook cfg st i) = va_db st"
  "gd_rulings (va_db (check_gate cfg env st)) = gd_rulings (va_db st)"
  "gd_rulings (va_db (log_divergence cfg env row ev st)) = gd_rulings (va_db st)"
  "gd_validations (va_db (log_divergence cfg env row ev st)) = gd_validations (va_db st)"
  by (simp_all add: check_gate_def log_divergence_def maybe_fire_vhr_hook_def publish_def Let_def)
    (simp_all add: write_agent_event_def)

lemma stamp_gic_rulings: "stamp_gic db i c h v sid t = Inr db' \<Longrightarrow> gd_rulings db' = gd_rulings db"
  unfolding stamp_gic_def Let_def bindE_Inr update_grind_chain_hash_def update_val_row_def
  by auto

lemma maybe_stamp_rulings [simp]: "gd_rulings (maybe_stamp cfg env db i row v d g) = gd_rulings db"
  by (auto simp: maybe_stamp_def dest: stamp_gic_rulings split: sum.split)

lemma new_val_row_simps [simp]:
  "vr_gic (new_val_row i f now) = None" "vr_id (new_val_row i f now) = i"
  "vr_ruling_id (new_val_row i f now) = vf_ruling_id f"
  "vr_pcc_host_state (new_val_row i f now) = vf_pcc_host_state f"
  "vr_fallback_verdict (new_val_row i f now) = vf_fallback_verdict f"
  by (simp_all add: new_val_row_def)

lemma ruling_fields_simps [simp]:
  "vf_ruling_id (ruling_fields cfg env row ev ctx) = ru_id row"
  "vf_pcc_host_state (ruling_fields cfg env row ev ctx) = ve_pcc_host env"
  "vf_fallback_verdict (ruling_fields cfg env row ev ctx) = fst (rule_fallback ev)"
  by (simp_all add: ruling_fields_def Let_def case_prod_unfold)

lemma finish_ruling_rulings [simp]:
  "gd_rulings (va_db (finish_ruling cfg env row ev ctx i st)) = gd_rulings (va_db st)"
  by (simp add: finish_ruling_def Let_def insert_active_play_occupancy_log_def split: option.splits)

lemma validate_ruling_keeps:
  assumes inv: "grind_inv (va_db st)" and row: "ruling_in (va_db st) row"
    and sid: "vc_grind_session_id cfg \<noteq> []"
  shows "grind_inv (va_db (fst (validate_ruling cfg env row st)))"
    and "gd_rulings (va_db (fst (validate_ruling cfg env row st))) = gd_rulings (va_db st)"
proof -
  have "grind_inv (va_db (fst (validate_ruling cfg env row st)))
    \<and> gd_rulings (va_db (fst (validate_ruling cfg env row st))) = gd_rulings (va_db st)"
  proof (cases "ruling_evidence row")
    case (Inl e)
    then show ?thesis using inv by (simp add: validate_ruling_def)
  next
    case (Inr ev)
    define st1 where "st1 = (if diverges cfg row ev then log_divergence cfg env row ev st else st)"
    have st1: "grind_inv (va_db st1)" "gd_rulings (va_db st1) = gd_rulings (va_db st)"
      using inv by (simp_all add: st1_def)
    show ?thesis
    proof (cases "gameplay_context cfg ev")
      case (Inl e)
      then show ?thesis using Inr st1 by (simp add: validate_ruling_def Let_def st1_def)
    next
      case ctx: (Inr ctx)
      let ?f = "ruling_fields cfg env row ev ctx"
      obtain db res where ins: "insert_validation_record (va_db st1) ?f (ve_now env) = (db, res)"
        by fastforce
      have db_inv: "grind_inv db" using grind_inv_insert_validation [OF ins st1(1)] .
      from ins show ?thesis
      proof (cases rule: insert_validation_cases)
        case (blocked e)
        then show ?thesis
          using Inr ctx ins db_inv st1(2) by (simp add: validate_ruling_def Let_def flip: st1_def)
      next
        case added
        let ?i = "length (gd_validations (va_db st1)) + 1"
        let ?st2 = "st1\<lparr>va_db := db\<rparr>"
        define db1 where "db1 = (case apop_of cfg env of None \<Rightarrow> db
          | Some r \<Rightarrow> insert_active_play_occupancy_log db ?i (ru_id row) (ru_device_id row) r
              (normalize_active_play_gate_mode (vc_apop_mode cfg)) (ve_now env))"
        have db1: "grind_inv db1" "gd_rulings db1 = gd_rulings (va_db st)"
          "gd_validations db1 = gd_validations (va_db st1) @ [new_val_row ?i ?f (ve_now env)]"
          using db_inv added(2,3) st1(2)
          by (cases "apop_of cfg env"; simp add: db1_def; simp add: insert_active_play_occupancy_log_def)+
        have "ruling_in db1 row" using row by (simp add: ruling_in_def db1(2))
        then have "grind_inv (maybe_stamp cfg env db1 ?i row (fst (rule_fallback ev))
            (diverges cfg row ev) (gameplay_ok cfg (apop_of cfg env) ctx))"
          using maybe_stamp_keeps_inv [OF db1(1) db1(3) _ _ _ _ sid, of row env] by simp
        then have "grind_inv (va_db (finish_ruling cfg env row ev ctx ?i ?st2))"
          by (cases "apop_of cfg env") (simp_all add: finish_ruling_def Let_def db1_def)
        then show ?thesis
          using Inr ctx ins added st1(2) by (simp add: validate_ruling_def Let_def flip: st1_def)
      qed
    qed
  qed
  then show "grind_inv (va_db (fst (validate_ruling cfg env row st)))"
    and "gd_rulings (va_db (fst (validate_ruling cfg env row st))) = gd_rulings (va_db st)" by simp_all
qed

lemma consume_rulings_keeps:
  "grind_inv (va_db st) \<Longrightarrow> list_all (ruling_in (va_db st)) rows \<Longrightarrow> vc_grind_session_id cfg \<noteq> []
    \<Longrightarrow> grind_inv (va_db (consume_rulings cfg env rows st))"
proof (induction rows arbitrary: st)
  case Nil
  then show ?case by simp
next
  case (Cons r rows)
  let ?st = "fst (validate_ruling cfg (env (ru_id r)) r st)"
  have "grind_inv (va_db ?st)" "gd_rulings (va_db ?st) = gd_rulings (va_db st)"
    using validate_ruling_keeps Cons.prems by auto
  moreover have "list_all (ruling_in (va_db ?st)) rows"
    using Cons.prems(2) calculation(2) by (simp add: list_all_iff ruling_in_def)
  ultimately show ?case using Cons.IH Cons.prems(3) by simp
qed

subsection \<open>What stamping requires\<close>

lemma stamped_rows_cong: "gd_validations db' = gd_validations db \<Longrightarrow> stamped_rows db' sid = stamped_rows db sid"
  by (simp add: stamped_rows_def)

lemma finish_ruling_stamped:
  assumes "stamped_rows (va_db (finish_ruling cfg env row ev ctx i st)) sid \<noteq> stamped_rows (va_db st) sid"
  shows "vc_grind_mode cfg \<and> \<not> gd_gic_chain_broken (va_db st) \<and> pcc_eligible cfg env
    \<and> \<not> diverges cfg row ev \<and> gameplay_ok cfg (apop_of cfg env) ctx"
proof -
  have gate: "gd_validations (va_db (check_gate cfg env st')) = gd_validations (va_db st')" for st'
    by (simp add: check_gate_def Let_def write_agent_event_def publish_def)
  have log: "gd_validations (insert_active_play_occupancy_log db a b c r m t) = gd_validations db"
    "gd_gic_chain_broken (insert_active_play_occupancy_log db a b c r m t) = gd_gic_chain_broken db"
    for db a b c r m t by (simp_all add: insert_active_play_occupancy_log_def)
  show ?thesis
    using assms
    by (cases "apop_of cfg env")
      (auto simp: finish_ruling_def Let_def stamped_rows_def gate log maybe_stamp_def split: if_splits)
qed

lemma validate_ruling_stamped:
  assumes "stamped_rows (va_db (fst (validate_ruling cfg env row st))) sid \<noteq> stamped_rows (va_db st) sid"
  shows "\<exists>ev ctx. ruling_evidence row = Inr ev \<and> gameplay_context cfg ev = Inr ctx
    \<and> vc_grind_mode cfg \<and> \<not> gd_gic_chain_broken (va_db st) \<and> pcc_eligible cfg env
    \<and> \<not> diverges cfg row ev \<and> gameplay_ok cfg (apop_of cfg env) ctx"
proof (cases "ruling_evidence row")
  case (Inl e)
  then show ?thesis using assms by (simp add: validate_ruling_def)
next
  case (Inr ev)
  define st1 where "st1 = (if diverges cfg row ev then log_divergence cfg env row ev st else st)"
  have st1: "gd_validations (va_db st1) = gd_validations (va_db st)"
    "gd_gic_chain_broken (va_db st1) = gd_gic_chain_broken (va_db st)"
    by (simp_all add: st1_def log_divergence_def write_agent_event_def publish_def Let_def)
  show ?thesis
  proof (cases "gameplay_context cfg ev")
    case (Inl e)
    then show ?thesis
      using Inr assms st1 by (simp add: validate_ruling_def Let_def stamped_rows_def flip: st1_def)
  next
    case ctx: (Inr ctx)
    obtain db res where ins:
      "insert_validation_record (va_db st1) (ruling_fields cfg env row ev ctx) (ve_now env) = (db, res)"
      by fastforce
    from ins show ?thesis
    proof (cases rule: insert_validation_cases)
      case (blocked e)
      then show ?thesis
        using Inr ctx ins assms st1 by (simp add: validate_ruling_def Let_def stamped_rows_def flip: st1_def)
    next
      case added
      have "stamped_rows db sid = stamped_rows (va_db st) sid"
        using added(3) st1 by (simp add: stamped_rows_def new_val_row_def)
      then have "stamped_rows (va_db (finish_ruling cfg env row ev ctx
            (length (gd_validations (va_db st1)) + 1) (st1\<lparr>va_db := db\<rparr>))) sid
          \<noteq> stamped_rows (va_db (st1\<lparr>va_db := db\<rparr>)) sid"
        using Inr ctx ins added(1) assms by (simp add: validate_ruling_def Let_def flip: st1_def)
      then show ?thesis
        using finish_ruling_stamped Inr ctx added(4) st1(2) by fastforce
    qed
  qed
qed

subsection \<open>The startup check\<close>

lemma genesis_gic_Inr: "0 \<le> ts \<Longrightarrow> ts < 2 ^ 63 \<Longrightarrow> \<exists>g. genesis_gic sid ts = Inr g"
  by (auto simp: genesis_gic_def pack_u_def)

lemma status_raises_on_bad_commitment:
  assumes "get_ruling_rows_for_chain db sid = rc # rest" and "raised (fromhex (snd rc))"
  shows "raised (get_grind_chain_status db sid)"
proof -
  have "raised (compute_gic p (chain_link_of rc))" for p
    using assms(2) by (cases rc) (simp add: compute_gic_def gic_input_def chain_link_of_def raised_bindE)
  then have "raised (gic_row_link sid None rc)"
    by (cases "genesis_gic sid (chain_ts rc)") (simp_all add: gic_row_link_def)
  then show ?thesis
    using assms(1) by (simp add: get_grind_chain_status_def Let_def raised_bindE)
qed

subsection \<open>An empty commitment\<close>

lemma fromhex_zero_commitment: "fromhex zero_commitment = Inr (replicate 32 0)"
  unfolding zero_commitment_def by code_simp

lemma fromhex_Nil [simp]: "fromhex [] = Inr []"
  by (simp add: fromhex_def)

text \<open>
  The first stamp of a session whose ruling has no commitment: the writer hashes 32 zero bytes, the
  status query hashes no bytes at all, so the two preimages have different lengths.
\<close>

lemma empty_commitment_first_stamp:
  assumes vals: "gd_validations db = vs @ [r]" "map vr_id (vs @ [r]) = [1..<Suc (length (vs @ [r]))]"
    and none: "stamped_rows db sid = []" and sid: "sid \<noteq> []"
    and com: "commitment_of db (vr_ruling_id r) = Some []"
    and stamp: "stamp_gic db (vr_id r) [] (vr_pcc_host_state r) (vr_fallback_verdict r) sid t = Inr db'"
  obtains st m m' where "get_grind_chain_status db' sid = Inr st" "length m = length m' + 32"
    "gs_chain_intact st \<longrightarrow> sha256_collision m m'"
proof -
  define ts where "ts = (if t \<le> get_prev_gic_ts_ns db then get_prev_gic_ts_ns db + 1 else t)"
  define link where "link = \<lparr>gl_commitment_hash_hex = zero_commitment,
    gl_pcc_host_state = (case vr_pcc_host_state r of None \<Rightarrow> [] | Some s \<Rightarrow> s),
    gl_fallback_verdict = vr_fallback_verdict r, gl_ts_ns = ts\<rparr>"
  have prev: "get_prev_grind_chain_hash db sid = Inr None" by (simp add: get_prev_grind_chain_hash_def none)
  from stamp obtain p g where s: "genesis_gic sid ts = Inr p" "compute_gic p link = Inr g"
    "update_grind_chain_hash db (vr_id r) (hex g) ts sid = Inr db'"
    unfolding stamp_gic_def Let_def ts_def [symmetric] prev by (auto simp: bindE_Inr link_def)
  let ?r = "r\<lparr>vr_gic := Some (hex g, ts), vr_grind_session_id := Some sid\<rparr>"
  have db': "db' = update_val_row db (vr_id r) (\<lambda>r. r\<lparr>vr_gic := Some (hex g, ts), vr_grind_session_id := Some sid\<rparr>)"
    using s(3) sid by (auto simp: update_grind_chain_hash_def bindE_guardE_Inr)
  have vals': "gd_validations db' = vs @ [?r]" using update_last_val_row [OF vals(2,1)] by (simp add: db')
  have "filter (\<lambda>r. vr_gic r \<noteq> None \<and> vr_grind_session_id r = Some sid) vs = []"
    using none sid unfolding stamped_rows_def vals(1) by simp
  then have "stamped_rows db' sid = [?r]" using sid by (simp add: stamped_rows_def vals')
  moreover have "commitment_of db' = commitment_of db"
    by (rule commitment_of_cong) (simp add: db' update_val_row_def)
  ultimately have rows: "get_ruling_rows_for_chain db' sid = [(?r, [])]"
    using com by (simp add: get_ruling_rows_for_chain_def join_rulings_def order_asc_def)
  obtain m where m: "gic_input p link = Inr m" "g = sha256 m"
    using s(2) by (auto simp: compute_gic_def bindE_Inr)
  then obtain tb where tb: "pack_u 8 ts = Inr tb"
    "m = p @ replicate 32 0 @ be_bytes 1 (verdict_code (gl_fallback_verdict link))
       @ be_bytes 1 (host_code (gl_pcc_host_state link)) @ tb"
    by (auto simp: gic_input_Inr link_def fromhex_zero_commitment)
  define m' where "m' = p @ be_bytes 1 (verdict_code (gl_fallback_verdict link))
       @ be_bytes 1 (host_code (gl_pcc_host_state link)) @ tb"
  have "gic_input p (chain_link_of (?r, [])) = Inr m'"
    using tb(1) by (simp add: gic_input_def chain_link_of_def m'_def link_def gic_ts_def
        default_codes(1) default_codes(2) [symmetric])
  then have link': "gic_row_link sid None (?r, []) = Inr (sha256 m')"
    using s(1) by (simp add: gic_row_link_def compute_gic_def gic_ts_def)
  then obtain st where st: "get_grind_chain_status db' sid = Inr st"
    "gs_chain_intact st \<longleftrightarrow> hex (sha256 m') = hex g"
    by (cases "hex (sha256 m') = hex g") (simp_all add: get_grind_chain_status_def rows gic_hash_def)
  have len: "length m = length m' + 32" by (simp add: tb(2) m'_def)
  then have "m \<noteq> m'" by auto
  then have "gs_chain_intact st \<longrightarrow> sha256_collision m m'"
    using st(2) m(2) by (auto simp: sha256_collision_def hex_inj)
  then show thesis using that st(1) len by blast
qed

subsection \<open>Properties\<close>

text \<open>
  C3: the dry-run gate passes exactly when the chain is not flagged broken, the newest
  \<open>gate_n\<close> validations exist and every one of them is free of divergence, attested by the capture
  monitor and shows gameplay in the selected mode; the divergence rate then adds no condition
  beyond a non-negative limit.
\<close>

theorem gate_passes_iff_clean_window:
  assumes "0 < gate_n"
  shows "vs_gate_passed (get_validation_summary db gate_n max_rate mode) \<longleftrightarrow>
     \<not> gd_gic_chain_broken db \<and> 0 \<le> max_rate \<and> gate_n \<le> int (length (gd_validations db))
     \<and> list_all (clean_row (gate_logs db (normalize_active_play_gate_mode mode) (gate_window db gate_n))
                  (normalize_active_play_gate_mode mode)) (gate_window db gate_n)"
  using assms by (rule gate_passed_iff)

definition demo_ruling :: ruling where
  "demo_ruling = \<lparr>ru_id = 1, ru_device_id = ''d'', ru_verdict = ''FLAG'', ru_confidence = 0,
     ru_reasoning = [], ru_evidence_json = ''{}'', ru_commitment_hash = ''ab'', ru_created_at = 1\<rparr>"

definition demo_val_row :: val_row where
  "demo_val_row = \<lparr>vr_id = 1, vr_ruling_id = 1, vr_device_id = ''d'', vr_llm_verdict = ''FLAG'',
     vr_fallback_verdict = ''FLAG'', vr_llm_confidence = 0, vr_fallback_confidence = 5 / 100,
     vr_divergence = False, vr_divergence_reason = None, vr_pcc_state = Some ''NOMINAL'',
     vr_pcc_host_state = Some ''EXCLUSIVE_USB'', vr_gameplay_context = None, vr_created_at = 2,
     vr_gic = None, vr_grind_session_id = None\<rparr>"

definition demo_db :: "ruling list \<Rightarrow> val_row list \<Rightarrow> grind_db" where
  "demo_db rulings rows = \<lparr>gd_rulings = rulings, gd_validations = rows, gd_apop = [], gd_events = [],
     gd_erasures = [], gd_disagreements = [], gd_consent = empty_consent_db, gd_consent_ledger_enabled = False,
     gd_gic_chain_broken = False\<rparr>"

theorem gate_passes_iff_clean_window_witness:
  "vs_gate_passed (get_validation_summary (demo_db [] [demo_val_row]) 1 0 None)"
proof -
  have mode: "normalize_active_play_gate_mode None = ''shadow''" by code_simp
  have window: "gate_window (demo_db [] [demo_val_row]) 1 = [demo_val_row]"
    by (simp add: gate_window_def sql_limit_def order_desc_def demo_db_def)
  have "clean_row (gate_logs (demo_db [] [demo_val_row]) ''shadow'' [demo_val_row]) ''shadow'' demo_val_row"
    by (simp add: clean_row_def gate_logs_def pcc_attested_def gameplay_attested_def demo_val_row_def)
  then show ?thesis
    using gate_passes_iff_clean_window [of 1 "demo_db [] [demo_val_row]" 0 None]
    by (simp add: mode window) (simp add: demo_db_def)
qed

text \<open>
  C2: a round of the validation agent over an honest store leaves a grind chain whose status
  query succeeds, reports it intact, counts every stamped row of the session and names the last
  stamped hash as its head.
\<close>

theorem validated_chain_stays_intact:
  fixes env :: "nat \<Rightarrow> val_env"
  assumes "grind_inv (va_db st)" and "\<forall>ru \<in> set (gd_rulings (va_db st)). ru_commitment_hash ru \<noteq> []"
    and "vc_grind_session_id cfg \<noteq> []" and "sid \<noteq> []"
  defines "db' \<equiv> va_db (consume_pending_rulings cfg env st)"
  shows "\<exists>s. get_grind_chain_status db' sid = Inr s \<and> gs_chain_intact s
    \<and> gs_chain_length s = length (stamped_rows db' sid)
    \<and> (stamped_rows db' sid \<noteq> [] \<longrightarrow> gs_latest_gic_hash s = gic_hash (last (stamped_rows db' sid)))"
proof -
  have "list_all (ruling_in (va_db st)) (get_unvalidated_rulings (va_db st) 50)"
    using assms(2) set_take_subset
    by (fastforce simp: list_all_iff ruling_in_def get_unvalidated_rulings_def sql_limit_def)
  then have "grind_inv db'"
    unfolding db'_def consume_pending_rulings_def by (rule consume_rulings_keeps [OF assms(1) _ assms(3)])
  then show ?thesis by (rule honest_chain_status [OF _ assms(4)]) auto
qed

definition demo_cfg :: val_cfg where
  "demo_cfg = \<lparr>vc_threshold = 3 / 10, vc_gate_n = 100, vc_max_rate = 1, vc_grind_mode = True,
     vc_grind_session_id = ''g1'', vc_pcc_smoke_bypass = False, vc_gameplay_discrimination = True,
     vc_apop_enabled = False, vc_apop_mode = None, vc_vhr_hook_enabled = False,
     vc_session_gamer_address = [], vc_curator_wired = False, vc_bus_wired = False\<rparr>"

definition demo_env :: val_env where
  "demo_env = \<lparr>ve_pcc_state = Some ''NOMINAL'', ve_pcc_host = Some ''EXCLUSIVE_USB'', ve_records = [],
     ve_checkpoints = [], ve_time_ns = 5, ve_now = 3\<rparr>"

definition demo_state :: "ruling list \<Rightarrow> val_row list \<Rightarrow> val_state" where
  "demo_state rulings rows = \<lparr>va_db = demo_db rulings rows, va_gate_emitted = False,
     va_published = [], va_vhr_fired = []\<rparr>"

lemma demo_inv: "grind_inv (demo_db [demo_ruling] [])"
  by (simp add: grind_inv_def demo_db_def demo_ruling_def stamped_rows_def)

theorem validated_chain_stays_intact_witness:
  "\<exists>s. get_grind_chain_status
         (va_db (consume_pending_rulings demo_cfg (\<lambda>_. demo_env) (demo_state [demo_ruling] []))) ''g1'' = Inr s
     \<and> gs_chain_intact s"
proof -
  have "grind_inv (va_db (demo_state [demo_ruling] []))"
    "\<forall>ru \<in> set (gd_rulings (va_db (demo_state [demo_ruling] []))). ru_commitment_hash ru \<noteq> []"
    using demo_inv by (simp_all add: demo_state_def) (simp add: demo_db_def demo_ruling_def)
  then show ?thesis
    using validated_chain_stays_intact [of "demo_state [demo_ruling] []" demo_cfg "''g1''" "\<lambda>_. demo_env"]
    by (auto simp: demo_cfg_def)
qed

text \<open>
  C4: validating a ruling changes the stamped rows of a session only in grind mode, with the chain
  not flagged broken, the capture attested (or the smoke bypass on), no divergence from the rules,
  and gameplay accepted.
\<close>

theorem stamping_requires_eligibility:
  assumes "stamped_rows (va_db (fst (validate_ruling cfg env row st))) sid \<noteq> stamped_rows (va_db st) sid"
  shows "\<exists>ev ctx. ruling_evidence row = Inr ev \<and> gameplay_context cfg ev = Inr ctx
    \<and> vc_grind_mode cfg \<and> \<not> gd_gic_chain_broken (va_db st) \<and> pcc_eligible cfg env
    \<and> \<not> diverges cfg row ev \<and> gameplay_ok cfg (apop_of cfg env) ctx"
  using assms by (rule validate_ruling_stamped)

lemma demo_validated:
  "\<exists>g. stamped_rows (va_db (fst (validate_ruling demo_cfg demo_env demo_ruling
         (demo_state [demo_ruling] [])))) ''g1'' = [g]"
proof -
  have ev: "ruling_evidence demo_ruling = Inr []"
  proof -
    have "json_loads ''{}'' = Some (JObj [])" by code_simp
    then show ?thesis by (simp add: ruling_evidence_def demo_ruling_def)
  qed
  have ctx: "gameplay_context demo_cfg [] = Inr None"
    by (simp add: gameplay_context_def dget_or_def py_float_def)
  have fb: "rule_fallback [] = (''FLAG'', 5 / 100, ''No anomalies detected (rule fallback).'')"
    by (simp add: rule_fallback_def get_truthy_def jget_def dget_or_def)
  have div: "\<not> diverges demo_cfg demo_ruling []"
    by (simp add: diverges_def fb demo_ruling_def)
  have mode: "normalize_active_play_gate_mode None = ''shadow''" by code_simp
  have hex: "fromhex ''ab'' = Inr [0xab]" by code_simp
  have gen: "genesis_gic ''g1'' 5 = Inr (sha256 (gic_genesis_tag @ encode ''g1'' @ be_bytes 8 5))"
    by (simp add: genesis_gic_def pack_u_def)
  have "\<exists>g. compute_gic p \<lparr>gl_commitment_hash_hex = ''ab'', gl_pcc_host_state = ''EXCLUSIVE_USB'',
      gl_fallback_verdict = ''FLAG'', gl_ts_ns = 5\<rparr> = Inr g" for p
    by (simp add: compute_gic_def gic_input_def hex pack_u_def)
  then obtain g where g: "compute_gic (sha256 (gic_genesis_tag @ encode ''g1'' @ be_bytes 8 5))
      \<lparr>gl_commitment_hash_hex = ''ab'', gl_pcc_host_state = ''EXCLUSIVE_USB'',
       gl_fallback_verdict = ''FLAG'', gl_ts_ns = 5\<rparr> = Inr g"
    by blast
  let ?row = "new_val_row 1 (ruling_fields demo_cfg demo_env demo_ruling [] None) 3"
  have stamp: "stamp_gic (demo_db [demo_ruling] [?row]) 1 ''ab'' (Some ''EXCLUSIVE_USB'') ''FLAG'' ''g1'' 5
      = Inr (demo_db [demo_ruling] [?row\<lparr>vr_gic := Some (hex g, 5), vr_grind_session_id := Some ''g1''\<rparr>])"
    by (simp add: stamp_gic_def get_prev_grind_chain_hash_def get_prev_gic_ts_ns_def stamped_rows_def
        demo_db_def new_val_row_def gen g update_grind_chain_hash_def update_val_row_def)
  have elig: "pcc_eligible demo_cfg demo_env" "gameplay_ok demo_cfg (apop_of demo_cfg demo_env) None"
    by (simp_all add: pcc_eligible_def gameplay_ok_def demo_cfg_def demo_env_def)
  have "stamped_rows (va_db (finish_ruling demo_cfg demo_env demo_ruling [] None 1
        (demo_state [demo_ruling] [?row]))) ''g1''
      = [?row\<lparr>vr_gic := Some (hex g, 5), vr_grind_session_id := Some ''g1''\<rparr>]"
    using stamp elig div
    by (simp add: finish_ruling_def maybe_stamp_def apop_of_def demo_cfg_def fb demo_state_def
        maybe_fire_vhr_hook_def check_gate_def write_agent_event_def publish_def Let_def)
       (simp add: stamped_rows_def demo_db_def demo_ruling_def demo_env_def demo_cfg_def)
  moreover have "validate_ruling demo_cfg demo_env demo_ruling (demo_state [demo_ruling] [])
      = (finish_ruling demo_cfg demo_env demo_ruling [] None 1 (demo_state [demo_ruling] [?row]), Inr ())"
    using div by (simp add: validate_ruling_def ev ctx Let_def insert_validation_record_def demo_state_def
        demo_db_def demo_env_def)
  ultimately show ?thesis by simp
qed

theorem stamping_requires_eligibility_witness:
  "pcc_eligible demo_cfg demo_env \<and> vc_grind_mode demo_cfg"
proof -
  have "stamped_rows (va_db (demo_state [demo_ruling] [])) ''g1'' = []"
    by (simp add: stamped_rows_def demo_state_def demo_db_def)
  then have "stamped_rows (va_db (fst (validate_ruling demo_cfg demo_env demo_ruling
        (demo_state [demo_ruling] [])))) ''g1''
      \<noteq> stamped_rows (va_db (demo_state [demo_ruling] [])) ''g1''"
    using demo_validated by auto
  from stamping_requires_eligibility [OF this] show ?thesis by blast
qed

text \<open>
  Erasing a device's records empties the evidence and the reasoning of its rulings and redacts
  its divergence reasons, and changes nothing the status query of any grind session reports.
\<close>

theorem erasure_keeps_chain_status:
  fixes db dev now
  defines "db' \<equiv> fst (mark_erasure_complete db dev now)"
  shows "get_grind_chain_status db' sid = get_grind_chain_status db sid
    \<and> list_all (\<lambda>r. ru_device_id r = dev \<longrightarrow> ru_evidence_json r = ''{}'' \<and> ru_reasoning r = redaction)
        (gd_rulings db')
    \<and> list_all (\<lambda>r. vr_device_id r = dev \<longrightarrow> vr_divergence_reason r = Some ReasonRedacted)
        (gd_validations db')"
  unfolding db'_def erasure_keeps_status erasure_rulings erasure_rows(1) list.pred_map comp_def
  by (simp add: list.pred_True redact_ruling_def redact_row_def)

theorem erasure_keeps_chain_status_witness:
  "list_all (\<lambda>r. ru_device_id r = ''d'' \<longrightarrow> ru_evidence_json r = ''{}'' \<and> ru_reasoning r = redaction)
     (gd_rulings (fst (mark_erasure_complete (demo_db [demo_ruling] [demo_val_row]) ''d'' 9)))"
  using erasure_keeps_chain_status [of "demo_db [demo_ruling] [demo_val_row]" "''d''" 9 "''g1''"] by blast

text \<open>
  When the commitment of the first chain row is not hex the status query raises, and the check
  at startup then clears the broken flag instead of setting it, so the gate is not blocked.
\<close>

theorem startup_check_fails_open:
  assumes "get_ruling_rows_for_chain db sid = rc # rest" and "raised (fromhex (snd rc))"
  shows "raised (get_grind_chain_status db sid) \<and> \<not> gd_gic_chain_broken (startup_chain_check db sid)"
  using status_raises_on_bad_commitment [OF assms]
  by (auto simp: startup_chain_check_def set_gic_chain_broken_def raised_def split: sum.splits)

definition tampered_db :: grind_db where
  "tampered_db = demo_db [demo_ruling\<lparr>ru_commitment_hash := ''zz''\<rparr>]
     [demo_val_row\<lparr>vr_gic := Some (''00'', 5), vr_grind_session_id := Some ''g1''\<rparr>]"

theorem startup_check_fails_open_witness:
  "\<not> gd_gic_chain_broken (startup_chain_check (set_gic_chain_broken tampered_db True) ''g1'')"
proof -
  let ?r = "demo_val_row\<lparr>vr_gic := Some (''00'', 5), vr_grind_session_id := Some ''g1''\<rparr>"
  have rows: "get_ruling_rows_for_chain (set_gic_chain_broken tampered_db True) ''g1'' = [(?r, ''zz'')]"
    by (simp add: get_ruling_rows_for_chain_def stamped_rows_def join_rulings_def commitment_of_def
        set_gic_chain_broken_def tampered_db_def demo_db_def demo_ruling_def demo_val_row_def order_asc_def)
  have "raised (fromhex ''zz'')" by code_simp
  then show ?thesis using startup_check_fails_open [OF rows] by simp
qed

text \<open>
  A session whose first stamped ruling has an empty commitment is reported broken right after
  its own stamp: the writer hashed 32 zero bytes in its place, the status query hashes none, and
  the two would only agree on a collision between those two preimages.
\<close>

theorem empty_commitment_breaks_chain:
  assumes "gd_validations db = vs @ [r]" and "map vr_id (vs @ [r]) = [1..<Suc (length (vs @ [r]))]"
    and "stamped_rows db sid = []" and "sid \<noteq> []" and "commitment_of db (vr_ruling_id r) = Some []"
    and "stamp_gic db (vr_id r) [] (vr_pcc_host_state r) (vr_fallback_verdict r) sid t = Inr db'"
  shows "\<exists>st m m'. get_grind_chain_status db' sid = Inr st \<and> length m = length m' + 32
    \<and> (gs_chain_intact st \<longrightarrow> sha256_collision m m')"
  by (rule empty_commitment_first_stamp [OF assms]) blast

theorem empty_commitment_breaks_chain_witness:
  "\<exists>db' st m m'. stamp_gic (demo_db [demo_ruling\<lparr>ru_commitment_hash := []\<rparr>] [demo_val_row]) 1 []
       (Some ''EXCLUSIVE_USB'') ''FLAG'' ''g1'' 5 = Inr db'
     \<and> get_grind_chain_status db' ''g1'' = Inr st \<and> length m = length m' + 32
     \<and> (gs_chain_intact st \<longrightarrow> sha256_collision m m')"
proof -
  let ?db = "demo_db [demo_ruling\<lparr>ru_commitment_hash := []\<rparr>] [demo_val_row]"
  have none: "stamped_rows ?db ''g1'' = []" by (simp add: stamped_rows_def demo_db_def demo_val_row_def)
  obtain p where p: "genesis_gic ''g1'' 5 = Inr p" using genesis_gic_Inr [of 5] by auto
  have "\<exists>g. compute_gic p \<lparr>gl_commitment_hash_hex = zero_commitment, gl_pcc_host_state = ''EXCLUSIVE_USB'',
      gl_fallback_verdict = ''FLAG'', gl_ts_ns = 5\<rparr> = Inr g"
    by (simp add: compute_gic_def gic_input_def fromhex_zero_commitment pack_u_def)
  then obtain g where g: "compute_gic p \<lparr>gl_commitment_hash_hex = zero_commitment,
      gl_pcc_host_state = ''EXCLUSIVE_USB'', gl_fallback_verdict = ''FLAG'', gl_ts_ns = 5\<rparr> = Inr g" ..
  have "get_prev_gic_ts_ns ?db = 0"
    by (simp add: get_prev_gic_ts_ns_def stamped_rows_def demo_db_def demo_val_row_def)
  then obtain db' where stamp:
    "stamp_gic ?db 1 [] (Some ''EXCLUSIVE_USB'') ''FLAG'' ''g1'' 5 = Inr db'"
    by (simp add: stamp_gic_def get_prev_grind_chain_hash_def none update_grind_chain_hash_def p g)
  have "\<exists>st m m'. get_grind_chain_status db' ''g1'' = Inr st \<and> length m = length m' + 32
    \<and> (gs_chain_intact st \<longrightarrow> sha256_collision m m')"
    by (rule empty_commitment_breaks_chain [of ?db "[]" demo_val_row "''g1''" 5])
      (use none stamp in \<open>simp_all add: demo_db_def demo_val_row_def demo_ruling_def commitment_of_def\<close>)
  then show ?thesis using stamp by blast
qed

end
