(* ===== verification/CircuitBreaker.thy ===== *)
theory CircuitBreaker
  imports Prelude
begin

section \<open>The circuit breaker of the NIM calls\<close>

text \<open>
  \<open>bridge/vapi_bridge/security/nim_circuit_breaker.py\<close>. One call takes the clock when it starts,
  the outcome the wrapped function would have (an exception or a result) and the clock when a
  failure is recorded; it returns the breaker as it is left and what the caller sees. A rejected
  call does not reach the function.
\<close>

datatype circuit_state = CLOSED | OPEN | HALF_OPEN

record breaker_cfg =
  failure_threshold :: int
  timeout_seconds :: int
  half_open_max_calls :: int

definition default_breaker_cfg :: breaker_cfg where
  "default_breaker_cfg = \<lparr>failure_threshold = 5, timeout_seconds = 60, half_open_max_calls = 3\<rparr>"

record breaker =
  cb_state :: circuit_state
  cb_failure_count :: int
  cb_last_failure_time :: real
  cb_half_open_call_count :: int

definition breaker_init :: breaker where
  "breaker_init = \<lparr>cb_state = CLOSED, cb_failure_count = 0, cb_last_failure_time = 0,
     cb_half_open_call_count = 0\<rparr>"

text \<open>The check before the call: either the breaker the call runs with, or a rejection.\<close>

definition breaker_admit :: "breaker_cfg \<Rightarrow> breaker \<Rightarrow> real \<Rightarrow> breaker option" where
  "breaker_admit cfg b now =
     (if cb_state b = OPEN then
        (if of_int (timeout_seconds cfg) < now - cb_last_failure_time b
         then Some (b\<lparr>cb_state := HALF_OPEN, cb_half_open_call_count := 0\<rparr>)
         else None)
      else Some b)"

definition breaker_success :: "breaker_cfg \<Rightarrow> breaker \<Rightarrow> breaker" where
  "breaker_success cfg b =
     (if cb_state b = HALF_OPEN then
        (let b1 = b\<lparr>cb_half_open_call_count := cb_half_open_call_count b + 1\<rparr> in
         if half_open_max_calls cfg \<le> cb_half_open_call_count b1
         then b1\<lparr>cb_state := CLOSED, cb_failure_count := 0\<rparr> else b1)
      else b\<lparr>cb_failure_count := 0\<rparr>)"

definition breaker_failure :: "breaker_cfg \<Rightarrow> breaker \<Rightarrow> real \<Rightarrow> breaker" where
  "breaker_failure cfg b now =
     (let b1 = b\<lparr>cb_failure_count := cb_failure_count b + 1, cb_last_failure_time := now\<rparr> in
      if failure_threshold cfg \<le> cb_failure_count b1 then b1\<lparr>cb_state := OPEN\<rparr> else b1)"

text \<open>The message ends with the time of the last failure, which is left out.\<close>

definition open_error :: py_exc where
  "open_error = PyExc ''CircuitBreakerOpenError'' ''Circuit breaker is OPEN''"

definition breaker_call ::
  "breaker_cfg \<Rightarrow> breaker \<Rightarrow> real \<Rightarrow> real \<Rightarrow> 'a res \<Rightarrow> breaker \<times> 'a res" where
  "breaker_call cfg b start stop outcome =
     (case breaker_admit cfg b start of
        None \<Rightarrow> (b, Inl open_error)
      | Some b1 \<Rightarrow>
          (case outcome of
             Inr x \<Rightarrow> (breaker_success cfg b1, Inr x)
           | Inl e \<Rightarrow> (breaker_failure cfg b1 stop, Inl e)))"

subsection \<open>The state machine\<close>

inductive breaker_step :: "breaker_cfg \<Rightarrow> breaker \<Rightarrow> breaker \<Rightarrow> bool" for cfg where
  reject: "breaker_admit cfg b now = None \<Longrightarrow> breaker_step cfg b b"
| succeed: "breaker_admit cfg b now = Some b1 \<Longrightarrow> breaker_step cfg b (breaker_success cfg b1)"
| fail: "breaker_admit cfg b now = Some b1 \<Longrightarrow> breaker_step cfg b (breaker_failure cfg b1 t)"

inductive_cases breaker_stepE: "breaker_step cfg b b'"

lemma breaker_call_step: "breaker_step cfg b (fst (breaker_call cfg b start stop outcome))"
  by (auto simp: breaker_call_def intro: breaker_step.intros split: option.split sum.split)

text \<open>What the counters say in each state.\<close>

definition breaker_inv :: "breaker_cfg \<Rightarrow> breaker \<Rightarrow> bool" where
  "breaker_inv cfg b \<longleftrightarrow>
     0 \<le> cb_failure_count b
     \<and> (cb_state b = CLOSED \<longrightarrow> cb_failure_count b < failure_threshold cfg)
     \<and> (cb_state b \<noteq> CLOSED \<longrightarrow> failure_threshold cfg \<le> cb_failure_count b)
     \<and> (cb_state b = HALF_OPEN \<longrightarrow> 0 \<le> cb_half_open_call_count b
          \<and> cb_half_open_call_count b < half_open_max_calls cfg)"

definition breaker_cfg_ok :: "breaker_cfg \<Rightarrow> bool" where
  "breaker_cfg_ok cfg \<longleftrightarrow> 0 < failure_threshold cfg \<and> 0 < half_open_max_calls cfg"

lemma breaker_init_inv: "breaker_cfg_ok cfg \<Longrightarrow> breaker_inv cfg breaker_init"
  by (simp add: breaker_inv_def breaker_init_def breaker_cfg_ok_def)

lemma breaker_admit_Some:
  assumes "breaker_admit cfg b now = Some b1"
  obtains (as_is) "cb_state b \<noteq> OPEN" "b1 = b"
  | (probe) "cb_state b = OPEN" "of_int (timeout_seconds cfg) < now - cb_last_failure_time b"
      "b1 = b\<lparr>cb_state := HALF_OPEN, cb_half_open_call_count := 0\<rparr>"
  using assms by (auto simp: breaker_admit_def split: if_splits)

lemma breaker_admit_inv:
  "breaker_cfg_ok cfg \<Longrightarrow> breaker_inv cfg b \<Longrightarrow> breaker_admit cfg b now = Some b1
    \<Longrightarrow> breaker_inv cfg b1 \<and> cb_state b1 \<noteq> OPEN"
  by (erule breaker_admit_Some) (auto simp: breaker_inv_def breaker_cfg_ok_def)

lemma breaker_success_inv:
  "breaker_cfg_ok cfg \<Longrightarrow> breaker_inv cfg b \<Longrightarrow> cb_state b \<noteq> OPEN \<Longrightarrow> breaker_inv cfg (breaker_success cfg b)"
  by (cases "cb_state b") (auto simp: breaker_inv_def breaker_success_def breaker_cfg_ok_def Let_def)

lemma breaker_failure_inv:
  "breaker_inv cfg b \<Longrightarrow> cb_state b \<noteq> OPEN \<Longrightarrow> breaker_inv cfg (breaker_failure cfg b t)"
  by (cases "cb_state b") (auto simp: breaker_inv_def breaker_failure_def Let_def)

lemma breaker_step_inv:
  "breaker_step cfg b b' \<Longrightarrow> breaker_cfg_ok cfg \<Longrightarrow> breaker_inv cfg b \<Longrightarrow> breaker_inv cfg b'"
  by (induction rule: breaker_step.induct)
    (use breaker_admit_inv breaker_success_inv breaker_failure_inv in blast)+

lemma breaker_reachable_inv:
  "(breaker_step cfg)\<^sup>*\<^sup>* breaker_init b \<Longrightarrow> breaker_cfg_ok cfg \<Longrightarrow> breaker_inv cfg b"
  by (induction rule: rtranclp_induct) (auto intro: breaker_init_inv breaker_step_inv)

text \<open>Consecutive outcomes, each call after the timeout has passed or while the breaker is closed.\<close>

fun breaker_run :: "breaker_cfg \<Rightarrow> breaker \<Rightarrow> (real \<times> real \<times> 'a res) list \<Rightarrow> breaker \<times> 'a res list" where
  "breaker_run cfg b [] = (b, [])"
| "breaker_run cfg b ((start, stop, outcome) # rest) =
     (let (b1, r) = breaker_call cfg b start stop outcome; (b2, rs) = breaker_run cfg b1 rest
      in (b2, r # rs))"

lemma closed_failures:
  assumes "cb_state b = CLOSED" and "list_all (\<lambda>(_, _, r). raised r) calls"
    and "cb_failure_count b + int (length calls) < failure_threshold cfg"
  shows "cb_state (fst (breaker_run cfg b calls)) = CLOSED
    \<and> cb_failure_count (fst (breaker_run cfg b calls)) = cb_failure_count b + int (length calls)"
  using assms
proof (induction cfg b calls rule: breaker_run.induct)
  case (1 cfg b)
  then show ?case by simp
next
  case (2 cfg b start stop outcome rest)
  then obtain e where e: "outcome = Inl e" by (auto simp: raised_def split: sum.splits)
  have call: "breaker_call cfg b start stop outcome
      = (b\<lparr>cb_failure_count := cb_failure_count b + 1, cb_last_failure_time := stop\<rparr>, Inl e)"
    using 2 by (simp add: e breaker_call_def breaker_admit_def breaker_failure_def Let_def)
  show ?case
    using 2 "2.IH" [OF call [symmetric] refl] by (simp add: call case_prod_unfold Let_def)
qed

lemma closed_to_open:
  assumes "cb_state b = CLOSED" and "failure_threshold cfg = cb_failure_count b + 1"
  shows "cb_state (fst (breaker_call cfg b start stop (Inl e))) = OPEN"
    and "cb_last_failure_time (fst (breaker_call cfg b start stop (Inl e))) = stop"
  using assms by (simp_all add: breaker_call_def breaker_admit_def breaker_failure_def Let_def)

lemma open_rejects:
  "cb_state b = OPEN \<Longrightarrow> start - cb_last_failure_time b \<le> of_int (timeout_seconds cfg)
    \<Longrightarrow> breaker_call cfg b start stop outcome = (b, Inl open_error)"
  by (simp add: breaker_call_def breaker_admit_def)

lemma half_open_failure_reopens:
  assumes "breaker_inv cfg b" and "cb_state b = HALF_OPEN"
  shows "cb_state (fst (breaker_call cfg b start stop (Inl e))) = OPEN"
  using assms by (simp add: breaker_inv_def breaker_call_def breaker_admit_def breaker_failure_def Let_def)

subsection \<open>Properties\<close>

lemma breaker_run_append:
  "fst (breaker_run cfg b (xs @ ys)) = fst (breaker_run cfg (fst (breaker_run cfg b xs)) ys)"
  by (induction xs arbitrary: b) (auto simp: case_prod_unfold Let_def)

text \<open>
  From a closed breaker without failures, failing calls keep it closed until their number
  reaches the threshold; with that one it opens, and until the timeout has passed since it every
  call is rejected, whatever the wrapped function would do, and leaves the breaker as it is.
\<close>

theorem breaker_opens_at_threshold:
  fixes calls :: "(real \<times> real \<times> 'a res) list"
  assumes "cb_state b = CLOSED" and "cb_failure_count b = 0"
    and "list_all (\<lambda>(_, _, r). raised r) (calls @ [(start, stop, Inl e)])"
    and "int (length calls) + 1 = failure_threshold cfg"
  shows "cb_state (fst (breaker_run cfg b calls)) = CLOSED
    \<and> cb_state (fst (breaker_run cfg b (calls @ [(start, stop, Inl e)]))) = OPEN
    \<and> (\<forall>start' stop' outcome. start' - stop \<le> of_int (timeout_seconds cfg) \<longrightarrow>
         breaker_call cfg (fst (breaker_run cfg b (calls @ [(start, stop, Inl e)]))) start' stop' outcome
         = (fst (breaker_run cfg b (calls @ [(start, stop, Inl e)])), Inl open_error))"
proof -
  let ?b1 = "fst (breaker_run cfg b calls)"
  let ?b2 = "fst (breaker_run cfg b (calls @ [(start, stop, Inl e)]))"
  have b1: "cb_state ?b1 = CLOSED \<and> cb_failure_count ?b1 = int (length calls)"
    using closed_failures [of b calls cfg] assms by simp
  have b2: "?b2 = fst (breaker_call cfg ?b1 start stop (Inl e :: 'a res))"
    unfolding breaker_run_append by (simp add: case_prod_unfold Let_def)
  have "cb_state ?b2 = OPEN \<and> cb_last_failure_time ?b2 = stop"
    unfolding b2 using closed_to_open [of ?b1 cfg start stop e] b1 assms(4) by simp
  then show ?thesis using b1 by (intro conjI allI impI open_rejects) simp_all
qed

theorem breaker_opens_at_threshold_witness:
  "cb_state (fst (breaker_run default_breaker_cfg breaker_init
      (replicate 4 (0, 0, Inl open_error :: int res) @ [(5, 6, Inl open_error)]))) = OPEN"
proof -
  let ?calls = "replicate 4 (0, 0, Inl open_error :: int res)"
  have "cb_state breaker_init = CLOSED" "cb_failure_count breaker_init = 0"
    "list_all (\<lambda>(_, _, r). raised r) (?calls @ [(5, 6, Inl open_error)])"
    "int (length ?calls) + 1 = failure_threshold default_breaker_cfg"
    by (simp_all add: breaker_init_def default_breaker_cfg_def list_all_iff)
  from breaker_opens_at_threshold [OF this] show ?thesis by blast
qed

text \<open>
  In every reachable half-open state a failing call reopens the breaker at once, and a
  succeeding one closes it exactly when it is the last of the configured number of probes; in
  every reachable state the failure count is below the threshold exactly when the breaker is closed.
\<close>

theorem breaker_half_open_probes:
  assumes "(breaker_step cfg)\<^sup>*\<^sup>* breaker_init b" and "breaker_cfg_ok cfg"
  shows "(cb_state b = CLOSED \<longleftrightarrow> cb_failure_count b < failure_threshold cfg)
    \<and> (cb_state b = HALF_OPEN \<longrightarrow>
         cb_state (fst (breaker_call cfg b start stop (Inl e))) = OPEN
         \<and> (cb_state (fst (breaker_call cfg b start stop (Inr x))) = CLOSED
              \<longleftrightarrow> cb_half_open_call_count b + 1 = half_open_max_calls cfg))"
proof -
  have inv: "breaker_inv cfg b" using breaker_reachable_inv assms by blast
  then have "cb_state b = CLOSED \<longleftrightarrow> cb_failure_count b < failure_threshold cfg"
    by (auto simp: breaker_inv_def)
  moreover have "cb_state (fst (breaker_call cfg b start stop (Inr x))) = CLOSED
      \<longleftrightarrow> cb_half_open_call_count b + 1 = half_open_max_calls cfg" if "cb_state b = HALF_OPEN"
    using inv that
    by (auto simp: breaker_inv_def breaker_call_def breaker_admit_def breaker_success_def Let_def)
  ultimately show ?thesis using half_open_failure_reopens [OF inv] by blast
qed

definition demo_breaker_cfg :: breaker_cfg where
  "demo_breaker_cfg = \<lparr>failure_threshold = 1, timeout_seconds = 60, half_open_max_calls = 2\<rparr>"

definition demo_half_open :: breaker where
  "demo_half_open = \<lparr>cb_state = HALF_OPEN, cb_failure_count = 1, cb_last_failure_time = 10,
     cb_half_open_call_count = 1\<rparr>"

theorem breaker_half_open_probes_witness:
  "cb_state (fst (breaker_call demo_breaker_cfg demo_half_open 80 81 (Inr (7 :: int)))) = CLOSED
   \<and> cb_state (fst (breaker_call demo_breaker_cfg demo_half_open 80 81 (Inl open_error :: int res))) = OPEN"
proof -
  let ?o = "fst (breaker_call demo_breaker_cfg breaker_init 9 10 (Inl open_error :: int res))"
  have "fst (breaker_call demo_breaker_cfg ?o 71 72 (Inr (7 :: int))) = demo_half_open"
    by (simp add: breaker_call_def breaker_admit_def breaker_failure_def breaker_success_def Let_def
        demo_breaker_cfg_def demo_half_open_def breaker_init_def)
  then have "(breaker_step demo_breaker_cfg)\<^sup>*\<^sup>* breaker_init demo_half_open"
    by (metis breaker_call_step rtranclp.simps)
  moreover have "breaker_cfg_ok demo_breaker_cfg" by (simp add: breaker_cfg_ok_def demo_breaker_cfg_def)
  moreover have "cb_state demo_half_open = HALF_OPEN"
    "cb_half_open_call_count demo_half_open + 1 = half_open_max_calls demo_breaker_cfg"
    by (simp_all add: demo_half_open_def demo_breaker_cfg_def)
  ultimately show ?thesis
    using breaker_half_open_probes [of demo_breaker_cfg demo_half_open 80 81 open_error "7 :: int"]
    by blast
qed

end
