(* ===== verification/RateLimiter.thy ===== *)
theory RateLimiter
  imports Prelude
begin

section \<open>Rate limits, cost thresholds and anomalies of the NIM calls\<close>

text \<open>
  \<open>bridge/vapi_bridge/security/nim_rate_limiter.py\<close>, \<open>nim_cost_monitor.py\<close> and the scoring of
  \<open>nim_audit_logger.py\<close>. The calls of a device are one list of times that every rule trims to its
  own window before it counts; the default dictionary creates a device's list when it is read.
\<close>

record rate_rule =
  rr_name :: string
  rr_window_seconds :: real
  rr_max_calls :: nat

definition rate_rules :: "rate_rule list" where
  "rate_rules =
     [\<lparr>rr_name = ''burst'', rr_window_seconds = 60, rr_max_calls = 10\<rparr>,
      \<lparr>rr_name = ''sustained'', rr_window_seconds = 3600, rr_max_calls = 100\<rparr>,
      \<lparr>rr_name = ''daily'', rr_window_seconds = 86400, rr_max_calls = 1000\<rparr>]"

record limiter =
  rl_device_calls :: "(string, real list) dict"
  rl_fleet_calls :: "real list"

definition fleet_limit :: nat where
  "fleet_limit = 10000"

definition limiter_init :: limiter where
  "limiter_init = \<lparr>rl_device_calls = [], rl_fleet_calls = []\<rparr>"

definition recent :: "real \<Rightarrow> real \<Rightarrow> real list \<Rightarrow> real list" where
  "recent now window ts = filter (\<lambda>t. now - t < window) ts"

text \<open>The rules in turn over the device's list; the first that is full stops the check.\<close>

fun check_rules :: "real \<Rightarrow> rate_rule list \<Rightarrow> real list \<Rightarrow> real list \<times> string option" where
  "check_rules now [] ts = (ts, None)"
| "check_rules now (r # rs) ts =
     (let ts' = recent now (rr_window_seconds r) ts in
      if rr_max_calls r \<le> length ts' then (ts', Some (rr_name r)) else check_rules now rs ts')"

definition check_rate_limit :: "limiter \<Rightarrow> string \<Rightarrow> real \<Rightarrow> limiter \<times> bool \<times> string option" where
  "check_rate_limit l dev now =
     (let (ts, hit) = check_rules now rate_rules (dget_or (rl_device_calls l) dev []);
          l1 = l\<lparr>rl_device_calls := dput dev ts (rl_device_calls l)\<rparr>
      in case hit of
           Some name \<Rightarrow> (l1, False, Some name)
         | None \<Rightarrow>
             (let fleet = recent now 86400 (rl_fleet_calls l1); l2 = l1\<lparr>rl_fleet_calls := fleet\<rparr> in
              if fleet_limit \<le> length fleet then (l2, False, Some ''fleet'')
              else (l2\<lparr>rl_device_calls := dput dev (ts @ [now]) (rl_device_calls l2),
                       rl_fleet_calls := fleet @ [now]\<rparr>, True, None)))"

record rule_stats =
  rs_calls :: nat
  rs_limit :: nat
  rs_window_seconds :: real

definition get_device_stats :: "limiter \<Rightarrow> string \<Rightarrow> real \<Rightarrow> (string \<times> rule_stats) list" where
  "get_device_stats l dev now =
     map (\<lambda>r. (rr_name r,
               \<lparr>rs_calls = length (recent now (rr_window_seconds r) (dget_or (rl_device_calls l) dev [])),
                rs_limit = rr_max_calls r, rs_window_seconds = rr_window_seconds r\<rparr>)) rate_rules"

subsection \<open>Cost and anomalies\<close>

record cost_report =
  cr_window_hours :: nat
  cr_total_cost_usd :: real
  cr_call_count :: nat
  cr_status :: string
  cr_warning_threshold_usd :: real
  cr_critical_threshold_usd :: real

text \<open>\<open>audit\<close> is the table of the audited calls: time and estimated cost of each.\<close>

definition check_cost_thresholds :: "(real \<times> real) list \<Rightarrow> real \<Rightarrow> cost_report" where
  "check_cost_thresholds audit now =
     (let rows = filter (\<lambda>(t, _). now - 24 * 3600 \<le> t) audit;
          total = sum_list (map snd rows)
      in \<lparr>cr_window_hours = 24, cr_total_cost_usd = total, cr_call_count = length rows,
          cr_status = (if 100 \<le> total then ''critical'' else if 50 \<le> total then ''warning'' else ''normal''),
          cr_warning_threshold_usd = 50, cr_critical_threshold_usd = 100\<rparr>)"

definition detect_anomalies :: "nat \<Rightarrow> nat \<Rightarrow> real \<Rightarrow> real \<Rightarrow> real \<times> string list" where
  "detect_anomalies prompt_length token_count latency_ms cost =
     (let hits = filter snd
            [((''large_prompt'', 3 / 10), 10000 < prompt_length),
             ((''high_token_count'', 3 / 10), 4000 < token_count),
             ((''high_latency'', 2 / 10), 10000 < latency_ms),
             ((''high_cost'', 2 / 10), 1 / 10 < cost)]
      in (min (sum_list (map (snd \<circ> fst) hits)) 1, map (fst \<circ> fst) hits))"

subsection \<open>Lemmas\<close>

lemma recent_recent:
  "w \<le> w' \<Longrightarrow> recent now w' (recent now w ts) = recent now w ts"
  unfolding recent_def by (induction ts) auto

lemma check_rules_result:
  "check_rules now rate_rules ts =
     (recent now 60 ts, if 10 \<le> length (recent now 60 ts) then Some ''burst'' else None)"
  by (simp add: rate_rules_def recent_recent Let_def)

lemma check_rate_limit_result:
  "check_rate_limit l dev now =
     (let ts = recent now 60 (dget_or (rl_device_calls l) dev []);
          fleet = recent now 86400 (rl_fleet_calls l)
      in if 10 \<le> length ts
         then (l\<lparr>rl_device_calls := dput dev ts (rl_device_calls l)\<rparr>, False, Some ''burst'')
         else if fleet_limit \<le> length fleet
         then (l\<lparr>rl_device_calls := dput dev ts (rl_device_calls l), rl_fleet_calls := fleet\<rparr>,
               False, Some ''fleet'')
         else (l\<lparr>rl_device_calls := dput dev (ts @ [now]) (dput dev ts (rl_device_calls l)),
                 rl_fleet_calls := fleet @ [now]\<rparr>, True, None))"
  by (simp add: check_rate_limit_def check_rules_result Let_def)

subsection \<open>What the limiter guarantees\<close>

text \<open>A run over calls of any devices; the calls it admits, in order.\<close>

fun limiter_run :: "limiter \<Rightarrow> (string \<times> real) list \<Rightarrow> (string \<times> real) list" where
  "limiter_run l [] = []"
| "limiter_run l ((dev, now) # calls) =
     (let (l1, ok, _) = check_rate_limit l dev now
      in (if ok then [(dev, now)] else []) @ limiter_run l1 calls)"

definition device_times :: "string \<Rightarrow> (string \<times> real) list \<Rightarrow> real list" where
  "device_times dev calls = map snd (filter (\<lambda>(d, _). d = dev) calls)"

definition in_window :: "real \<Rightarrow> real list \<Rightarrow> real list" where
  "in_window w ts = filter (\<lambda>t. w - 60 < t \<and> t \<le> w) ts"

definition limiter_inv :: "limiter \<Rightarrow> (string \<times> real) list \<Rightarrow> real \<Rightarrow> bool" where
  "limiter_inv l adm now0 \<longleftrightarrow>
     (\<forall>dev now. now0 \<le> now \<longrightarrow>
        recent now 60 (dget_or (rl_device_calls l) dev []) = recent now 60 (device_times dev adm))
     \<and> (\<forall>(d, t) \<in> set adm. t \<le> now0)
     \<and> (\<forall>dev w. length (in_window w (device_times dev adm)) \<le> 10)"

lemma device_times_snoc [simp]:
  "device_times dev (adm @ [(d, t)]) = device_times dev adm @ (if d = dev then [t] else [])"
  by (simp add: device_times_def)

lemma device_times_bound: "\<forall>(d, t) \<in> set adm. t \<le> b \<Longrightarrow> \<forall>t \<in> set (device_times dev adm). t \<le> b"
  by (auto simp: device_times_def)

lemma recent_later: "now \<le> now' \<Longrightarrow> recent now' w (recent now w ts) = recent now' w ts"
  unfolding recent_def by (rule filter_sub) auto

lemma recent_append [simp]: "recent now w [] = []" "recent now w (xs @ ys) = recent now w xs @ recent now w ys"
  by (simp_all add: recent_def)

lemma limiter_inv_init: "limiter_inv limiter_init [] b"
  by (simp add: limiter_inv_def limiter_init_def dget_or_def device_times_def in_window_def)

text \<open>One check keeps the invariant, with the call added to the history when it is admitted.\<close>

lemma limiter_inv_step:
  assumes inv: "limiter_inv l adm now0" and le: "now0 \<le> now"
    and chk: "check_rate_limit l dev now = (l1, ok, why)"
  shows "limiter_inv l1 (adm @ (if ok then [(dev, now)] else [])) now"
proof -
  define ts where "ts = recent now 60 (dget_or (rl_device_calls l) dev [])"
  have hist: "recent now' 60 (dget_or (rl_device_calls l) d []) = recent now' 60 (device_times d adm)"
    if "now \<le> now'" for d now' using inv le that by (simp add: limiter_inv_def)
  have bound: "\<forall>(d, t) \<in> set adm. t \<le> now" using inv le by (force simp: limiter_inv_def)
  have win: "length (in_window w (device_times d adm)) \<le> 10" for d w
    using inv by (simp add: limiter_inv_def)
  have trim: "recent now' 60 ts = recent now' 60 (device_times dev adm)" if "now \<le> now'" for now'
    unfolding ts_def using recent_later [OF that] hist [OF that] by simp
  show ?thesis
  proof (cases ok)
    case False
    then have "rl_device_calls l1 = dput dev ts (rl_device_calls l)"
      using chk by (auto simp: check_rate_limit_result ts_def Let_def split: if_splits)
    then show ?thesis
      using False hist trim bound win by (auto simp: limiter_inv_def)
  next
    case True
    then have l1: "rl_device_calls l1 = dput dev (ts @ [now]) (dput dev ts (rl_device_calls l))"
      and few: "length ts < 10"
      using chk by (auto simp: check_rate_limit_result ts_def Let_def split: if_splits)
    have "length (in_window w (device_times dev adm @ [now])) \<le> 10" for w
    proof (cases "now \<le> w")
      case True
      have "length (in_window w (device_times dev adm)) \<le> length (recent now 60 (device_times dev adm))"
        unfolding in_window_def recent_def using True device_times_bound [OF bound, of dev]
        by (intro length_filter_mono) auto
      also have "\<dots> = length ts" using hist [of now dev] by (simp add: ts_def)
      finally show ?thesis using few by (simp add: in_window_def)
    next
      case False
      then show ?thesis using win [of w dev] by (simp add: in_window_def)
    qed
    then show ?thesis
      using True hist trim bound win l1 by (auto simp: limiter_inv_def)
  qed
qed

lemma limiter_run_inv:
  "limiter_inv l adm now0 \<Longrightarrow> sorted (now0 # map snd calls) \<Longrightarrow>
     \<exists>l' now0'. limiter_inv l' (adm @ limiter_run l calls) now0'"
proof (induction calls arbitrary: l adm now0)
  case Nil
  then show ?case by auto
next
  case (Cons call calls)
  obtain dev now where call: "call = (dev, now)" by fastforce
  obtain l1 ok why where chk: "check_rate_limit l dev now = (l1, ok, why)"
    by (cases "check_rate_limit l dev now") auto
  have "limiter_inv l1 (adm @ (if ok then [(dev, now)] else [])) now"
    using limiter_inv_step [OF Cons.prems(1) _ chk] Cons.prems(2) call by simp
  moreover have "sorted (now # map snd calls)" using Cons.prems(2) call by simp
  ultimately have "\<exists>l' now0'.
      limiter_inv l' ((adm @ (if ok then [(dev, now)] else [])) @ limiter_run l1 calls) now0'"
    by (rule Cons.IH)
  moreover have "limiter_run l (call # calls) = (if ok then [(dev, now)] else []) @ limiter_run l1 calls"
    unfolding call by (simp add: chk)
  ultimately show ?case by (simp only: append_assoc)
qed

text \<open>Calls of one device six seconds apart are admitted as long as the fleet limit allows.\<close>

definition spaced :: "nat \<Rightarrow> nat \<Rightarrow> (string \<times> real) list" where
  "spaced i n = map (\<lambda>k. (''d'', 6 * real k)) [i..<i + n]"

definition spaced_state :: "limiter \<Rightarrow> nat \<Rightarrow> bool" where
  "spaced_state l i \<longleftrightarrow>
     recent (6 * real i) 60 (dget_or (rl_device_calls l) ''d'' []) = map (\<lambda>k. 6 * real k) [i - 9..<i]
     \<and> length (rl_fleet_calls l) \<le> i"

lemma recent_spaced:
  "recent (6 * real (Suc i)) 60 (map (\<lambda>k. 6 * real k) [i - 9..<Suc i])
     = map (\<lambda>k. 6 * real k) [Suc i - 9..<Suc i]"
proof (cases "i < 9")
  case True
  then have "\<forall>k \<in> set [i - 9..<Suc i]. 6 * real (Suc i) - 6 * real k < 60" by (auto simp del: upt_Suc)
  then show ?thesis using True by (simp add: recent_def filter_map comp_def del: upt_Suc)
next
  case False
  then have "[i - 9..<Suc i] = (i - 9) # [Suc i - 9..<Suc i]"
    using Suc_diff_le [of 9 i] by (subst upt_conv_Cons) (auto simp del: upt_Suc)
  moreover have "\<not> 6 * real (Suc i) - 6 * real (i - 9) < 60" using False by (simp add: of_nat_diff)
  moreover have "\<forall>k \<in> set [Suc i - 9..<Suc i]. 6 * real (Suc i) - 6 * real k < 60"
    using False by (auto simp: of_nat_diff simp del: upt_Suc)
  ultimately show ?thesis by (simp add: recent_def filter_map comp_def del: upt_Suc)
qed

lemma spaced_step:
  assumes "spaced_state l i" and "i < fleet_limit"
  shows "\<exists>l'. check_rate_limit l ''d'' (6 * real i) = (l', True, None) \<and> spaced_state l' (Suc i)"
proof -
  let ?ts = "recent (6 * real i) 60 (dget_or (rl_device_calls l) ''d'' [])"
  have ts: "?ts = map (\<lambda>k. 6 * real k) [i - 9..<i]" using assms(1) by (simp add: spaced_state_def)
  have fleet: "length (recent (6 * real i) 86400 (rl_fleet_calls l)) \<le> i"
    using assms(1) length_filter_le [of _ "rl_fleet_calls l"] order_trans
    unfolding spaced_state_def recent_def by blast
  have len: "length ?ts < 10" unfolding ts by simp
  have "?ts @ [6 * real i] = map (\<lambda>k. 6 * real k) [i - 9..<Suc i]" by (simp add: ts)
  then show ?thesis
    using len fleet assms(2) recent_spaced [of i]
    by (simp add: check_rate_limit_result Let_def spaced_state_def del: upt_Suc)
qed

lemma limiter_run_spaced:
  "spaced_state l i \<Longrightarrow> i + n \<le> fleet_limit \<Longrightarrow> limiter_run l (spaced i n) = spaced i n"
proof (induction n arbitrary: l i)
  case 0
  then show ?case by (simp add: spaced_def)
next
  case (Suc n)
  then obtain l' where "check_rate_limit l ''d'' (6 * real i) = (l', True, None)" "spaced_state l' (Suc i)"
    using spaced_step [of l i] by auto
  moreover have "spaced i (Suc n) = (''d'', 6 * real i) # spaced (Suc i) n"
    by (simp add: spaced_def upt_conv_Cons del: upt_Suc)
  ultimately show ?case using Suc by simp
qed

subsection \<open>Properties\<close>

text \<open>
  Over any calls with a clock that does not step back, at most ten calls of a device are
  admitted in any window of sixty seconds.
\<close>

theorem limiter_bounds_bursts:
  assumes "sorted (map snd calls)"
  shows "length (in_window w (device_times dev (limiter_run limiter_init calls))) \<le> 10"
proof -
  obtain b where "sorted (b # map snd calls)" using assms by (cases calls) auto
  then obtain l' now0' where "limiter_inv l' ([] @ limiter_run limiter_init calls) now0'"
    using limiter_run_inv [OF limiter_inv_init] by blast
  then show ?thesis by (simp add: limiter_inv_def)
qed

theorem limiter_bounds_bursts_witness:
  "length (in_window 30 (device_times ''d'' (limiter_run limiter_init (replicate 12 (''d'', 1))))) \<le> 10"
  by (rule limiter_bounds_bursts) (simp add: sorted_replicate)

text \<open>
  Only the burst rule and the fleet limit ever deny a call: the burst rule trims the list of
  the device to the last minute before the hourly and the daily rule count it. A device that calls
  every six seconds is admitted a hundred and fifty times in a quarter of an hour, above the
  hourly limit of a hundred.
\<close>

theorem longer_rules_never_deny:
  "snd (snd (check_rate_limit l dev now)) \<in> {None, Some ''burst'', Some ''fleet''}
   \<and> limiter_run limiter_init (spaced 0 150) = spaced 0 150"
proof
  show "snd (snd (check_rate_limit l dev now)) \<in> {None, Some ''burst'', Some ''fleet''}"
    by (simp add: check_rate_limit_result Let_def)
  have "spaced_state limiter_init 0"
    by (simp add: spaced_state_def limiter_init_def dget_or_def)
  then show "limiter_run limiter_init (spaced 0 150) = spaced 0 150"
    by (rule limiter_run_spaced) (simp add: fleet_limit_def)
qed

end
