(* ===== verification/ApiKeys.thy ===== *)
theory ApiKeys
  imports Json
begin

section \<open>The API key manager\<close>

text \<open>
  \<open>bridge/vapi_bridge/security/api_key_manager.py\<close>: versioned keys in an insertion-ordered
  dictionary, rotation with a grace period, revocation and lookup by purpose. The random key is an
  argument; one reading of the clock serves each operation.
\<close>

datatype key_status = ACTIVE | ROTATING | REVOKED | COMPROMISED

record key_version =
  kv_version :: string
  kv_key :: string
  kv_status :: key_status
  kv_created_at :: real
  kv_expires_at :: real

record key_manager =
  km_env :: string
  km_keys :: "(string, key_version) dict"

definition rotation_interval_days :: real where "rotation_interval_days = 90"
definition grace_period_days :: real where "grace_period_days = 7"

definition key_prefix :: "string \<Rightarrow> string \<Rightarrow> string" where
  "key_prefix env purpose = ''NIM_'' @ upper env @ ''_'' @ upper purpose"

definition key_version_of :: "real \<Rightarrow> string" where
  "key_version_of now = ''v'' @ dec_int (trunc now)"

definition generate_key :: "key_manager \<Rightarrow> string \<Rightarrow> string \<Rightarrow> real \<Rightarrow> key_manager \<times> string" where
  "generate_key km purpose secret now =
     (let version = key_version_of now;
          kv = \<lparr>kv_version = version, kv_key = secret, kv_status = ACTIVE, kv_created_at = now,
                kv_expires_at = now + rotation_interval_days * 86400\<rparr>;
          key_id = key_prefix (km_env km) purpose @ ''_'' @ version
      in (km\<lparr>km_keys := dput key_id kv (km_keys km)\<rparr>, key_id))"

text \<open>\<open>key_id.split("_")[2]\<close> raises when the id has fewer parts.\<close>

definition purpose_of :: "string \<Rightarrow> string res" where
  "purpose_of key_id =
     (let parts = split_on (CHR ''_'') key_id in
      if length parts \<le> 2 then Inl (PyExc ''IndexError'' ''list index out of range'')
      else Inr (lower (parts ! 2)))"

definition rotate_key :: "key_manager \<Rightarrow> string \<Rightarrow> string \<Rightarrow> real \<Rightarrow> key_manager \<times> string option res" where
  "rotate_key km key_id secret now =
     (case dget (km_keys km) key_id of
        None \<Rightarrow> (km, Inr None)
      | Some old \<Rightarrow>
          (let old' = old\<lparr>kv_status := ROTATING, kv_expires_at := now + grace_period_days * 86400\<rparr>;
               km1 = km\<lparr>km_keys := dput key_id old' (km_keys km)\<rparr>
           in case purpose_of key_id of
                Inl e \<Rightarrow> (km1, Inl e)
              | Inr purpose \<Rightarrow>
                  (let (km2, new_id) = generate_key km1 purpose secret now in (km2, Inr (Some new_id)))))"

definition revoke_key :: "key_manager \<Rightarrow> string \<Rightarrow> key_manager \<times> bool" where
  "revoke_key km key_id =
     (case dget (km_keys km) key_id of
        None \<Rightarrow> (km, False)
      | Some kv \<Rightarrow> (km\<lparr>km_keys := dput key_id (kv\<lparr>kv_status := REVOKED\<rparr>) (km_keys km)\<rparr>, True))"

text \<open>The scan revokes the expired active keys it passes and stops at the first live one.\<close>

fun scan_active :: "string \<Rightarrow> real \<Rightarrow> (string, key_version) dict \<Rightarrow> (string, key_version) dict \<times> string option" where
  "scan_active prefix now [] = ([], None)"
| "scan_active prefix now ((k, kv) # rest) =
     (if startswith k prefix \<and> kv_status kv = ACTIVE then
        (if now < kv_expires_at kv then ((k, kv) # rest, Some (kv_key kv))
         else (let (rest', r) = scan_active prefix now rest in ((k, kv\<lparr>kv_status := REVOKED\<rparr>) # rest', r)))
      else (let (rest', r) = scan_active prefix now rest in ((k, kv) # rest', r)))"

definition get_active_key :: "key_manager \<Rightarrow> string \<Rightarrow> real \<Rightarrow> key_manager \<times> string option" where
  "get_active_key km purpose now =
     (let (keys, r) = scan_active (key_prefix (km_env km) purpose) now (km_keys km)
      in (km\<lparr>km_keys := keys\<rparr>, r))"

definition check_rotation_needed :: "key_manager \<Rightarrow> real \<Rightarrow> string list" where
  "check_rotation_needed km now =
     map fst (filter (\<lambda>(_, kv). kv_status kv = ACTIVE
        \<and> (kv_expires_at kv - kv_created_at kv) * (8 / 10) < now - kv_created_at kv) (km_keys km))"

subsection \<open>Text of the key ids\<close>

lemma of_char_upper: "(of_char (upper_char c) :: nat) =
    (if 97 \<le> (of_char c :: nat) \<and> of_char c \<le> (122 :: nat) then of_char c - 32 else of_char c)"
proof -
  have "(of_char c - 32) mod 256 = of_char c - (32 :: nat)"
    using of_char_mod_256 [of c, where 'a = nat] by (metis less_imp_diff_less mod_less mod_less_divisor zero_less_numeral)
  then show ?thesis by (simp add: upper_char_def Let_def of_char_of)
qed

lemma of_char_lower: "(of_char (lower_char c) :: nat) =
    (if 65 \<le> (of_char c :: nat) \<and> of_char c \<le> (90 :: nat) then of_char c + 32 else of_char c)"
  by (simp add: lower_char_def Let_def of_char_of)

lemma upper_lower_upper_char: "upper_char (lower_char (upper_char c)) = upper_char c"
proof -
  have "(of_char (upper_char (lower_char (upper_char c))) :: nat) = of_char (upper_char c)"
    unfolding of_char_upper of_char_lower by auto
  then show ?thesis by (simp only: of_char_eq_iff)
qed

lemma upper_char_underscore: "upper_char c = CHR ''_'' \<longleftrightarrow> c = CHR ''_''"
proof -
  have u: "(of_char (CHR ''_'') :: nat) = 95" by simp
  have "(of_char (upper_char c) :: nat) = of_char (CHR ''_'') \<longleftrightarrow> (of_char c :: nat) = of_char (CHR ''_'')"
    unfolding of_char_upper u by auto
  then show ?thesis by (simp only: of_char_eq_iff)
qed

lemma upper_lower_upper: "upper (lower (upper s)) = upper s"
  by (simp add: upper_def lower_def upper_lower_upper_char)

lemma underscore_upper: "CHR ''_'' \<in> set (upper s) \<longleftrightarrow> CHR ''_'' \<in> set s"
proof
  assume "CHR ''_'' \<in> set (upper s)"
  then obtain c where c: "c \<in> set s" "upper_char c = CHR ''_''" by (auto simp: upper_def)
  then show "CHR ''_'' \<in> set s" using upper_char_underscore [of c] by simp
next
  assume "CHR ''_'' \<in> set s"
  then have "upper_char (CHR ''_'') \<in> set (upper s)" by (simp add: upper_def)
  then show "CHR ''_'' \<in> set (upper s)" using upper_char_underscore [of "CHR ''_''"] by simp
qed

lemma purpose_of_key_id:
  assumes "CHR ''_'' \<notin> set env" and "CHR ''_'' \<notin> set purpose"
  shows "purpose_of (key_prefix env purpose @ ''_'' @ v) = Inr (lower (upper purpose))"
proof -
  have "split_on (CHR ''_'') (key_prefix env purpose @ ''_'' @ v)
      = ''NIM'' # upper env # upper purpose # split_on (CHR ''_'') v"
    using split_on_word [of "CHR ''_''" "''NIM''" "upper env @ ''_'' @ upper purpose @ ''_'' @ v"]
      split_on_word [of "CHR ''_''" "upper env" "upper purpose @ ''_'' @ v"]
      split_on_word [of "CHR ''_''" "upper purpose" v] assms
    by (simp add: key_prefix_def underscore_upper)
  moreover have "split_on (CHR ''_'') v \<noteq> []" by (cases v) (auto split: list.splits)
  ultimately show ?thesis by (simp add: purpose_of_def)
qed

lemma key_prefix_lower: "key_prefix env (lower (upper p)) = key_prefix env p"
  by (simp add: key_prefix_def upper_lower_upper)

subsection \<open>Rotation\<close>

lemma rotate_generated:
  assumes "CHR ''_'' \<notin> set (km_env km)" and "CHR ''_'' \<notin> set purpose"
    and "dget (km_keys km) (key_prefix (km_env km) purpose @ ''_'' @ v) = Some old"
  shows "rotate_key km (key_prefix (km_env km) purpose @ ''_'' @ v) secret now =
    (km\<lparr>km_keys := dput (key_prefix (km_env km) purpose @ ''_'' @ key_version_of now)
          \<lparr>kv_version = key_version_of now, kv_key = secret, kv_status = ACTIVE, kv_created_at = now,
           kv_expires_at = now + rotation_interval_days * 86400\<rparr>
          (dput (key_prefix (km_env km) purpose @ ''_'' @ v)
             (old\<lparr>kv_status := ROTATING, kv_expires_at := now + grace_period_days * 86400\<rparr>) (km_keys km))\<rparr>,
     Inr (Some (key_prefix (km_env km) purpose @ ''_'' @ key_version_of now)))"
  unfolding rotate_key_def assms(3) purpose_of_key_id [OF assms(1,2)]
  by (simp add: generate_key_def key_prefix_lower Let_def)

subsection \<open>Properties\<close>

definition fresh_manager :: "string \<Rightarrow> key_manager" where
  "fresh_manager env = \<lparr>km_env = env, km_keys = []\<rparr>"

lemma startswith_key_id: "startswith (key_prefix env p @ s) (key_prefix env p)"
  by simp

text \<open>
  Rotating a key in a later second keeps the old one as rotating with a week of grace, adds the
  new one, and lookup then returns the new secret for the ninety days it is valid.
\<close>

theorem rotation_hands_over:
  assumes "CHR ''_'' \<notin> set env" and "CHR ''_'' \<notin> set purpose"
    and "generate_key (fresh_manager env) purpose secret t0 = (km0, key_id)"
    and "rotate_key km0 key_id secret' t1 = (km1, r)" and "key_version_of t1 \<noteq> key_version_of t0"
    and "t < t1 + rotation_interval_days * 86400"
  shows "\<exists>new_id old. r = Inr (Some new_id) \<and> new_id \<noteq> key_id
    \<and> dget (km_keys km1) key_id = Some old \<and> kv_status old = ROTATING \<and> kv_key old = secret
    \<and> kv_expires_at old = t1 + grace_period_days * 86400
    \<and> snd (get_active_key km1 purpose t) = Some secret'"
proof -
  let ?p = "key_prefix env purpose"
  have gen: "key_id = ?p @ ''_'' @ key_version_of t0" "km_env km0 = env"
    "km_keys km0 = [(key_id, \<lparr>kv_version = key_version_of t0, kv_key = secret, kv_status = ACTIVE,
       kv_created_at = t0, kv_expires_at = t0 + rotation_interval_days * 86400\<rparr>)]"
    using assms(3) by (auto simp: generate_key_def fresh_manager_def Let_def)
  have rot: "km1 = km0\<lparr>km_keys := dput (?p @ ''_'' @ key_version_of t1)
       \<lparr>kv_version = key_version_of t1, kv_key = secret', kv_status = ACTIVE, kv_created_at = t1,
        kv_expires_at = t1 + rotation_interval_days * 86400\<rparr>
       (dput key_id (\<lparr>kv_version = key_version_of t0, kv_key = secret, kv_status = ROTATING,
          kv_created_at = t0, kv_expires_at = t1 + grace_period_days * 86400\<rparr>) (km_keys km0))\<rparr>"
    "r = Inr (Some (?p @ ''_'' @ key_version_of t1))"
    using assms(4) rotate_generated [of km0 purpose "key_version_of t0" _ secret' t1] assms(1,2) gen
    by auto
  have ne: "?p @ ''_'' @ key_version_of t1 \<noteq> key_id" using assms(5) gen(1) by simp
  have "snd (get_active_key km1 purpose t) = Some secret'"
    using ne assms(6) unfolding get_active_key_def rot(1) gen(3) by (simp add: gen(1,2) Let_def)
  then show ?thesis using rot ne by (simp add: gen(3))
qed

theorem rotation_hands_over_witness:
  "snd (get_active_key (fst (rotate_key (fst (generate_key (fresh_manager ''prod'') ''chat'' ''s1'' 5))
      ''NIM_PROD_CHAT_v5'' ''s2'' 9)) ''chat'' 10) = Some ''s2''"
proof -
  have id: "snd (generate_key (fresh_manager ''prod'') ''chat'' ''s1'' 5) = ''NIM_PROD_CHAT_v5''" by code_simp
  have v: "key_version_of 9 \<noteq> key_version_of 5" by code_simp
  have u: "CHR ''_'' \<notin> set ''prod''" "CHR ''_'' \<notin> set ''chat''" by simp_all
  show ?thesis
    using rotation_hands_over [OF u surjective_pairing surjective_pairing v,
        where secret = "''s1''" and secret' = "''s2''" and t = 10] id
    by (auto simp: rotation_interval_days_def)
qed

text \<open>
  Rotating a key in the second in which it was generated gives the new key the same id: the
  old secret is gone at once, without its week of grace, and one key is left.
\<close>

theorem same_second_rotation_drops_key:
  assumes "CHR ''_'' \<notin> set env" and "CHR ''_'' \<notin> set purpose"
    and "generate_key (fresh_manager env) purpose secret t0 = (km0, key_id)"
    and "rotate_key km0 key_id secret' t1 = (km1, r)" and "key_version_of t1 = key_version_of t0"
  shows "r = Inr (Some key_id) \<and> map fst (km_keys km1) = [key_id]
    \<and> map_option kv_key (dget (km_keys km1) key_id) = Some secret'"
proof -
  have gen: "key_id = key_prefix env purpose @ ''_'' @ key_version_of t0" "km_env km0 = env"
    "km_keys km0 = [(key_id, \<lparr>kv_version = key_version_of t0, kv_key = secret, kv_status = ACTIVE,
       kv_created_at = t0, kv_expires_at = t0 + rotation_interval_days * 86400\<rparr>)]"
    using assms(3) by (auto simp: generate_key_def fresh_manager_def Let_def)
  then show ?thesis
    using assms(4,5) rotate_generated [of km0 purpose "key_version_of t0" _ secret' t1] assms(1,2)
    by auto
qed

theorem same_second_rotation_drops_key_witness:
  "map fst (km_keys (fst (rotate_key (fst (generate_key (fresh_manager ''prod'') ''chat'' ''s1'' 5))
      ''NIM_PROD_CHAT_v5'' ''s2'' (11 / 2)))) = [''NIM_PROD_CHAT_v5'']"
proof -
  have id: "snd (generate_key (fresh_manager ''prod'') ''chat'' ''s1'' 5) = ''NIM_PROD_CHAT_v5''" by code_simp
  have v: "key_version_of (11 / 2) = key_version_of 5" by code_simp
  have u: "CHR ''_'' \<notin> set ''prod''" "CHR ''_'' \<notin> set ''chat''" by simp_all
  show ?thesis
    using same_second_rotation_drops_key [OF u surjective_pairing
        surjective_pairing v, where secret = "''s1''" and secret' = "''s2''"] id
    by simp
qed

text \<open>
  Lookup matches by prefix only: a manager that holds nothing but a key for a longer purpose
  hands that key out for the shorter one.
\<close>

theorem lookup_crosses_purposes:
  assumes "generate_key (fresh_manager env) (purpose @ extra) secret t0 = (km, key_id)"
    and "t < t0 + rotation_interval_days * 86400"
  shows "snd (get_active_key km purpose t) = Some secret"
  using assms
  by (auto simp: generate_key_def fresh_manager_def get_active_key_def key_prefix_def upper_def
      startswith_iff Let_def)

theorem lookup_crosses_purposes_witness:
  "snd (get_active_key (fst (generate_key (fresh_manager ''prod'') ''chatbot'' ''s1'' 5)) ''chat'' 6)
     = Some ''s1''"
  using lookup_crosses_purposes [OF surjective_pairing, where env = "''prod''" and purpose = "''chat''" and extra = "''bot''"
      and secret = "''s1''" and ?t0.0 = 5 and t = 6]
  by (simp add: rotation_interval_days_def)

end
