(* ===== verification/LlmHealth.thy ===== *)
theory LlmHealth
  imports Prelude
begin

section \<open>Health of the language-model backends\<close>

text \<open>
  \<open>llm_routing/health.py\<close> and the health types of \<open>llm_routing/types.py\<close>. The four dictionaries of
  the \<open>HealthCache\<close> are one record; the \<open>BackendHealth\<close> objects are reachable only through
  \<open>_health\<close>, so a change of one is a new value in that dictionary. What a backend's own \<open>health()\<close>
  answers is an argument of the probe. One operation reads the clock once, at \<open>now\<close>.
\<close>

datatype health_state = UNKNOWN | HEALTHY | DEGRADED | UNHEALTHY | COOLDOWN

record backend_health =
  bh_state :: health_state
  bh_failures :: int
  bh_last_failure :: real
  bh_cooldown_until :: real
  bh_last_success :: real

definition new_health :: backend_health where
  "new_health = \<lparr>bh_state = UNKNOWN, bh_failures = 0, bh_last_failure = 0,
                 bh_cooldown_until = 0, bh_last_success = 0\<rparr>"

text \<open>A cached probe: the error results have neither a latency nor a model.\<close>

record probe_status =
  ps_ok :: bool
  ps_latency_ms :: "real option"
  ps_model :: "string option"
  ps_error :: string

definition failed_probe :: "string \<Rightarrow> probe_status" where
  "failed_probe e = \<lparr>ps_ok = False, ps_latency_ms = None, ps_model = None, ps_error = e\<rparr>"

record health_status =
  hs_ok :: bool
  hs_latency_ms :: real
  hs_model :: string
  hs_error :: string

record 'b health_cache =
  hc_cache_seconds :: int
  hc_backends :: "(string, 'b) dict"
  hc_health :: "(string, backend_health) dict"
  hc_cache :: "(string, probe_status) dict"
  hc_last_probe :: "(string, real) dict"

definition health_cache_init :: "int \<Rightarrow> 'b health_cache" where
  "health_cache_init s =
     \<lparr>hc_cache_seconds = s, hc_backends = [], hc_health = [], hc_cache = [], hc_last_probe = []\<rparr>"

subsection \<open>Registration and probing\<close>

definition register_backend :: "'b health_cache \<Rightarrow> string \<Rightarrow> 'b \<Rightarrow> 'b health_cache" where
  "register_backend hc bid b =
     hc\<lparr>hc_backends := dput bid b (hc_backends hc),
        hc_health := dput bid new_health (hc_health hc),
        hc_cache := dput bid (failed_probe ''not yet probed'') (hc_cache hc),
        hc_last_probe := dput bid 0 (hc_last_probe hc)\<rparr>"

definition unregister_backend :: "'b health_cache \<Rightarrow> string \<Rightarrow> 'b health_cache" where
  "unregister_backend hc bid =
     hc\<lparr>hc_backends := dpop bid (hc_backends hc),
        hc_health := dpop bid (hc_health hc),
        hc_cache := dpop bid (hc_cache hc),
        hc_last_probe := dpop bid (hc_last_probe hc)\<rparr>"

definition probe_result :: "health_status res \<Rightarrow> probe_status" where
  "probe_result r =
     (case r of
        Inr s \<Rightarrow> \<lparr>ps_ok = hs_ok s, ps_latency_ms = Some (hs_latency_ms s),
                  ps_model = Some (hs_model s), ps_error = hs_error s\<rparr>
      | Inl e \<Rightarrow> failed_probe (exc_msg e))"

definition probe ::
  "('b \<Rightarrow> health_status res) \<Rightarrow> real \<Rightarrow> 'b health_cache \<Rightarrow> string \<Rightarrow> 'b health_cache \<times> probe_status" where
  "probe answer now hc bid =
     (case dget (hc_backends hc) bid of
        None \<Rightarrow>
          (let r = failed_probe ''unknown backend'' in
           (hc\<lparr>hc_cache := dput bid r (hc_cache hc)\<rparr>, r))
      | Some b \<Rightarrow>
          (let r = probe_result (answer b) in
           (hc\<lparr>hc_cache := dput bid r (hc_cache hc),
               hc_last_probe := dput bid now (hc_last_probe hc)\<rparr>, r)))"

text \<open>\<open>clock\<close> gives the time at which the probe of a backend came back.\<close>

fun probe_each ::
  "('b \<Rightarrow> health_status res) \<Rightarrow> (string \<Rightarrow> real) \<Rightarrow> string list \<Rightarrow> 'b health_cache
     \<Rightarrow> (string, probe_status) dict \<Rightarrow> 'b health_cache \<times> (string, probe_status) dict" where
  "probe_each answer clock [] hc results = (hc, results)"
| "probe_each answer clock (bid # bids) hc results =
     (let (hc1, r) = probe answer (clock bid) hc bid in
      probe_each answer clock bids hc1 (dput bid r results))"

definition probe_all ::
  "('b \<Rightarrow> health_status res) \<Rightarrow> (string \<Rightarrow> real) \<Rightarrow> 'b health_cache
     \<Rightarrow> 'b health_cache \<times> (string, probe_status) dict" where
  "probe_all answer clock hc = probe_each answer clock (dkeys (hc_backends hc)) hc []"

subsection \<open>Reads of the cache\<close>

definition end_cooldown :: "real \<Rightarrow> backend_health \<Rightarrow> backend_health" where
  "end_cooldown now h =
     (if bh_state h = COOLDOWN \<and> bh_cooldown_until h \<le> now
      then h\<lparr>bh_state := UNKNOWN, bh_failures := 0\<rparr> else h)"

definition is_healthy :: "real \<Rightarrow> 'b health_cache \<Rightarrow> string \<Rightarrow> 'b health_cache \<times> bool" where
  "is_healthy now hc bid =
     (case dget (hc_health hc) bid of
        None \<Rightarrow> (hc, False)
      | Some h \<Rightarrow>
          if bh_state h = COOLDOWN \<and> now < bh_cooldown_until h then (hc, False)
          else
            (let h1 = end_cooldown now h;
                 hc1 = hc\<lparr>hc_health := dput bid h1 (hc_health hc)\<rparr> in
             (hc1,
              if bh_state h1 = UNHEALTHY \<or> bh_state h1 = COOLDOWN then False
              else if of_int (hc_cache_seconds hc) < now - dget_or (hc_last_probe hc) bid 0
              then bh_state h1 \<in> {UNKNOWN, HEALTHY, DEGRADED}
              else (case dget (hc_cache hc) bid of None \<Rightarrow> False | Some c \<Rightarrow> ps_ok c))))"

definition get_health :: "'b health_cache \<Rightarrow> string \<Rightarrow> backend_health option" where
  "get_health hc bid = dget (hc_health hc) bid"

definition get_all_health :: "'b health_cache \<Rightarrow> (string, backend_health) dict" where
  "get_all_health hc = hc_health hc"

subsection \<open>What requests report back\<close>

definition fail_health :: "int \<Rightarrow> int \<Rightarrow> real \<Rightarrow> backend_health \<Rightarrow> backend_health" where
  "fail_health max_failures cooldown_seconds now h =
     (let h1 = h\<lparr>bh_failures := bh_failures h + 1, bh_last_failure := now\<rparr> in
      if max_failures \<le> bh_failures h1
      then h1\<lparr>bh_state := COOLDOWN, bh_cooldown_until := now + of_int cooldown_seconds\<rparr>
      else if 1 \<le> bh_failures h1 then h1\<lparr>bh_state := DEGRADED\<rparr> else h1)"

definition record_failure :: "int \<Rightarrow> int \<Rightarrow> real \<Rightarrow> 'b health_cache \<Rightarrow> string \<Rightarrow> 'b health_cache" where
  "record_failure max_failures cooldown_seconds now hc bid =
     (case dget (hc_health hc) bid of
        None \<Rightarrow> hc
      | Some h \<Rightarrow>
          hc\<lparr>hc_health := dput bid (fail_health max_failures cooldown_seconds now h) (hc_health hc)\<rparr>)"

definition record_success :: "real \<Rightarrow> 'b health_cache \<Rightarrow> string \<Rightarrow> 'b health_cache" where
  "record_success now hc bid =
     (case dget (hc_health hc) bid of
        None \<Rightarrow> hc
      | Some h \<Rightarrow>
          hc\<lparr>hc_health := dput bid (h\<lparr>bh_state := HEALTHY, bh_failures := 0, bh_last_success := now\<rparr>)
                             (hc_health hc)\<rparr>)"

record health_summary =
  sum_state :: health_state
  sum_failures :: int
  sum_last_success :: real
  sum_cooldown_remaining :: real

definition health_cache_summary :: "real \<Rightarrow> 'b health_cache \<Rightarrow> (string, health_summary) dict" where
  "health_cache_summary now hc =
     map (\<lambda>(bid, h). (bid,
       \<lparr>sum_state = bh_state h, sum_failures = bh_failures h, sum_last_success = bh_last_success h,
        sum_cooldown_remaining =
          (if bh_state h = COOLDOWN then max 0 (bh_cooldown_until h - now) else 0)\<rparr>)) (hc_health hc)"

subsection \<open>The states a backend can be in\<close>

text \<open>
  The failure counter and the state agree: only a backend with failures below the limit is
  degraded, only one at the limit cools down, and nothing is ever marked \<open>UNHEALTHY\<close>.
\<close>

definition wf_health :: "int \<Rightarrow> backend_health \<Rightarrow> bool" where
  "wf_health mx h =
     (case bh_state h of
        UNKNOWN \<Rightarrow> bh_failures h = 0
      | HEALTHY \<Rightarrow> bh_failures h = 0
      | DEGRADED \<Rightarrow> 1 \<le> bh_failures h \<and> bh_failures h < mx
      | UNHEALTHY \<Rightarrow> False
      | COOLDOWN \<Rightarrow> 1 \<le> bh_failures h \<and> mx \<le> bh_failures h)"

definition wf_cache :: "int \<Rightarrow> 'b health_cache \<Rightarrow> bool" where
  "wf_cache mx hc \<longleftrightarrow>
     set (dkeys (hc_health hc)) = set (dkeys (hc_backends hc)) \<and>
     (\<forall>bid h. dget (hc_health hc) bid = Some h \<longrightarrow> wf_health mx h)"

lemma wf_fail_health: "wf_health mx h \<Longrightarrow> wf_health mx (fail_health mx cd now h)"
  by (auto simp: wf_health_def fail_health_def Let_def split: health_state.splits)

lemma wf_end_cooldown: "wf_health mx h \<Longrightarrow> wf_health mx (end_cooldown now h)"
  by (auto simp: wf_health_def end_cooldown_def split: health_state.splits)

lemma wf_health_failures: "wf_health mx h \<Longrightarrow> 0 \<le> bh_failures h"
  by (auto simp: wf_health_def split: health_state.splits)

lemma wf_cache_init [wf_intros]: "wf_cache mx (health_cache_init s)"
  by (simp add: wf_cache_def health_cache_init_def dkeys_def)

lemma wf_register [wf_intros]: "wf_cache mx hc \<Longrightarrow> wf_cache mx (register_backend hc bid b)"
  by (auto simp: wf_cache_def register_backend_def wf_health_def new_health_def dkeys_dput)

lemma wf_unregister [wf_intros]: "wf_cache mx hc \<Longrightarrow> wf_cache mx (unregister_backend hc bid)"
  by (auto simp: wf_cache_def unregister_backend_def dkeys_dpop split: if_splits)

lemma wf_probe [wf_intros]: "wf_cache mx hc \<Longrightarrow> wf_cache mx (fst (probe answer now hc bid))"
  by (auto simp: wf_cache_def probe_def Let_def split: option.split)

lemma wf_is_healthy [wf_intros]:
  assumes "wf_cache mx hc"
  shows "wf_cache mx (fst (is_healthy now hc bid))"
  using assms
  by (auto simp: wf_cache_def is_healthy_def Let_def wf_end_cooldown dkeys_dput_old split: option.split if_splits)

lemma wf_record_failure [wf_intros]:
  "wf_cache mx hc \<Longrightarrow> wf_cache mx (record_failure mx cd now hc bid)"
  by (auto simp: wf_cache_def record_failure_def wf_fail_health dkeys_dput_old split: option.split if_splits)

lemma wf_record_success [wf_intros]: "wf_cache mx hc \<Longrightarrow> wf_cache mx (record_success now hc bid)"
  by (auto simp: wf_cache_def record_success_def wf_health_def dkeys_dput_old split: option.split if_splits)

text \<open>Requests and probes never add or drop a backend.\<close>

lemma backends_kept [simp]:
  "hc_backends (fst (is_healthy now hc bid)) = hc_backends hc"
  "hc_backends (record_failure mx cd now hc bid) = hc_backends hc"
  "hc_backends (record_success now hc bid) = hc_backends hc"
  by (simp_all add: is_healthy_def record_failure_def record_success_def Let_def split: option.split)

subsection \<open>Reachable states\<close>

inductive health_step :: "int \<Rightarrow> int \<Rightarrow> 'b health_cache \<Rightarrow> 'b health_cache \<Rightarrow> bool" for mx cd where
  reg: "health_step mx cd hc (register_backend hc bid b)"
| unreg: "health_step mx cd hc (unregister_backend hc bid)"
| probed: "health_step mx cd hc (fst (probe answer now hc bid))"
| check: "health_step mx cd hc (fst (is_healthy now hc bid))"
| fail: "health_step mx cd hc (record_failure mx cd now hc bid)"
| succeed: "health_step mx cd hc (record_success now hc bid)"

lemma health_step_wf: "health_step mx cd hc hc' \<Longrightarrow> wf_cache mx hc \<Longrightarrow> wf_cache mx hc'"
  by (induction rule: health_step.induct) (auto intro: wf_intros)

lemma health_steps_wf: "(health_step mx cd)\<^sup>*\<^sup>* hc hc' \<Longrightarrow> wf_cache mx hc \<Longrightarrow> wf_cache mx hc'"
  by (induction rule: rtranclp_induct) (auto intro: health_step_wf)

text \<open>
  In every reachable cache the state of a backend tells its failure count: none when unknown or
  healthy, some below the limit when degraded, the limit reached when cooling down. No operation
  ever makes a backend \<open>UNHEALTHY\<close>, the fifth state of the type.
\<close>

theorem health_state_tells_failures:
  assumes "(health_step mx cd)\<^sup>*\<^sup>* (health_cache_init s) hc" and "get_health hc bid = Some h"
  shows "bh_state h \<noteq> UNHEALTHY \<and>
         (bh_state h \<in> {UNKNOWN, HEALTHY} \<longleftrightarrow> bh_failures h = 0) \<and>
         (bh_state h = DEGRADED \<longleftrightarrow> 0 < bh_failures h \<and> bh_failures h < mx) \<and>
         (bh_state h = COOLDOWN \<longleftrightarrow> 0 < bh_failures h \<and> mx \<le> bh_failures h)"
proof -
  have "wf_cache mx hc" using assms(1) by (rule health_steps_wf) (rule wf_cache_init)
  then have "wf_health mx h" using assms(2) by (simp add: wf_cache_def get_health_def)
  then show ?thesis by (cases "bh_state h") (auto simp: wf_health_def)
qed

lemma health_state_tells_failures_witness:
  "bh_state (fail_health 3 300 7 new_health) = DEGRADED"
proof -
  let ?c = "register_backend (health_cache_init 30) ''nim'' ()"
  have "health_step 3 300 (health_cache_init 30) ?c" by (rule health_step.reg)
  moreover have "health_step 3 300 ?c (record_failure 3 300 7 ?c ''nim'')" by (rule health_step.fail)
  ultimately have R: "(health_step 3 300)\<^sup>*\<^sup>* (health_cache_init 30) (record_failure 3 300 7 ?c ''nim'')"
    by (meson r_into_rtranclp rtranclp.rtrancl_into_rtrancl)
  have G: "get_health (record_failure 3 300 7 ?c ''nim'') ''nim'' = Some (fail_health 3 300 7 new_health)"
    by (simp add: get_health_def record_failure_def register_backend_def)
  have "bh_failures (fail_health 3 300 7 new_health) = 1"
    by (simp add: fail_health_def new_health_def Let_def)
  then show ?thesis using health_state_tells_failures [OF R G] by simp
qed

subsection \<open>Repeated failures\<close>

definition failures_at ::
  "int \<Rightarrow> int \<Rightarrow> real list \<Rightarrow> 'b health_cache \<Rightarrow> string \<Rightarrow> 'b health_cache" where
  "failures_at mx cd ts hc bid = fold (\<lambda>t hc'. record_failure mx cd t hc' bid) ts hc"

lemma failures_at_health:
  "dget (hc_health hc) bid = Some h \<Longrightarrow>
   dget (hc_health (failures_at mx cd ts hc bid)) bid = Some (fold (fail_health mx cd) ts h)"
  unfolding failures_at_def
proof (induction ts arbitrary: hc h)
  case Nil
  then show ?case by simp
next
  case (Cons t ts)
  have "dget (hc_health (record_failure mx cd t hc bid)) bid = Some (fail_health mx cd t h)"
    using Cons.prems by (simp add: record_failure_def)
  from Cons.IH [OF this] show ?case by simp
qed

lemma failures_at_kept [simp]:
  "hc_cache_seconds (failures_at mx cd ts hc bid) = hc_cache_seconds hc"
  "hc_last_probe (failures_at mx cd ts hc bid) = hc_last_probe hc"
  "hc_cache (failures_at mx cd ts hc bid) = hc_cache hc"
  unfolding failures_at_def
  by (induction ts arbitrary: hc) (simp_all add: record_failure_def split: option.split)

lemma fold_fail_count: "bh_failures (fold (fail_health mx cd) ts h) = bh_failures h + int (length ts)"
  by (induction ts arbitrary: h) (simp_all add: fail_health_def Let_def)

lemma fold_fail_cooldown:
  assumes "0 \<le> bh_failures h" and "mx \<le> int (Suc (length ts))"
  shows "bh_state (fold (fail_health mx cd) (ts @ [t]) h) = COOLDOWN"
    and "bh_cooldown_until (fold (fail_health mx cd) (ts @ [t]) h) = t + of_int cd"
proof -
  have "mx \<le> bh_failures (fold (fail_health mx cd) ts h) + 1"
    using assms by (simp add: fold_fail_count)
  then show "bh_state (fold (fail_health mx cd) (ts @ [t]) h) = COOLDOWN"
    and "bh_cooldown_until (fold (fail_health mx cd) (ts @ [t]) h) = t + of_int cd"
    by (simp_all add: fail_health_def [of _ _ t] Let_def)
qed

lemma is_healthy_cooldown:
  assumes "dget (hc_health hc) bid = Some h" and "bh_state h = COOLDOWN"
  shows "now < bh_cooldown_until h \<Longrightarrow> is_healthy now hc bid = (hc, False)"
    and "bh_cooldown_until h \<le> now \<Longrightarrow> of_int (hc_cache_seconds hc) < now - dget_or (hc_last_probe hc) bid 0 \<Longrightarrow>
         snd (is_healthy now hc bid) \<and>
         dget (hc_health (fst (is_healthy now hc bid))) bid = Some (h\<lparr>bh_state := UNKNOWN, bh_failures := 0\<rparr>)"
    and "bh_cooldown_until h \<le> now \<Longrightarrow> now - dget_or (hc_last_probe hc) bid 0 \<le> of_int (hc_cache_seconds hc) \<Longrightarrow>
         snd (is_healthy now hc bid) = (\<exists>c. dget (hc_cache hc) bid = Some c \<and> ps_ok c)"
  using assms by (simp_all add: is_healthy_def end_cooldown_def Let_def split: option.split)

text \<open>
  A backend that fails \<open>max_failures\<close> times in a row is not available again until its cooldown
  has passed; afterwards, when its last probe is old, it is available with a clean record, and
  when the last probe is recent it is what the probe said.
\<close>

theorem repeated_failures_cool_down:
  fixes hc hc' :: "'b health_cache" and t :: real and cd :: int
  assumes "wf_cache mx hc" and "dget (hc_health hc) bid = Some h"
    and "mx \<le> int (Suc (length ts))"
    and "hc' = failures_at mx cd (ts @ [t]) hc bid"
  shows "(\<forall>now < t + of_int cd. is_healthy now hc' bid = (hc', False)) \<and>
         (\<forall>now \<ge> t + of_int cd. of_int (hc_cache_seconds hc) < now - dget_or (hc_last_probe hc) bid 0 \<longrightarrow>
            snd (is_healthy now hc' bid) \<and>
            (\<exists>h'. get_health (fst (is_healthy now hc' bid)) bid = Some h' \<and>
                  bh_state h' = UNKNOWN \<and> bh_failures h' = 0)) \<and>
         (\<forall>now \<ge> t + of_int cd. now - dget_or (hc_last_probe hc) bid 0 \<le> of_int (hc_cache_seconds hc) \<longrightarrow>
            snd (is_healthy now hc' bid) = (\<exists>c. dget (hc_cache hc) bid = Some c \<and> ps_ok c))"
proof -
  let ?h = "fold (fail_health mx cd) (ts @ [t]) h"
  have h: "dget (hc_health hc') bid = Some ?h"
    unfolding assms(4) by (rule failures_at_health [OF assms(2)])
  have "0 \<le> bh_failures h" using assms(1,2) by (auto simp: wf_cache_def intro: wf_health_failures)
  note c = fold_fail_cooldown [OF this assms(3), of cd t]
  note H = is_healthy_cooldown [OF h c(1), unfolded c(2)]
  have k: "hc_cache_seconds hc' = hc_cache_seconds hc" "hc_last_probe hc' = hc_last_probe hc" "hc_cache hc' = hc_cache hc"
    by (simp_all add: assms(4))
  show ?thesis using H unfolding k get_health_def by auto
qed

definition demo_cache :: "unit health_cache" where
  "demo_cache = register_backend (health_cache_init 30) ''nim'' ()"

lemma repeated_failures_cool_down_witness:
  "is_healthy 1101 (failures_at 3 300 [1000, 1001, 1002] demo_cache ''nim'') ''nim''
     = (failures_at 3 300 [1000, 1001, 1002] demo_cache ''nim'', False)"
proof -
  have "wf_cache 3 demo_cache" unfolding demo_cache_def by (intro wf_intros)
  moreover have "dget (hc_health demo_cache) ''nim'' = Some new_health"
    by (simp add: demo_cache_def register_backend_def)
  ultimately show ?thesis
    using repeated_failures_cool_down [of 3 demo_cache "''nim''" new_health "[1000, 1001]" _ 300 1002] by simp
qed

end
