(* ===== verification/LlmRouter.thy ===== *)
theory LlmRouter
  imports LlmHealth Json
begin

section \<open>The language-model router\<close>

text \<open>
  \<open>llm_routing/policy.py\<close>, \<open>llm_routing/types.py\<close> and \<open>llm_routing/router.py\<close>: the policy and how
  it is read from the environment, the chain of backends, and one request walking it. The answer
  of a backend's \<open>chat\<close>, the readings of the clock and the random part of the call id are
  arguments (\<open>world\<close>). A time-out is an exception of class \<open>TimeoutError\<close>. Other tasks do not run
  between the awaits of one request.
\<close>

subsection \<open>Policy\<close>

definition LEVEL_0_TASKS :: "string set" where
  "LEVEL_0_TASKS = {''poac'', ''invariant_gate'', ''chain_write'', ''adjudication'', ''events_root'',
                    ''kas'', ''classify''}"

definition DEFAULT_TASK_CHAINS :: "(string, string list) dict" where
  "DEFAULT_TASK_CHAINS =
     [(''assistant'', [''quicksilver'', ''local'']),
      (''guardian_advisory'', [''nim'', ''local'', ''quicksilver'']),
      (''offline'', [''local'']),
      (''sovereign_strict'', [''local''])]"

record routing_policy =
  primary :: string
  secondary :: string
  tertiary :: string
  route_mode :: string
  pinned_backend :: "string option"
  excluded_backends :: "string set"
  refuse_cloud :: bool
  require_capability :: "string option"
  max_cost_usd_per_call :: "real option"
  prefer_cheapest :: bool
  task_chain :: "(string, string list) dict"
  timeout_s :: int
  max_failures :: int
  cooldown_s :: int
  health_cache_s :: int
  failover_on_timeout :: bool
  allow_nim_for_assistant :: bool

definition default_policy :: routing_policy where
  "default_policy =
     \<lparr>primary = ''quicksilver'', secondary = ''local'', tertiary = [], route_mode = ''auto'',
      pinned_backend = None, excluded_backends = {}, refuse_cloud = False,
      require_capability = None, max_cost_usd_per_call = None, prefer_cheapest = False,
      task_chain = DEFAULT_TASK_CHAINS, timeout_s = 30, max_failures = 3, cooldown_s = 300,
      health_cache_s = 30, failover_on_timeout = True, allow_nim_for_assistant = False\<rparr>"

text \<open>The keyword arguments a mode sets, which take precedence over the environment.\<close>

datatype mode_override = OMaxFailures int | OPreferCheapest bool | OExcluded "string set"

definition MODE_MAP :: "(string, mode_override list) dict" where
  "MODE_MAP =
     [(''auto'', []), (''failover'', []),
      (''primary_only'', [OMaxFailures 0]),
      (''cheap'', [OPreferCheapest True]),
      (''local'', [OExcluded {''quicksilver'', ''nim''}]),
      (''cloud'', [OExcluded {''local''}]),
      (''task_split'', [])]"

fun apply_override :: "mode_override \<Rightarrow> routing_policy \<Rightarrow> routing_policy" where
  "apply_override (OMaxFailures n) p = p\<lparr>max_failures := n\<rparr>"
| "apply_override (OPreferCheapest b) p = p\<lparr>prefer_cheapest := b\<rparr>"
| "apply_override (OExcluded s) p = p\<lparr>excluded_backends := s\<rparr>"

definition env_bool :: "(string, string) dict \<Rightarrow> string \<Rightarrow> string \<Rightarrow> bool" where
  "env_bool env key dflt = (lower (dget_or env key dflt) = ''true'')"

definition env_int :: "(string, string) dict \<Rightarrow> string \<Rightarrow> string \<Rightarrow> int res" where
  "env_int env key dflt = py_int (JStr (dget_or env key dflt))"

text \<open>\<open>mode.removeprefix("pin:")\<close> of a mode that has it\<close>

definition pin_policy :: "string \<Rightarrow> routing_policy" where
  "pin_policy mode =
     (let backend = drop 4 mode in
      default_policy\<lparr>route_mode := mode,
        pinned_backend := (if backend \<in> {''quicksilver'', ''nim'', ''local''} then Some backend else None)\<rparr>)"

definition chain_override :: "string \<Rightarrow> routing_policy \<Rightarrow> routing_policy" where
  "chain_override chain_raw p =
     (if chain_raw \<noteq> [] \<and> route_mode p \<in> {''auto'', ''failover''} then
        (let parts = filter (\<lambda>s. s \<noteq> []) (map strip (split_on (CHR '','') chain_raw));
             p1 = (if 1 \<le> length parts then p\<lparr>primary := parts ! 0\<rparr> else p);
             p2 = (if 2 \<le> length parts then p1\<lparr>secondary := parts ! 1\<rparr> else p1)
         in if 3 \<le> length parts then p2\<lparr>tertiary := parts ! 2\<rparr> else p2)
      else p)"

text \<open>What the environment says, before the mode: the keyword arguments \<open>env_kwargs\<close>.\<close>

definition env_policy ::
  "(string, string) dict \<Rightarrow> string \<Rightarrow> int \<Rightarrow> int \<Rightarrow> int \<Rightarrow> int \<Rightarrow> routing_policy" where
  "env_policy env mode hcs tmo mf cd =
     default_policy\<lparr>
       route_mode := mode,
       primary := dget_or env ''LLM_PRIMARY'' ''quicksilver'',
       secondary := dget_or env ''LLM_SECONDARY'' ''local'',
       tertiary := dget_or env ''LLM_TERTIARY'' [],
       refuse_cloud := env_bool env ''LLM_REFUSE_CLOUD'' ''false'',
       allow_nim_for_assistant := env_bool env ''LLM_ALLOW_NIM_FOR_ASSISTANT'' ''false'',
       failover_on_timeout := env_bool env ''LLM_FAILOVER_ON_TIMEOUT'' ''true'',
       health_cache_s := hcs, timeout_s := tmo, max_failures := mf, cooldown_s := cd\<rparr>"

lemma env_policy_simps [simp]:
  "pinned_backend (env_policy env mode hcs tmo mf cd) = None"
  "route_mode (env_policy env mode hcs tmo mf cd) = mode"
  by (simp_all add: env_policy_def default_policy_def)

definition resolve_policy_from_env :: "(string, string) dict \<Rightarrow> routing_policy res" where
  "resolve_policy_from_env env =
     (let mode = lower (strip (dget_or env ''LLM_ROUTE_MODE'' ''auto'')) in
      if startswith mode ''pin:'' then Inr (pin_policy mode)
      else
        bindE (env_int env ''LLM_HEALTH_CACHE_S'' ''30'') (\<lambda>hcs.
        bindE (env_int env ''LLM_ROUTER_TIMEOUT_SECONDS'' ''30'') (\<lambda>tmo.
        bindE (env_int env ''LLM_ROUTER_MAX_FAILURES'' ''3'') (\<lambda>mf.
        bindE (env_int env ''LLM_ROUTER_COOLDOWN_SECONDS'' ''300'') (\<lambda>cd.
          let p1 = fold apply_override (dget_or MODE_MAP mode []) (env_policy env mode hcs tmo mf cd)
          in Inr (chain_override (dget_or env ''LLM_ROUTER_CHAIN'' []) p1))))))"

subsection \<open>Backends and their order\<close>

record backend =
  be_id :: string
  be_capabilities :: "string set"
  be_configured :: bool

definition quicksilver_backend :: "bool \<Rightarrow> backend" where
  "quicksilver_backend conf =
     \<lparr>be_id = ''quicksilver'', be_capabilities = {''CHAT'', ''TOOLS''}, be_configured = conf\<rparr>"

definition nim_backend :: "bool \<Rightarrow> backend" where
  "nim_backend conf = \<lparr>be_id = ''nim'', be_capabilities = {''CHAT'', ''TOOLS''}, be_configured = conf\<rparr>"

definition local_backend :: "bool \<Rightarrow> backend" where
  "local_backend conf = \<lparr>be_id = ''local'', be_capabilities = {''CHAT''}, be_configured = conf\<rparr>"

text \<open>\<open>if slot and slot in available: explicit.append(slot); available.remove(slot)\<close>\<close>

fun take_slots :: "string list \<Rightarrow> string list \<Rightarrow> string list" where
  "take_slots [] available = available"
| "take_slots (slot # slots) available =
     (if slot \<noteq> [] \<and> slot \<in> set available then slot # take_slots slots (remove1 slot available)
      else take_slots slots available)"

definition cost_order :: "string \<Rightarrow> nat" where
  "cost_order b =
     (if b = ''local'' then 0 else if b = ''nim'' then 1 else if b = ''quicksilver'' then 2 else 99)"

text \<open>\<open>if policy.pinned_backend\<close>: the empty string counts as no pin.\<close>

definition pinned :: "routing_policy \<Rightarrow> string option" where
  "pinned p = (case pinned_backend p of Some b \<Rightarrow> if b = [] then None else Some b | None \<Rightarrow> None)"

definition build_chain :: "routing_policy \<Rightarrow> (string, backend) dict \<Rightarrow> string list" where
  "build_chain policy backends =
     (case pinned policy of
        Some b \<Rightarrow> [b]
      | None \<Rightarrow>
          (let available = map fst (filter (\<lambda>(bid, bk). be_configured bk) backends);
               explicit = take_slots [primary policy, secondary policy, tertiary policy] available;
               e1 = filter (\<lambda>b. b \<notin> excluded_backends policy) explicit;
               e2 = (if refuse_cloud policy then filter (\<lambda>b. b \<notin> {''quicksilver'', ''nim''}) e1 else e1)
           in if prefer_cheapest policy then sort_key cost_order e2 else e2))"

record router =
  rt_policy :: routing_policy
  rt_backends :: "(string, backend) dict"
  rt_health :: "backend health_cache"
  rt_chain :: "string list"

definition router_init :: "routing_policy \<Rightarrow> backend list \<Rightarrow> router" where
  "router_init policy bks =
     (let backends = fold (\<lambda>b d. dput (be_id b) b d) bks [];
          health = fold (\<lambda>(bid, bk) hc. register_backend hc bid bk) backends
                     (health_cache_init (health_cache_s policy))
      in \<lparr>rt_policy = policy, rt_backends = backends, rt_health = health,
          rt_chain = build_chain policy backends\<rparr>)"

definition resolve_chain :: "router \<Rightarrow> string \<Rightarrow> string list" where
  "resolve_chain rt task =
     (if route_mode (rt_policy rt) = ''task_split'' \<and> task \<in> set (dkeys (task_chain (rt_policy rt)))
      then dget_or (task_chain (rt_policy rt)) task [] else rt_chain rt)"

subsection \<open>One request\<close>

record provenance =
  pv_call_id :: string
  pv_timestamp :: real
  pv_backend :: string
  pv_model :: json
  pv_route_mode :: string
  pv_attempts :: "string list"
  pv_fallback_used :: bool
  pv_latency_ms :: real

record route_result =
  rr_content :: json
  rr_success :: bool
  rr_error :: "string option"
  rr_backend :: string
  rr_model :: json
  rr_route_mode :: string
  rr_primary_attempted :: string
  rr_attempts :: "string list"
  rr_fallback_used :: bool
  rr_degraded :: bool
  rr_latency_ms :: real
  rr_live :: bool
  rr_provenance :: "provenance option"

text \<open>A \<open>RouteResult\<close> that reports an error and leaves the other fields at their defaults\<close>

definition error_result :: "string \<Rightarrow> string \<Rightarrow> string \<Rightarrow> real \<Rightarrow> route_result" where
  "error_result mode bid e latency =
     \<lparr>rr_content = JNull, rr_success = False, rr_error = Some e, rr_backend = bid, rr_model = JStr [],
      rr_route_mode = mode, rr_primary_attempted = [], rr_attempts = [], rr_fallback_used = False,
      rr_degraded = False, rr_latency_ms = latency, rr_live = False, rr_provenance = None\<rparr>"

text \<open>
  The world of one request: the clock at the start, at the availability check, after the call and at
  the end, and what \<open>chat\<close> does, each for the position in the chain; the random part of the call id
  and the time in it.
\<close>

record world =
  w_start :: real
  w_check :: "nat \<Rightarrow> real"
  w_done :: "nat \<Rightarrow> real"
  w_chat :: "nat \<Rightarrow> string \<Rightarrow> (string, json) dict res"
  w_end :: real
  w_uuid8 :: string

definition generate_call_id :: "world \<Rightarrow> real \<Rightarrow> string" where
  "generate_call_id w now = ''llm_'' @ dec_int (trunc now) @ ''_'' @ w_uuid8 w"

definition NETWORK_INDICATORS :: "string list" where
  "NETWORK_INDICATORS =
     [''connection'', ''refused'', ''reset'', ''timeout'', ''eof'', ''broken pipe'', ''dns'', ''resolve'',
      ''5'', ''500'', ''502'', ''503'', ''504'']"

definition is_network_error :: "py_exc \<Rightarrow> bool" where
  "is_network_error e =
     list_ex (\<lambda>ind. contains (lower (exc_class e)) ind \<or> contains (lower (exc_msg e)) ind)
       NETWORK_INDICATORS"

text \<open>The type names in Python's messages, and subscripts with \<open>0\<close> and with a name\<close>

fun type_name :: "json \<Rightarrow> string" where
  "type_name JNull = ''NoneType''"
| "type_name (JBool b) = ''bool''"
| "type_name (JInt i) = ''int''"
| "type_name (JFloat r) = ''float''"
| "type_name (JStr s) = ''str''"
| "type_name (JArr xs) = ''list''"
| "type_name (JObj kvs) = ''dict''"

fun subscript_0 :: "json \<Rightarrow> json res" where
  "subscript_0 (JArr (x # xs)) = Inr x"
| "subscript_0 (JArr []) = Inl (PyExc ''IndexError'' ''list index out of range'')"
| "subscript_0 (JStr (c # cs)) = Inr (JStr [c])"
| "subscript_0 (JStr []) = Inl (PyExc ''IndexError'' ''string index out of range'')"
| "subscript_0 (JObj kvs) = Inl (PyExc ''KeyError'' ''0'')"
| "subscript_0 v = Inl (TypeError (''object of type '' @ type_name v @ '' is not subscriptable''))"

fun subscript_key :: "string \<Rightarrow> json \<Rightarrow> json res" where
  "subscript_key k (JObj kvs) = ditem kvs k"
| "subscript_key k (JArr xs) = Inl (TypeError ''list indices must be integers or slices, not str'')"
| "subscript_key k (JStr s) = Inl (TypeError ''string indices must be integers'')"
| "subscript_key k v = Inl (TypeError (''object of type '' @ type_name v @ '' is not subscriptable''))"

definition response_content :: "(string, json) dict \<Rightarrow> json res" where
  "response_content r =
     bindE (ditem r ''choices'') (\<lambda>cs.
     bindE (subscript_0 cs) (\<lambda>c.
     bindE (subscript_key ''message'' c) (\<lambda>m. subscript_key ''content'' m)))"

definition has_choices :: "(string, json) dict \<Rightarrow> bool" where
  "has_choices r = (r \<noteq> [] \<and> ''choices'' \<in> set (dkeys r))"

text \<open>\<open>" ".join(...)\<close> of the last two messages, whose text is used for nothing else\<close>

fun join_texts :: "nat \<Rightarrow> json list \<Rightarrow> string res" where
  "join_texts i [] = Inr []"
| "join_texts i (JStr s # vs) =
     bindE (join_texts (Suc i) vs) (\<lambda>r. Inr (if vs = [] then s else s @ '' '' @ r))"
| "join_texts i (v # vs) =
     Inl (TypeError (''sequence item '' @ dec_nat i @ '': expected str instance, '' @ type_name v @ '' found''))"

definition prompt_text :: "(string, json) dict list \<Rightarrow> string res" where
  "prompt_text messages = join_texts 0 (map (\<lambda>m. dget_or m ''content'' (JStr [])) (last_n 2 messages))"

definition served_result ::
  "routing_policy \<Rightarrow> world \<Rightarrow> nat \<Rightarrow> string \<Rightarrow> json \<Rightarrow> json \<Rightarrow> string list \<Rightarrow> bool \<Rightarrow> route_result" where
  "served_result p w i bid content model attempts degraded =
     (let elapsed = (w_done w i - w_start w) * 1000; fallback = (bid \<noteq> primary p) in
      \<lparr>rr_content = content, rr_success = True, rr_error = None, rr_backend = bid, rr_model = model,
       rr_route_mode = route_mode p, rr_primary_attempted = primary p, rr_attempts = attempts,
       rr_fallback_used = fallback, rr_degraded = degraded, rr_latency_ms = elapsed, rr_live = True,
       rr_provenance = Some
         \<lparr>pv_call_id = generate_call_id w (w_done w i), pv_timestamp = w_start w, pv_backend = bid,
          pv_model = model, pv_route_mode = route_mode p, pv_attempts = attempts,
          pv_fallback_used = fallback, pv_latency_ms = elapsed\<rparr>\<rparr>)"

definition exhausted_result :: "routing_policy \<Rightarrow> world \<Rightarrow> string list \<Rightarrow> route_result" where
  "exhausted_result p w attempts =
     (let elapsed = (w_end w - w_start w) * 1000 in
      \<lparr>rr_content = JNull, rr_success = False, rr_error = Some ''all_backends_exhausted'',
       rr_backend = ''fallback'', rr_model = JStr [], rr_route_mode = route_mode p,
       rr_primary_attempted = primary p, rr_attempts = attempts, rr_fallback_used = True,
       rr_degraded = False, rr_latency_ms = elapsed, rr_live = False,
       rr_provenance = Some
         \<lparr>pv_call_id = generate_call_id w (w_end w), pv_timestamp = w_start w, pv_backend = ''fallback'',
          pv_model = JStr [], pv_route_mode = route_mode p, pv_attempts = attempts,
          pv_fallback_used = True, pv_latency_ms = elapsed\<rparr>\<rparr>)"

text \<open>The router's own methods for health, which delegate to its cache with the policy's tuning\<close>

record 'h health_ops =
  ho_available :: "real \<Rightarrow> 'h \<Rightarrow> string \<Rightarrow> 'h \<times> bool"
  ho_failure :: "real \<Rightarrow> 'h \<Rightarrow> string \<Rightarrow> 'h"
  ho_success :: "real \<Rightarrow> 'h \<Rightarrow> string \<Rightarrow> 'h"
  ho_get :: "'h \<Rightarrow> string \<Rightarrow> backend_health option"

definition router_ops :: "routing_policy \<Rightarrow> 'b health_cache health_ops" where
  "router_ops p =
     \<lparr>ho_available = is_healthy,
      ho_failure = record_failure (max_failures p) (cooldown_s p),
      ho_success = record_success,
      ho_get = get_health\<rparr>"

text \<open>One backend of the chain is skipped, with the reason, or ends the request.\<close>

datatype 'h attempt = Skip 'h string | Stop 'h "route_result res"

definition attempt ::
  "'h health_ops \<Rightarrow> routing_policy \<Rightarrow> bool \<Rightarrow> world \<Rightarrow> backend \<Rightarrow> nat \<Rightarrow> string \<Rightarrow> 'h \<Rightarrow> string list
     \<Rightarrow> 'h attempt" where
  "attempt ops p tools w bk i bid h attempts =
     (if tools \<and> ''TOOLS'' \<notin> be_capabilities bk then Skip h ''no_tools''
      else
        (let (h1, ok) = ho_available ops (w_check w i) h bid;
             latency = (w_done w i - w_start w) * 1000 in
         if \<not> ok then Skip h1 ''unavailable''
         else
           (case w_chat w i bid of
              Inl e \<Rightarrow>
                if exc_class e = ''TimeoutError'' then
                  (if failover_on_timeout p then Skip (ho_failure ops (w_done w i) h1 bid) ''timeout''
                   else Stop h1 (Inr (error_result (route_mode p) bid ''timeout'' latency)))
                else if is_network_error e then Skip (ho_failure ops (w_done w i) h1 bid) (exc_msg e)
                else Stop h1 (Inr (error_result (route_mode p) bid (exc_msg e) latency))
            | Inr r \<Rightarrow>
                if has_choices r then
                  (case response_content r of
                     Inl e \<Rightarrow> Stop h1 (Inl e)
                   | Inr content \<Rightarrow>
                       (let h2 = ho_success ops (w_done w i) h1 bid;
                            degraded = (case ho_get ops h2 bid of None \<Rightarrow> False
                                        | Some bh \<Rightarrow> bh_state bh = DEGRADED) in
                        Stop h2 (Inr (served_result p w i bid content
                                        (dget_or r ''model'' (JStr [])) attempts degraded))))
                else Skip (ho_failure ops (w_done w i) h1 bid) ''empty_response'')))"

fun chain_walk ::
  "'h health_ops \<Rightarrow> routing_policy \<Rightarrow> bool \<Rightarrow> world \<Rightarrow> (string, backend) dict \<Rightarrow> nat \<Rightarrow> string list
     \<Rightarrow> 'h \<Rightarrow> (string, string) dict \<Rightarrow> 'h \<times> route_result res" where
  "chain_walk ops p tools w bks i [] h skipped = (h, Inr (exhausted_result p w (dkeys skipped)))"
| "chain_walk ops p tools w bks i (bid # bids) h skipped =
     (case dget bks bid of
        None \<Rightarrow> (h, Inl (PyExc ''KeyError'' bid))
      | Some bk \<Rightarrow>
          (case attempt ops p tools w bk i bid h (dkeys skipped) of
             Skip h1 why \<Rightarrow> chain_walk ops p tools w bks (Suc i) bids h1 (dput bid why skipped)
           | Stop h1 r \<Rightarrow> (h1, r)))"

definition route ::
  "router \<Rightarrow> string \<Rightarrow> (string, json) dict list \<Rightarrow> bool \<Rightarrow> world \<Rightarrow> router \<times> route_result res" where
  "route rt task messages tools w =
     (let p = rt_policy rt; chain = resolve_chain rt task in
      if task \<in> LEVEL_0_TASKS then (rt, Inr (error_result (route_mode p) [] ''no_llm_on_level0'' 0))
      else if chain = [] then
        (rt, Inr (error_result (route_mode p) [] ''no_backends_available'' ((w_end w - w_start w) * 1000)))
      else
        (case prompt_text messages of
           Inl e \<Rightarrow> (rt, Inl e)
         | Inr _ \<Rightarrow>
             (let (h, r) = chain_walk (router_ops p) p tools w (rt_backends rt) 0 chain (rt_health rt) []
              in (rt\<lparr>rt_health := h\<rparr>, r))))"

subsection \<open>The chain\<close>

lemma set_take_slots: "distinct av \<Longrightarrow> set (take_slots slots av) = set av"
  by (induction slots arbitrary: av) auto

lemma distinct_take_slots: "distinct av \<Longrightarrow> distinct (take_slots slots av)"
  by (induction slots arbitrary: av) (auto simp: set_take_slots)

definition configured_ids :: "(string, backend) dict \<Rightarrow> string list" where
  "configured_ids bks = map fst (filter (\<lambda>(bid, bk). be_configured bk) bks)"

lemma distinct_configured: "distinct (dkeys bks) \<Longrightarrow> distinct (configured_ids bks)"
  by (simp add: configured_ids_def dkeys_def distinct_map_filter)

lemma set_build_chain:
  assumes "distinct (dkeys bks)" and "pinned p = None"
  shows "set (build_chain p bks) =
           {b \<in> set (configured_ids bks). b \<notin> excluded_backends p \<and>
              (refuse_cloud p \<longrightarrow> b \<notin> {''quicksilver'', ''nim''})}"
  using assms
  by (auto simp: build_chain_def Let_def set_take_slots distinct_configured configured_ids_def [symmetric])

lemma distinct_build_chain:
  assumes "distinct (dkeys bks)"
  shows "distinct (build_chain p bks)"
  using assms
  by (auto simp: build_chain_def Let_def distinct_take_slots distinct_configured
        configured_ids_def [symmetric] split: option.split)

lemma router_init_distinct: "distinct (dkeys (rt_backends (router_init p bks)))"
proof -
  have "distinct (dkeys d) \<Longrightarrow> distinct (dkeys (fold (\<lambda>b d. dput (be_id b) b d) bks d))" for d
    by (induction bks arbitrary: d) (simp_all add: distinct_dkeys_dput)
  then show ?thesis by (simp add: router_init_def Let_def dkeys_def)
qed

lemma router_init_simps [simp]:
  "rt_policy (router_init p bks) = p"
  "rt_chain (router_init p bks) = build_chain p (rt_backends (router_init p bks))"
  by (simp_all add: router_init_def Let_def)

subsection \<open>What the walk relies on\<close>

text \<open>
  The contract between the walk and the health service: a backend blocked until a time is refused
  before it and stays blocked whatever happens to it by being asked, or to others; a success
  leaves a backend in a state other than degraded.
\<close>

locale health_service =
  fixes ops :: "'h health_ops"
    and blocked :: "real \<Rightarrow> 'h \<Rightarrow> string \<Rightarrow> bool"
  assumes refuse: "blocked u h b \<Longrightarrow> t < u \<Longrightarrow> ho_available ops t h b = (h, False)"
    and frame_available: "blocked u h b \<Longrightarrow> c \<noteq> b \<Longrightarrow> blocked u (fst (ho_available ops t h c)) b"
    and frame_failure: "blocked u h b \<Longrightarrow> c \<noteq> b \<Longrightarrow> blocked u (ho_failure ops t h c) b"
    and frame_success: "blocked u h b \<Longrightarrow> c \<noteq> b \<Longrightarrow> blocked u (ho_success ops t h c) b"
    and cleared: "ho_get ops (ho_success ops t h b) b = Some bh \<Longrightarrow> bh_state bh \<noteq> DEGRADED"

context health_service
begin

lemma attempt_not_degraded:
  "attempt ops p tools w bk i bid h att = Stop h' (Inr r) \<Longrightarrow> \<not> rr_degraded r"
  using cleared
  by (auto simp: attempt_def Let_def error_result_def served_result_def
        split: if_splits sum.splits prod.splits option.splits)

lemma walk_not_degraded:
  "chain_walk ops p tools w bks i chain h sk = (h', Inr r) \<Longrightarrow> \<not> rr_degraded r"
  by (induction chain arbitrary: i h sk)
    (auto simp: exhausted_result_def Let_def split: option.splits attempt.splits dest: attempt_not_degraded)

lemma attempt_blocked:
  assumes "blocked u h b" and "\<And>i. w_check w i < u"
  shows "bid = b \<Longrightarrow> attempt ops p tools w bk i bid h att = Skip h (if tools \<and> ''TOOLS'' \<notin> be_capabilities bk then ''no_tools'' else ''unavailable'')"
    and "bid \<noteq> b \<Longrightarrow> attempt ops p tools w bk i bid h att = Skip h' why \<Longrightarrow> blocked u h' b"
proof -
  show "bid = b \<Longrightarrow> attempt ops p tools w bk i bid h att = Skip h (if tools \<and> ''TOOLS'' \<notin> be_capabilities bk then ''no_tools'' else ''unavailable'')"
    using refuse [OF assms(1) assms(2)] by (simp add: attempt_def)
  have "blocked u (fst (ho_available ops t h bid)) b" if "bid \<noteq> b" for t
    using frame_available [OF assms(1) that] .
  then show "bid \<noteq> b \<Longrightarrow> attempt ops p tools w bk i bid h att = Skip h' why \<Longrightarrow> blocked u h' b"
    using assms(1)
    by (auto simp: attempt_def Let_def frame_failure dest: fst_eqD [THEN sym]
          split: if_splits sum.splits prod.splits)
      (metis fst_conv frame_failure)+
qed

lemma attempt_chat_local:
  assumes "\<And>i c. c \<noteq> b \<Longrightarrow> chat' i c = w_chat w i c" and "bid \<noteq> b"
  shows "attempt ops p tools (w\<lparr>w_chat := chat'\<rparr>) bk i bid h att = attempt ops p tools w bk i bid h att"
proof -
  have s: "served_result p (w\<lparr>w_chat := chat'\<rparr>) = served_result p w"
    by (intro ext) (simp add: served_result_def generate_call_id_def)
  have e: "w_chat (w\<lparr>w_chat := chat'\<rparr>) i bid = w_chat w i bid" using assms by simp
  have f: "w_check (w\<lparr>w_chat := chat'\<rparr>) = w_check w" "w_done (w\<lparr>w_chat := chat'\<rparr>) = w_done w"
    "w_start (w\<lparr>w_chat := chat'\<rparr>) = w_start w" by simp_all
  show ?thesis unfolding attempt_def s e f by (rule refl)
qed

text \<open>A blocked backend is never asked: what it would have answered makes no difference.\<close>

lemma walk_blocked:
  assumes "\<And>i c. c \<noteq> b \<Longrightarrow> chat' i c = w_chat w i c" and "\<And>i. w_check w i < u"
  shows "blocked u h b \<Longrightarrow>
         chain_walk ops p tools (w\<lparr>w_chat := chat'\<rparr>) bks i chain h sk = chain_walk ops p tools w bks i chain h sk"
proof (induction chain arbitrary: i h sk)
  case Nil
  then show ?case by (simp add: exhausted_result_def generate_call_id_def)
next
  case (Cons c chain)
  show ?case
  proof (cases "c = b")
    case True
    have "\<And>i. w_check (w\<lparr>w_chat := chat'\<rparr>) i < u" using assms(2) by simp
    then show ?thesis using Cons.IH [OF Cons.prems] True
        attempt_blocked(1) [OF Cons.prems, of "w\<lparr>w_chat := chat'\<rparr>"] attempt_blocked(1) [OF Cons.prems assms(2)]
      by (auto split: option.split)
  next
    case False
    have "attempt ops p tools (w\<lparr>w_chat := chat'\<rparr>) bk i c h att = attempt ops p tools w bk i c h att" for bk att
      by (rule attempt_chat_local [OF assms(1) False])
    then show ?thesis using Cons.IH attempt_blocked(2) [OF Cons.prems assms(2) False]
      by (auto split: option.split attempt.split)
  qed
qed

end

definition cooling :: "real \<Rightarrow> 'b health_cache \<Rightarrow> string \<Rightarrow> bool" where
  "cooling u hc b =
     (case get_health hc b of None \<Rightarrow> False | Some h \<Rightarrow> bh_state h = COOLDOWN \<and> u \<le> bh_cooldown_until h)"

lemma health_frame:
  "c \<noteq> b \<Longrightarrow> get_health (fst (is_healthy t hc c)) b = get_health hc b"
  "c \<noteq> b \<Longrightarrow> get_health (record_failure mx cd t hc c) b = get_health hc b"
  "c \<noteq> b \<Longrightarrow> get_health (record_success t hc c) b = get_health hc b"
  by (auto simp: get_health_def is_healthy_def record_failure_def record_success_def Let_def split: option.split)

interpretation rh: health_service "router_ops p" cooling for p
proof unfold_locales
  fix u hc b t
  assume "cooling u hc b" and "t < u"
  then show "ho_available (router_ops p) t hc b = (hc, False)"
    by (auto simp: router_ops_def cooling_def get_health_def is_healthy_def split: option.splits)
next
  fix t and hc :: "'b health_cache" and b bh
  assume "ho_get (router_ops p) (ho_success (router_ops p) t hc b) b = Some bh"
  then show "bh_state bh \<noteq> DEGRADED"
    by (auto simp: router_ops_def get_health_def record_success_def split: option.splits)
qed (auto simp: router_ops_def cooling_def health_frame)

end
