(* ===== verification/LlmRouting.thy ===== *)
theory LlmRouting
  imports LlmRouter
begin

section \<open>What the language-model router guarantees\<close>

text \<open>
  The properties of the router of theory \<open>LlmRouter\<close>, and the concrete router, answers and
  environments they are tried on.
\<close>

subsection \<open>The walk along the chain\<close>

lemma attempt_success:
  assumes "attempt ops p tools w bk i bid h att = Stop h' (Inr r)" and "rr_success r"
  shows "rr_backend r = bid \<and> rr_attempts r = att \<and> (tools \<longrightarrow> ''TOOLS'' \<in> be_capabilities bk) \<and>
         (\<exists>h1. ho_available ops (w_check w i) h bid = (h1, True)) \<and>
         (\<exists>resp. w_chat w i bid = Inr resp \<and> response_content resp = Inr (rr_content r))"
  using assms
  by (auto simp: attempt_def Let_def error_result_def served_result_def
        split: if_splits sum.splits prod.splits)

lemma dkeys_dput_new: "k \<notin> set (dkeys d) \<Longrightarrow> dkeys (dput k v d) = dkeys d @ [k]"
  by (induction d) (auto simp: dkeys_def)

lemma walk_success:
  assumes "distinct chain" and "set chain \<inter> set (dkeys sk) = {}"
    and "chain_walk ops p tools w bks i chain h sk = (h', Inr r)" and "rr_success r"
  shows "\<exists>n bk resp. n < length chain \<and> rr_backend r = chain ! n \<and> rr_attempts r = dkeys sk @ take n chain \<and>
           dget bks (chain ! n) = Some bk \<and> (tools \<longrightarrow> ''TOOLS'' \<in> be_capabilities bk) \<and>
           w_chat w (i + n) (chain ! n) = Inr resp \<and> response_content resp = Inr (rr_content r)"
  using assms
proof (induction chain arbitrary: i h sk)
  case Nil
  then show ?case by (auto simp: exhausted_result_def Let_def)
next
  case (Cons c chain)
  obtain bk where bk: "dget bks c = Some bk" using Cons.prems(3) by (auto split: option.splits)
  show ?case
  proof (cases "attempt ops p tools w bk i c h (dkeys sk)")
    case (Skip h1 why)
    have c: "c \<notin> set (dkeys sk)" and d: "distinct chain" and e: "set chain \<inter> set (dkeys (dput c why sk)) = {}"
      using Cons.prems(1,2) by (auto simp: dkeys_dput)
    have "chain_walk ops p tools w bks (Suc i) chain h1 (dput c why sk) = (h', Inr r)"
      using Cons.prems(3) bk Skip by simp
    from Cons.IH [OF d e this Cons.prems(4)] obtain n bk' resp where
      "n < length chain" "rr_backend r = chain ! n" "rr_attempts r = dkeys (dput c why sk) @ take n chain"
      "dget bks (chain ! n) = Some bk'" "tools \<longrightarrow> ''TOOLS'' \<in> be_capabilities bk'"
      "w_chat w (Suc i + n) (chain ! n) = Inr resp" "response_content resp = Inr (rr_content r)"
      by blast
    then show ?thesis using dkeys_dput_new [OF c] by (intro exI [of _ "Suc n"]) auto
  next
    case (Stop h1 x)
    then have "attempt ops p tools w bk i c h (dkeys sk) = Stop h1 (Inr r)" using Cons.prems(3) bk by simp
    from attempt_success [OF this Cons.prems(4)] bk show ?thesis by (intro exI [of _ 0]) auto
  qed
qed

lemma route_walk:
  assumes "snd (route rt task messages tools w) = Inr r" and "rr_success r"
  shows "\<exists>h'. chain_walk (router_ops (rt_policy rt)) (rt_policy rt) tools w (rt_backends rt) 0
           (resolve_chain rt task) (rt_health rt) [] = (h', Inr r)"
  using assms
  by (auto simp: route_def Let_def error_result_def split: if_splits sum.splits prod.splits)

lemma serves:
  assumes "distinct (resolve_chain rt task)"
    and "snd (route rt task messages tools w) = Inr r" and "rr_success r"
  shows "\<exists>n bk resp. n < length (resolve_chain rt task) \<and> rr_backend r = resolve_chain rt task ! n \<and>
           rr_attempts r = take n (resolve_chain rt task) \<and>
           dget (rt_backends rt) (rr_backend r) = Some bk \<and> (tools \<longrightarrow> ''TOOLS'' \<in> be_capabilities bk) \<and>
           w_chat w n (rr_backend r) = Inr resp \<and> response_content resp = Inr (rr_content r)"
proof -
  obtain h' where walk: "chain_walk (router_ops (rt_policy rt)) (rt_policy rt) tools w (rt_backends rt) 0
           (resolve_chain rt task) (rt_health rt) [] = (h', Inr r)"
    using route_walk [OF assms(2,3)] by blast
  have "set (resolve_chain rt task) \<inter> set (dkeys []) = {}" by (simp add: dkeys_def)
  from walk_success [OF assms(1) this walk assms(3)] show ?thesis by (auto simp: dkeys_def)
qed

text \<open>
  A request is served by the first backend of its chain that does not fail: the answer is
  that backend's, the backends tried before it are the ones reported, in order, and a request with
  tools is served by a backend that has them.
\<close>

theorem route_serves_in_order:
  assumes "distinct (resolve_chain rt task)"
    and "snd (route rt task messages tools w) = Inr r" and "rr_success r"
  shows "\<exists>n bk resp. n < length (resolve_chain rt task) \<and> rr_backend r = resolve_chain rt task ! n \<and>
           rr_attempts r = take n (resolve_chain rt task) \<and>
           dget (rt_backends rt) (rr_backend r) = Some bk \<and> (tools \<longrightarrow> ''TOOLS'' \<in> be_capabilities bk) \<and>
           w_chat w n (rr_backend r) = Inr resp \<and> response_content resp = Inr (rr_content r)"
  using serves [OF assms] .

definition demo_answer :: "(string, json) dict" where
  "demo_answer = [(''choices'', JArr [JObj [(''message'', JObj [(''content'', JStr ''hi'')])]])]"

definition demo_world :: world where
  "demo_world = \<lparr>w_start = 1000, w_check = (\<lambda>i. 1000), w_done = (\<lambda>i. 1001),
     w_chat = (\<lambda>i b. if b = ''quicksilver'' then Inl (PyExc ''ConnectionError'' ''refused'') else Inr demo_answer),
     w_end = 1002, w_uuid8 = ''0badcafe''\<rparr>"

definition demo_backends :: "backend list" where
  "demo_backends = [quicksilver_backend True, nim_backend False, local_backend True]"

lemmas router_eval = route_def router_init_def quicksilver_backend_def nim_backend_def
  local_backend_def resolve_chain_def build_chain_def pinned_def LEVEL_0_TASKS_def
  prompt_text_def last_n_def health_cache_init_def register_backend_def attempt_def router_ops_def
  is_healthy_def end_cooldown_def new_health_def demo_world_def is_network_error_def
  NETWORK_INDICATORS_def dget_or_def Let_def record_failure_def fail_health_def has_choices_def
  demo_answer_def dkeys_def response_content_def ditem_def served_result_def failed_probe_def
  record_success_def lower_def lower_char_def startswith_def

lemma demo_backends_dict:
  "rt_backends (router_init p demo_backends) =
     [(''quicksilver'', quicksilver_backend True), (''nim'', nim_backend False), (''local'', local_backend True)]"
  by (simp add: router_init_def demo_backends_def quicksilver_backend_def nim_backend_def local_backend_def Let_def)

lemma demo_chain:
  "build_chain p (rt_backends (router_init p demo_backends)) =
     (if pinned p = None \<and> \<not> refuse_cloud p \<and> \<not> prefer_cheapest p
      then filter (\<lambda>b. b \<notin> excluded_backends p)
             (take_slots [primary p, secondary p, tertiary p] [''quicksilver'', ''local''])
      else build_chain p (rt_backends (router_init p demo_backends)))"
proof -
  have "configured_ids (rt_backends (router_init p demo_backends)) = [''quicksilver'', ''local'']"
    by (simp add: demo_backends_dict configured_ids_def quicksilver_backend_def nim_backend_def local_backend_def)
  then show ?thesis by (simp add: build_chain_def Let_def configured_ids_def [symmetric])
qed

lemma demo_health:
  "health_cache_s p < 1000 \<Longrightarrow> b \<in> {''quicksilver'', ''local''} \<Longrightarrow>
     is_healthy 1000 (rt_health (router_init p demo_backends)) b = (rt_health (router_init p demo_backends), True)"
  by (auto simp: router_init_def demo_backends_def quicksilver_backend_def nim_backend_def local_backend_def
      Let_def register_backend_def is_healthy_def end_cooldown_def new_health_def dget_or_def health_cache_init_def)

lemma demo_local:
  "health_cache_s p < 1000 \<Longrightarrow>
     snd (is_healthy 1000 (record_failure mx cd t (rt_health (router_init p demo_backends)) ''quicksilver'') ''local'')"
  by (auto simp: router_init_def demo_backends_def quicksilver_backend_def nim_backend_def local_backend_def
      Let_def register_backend_def is_healthy_def end_cooldown_def new_health_def dget_or_def health_cache_init_def
      record_failure_def)

lemma demo_network: "is_network_error (PyExc ''ConnectionError'' ''refused'')"
  by code_simp

lemma demo_content: "response_content demo_answer = Inr (JStr ''hi'')" "has_choices demo_answer"
  by (simp_all add: response_content_def demo_answer_def ditem_def has_choices_def dkeys_def)

lemma demo_walk_any:
  assumes "resolve_chain rt ''assistant'' = [''quicksilver'', ''local'']" and "rt_policy rt = p"
    and "rt_backends rt = rt_backends (router_init p demo_backends)"
    and "is_healthy 1000 (rt_health rt) ''quicksilver'' = (h, True)"
    and "snd (is_healthy 1000 (record_failure (max_failures p) (cooldown_s p) 1001 h ''quicksilver'') ''local'')"
  shows "\<exists>r. snd (route rt ''assistant'' [] False demo_world) = Inr r \<and>
           rr_success r \<and> rr_backend r = ''local'' \<and> rr_attempts r = [''quicksilver''] \<and>
           rr_fallback_used r = (primary p \<noteq> ''local'')"
proof -
  obtain h1 where "is_healthy 1000 (record_failure (max_failures p) (cooldown_s p) 1001 h ''quicksilver'') ''local'' = (h1, True)"
    using assms(5) by (metis prod.collapse)
  then show ?thesis
    using demo_network demo_content assms(1-4)
    by (auto simp: route_def LEVEL_0_TASKS_def prompt_text_def last_n_def Let_def demo_backends_dict attempt_def
        router_ops_def demo_world_def served_result_def dkeys_def)
qed

lemma demo_walk_over:
  assumes "resolve_chain (router_init p demo_backends) ''assistant'' = [''quicksilver'', ''local'']"
    and "health_cache_s p < 1000"
  shows "\<exists>r. snd (route (router_init p demo_backends) ''assistant'' [] False demo_world) = Inr r \<and>
           rr_success r \<and> rr_backend r = ''local'' \<and> rr_attempts r = [''quicksilver''] \<and>
           rr_fallback_used r = (primary p \<noteq> ''local'')"
proof (rule demo_walk_any [OF assms(1)])
  show "is_healthy 1000 (rt_health (router_init p demo_backends)) ''quicksilver''
      = (rt_health (router_init p demo_backends), True)"
    by (rule demo_health [OF assms(2)]) simp
qed (simp_all add: demo_local [OF assms(2)])

lemma demo_default_chain: "resolve_chain (router_init default_policy demo_backends) task = [''quicksilver'', ''local'']"
  unfolding resolve_chain_def router_init_simps
  by (subst demo_chain) (simp add: default_policy_def pinned_def)

lemma demo_route:
  "\<exists>r. snd (route (router_init default_policy demo_backends) ''assistant'' [] False demo_world) = Inr r \<and>
       rr_success r \<and> rr_backend r = ''local''"
  using demo_walk_over [OF demo_default_chain] by (auto simp: default_policy_def)

lemma route_serves_in_order_witness:
  "\<exists>r :: route_result. rr_success r \<and> rr_backend r = ''local'' \<and> rr_attempts r = [''quicksilver'']"
proof -
  let ?rt = "router_init default_policy demo_backends"
  obtain r where r: "snd (route ?rt ''assistant'' [] False demo_world) = Inr r" "rr_success r"
    "rr_backend r = ''local''" using demo_route by blast
  have c: "resolve_chain ?rt ''assistant'' = [''quicksilver'', ''local'']"
    by (rule demo_default_chain)
  then have "distinct (resolve_chain ?rt ''assistant'')" by simp
  from route_serves_in_order [OF this r(1,2)] obtain n where
    n: "n < Suc (Suc 0)" "''local'' = [''quicksilver'', ''local''] ! n" "rr_attempts r = take n [''quicksilver'', ''local'']"
    using r(3) by (auto simp: c)
  then have "n = 1" by (auto simp: less_Suc_eq)
  then show ?thesis using r n by auto
qed

lemma walk_answers:
  assumes "\<And>i b resp. w_chat w i b = Inr resp \<Longrightarrow> has_choices resp \<Longrightarrow> \<not> raised (response_content resp)"
    and "\<And>b. b \<in> set chain \<Longrightarrow> dget bks b \<noteq> None"
  shows "\<exists>r. snd (chain_walk ops p tools w bks i chain h sk) = Inr r"
  using assms(2)
proof (induction chain arbitrary: i h sk)
  case Nil
  then show ?case by simp
next
  case (Cons c chain)
  then obtain bk where bk: "dget bks c = Some bk" by fastforce
  show ?case
  proof (cases "attempt ops p tools w bk i c h (dkeys sk)")
    case (Skip h1 why)
    then show ?thesis using Cons bk by simp
  next
    case (Stop h1 x)
    have "response_content resp \<noteq> Inl e" if "w_chat w i c = Inr resp" "has_choices resp" for resp e
      using assms(1) [OF that] by auto
    then have "\<exists>r. x = Inr r"
      using Stop by (auto simp: attempt_def Let_def split: if_splits sum.splits prod.splits)
    then show ?thesis using Stop bk by auto
  qed
qed

text \<open>
  A request always comes back with a result, never an exception, when the chain names
  registered backends, the last messages carry text and the answers with choices are well formed;
  whatever the backends raise and however long the chain is.
\<close>

theorem route_always_answers:
  assumes "\<And>i b resp. w_chat w i b = Inr resp \<Longrightarrow> has_choices resp \<Longrightarrow> \<not> raised (response_content resp)"
    and "\<And>b. b \<in> set (resolve_chain rt task) \<Longrightarrow> dget (rt_backends rt) b \<noteq> None"
    and "\<not> raised (prompt_text messages)"
  shows "\<exists>r. snd (route rt task messages tools w) = Inr r"
proof -
  have "\<exists>r. snd (chain_walk (router_ops (rt_policy rt)) (rt_policy rt) tools w (rt_backends rt) 0
          (resolve_chain rt task) (rt_health rt) []) = Inr r"
    by (rule walk_answers) (use assms in auto)
  then show ?thesis using assms(3)
    by (auto simp: route_def Let_def raised_def split: sum.splits prod.splits)
qed

lemma route_always_answers_witness:
  "\<exists>r. snd (route (router_init default_policy demo_backends) ''assistant''
        [[(''content'', JStr ''hello'')]] False demo_world) = Inr r"
proof (rule route_always_answers)
  show "\<not> raised (response_content resp)" if "w_chat demo_world i b = Inr resp" for i b resp
    using that by (auto simp: demo_world_def demo_answer_def response_content_def ditem_def split: if_splits)
  show "dget (rt_backends (router_init default_policy demo_backends)) b \<noteq> None"
    if "b \<in> set (resolve_chain (router_init default_policy demo_backends) ''assistant'')" for b
    using that by (auto simp: demo_default_chain demo_backends_dict)
  show "\<not> raised (prompt_text [[(''content'', JStr ''hello'')]])"
    by (simp add: prompt_text_def last_n_def dget_or_def)
qed

text \<open>
  A backend whose cooldown has not passed is never asked. Whatever it would have answered, the
  request and the router's state afterwards are the same.
\<close>

theorem route_spares_cooling_backend:
  assumes "cooling u (rt_health rt) b" and "\<And>i. w_check w i < u"
    and "\<And>i c. c \<noteq> b \<Longrightarrow> chat' i c = w_chat w i c"
  shows "route rt task messages tools (w\<lparr>w_chat := chat'\<rparr>) = route rt task messages tools w"
  using rh.walk_blocked [OF assms(3,2,1)] by (simp add: route_def Let_def split: sum.split)

definition cooled_router :: router where
  "cooled_router =
     (let rt = router_init default_policy demo_backends in
      rt\<lparr>rt_health := record_failure 1 300 999 (rt_health rt) ''quicksilver''\<rparr>)"

lemma route_spares_cooling_backend_witness:
  "route cooled_router ''assistant'' [] False (demo_world\<lparr>w_chat := \<lambda>i b. Inr demo_answer\<rparr>)
   = route cooled_router ''assistant'' [] False demo_world"
proof (rule route_spares_cooling_backend)
  show "cooling 1299 (rt_health cooled_router) ''quicksilver''"
    by (simp add: cooled_router_def demo_backends_def default_policy_def router_eval cooling_def get_health_def)
qed (simp_all add: demo_world_def)

lemma chain_obeys:
  assumes "pinned p = None"
  shows "distinct (rt_chain (router_init p bks)) \<and>
         set (rt_chain (router_init p bks)) =
           {b \<in> set (configured_ids (rt_backends (router_init p bks))). b \<notin> excluded_backends p \<and>
              (refuse_cloud p \<longrightarrow> b \<notin> {''quicksilver'', ''nim''})} \<and>
         (prefer_cheapest p \<longrightarrow> sorted (map cost_order (rt_chain (router_init p bks)))) \<and>
         (\<not> prefer_cheapest p \<longrightarrow> primary p \<noteq> [] \<longrightarrow> primary p \<in> set (rt_chain (router_init p bks)) \<longrightarrow>
            hd (rt_chain (router_init p bks)) = primary p)"
proof -
  note d = router_init_distinct [of p bks]
  have "hd (build_chain p b) = primary p"
    if "distinct (dkeys b)" "\<not> prefer_cheapest p" "primary p \<noteq> []" "primary p \<in> set (build_chain p b)" for b
  proof -
    have m: "primary p \<in> set (configured_ids b)" "primary p \<notin> excluded_backends p"
      "refuse_cloud p \<longrightarrow> primary p \<notin> {''quicksilver'', ''nim''}"
      using that(4) set_build_chain [OF that(1) assms] by auto
    then show ?thesis using that(2,3) assms
      by (auto simp: build_chain_def Let_def configured_ids_def [symmetric])
  qed
  moreover have "prefer_cheapest p \<Longrightarrow> sorted (map cost_order (build_chain p b))" for b
    using assms by (simp add: build_chain_def Let_def)
  ultimately show ?thesis
    using d distinct_build_chain [OF d] set_build_chain [OF d assms] by auto
qed

text \<open>
  The chain of a new router holds exactly the configured backends that the policy admits, each
  once: the excluded ones and, when the cloud is refused, the cloud ones are left out. A primary
  that survives comes first, unless the cheapest is preferred, when the chain is in order of cost.
\<close>

theorem chain_obeys_policy:
  assumes "pinned p = None"
  shows "distinct (rt_chain (router_init p bks)) \<and>
         set (rt_chain (router_init p bks)) =
           {b \<in> set (configured_ids (rt_backends (router_init p bks))). b \<notin> excluded_backends p \<and>
              (refuse_cloud p \<longrightarrow> b \<notin> {''quicksilver'', ''nim''})} \<and>
         (prefer_cheapest p \<longrightarrow> sorted (map cost_order (rt_chain (router_init p bks)))) \<and>
         (\<not> prefer_cheapest p \<longrightarrow> primary p \<noteq> [] \<longrightarrow> primary p \<in> set (rt_chain (router_init p bks)) \<longrightarrow>
            hd (rt_chain (router_init p bks)) = primary p)"
  using chain_obeys [OF assms] .

lemma chain_obeys_policy_witness:
  "hd (rt_chain (router_init default_policy demo_backends)) = ''quicksilver''"
proof -
  have "pinned default_policy = None" by (simp add: pinned_def default_policy_def)
  moreover have "''quicksilver'' \<in> set (configured_ids (rt_backends (router_init default_policy demo_backends)))"
    by (simp add: configured_ids_def demo_backends_def router_eval del: set_map set_filter)
  ultimately show ?thesis
    using chain_obeys_policy [of default_policy demo_backends] by (simp add: default_policy_def)
qed

subsection \<open>Modes\<close>

lemma resolve_mode:
  assumes "resolve_policy_from_env env = Inr p"
    and "lower (strip (dget_or env ''LLM_ROUTE_MODE'' ''auto'')) = mode"
    and "\<not> startswith mode ''pin:''" and "mode \<notin> {''auto'', ''failover''}"
    and "dget_or MODE_MAP mode [] = ovs"
  shows "\<exists>q. p = fold apply_override ovs q \<and> pinned_backend q = None \<and> route_mode q = mode"
proof -
  have m: "route_mode (fold apply_override os q) = route_mode q" for os and q :: routing_policy
  proof (induction os arbitrary: q)
    case (Cons ov os)
    then show ?case by (cases ov) simp_all
  qed simp
  obtain hcs tmo mf cd where
    "p = chain_override (dget_or env ''LLM_ROUTER_CHAIN'' []) (fold apply_override ovs (env_policy env mode hcs tmo mf cd))"
    using assms(1,3) unfolding resolve_policy_from_env_def Let_def assms(2,5) by (auto simp: res_iff)
  then have "p = fold apply_override ovs (env_policy env mode hcs tmo mf cd)"
    using assms(4) by (simp add: chain_override_def m)
  then show ?thesis by (intro exI [of _ "env_policy env mode hcs tmo mf cd"]) simp
qed

text \<open>
  With the route mode \<open>local\<close> in the environment, whatever else is set there, no cloud backend is
  in the chain, and no request is served by one; with the mode \<open>cloud\<close> the local one is not.
\<close>

theorem mode_limits_backends:
  assumes "resolve_policy_from_env env = Inr p"
    and "lower (strip (dget_or env ''LLM_ROUTE_MODE'' ''auto'')) = mode" and "mode \<in> {''local'', ''cloud''}"
    and "snd (route (router_init p bks) task messages tools w) = Inr r" and "rr_success r"
  shows "(rr_backend r = ''local'' \<longrightarrow> mode = ''local'') \<and>
         (rr_backend r \<in> {''quicksilver'', ''nim''} \<longrightarrow> mode = ''cloud'')"
proof -
  let ?rt = "router_init p bks"
  have np: "\<not> startswith mode ''pin:''" "mode \<notin> {''auto'', ''failover''}"
    using assms(3) by (auto simp: startswith_def)
  obtain q where q: "p = fold apply_override (dget_or MODE_MAP mode []) q" "pinned_backend q = None" "route_mode q = mode"
    using resolve_mode [OF assms(1,2) np refl] by blast
  have e: "dget_or MODE_MAP ''local'' [] = [OExcluded {''quicksilver'', ''nim''}]"
    "dget_or MODE_MAP ''cloud'' [] = [OExcluded {''local''}]"
    by (simp_all add: MODE_MAP_def dget_or_def)
  have p: "pinned p = None" "route_mode p = mode"
    "excluded_backends p = (if mode = ''local'' then {''quicksilver'', ''nim''} else {''local''})"
    using assms(3) q e by (auto simp: pinned_def)
  have c: "resolve_chain ?rt task = rt_chain ?rt" using assms(3) p(2) by (auto simp: resolve_chain_def)
  have d: "distinct (resolve_chain ?rt task)" using chain_obeys [OF p(1)] unfolding c by blast
  have "rr_backend r \<in> set (rt_chain ?rt)"
    using serves [OF d assms(4,5)] unfolding c by fastforce
  moreover have "set (rt_chain ?rt) \<inter> excluded_backends p = {}"
    using chain_obeys [OF p(1), of bks] by blast
  ultimately have out: "rr_backend r \<notin> excluded_backends p" by blast
  show ?thesis
  proof (cases "mode = ''local''")
    case True
    then show ?thesis using out unfolding p(3) by simp
  next
    case False
    then have "mode = ''cloud''" using assms(3) by blast
    then show ?thesis using out unfolding p(3) by simp
  qed
qed

definition local_env :: "(string, string) dict" where
  "local_env = [(''LLM_ROUTE_MODE'', '' LOCAL ''), (''LLM_PRIMARY'', ''nim'')]"

lemma env_numbers:
  "py_int (JStr ''30'') = Inr 30" "py_int (JStr ''3'') = Inr 3" "py_int (JStr ''300'') = Inr 300"
  by code_simp+

lemma env_modes:
  "lower (strip '' LOCAL '') = ''local''" "lower (strip ''primary_only'') = ''primary_only''"
  "startswith ''local'' ''pin:'' = False" "startswith ''primary_only'' ''pin:'' = False"
  by code_simp+

lemmas env_eval = resolve_policy_from_env_def env_int_def dget_or_def MODE_MAP_def
  chain_override_def Let_def env_numbers env_modes

lemma demo_walk_local:
  assumes "resolve_chain (router_init p demo_backends) ''assistant'' = [''local'']" and "health_cache_s p < 1000"
  shows "\<exists>r. snd (route (router_init p demo_backends) ''assistant'' [] False demo_world) = Inr r \<and> rr_success r"
  using demo_health [OF assms(2)] demo_content assms(1)
  by (auto simp: route_def LEVEL_0_TASKS_def prompt_text_def last_n_def Let_def demo_backends_dict attempt_def
      router_ops_def demo_world_def served_result_def dkeys_def)

definition local_policy :: routing_policy where
  "local_policy = env_policy local_env ''local'' 30 30 3 300\<lparr>excluded_backends := {''quicksilver'', ''nim''}\<rparr>"

lemma local_policy: "resolve_policy_from_env local_env = Inr local_policy"
  by (simp add: local_env_def local_policy_def env_eval)

lemma local_chain: "resolve_chain (router_init local_policy demo_backends) task = [''local'']"
  unfolding resolve_chain_def router_init_simps
  by (subst demo_chain)
    (simp add: local_policy_def env_policy_def default_policy_def pinned_def local_env_def dget_or_def env_bool_def
      lower_def lower_char_def)

lemma mode_limits_backends_witness:
  "\<exists>r. snd (route (router_init local_policy demo_backends) ''assistant'' [] False demo_world) = Inr r \<and>
     rr_success r \<and> rr_backend r \<notin> {''quicksilver'', ''nim''}"
proof -
  have "health_cache_s local_policy < 1000"
    by (simp add: local_policy_def env_policy_def)
  from demo_walk_local [OF local_chain this] obtain r where
    r: "snd (route (router_init local_policy demo_backends) ''assistant'' [] False demo_world) = Inr r" "rr_success r"
    by blast
  have "lower (strip (dget_or local_env ''LLM_ROUTE_MODE'' ''auto'')) = ''local''"
    by (simp add: local_env_def dget_or_def env_modes)
  from mode_limits_backends [OF local_policy this _ r] show ?thesis using r by auto
qed

text \<open>
  In the mode \<open>task_split\<close> the chain comes from the task table and the policy's refusal of the
  cloud is not consulted: an assistant request goes to \<open>quicksilver\<close> whenever that backend is
  available and answers, with \<open>refuse_cloud\<close> set and the backend excluded or not.
\<close>

theorem task_split_ignores_refusal:
  assumes "route_mode (rt_policy rt) = ''task_split''" and "task_chain (rt_policy rt) = DEFAULT_TASK_CHAINS"
    and "dget (rt_backends rt) ''quicksilver'' = Some (quicksilver_backend conf)"
    and "snd (is_healthy (w_check w 0) (rt_health rt) ''quicksilver'')"
    and "w_chat w 0 ''quicksilver'' = Inr resp" and "has_choices resp" and "response_content resp = Inr c"
    and "\<not> raised (prompt_text messages)"
  shows "\<exists>r. snd (route rt ''assistant'' messages tools w) = Inr r \<and> rr_success r \<and>
           rr_backend r = ''quicksilver'' \<and> rr_content r = c"
proof -
  have ch: "resolve_chain rt ''assistant'' = [''quicksilver'', ''local'']"
    by (simp add: resolve_chain_def assms(1,2) DEFAULT_TASK_CHAINS_def dkeys_def dget_or_def)
  have l: "''assistant'' \<notin> LEVEL_0_TASKS" by (simp add: LEVEL_0_TASKS_def)
  obtain h1 where h: "is_healthy (w_check w 0) (rt_health rt) ''quicksilver'' = (h1, True)"
    using assms(4) by (metis prod.collapse)
  obtain tx where tx: "prompt_text messages = Inr tx" using assms(8) by (auto simp: not_raised_iff)
  show ?thesis
    unfolding route_def ch
    using l tx h assms(3,5,6,7)
    by (simp add: attempt_def router_ops_def quicksilver_backend_def served_result_def Let_def)
qed

definition split_policy :: routing_policy where
  "split_policy = default_policy\<lparr>route_mode := ''task_split'', refuse_cloud := True,
     excluded_backends := {''quicksilver'', ''nim''}\<rparr>"

lemma task_split_ignores_refusal_witness:
  "\<exists>r. snd (route (router_init split_policy demo_backends) ''assistant'' [] True
         (demo_world\<lparr>w_chat := \<lambda>i b. Inr demo_answer\<rparr>)) = Inr r \<and> rr_backend r = ''quicksilver''"
proof -
  let ?rt = "router_init split_policy demo_backends" and ?w = "demo_world\<lparr>w_chat := \<lambda>i b. Inr demo_answer\<rparr>"
  have "route_mode (rt_policy ?rt) = ''task_split''" "task_chain (rt_policy ?rt) = DEFAULT_TASK_CHAINS"
    by (simp_all add: split_policy_def default_policy_def)
  moreover have "dget (rt_backends ?rt) ''quicksilver'' = Some (quicksilver_backend True)"
    "snd (is_healthy (w_check ?w 0) (rt_health ?rt) ''quicksilver'')"
    by (simp_all add: demo_backends_def split_policy_def default_policy_def router_eval)
  moreover have "w_chat ?w 0 ''quicksilver'' = Inr demo_answer" "has_choices demo_answer"
    "response_content demo_answer = Inr (JStr ''hi'')" "\<not> raised (prompt_text [])"
    by (simp_all add: router_eval)
  ultimately show ?thesis using task_split_ignores_refusal [of ?rt True ?w demo_answer "JStr ''hi''" "[]" True] by auto
qed

text \<open>
  The mode \<open>primary_only\<close> does not stop failover: with the primary refusing the connection the
  secondary serves the request, because the mode only sets the failure limit to nought.
\<close>

theorem primary_only_fails_over:
  "\<exists>p r. resolve_policy_from_env [(''LLM_ROUTE_MODE'', ''primary_only'')] = Inr p \<and>
     snd (route (router_init p demo_backends) ''assistant'' [] False demo_world) = Inr r \<and>
     rr_success r \<and> rr_backend r = ''local'' \<and> rr_attempts r = [primary p] \<and> rr_fallback_used r"
proof -
  let ?env = "[(''LLM_ROUTE_MODE'', ''primary_only'')]"
  let ?p = "env_policy ?env ''primary_only'' 30 30 3 300\<lparr>max_failures := 0\<rparr>"
  have p: "resolve_policy_from_env ?env = Inr ?p" by (simp add: env_eval)
  have q: "primary ?p = ''quicksilver''" "health_cache_s ?p < 1000"
    by (simp_all add: env_policy_def dget_or_def)
  have "resolve_chain (router_init ?p demo_backends) ''assistant'' = [''quicksilver'', ''local'']"
    unfolding resolve_chain_def router_init_simps
    by (subst demo_chain)
      (simp add: env_policy_def default_policy_def pinned_def dget_or_def env_bool_def lower_def lower_char_def)
  from demo_walk_over [OF this q(2)] show ?thesis using p q(1) by auto
qed

text \<open>
  No result ever says that its backend was degraded: the success is recorded, which makes the
  backend healthy, before its state is read.
\<close>

theorem degraded_flag_is_dead:
  assumes "snd (route rt task messages tools w) = Inr r"
  shows "\<not> rr_degraded r"
  using assms
  by (auto simp: route_def Let_def error_result_def split: if_splits sum.splits prod.splits
        dest: rh.walk_not_degraded)

definition degraded_router :: router where
  "degraded_router =
     (let rt = router_init default_policy demo_backends in
      rt\<lparr>rt_health := record_failure 3 300 999 (rt_health rt) ''local''\<rparr>)"

lemma degraded_router_health:
  "is_healthy 1000 (rt_health degraded_router) ''quicksilver'' = (rt_health degraded_router, True)"
  "snd (is_healthy 1000 (record_failure 3 300 1001 (rt_health degraded_router) ''quicksilver'') ''local'')"
  "map_option bh_state (get_health (rt_health degraded_router) ''local'') = Some DEGRADED"
  by (simp_all add: degraded_router_def router_init_def demo_backends_def quicksilver_backend_def nim_backend_def
      local_backend_def Let_def register_backend_def is_healthy_def end_cooldown_def new_health_def dget_or_def
      health_cache_init_def record_failure_def fail_health_def get_health_def default_policy_def)

lemma degraded_flag_is_dead_witness:
  "\<exists>r. snd (route degraded_router ''assistant'' [] False demo_world) = Inr r \<and>
       rr_backend r = ''local'' \<and> \<not> rr_degraded r \<and>
       map_option bh_state (get_health (rt_health degraded_router) ''local'') = Some DEGRADED"
proof -
  have "resolve_chain degraded_router ''assistant'' = [''quicksilver'', ''local'']"
  proof -
    have "resolve_chain degraded_router t = resolve_chain (router_init default_policy demo_backends) t" for t
      by (simp add: degraded_router_def resolve_chain_def Let_def)
    then show ?thesis by (simp add: demo_default_chain)
  qed
  moreover have "rt_policy degraded_router = default_policy"
    "rt_backends degraded_router = rt_backends (router_init default_policy demo_backends)"
    by (simp_all add: degraded_router_def Let_def)
  moreover have "max_failures default_policy = 3" "cooldown_s default_policy = 300"
    by (simp_all add: default_policy_def)
  ultimately obtain r where r: "snd (route degraded_router ''assistant'' [] False demo_world) = Inr r"
    "rr_backend r = ''local''"
    using demo_walk_any degraded_router_health by (metis (no_types, lifting))
  then show ?thesis using degraded_flag_is_dead [OF r(1)] degraded_router_health(3) by blast
qed

end
