(* ===== verification/Capture.thy ===== *)
theory Capture
  imports ChainLog
begin

section \<open>Capture continuity\<close>

text \<open>
  \<open>capture_continuity.py\<close>, \<open>pcc_persistence.py\<close> and the two functions of \<open>store/calibration.py\<close> over
  \<open>capture_health_log\<close>: the monitor that classifies the rate of input frames, decides when sessions may
  be counted, and buffers its transitions for the store. \<open>now\<close> is the monotonic clock, \<open>wall\<close> the
  time of day. The lock makes each operation one step.
\<close>

datatype capture_state = NOMINAL | DEGRADED | DISCONNECTED

datatype host_state = EXCLUSIVE_USB | EXCLUSIVE_BT | CONTESTED | UNKNOWN

fun capture_name :: "capture_state \<Rightarrow> string" where
  "capture_name NOMINAL = ''NOMINAL''"
| "capture_name DEGRADED = ''DEGRADED''"
| "capture_name DISCONNECTED = ''DISCONNECTED''"

fun host_name :: "host_state \<Rightarrow> string" where
  "host_name EXCLUSIVE_USB = ''EXCLUSIVE_USB''"
| "host_name EXCLUSIVE_BT = ''EXCLUSIVE_BT''"
| "host_name CONTESTED = ''CONTESTED''"
| "host_name UNKNOWN = ''UNKNOWN''"

record pcc_cfg =
  nominal_hz :: int
  degraded_hz :: int
  stable_s :: int
  spc_enabled :: bool
  upper_hz :: int
  haptic_window_s :: real
  haptic_min_dip_hz :: int
  spc_window_n :: int
  spc_in_control_pct :: real
  haptic_tremor_min_hz :: real
  haptic_tremor_max_hz :: real
  haptic_accel_threshold :: real

text \<open>The defaults, which also hold when there is no configuration.\<close>

definition default_pcc_cfg :: pcc_cfg where
  "default_pcc_cfg =
     \<lparr>nominal_hz = 950, degraded_hz = 100, stable_s = 30, spc_enabled = False, upper_hz = 3500,
      haptic_window_s = 5 / 10, haptic_min_dip_hz = 200, spc_window_n = 30, spc_in_control_pct = 85 / 100,
      haptic_tremor_min_hz = 4, haptic_tremor_max_hz = 60, haptic_accel_threshold = 3 / 10000\<rparr>"

record sample =
  sm_rate :: real
  sm_ts :: real
  sm_trigger :: bool
  sm_accel_var :: real
  sm_tremor_hz :: real

record transition =
  tr_old :: capture_state
  tr_new :: capture_state
  tr_host :: host_state
  tr_rate :: real
  tr_reason :: string
  tr_ts :: real

record monitor =
  mo_samples :: "sample list"
  mo_poll_rate_hz :: real
  mo_capture :: capture_state
  mo_host :: host_state
  mo_state_entered :: real
  mo_nominal_since :: "real option"
  mo_last_sample_ts :: real
  mo_disconnect_reason :: string
  mo_transitions :: "transition list"

definition monitor_init :: "real \<Rightarrow> monitor" where
  "monitor_init now =
     \<lparr>mo_samples = [], mo_poll_rate_hz = 0, mo_capture = DISCONNECTED, mo_host = UNKNOWN,
      mo_state_entered = now, mo_nominal_since = None, mo_last_sample_ts = 0,
      mo_disconnect_reason = [], mo_transitions = []\<rparr>"

text \<open>A deque of at most 60 samples: a new one drops the oldest.\<close>

definition add_sample :: "sample list \<Rightarrow> sample \<Rightarrow> sample list" where
  "add_sample xs x = last_n 60 (xs @ [x])"

definition mean_of :: "real list \<Rightarrow> real" where
  "mean_of xs = sum_list xs / real (length xs)"

subsection \<open>Classification\<close>

text \<open>A sample that binds within the tolerance window; samples before it cannot.\<close>

definition haptic_binding :: "pcc_cfg \<Rightarrow> sample \<Rightarrow> bool" where
  "haptic_binding cfg s \<longleftrightarrow>
     sm_trigger s \<and> haptic_accel_threshold cfg \<le> sm_accel_var s \<and>
     haptic_tremor_min_hz cfg \<le> sm_tremor_hz s \<and> sm_tremor_hz s \<le> haptic_tremor_max_hz cfg"

definition haptic_tolerance_active :: "pcc_cfg \<Rightarrow> sample list \<Rightarrow> real \<Rightarrow> real \<Rightarrow> bool" where
  "haptic_tolerance_active cfg samples now rate =
     (if rate < of_int (haptic_min_dip_hz cfg) then False
      else if of_int (nominal_hz cfg) \<le> rate then False
      else list_ex (haptic_binding cfg)
             (takeWhile (\<lambda>s. now - haptic_window_s cfg \<le> sm_ts s) (rev samples)))"

text \<open>\<open>samples[-n:]\<close> for any integer, which is the whole list for \<open>n = 0\<close>\<close>

definition py_tail :: "int \<Rightarrow> 'a list \<Rightarrow> 'a list" where
  "py_tail n xs = (if 0 < n then last_n (nat n) xs else drop (nat (- n)) xs)"

definition spc_recent :: "pcc_cfg \<Rightarrow> sample list \<Rightarrow> sample list" where
  "spc_recent cfg samples =
     (if spc_window_n cfg \<le> int (length samples) then py_tail (spc_window_n cfg) samples else samples)"

definition in_spec :: "pcc_cfg \<Rightarrow> real \<Rightarrow> bool" where
  "in_spec cfg r \<longleftrightarrow> of_int (nominal_hz cfg) \<le> r \<and> r \<le> of_int (upper_hz cfg)"

definition spc_in_control :: "pcc_cfg \<Rightarrow> sample list \<Rightarrow> bool" where
  "spc_in_control cfg samples =
     (let recent = map sm_rate (spc_recent cfg samples) in
      recent \<noteq> [] \<and>
      spc_in_control_pct cfg \<le> real (length (filter (in_spec cfg) recent)) / real (length recent) \<and>
      in_spec cfg (mean_of recent))"

definition classify_rate :: "pcc_cfg \<Rightarrow> real \<Rightarrow> capture_state" where
  "classify_rate cfg rate =
     (if of_int (nominal_hz cfg) \<le> rate then NOMINAL
      else if of_int (degraded_hz cfg) \<le> rate then DEGRADED else DISCONNECTED)"

definition classify_capture_state_spc :: "pcc_cfg \<Rightarrow> sample list \<Rightarrow> real \<Rightarrow> real \<Rightarrow> capture_state" where
  "classify_capture_state_spc cfg samples rate now =
     (if haptic_tolerance_active cfg samples now rate then NOMINAL
      else if spc_in_control cfg samples then NOMINAL
      else classify_rate cfg rate)"

definition infer_host_state :: "pcc_cfg \<Rightarrow> sample list \<Rightarrow> real \<Rightarrow> host_state" where
  "infer_host_state cfg samples rate =
     (let rates = filter (\<lambda>r. 0 < r) (map sm_rate samples) in
      if length rates < 5 then UNKNOWN
      else if rate < of_int (degraded_hz cfg) then UNKNOWN
      else
        (let mean = mean_of rates in
         if mean < 1 / 10 ^ 6 then UNKNOWN
         else
           (let std = sqrt (mean_of (map (\<lambda>r. (r - mean)\<^sup>2) rates)); cv = std / mean in
            if of_int (nominal_hz cfg) \<le> mean then EXCLUSIVE_USB
            else if 200 \<le> mean \<and> mean \<le> 350 \<and> cv < 20 / 100 then EXCLUSIVE_BT
            else if 40 / 100 \<le> cv \<and> 300 \<le> mean then CONTESTED
            else if 40 / 100 \<le> cv then CONTESTED
            else UNKNOWN)))"

definition effective_rate :: "monitor \<Rightarrow> real \<Rightarrow> real" where
  "effective_rate m now =
     (if mo_disconnect_reason m \<noteq> [] then 0
      else if mo_samples m \<noteq> [] \<and> 3 < now - sm_ts (last (mo_samples m)) then 0
      else if mo_samples m \<noteq> [] then mean_of (map sm_rate (last_n 10 (mo_samples m)))
      else 0)"

definition classified :: "pcc_cfg \<Rightarrow> monitor \<Rightarrow> real \<Rightarrow> capture_state" where
  "classified cfg m now =
     (if spc_enabled cfg \<and> mo_disconnect_reason m = []
      then classify_capture_state_spc cfg (mo_samples m) (effective_rate m now) now
      else classify_rate cfg (effective_rate m now))"

definition recompute :: "pcc_cfg \<Rightarrow> monitor \<Rightarrow> real \<Rightarrow> real \<Rightarrow> monitor \<times> capture_state option" where
  "recompute cfg m now wall =
     (let rate = effective_rate m now;
          new = classified cfg m now;
          host = infer_host_state cfg (mo_samples m) rate;
          m1 = m\<lparr>mo_poll_rate_hz := rate, mo_host := host\<rparr>
      in if new \<noteq> mo_capture m then
           (m1\<lparr>mo_capture := new, mo_state_entered := now,
               mo_nominal_since := (if new = NOMINAL then Some now else None),
               mo_transitions := mo_transitions m @
                 [\<lparr>tr_old = mo_capture m, tr_new = new, tr_host = host, tr_rate = py_round 1 rate,
                   tr_reason = (if mo_disconnect_reason m = [] then ''rate_change'' else mo_disconnect_reason m),
                   tr_ts = wall\<rparr>]\<rparr>, Some new)
         else (m1, None))"

subsection \<open>Operations\<close>

definition update_sample ::
  "pcc_cfg \<Rightarrow> monitor \<Rightarrow> int \<Rightarrow> real \<Rightarrow> bool \<Rightarrow> real \<Rightarrow> real \<Rightarrow> real \<Rightarrow> real \<Rightarrow> monitor \<times> capture_state option" where
  "update_sample cfg m n_frames window_s trigger accel tremor now wall =
     (let rate = (if 0 < window_s then of_int n_frames / window_s else 0);
          s = \<lparr>sm_rate = rate, sm_ts = now, sm_trigger = trigger, sm_accel_var = accel, sm_tremor_hz = tremor\<rparr>
      in recompute cfg (m\<lparr>mo_samples := add_sample (mo_samples m) s, mo_last_sample_ts := now,
                          mo_disconnect_reason := []\<rparr>) now wall)"

definition signal_disconnect :: "pcc_cfg \<Rightarrow> monitor \<Rightarrow> string \<Rightarrow> real \<Rightarrow> real \<Rightarrow> monitor" where
  "signal_disconnect cfg m reason now wall =
     (let s = \<lparr>sm_rate = 0, sm_ts = now, sm_trigger = False, sm_accel_var = 0, sm_tremor_hz = 0\<rparr>
      in fst (recompute cfg (m\<lparr>mo_samples := add_sample (mo_samples m) s, mo_last_sample_ts := now,
                               mo_disconnect_reason := reason\<rparr>) now wall))"

definition grind_ready_locked :: "pcc_cfg \<Rightarrow> monitor \<Rightarrow> real \<Rightarrow> bool" where
  "grind_ready_locked cfg m now =
     (if mo_capture m \<noteq> NOMINAL then False
      else if mo_host m \<notin> {EXCLUSIVE_USB, UNKNOWN} then False
      else (case mo_nominal_since m of None \<Rightarrow> False | Some t \<Rightarrow> of_int (stable_s cfg) \<le> now - t))"

definition is_grind_ready :: "pcc_cfg \<Rightarrow> monitor \<Rightarrow> real \<Rightarrow> real \<Rightarrow> monitor \<times> bool" where
  "is_grind_ready cfg m now wall =
     (let m1 = fst (recompute cfg m now wall) in (m1, grind_ready_locked cfg m1 now))"

record pcc_status =
  st_capture :: capture_state
  st_host :: host_state
  st_poll_rate_hz :: real
  st_sustained_s :: real
  st_grind_ready :: bool
  st_disconnect_reason :: string
  st_sample_count :: nat

definition get_status :: "pcc_cfg \<Rightarrow> monitor \<Rightarrow> real \<Rightarrow> real \<Rightarrow> monitor \<times> pcc_status" where
  "get_status cfg m now wall =
     (let m1 = fst (recompute cfg m now wall) in
      (m1, \<lparr>st_capture = mo_capture m1, st_host = mo_host m1,
            st_poll_rate_hz = py_round 1 (mo_poll_rate_hz m1),
            st_sustained_s = py_round 1 (now - mo_state_entered m1),
            st_grind_ready = grind_ready_locked cfg m1 now,
            st_disconnect_reason = mo_disconnect_reason m1,
            st_sample_count = length (mo_samples m1)\<rparr>))"

definition pop_transitions :: "monitor \<Rightarrow> monitor \<times> transition list" where
  "pop_transitions m = (m\<lparr>mo_transitions := []\<rparr>, mo_transitions m)"

subsection \<open>The health log\<close>

record health_row =
  hr_capture :: string
  hr_host :: string
  hr_rate :: real
  hr_reason :: string
  hr_grind_mode :: bool
  hr_session_id :: string
  hr_prev_session_id :: string
  hr_gap_ms :: real
  hr_created_at :: real

definition insert_capture_health_event :: "health_row list \<Rightarrow> health_row \<Rightarrow> real \<Rightarrow> health_row list" where
  "insert_capture_health_event rows row now = rows @ [row\<lparr>hr_created_at := now\<rparr>]"

record health_report =
  he_capture :: string
  he_host :: string
  he_rate :: real
  he_grind_mode :: bool
  he_last_event_ts :: "real option"
  he_n_events :: nat
  he_history :: "health_row list"
  he_timestamp :: real

definition get_capture_health_status :: "health_row list \<Rightarrow> int \<Rightarrow> real \<Rightarrow> health_report" where
  "get_capture_health_status rows limit now =
     (case first_row (order_desc hr_created_at rows) of
        None \<Rightarrow>
          \<lparr>he_capture = ''DISCONNECTED'', he_host = ''UNKNOWN'', he_rate = 0, he_grind_mode = False,
           he_last_event_ts = None, he_n_events = 0, he_history = [], he_timestamp = now\<rparr>
      | Some d \<Rightarrow>
          \<lparr>he_capture = hr_capture d, he_host = hr_host d, he_rate = hr_rate d, he_grind_mode = hr_grind_mode d,
           he_last_event_ts = Some (hr_created_at d), he_n_events = length rows,
           he_history = sql_limit limit (order_desc hr_created_at rows), he_timestamp = now\<rparr>)"

text \<open>
  One flush. \<open>fails\<close> says of a row whether its insertion raises, which loses the row; \<open>created\<close> is the
  time of day of the insertions.
\<close>

record persist_cfg =
  pc_grind_mode :: bool
  pc_session_id :: string
  pc_prev_session_id :: string

definition health_row_of :: "persist_cfg \<Rightarrow> string \<Rightarrow> string \<Rightarrow> real \<Rightarrow> string \<Rightarrow> health_row" where
  "health_row_of pc capture host rate reason =
     \<lparr>hr_capture = capture, hr_host = host, hr_rate = rate, hr_reason = reason,
      hr_grind_mode = pc_grind_mode pc, hr_session_id = pc_session_id pc,
      hr_prev_session_id = pc_prev_session_id pc, hr_gap_ms = 0, hr_created_at = 0\<rparr>"

definition transition_row :: "persist_cfg \<Rightarrow> transition \<Rightarrow> health_row" where
  "transition_row pc tr =
     health_row_of pc (capture_name (tr_new tr)) (host_name (tr_host tr)) (tr_rate tr)
       (if tr_reason tr = [] then ''state_transition'' else tr_reason tr)"

definition persist_row ::
  "(health_row \<Rightarrow> bool) \<Rightarrow> real \<Rightarrow> health_row \<Rightarrow> health_row list \<Rightarrow> health_row list" where
  "persist_row fails created row rows =
     (if fails row then rows else insert_capture_health_event rows row created)"

definition persist_pcc_monitor_once ::
  "pcc_cfg \<Rightarrow> persist_cfg \<Rightarrow> (health_row \<Rightarrow> bool) \<Rightarrow> monitor option \<Rightarrow> health_row list \<Rightarrow> real \<Rightarrow> real
     \<Rightarrow> real \<Rightarrow> real \<Rightarrow> monitor option \<times> health_row list \<times> real" where
  "persist_pcc_monitor_once cfg pc fails mo rows last_snapshot interval now wall =
     (case mo of
        None \<Rightarrow> (None, rows, last_snapshot)
      | Some m \<Rightarrow>
          (let (m1, st) = get_status cfg m now wall;
               (m2, trs) = pop_transitions m1;
               rows1 = fold (\<lambda>tr. persist_row fails wall (transition_row pc tr)) trs rows
           in if trs \<noteq> [] then (Some m2, rows1, now)
              else if st_sample_count st = 0 then (Some m2, rows1, last_snapshot)
              else if 0 < last_snapshot \<and> now - last_snapshot < interval then (Some m2, rows1, last_snapshot)
              else
                (let row = health_row_of pc (capture_name (st_capture st)) (host_name (st_host st))
                             (st_poll_rate_hz st) ''periodic_snapshot''
                 in if fails row then (Some m2, rows1, last_snapshot)
                    else (Some m2, insert_capture_health_event rows1 row wall, now))))"

subsection \<open>Histories\<close>

datatype pcc_event =
    Frames int real bool real real
  | Disconnect string
  | Query
  | Pop

definition pcc_step :: "pcc_cfg \<Rightarrow> monitor \<Rightarrow> real \<times> real \<times> pcc_event \<Rightarrow> monitor" where
  "pcc_step cfg m e =
     (case e of
        (now, wall, Frames n win tr ac tm) \<Rightarrow> fst (update_sample cfg m n win tr ac tm now wall)
      | (now, wall, Disconnect reason) \<Rightarrow> signal_disconnect cfg m reason now wall
      | (now, wall, Query) \<Rightarrow> fst (get_status cfg m now wall)
      | (now, wall, Pop) \<Rightarrow> fst (pop_transitions m))"

text \<open>What was observed: the time of each event and the state after it.\<close>

fun pcc_run ::
  "pcc_cfg \<Rightarrow> monitor \<Rightarrow> (real \<times> real \<times> pcc_event) list \<Rightarrow> monitor \<times> (real \<times> capture_state) list" where
  "pcc_run cfg m [] = (m, [])"
| "pcc_run cfg m (e # es) =
     (let m1 = pcc_step cfg m e; (m2, obs) = pcc_run cfg m1 es
      in (m2, (fst e, mo_capture m1) # obs))"

text \<open>The bookkeeping of a monitor: it is nominal exactly when a nominal streak is running.\<close>

definition streak_ok :: "monitor \<Rightarrow> bool" where
  "streak_ok m \<longleftrightarrow> mo_nominal_since m = (if mo_capture m = NOMINAL then Some (mo_state_entered m) else None)"

lemma recompute_simps [simp]:
  "mo_samples (fst (recompute cfg m now wall)) = mo_samples m"
  "mo_disconnect_reason (fst (recompute cfg m now wall)) = mo_disconnect_reason m"
  "mo_capture (fst (recompute cfg m now wall)) = classified cfg m now"
  "mo_host (fst (recompute cfg m now wall)) = infer_host_state cfg (mo_samples m) (effective_rate m now)"
  "mo_state_entered (fst (recompute cfg m now wall)) =
     (if classified cfg m now = mo_capture m then mo_state_entered m else now)"
  by (simp_all add: recompute_def Let_def)

lemma recompute_nominal_since:
  "mo_nominal_since (fst (recompute cfg m now wall)) =
     (if classified cfg m now = mo_capture m then mo_nominal_since m
      else if classified cfg m now = NOMINAL then Some now else None)"
  by (simp add: recompute_def Let_def)

lemma streak_recompute: "streak_ok m \<Longrightarrow> streak_ok (fst (recompute cfg m now wall))"
  by (auto simp: streak_ok_def recompute_nominal_since)

lemma streak_cong:
  "mo_nominal_since m' = mo_nominal_since m \<Longrightarrow> mo_capture m' = mo_capture m \<Longrightarrow>
   mo_state_entered m' = mo_state_entered m \<Longrightarrow> streak_ok m' = streak_ok m"
  by (simp add: streak_ok_def)

text \<open>Every step but \<open>Pop\<close> is a change of the samples and the reason followed by \<open>recompute\<close>.\<close>

lemma pcc_step_cases:
  obtains (pop) "snd (snd e) = Pop" "pcc_step cfg m e = m\<lparr>mo_transitions := []\<rparr>"
  | (re) m1 wall where "pcc_step cfg m e = fst (recompute cfg m1 (fst e) wall)"
      "mo_capture m1 = mo_capture m" "mo_nominal_since m1 = mo_nominal_since m"
      "mo_state_entered m1 = mo_state_entered m" "mo_transitions m1 = mo_transitions m"
proof -
  obtain now wall ev where e: "e = (now, wall, ev)" by (cases e)
  show thesis
  proof (cases ev)
    case (Frames n win tr ac tm)
    then show ?thesis
      by (intro re [of "m\<lparr>mo_samples := _, mo_last_sample_ts := _, mo_disconnect_reason := _\<rparr>" wall])
        (auto simp: e pcc_step_def update_sample_def Let_def)
  next
    case (Disconnect reason)
    then show ?thesis
      by (intro re [of "m\<lparr>mo_samples := _, mo_last_sample_ts := _, mo_disconnect_reason := _\<rparr>" wall])
        (auto simp: e pcc_step_def signal_disconnect_def Let_def)
  next
    case Query
    then show ?thesis by (intro re [of m wall]) (auto simp: e pcc_step_def get_status_def Let_def)
  next
    case Pop
    then show ?thesis by (intro pop) (simp_all add: e pcc_step_def pop_transitions_def)
  qed
qed

lemma pcc_run_snoc:
  "pcc_run cfg m (es @ [e]) =
     (let (m1, obs) = pcc_run cfg m es; m2 = pcc_step cfg m1 e in (m2, obs @ [(fst e, mo_capture m2)]))"
  by (induction es arbitrary: m) (simp_all add: Let_def split: prod.splits)

lemma pcc_run_invariant:
  assumes "sorted (map fst es)"
  shows "pcc_run cfg (monitor_init t0) es = (m, obs) \<Longrightarrow>
         streak_ok m \<and> map fst obs = map fst es \<and>
         (mo_capture m = NOMINAL \<longrightarrow> (mo_state_entered m, NOMINAL) \<in> set obs \<and>
            (\<forall>(t, s) \<in> set obs. mo_state_entered m < t \<longrightarrow> s = NOMINAL))"
  using assms
proof (induction es arbitrary: m obs rule: rev_induct)
  case Nil
  then show ?case by (auto simp: monitor_init_def streak_ok_def)
next
  case (snoc e es)
  obtain m1 o1 where run: "pcc_run cfg (monitor_init t0) es = (m1, o1)" by fastforce
  have m: "m = pcc_step cfg m1 e" and obs: "obs = o1 @ [(fst e, mo_capture m)]"
    using snoc.prems(1) run by (auto simp: pcc_run_snoc Let_def)
  have "sorted (map fst es)" and late: "\<And>t s. (t, s) \<in> set o1 \<Longrightarrow> t \<le> fst e"
  proof -
    show s: "sorted (map fst es)" using snoc.prems(2) by (simp add: sorted_append)
    fix t s
    assume "(t, s) \<in> set o1"
    then have "t \<in> set (map fst o1)" by force
    then have "t \<in> set (map fst es)" using snoc.IH [OF run s] by metis
    then show "t \<le> fst e" using snoc.prems(2) by (auto simp: sorted_append)
  qed
  note ih = snoc.IH [OF run this(1)]
  show ?case
  proof (cases rule: pcc_step_cases [where cfg = cfg and m = m1 and e = e])
    case pop
    then show ?thesis using ih m obs by (auto simp: streak_ok_def)
  next
    case (re m2 wall)
    have "streak_ok m2" using ih re by (simp add: streak_ok_def)
    then have "streak_ok m" unfolding m re(1) by (rule streak_recompute)
    then show ?thesis using ih late re m obs by (fastforce split: if_splits)
  qed
qed

lemma classified_live:
  assumes "classified cfg m now = NOMINAL" and "\<not> spc_enabled cfg" and "0 < nominal_hz cfg"
  shows "mo_disconnect_reason m = [] \<and> mo_samples m \<noteq> [] \<and> now - sm_ts (last (mo_samples m)) \<le> 3 \<and>
         of_int (nominal_hz cfg) \<le> mean_of (map sm_rate (last_n 10 (mo_samples m)))"
proof -
  have "of_int (nominal_hz cfg) \<le> effective_rate m now"
    using assms(1,2) by (auto simp: classified_def classify_rate_def split: if_splits)
  moreover have "(0 :: real) < of_int (nominal_hz cfg)" using assms(3) by simp
  ultimately show ?thesis by (auto simp: effective_rate_def split: if_splits)
qed

text \<open>
  C11: When the monitor says that sessions may be counted, its samples put the controller neither on
  Bluetooth nor with a contending host (they show it exclusive on USB, or are too few or too uneven to
  tell), every state it has shown in the last \<open>stable_s\<close> seconds was nominal and it showed one before
  them; without the statistical classifier, frames have also arrived in the last three seconds, no
  disconnect is pending, and the mean of the last ten rates reaches the nominal one. For any sequence
  of samples, disconnects, queries and flushes.
\<close>

theorem grind_ready_means_live_capture:
  assumes "sorted (map fst es)" and "\<forall>e \<in> set es. fst e \<le> now"
    and "pcc_run cfg (monitor_init t0) es = (m, obs)" and "snd (is_grind_ready cfg m now wall)"
  shows "mo_host (fst (is_grind_ready cfg m now wall)) \<in> {EXCLUSIVE_USB, UNKNOWN} \<and>
         infer_host_state cfg (mo_samples m) (effective_rate m now) \<notin> {EXCLUSIVE_BT, CONTESTED} \<and>
         (\<forall>(t, s) \<in> set obs. now - of_int (stable_s cfg) < t \<longrightarrow> s = NOMINAL) \<and>
         (0 < stable_s cfg \<longrightarrow> (\<exists>t \<le> now - of_int (stable_s cfg). (t, NOMINAL) \<in> set obs)) \<and>
         (\<not> spc_enabled cfg \<longrightarrow> 0 < nominal_hz cfg \<longrightarrow>
            mo_disconnect_reason m = [] \<and> mo_samples m \<noteq> [] \<and> now - sm_ts (last (mo_samples m)) \<le> 3 \<and>
            of_int (nominal_hz cfg) \<le> mean_of (map sm_rate (last_n 10 (mo_samples m))))"
proof -
  let ?m1 = "fst (recompute cfg m now wall)"
  have step: "pcc_step cfg m (now, wall, Query) = ?m1"
    by (simp add: pcc_step_def get_status_def Let_def)
  have run: "pcc_run cfg (monitor_init t0) (es @ [(now, wall, Query)]) = (?m1, obs @ [(now, mo_capture ?m1)])"
    by (simp add: pcc_run_snoc assms(3) step Let_def)
  have "sorted (map fst (es @ [(now, wall, Query)]))" using assms(1,2) by (simp add: sorted_append)
  note inv = pcc_run_invariant [OF this run]
  have ready: "mo_capture ?m1 = NOMINAL" "\<exists>t. mo_nominal_since ?m1 = Some t \<and> of_int (stable_s cfg) \<le> now - t"
    using assms(4) by (auto simp: is_grind_ready_def Let_def grind_ready_locked_def split: if_splits option.splits)
  then have since: "of_int (stable_s cfg) \<le> now - mo_state_entered ?m1"
    using inv unfolding streak_ok_def by auto
  have old: "\<forall>(t, s) \<in> set obs. mo_state_entered ?m1 < t \<longrightarrow> s = NOMINAL" and
    new: "(mo_state_entered ?m1, NOMINAL) \<in> set obs \<or> mo_state_entered ?m1 = now"
    using inv ready(1) by auto
  have "\<forall>(t, s) \<in> set obs. now - of_int (stable_s cfg) < t \<longrightarrow> s = NOMINAL"
  proof (clarify)
    fix t s
    assume ts: "(t, s) \<in> set obs" and "now - of_int (stable_s cfg) < t"
    then have "mo_state_entered ?m1 < t" using since by linarith
    then show "s = NOMINAL" using old ts by blast
  qed
  moreover have "\<exists>t \<le> now - of_int (stable_s cfg). (t, NOMINAL) \<in> set obs" if "0 < stable_s cfg"
  proof -
    have "(0 :: real) < of_int (stable_s cfg)" using that by simp
    then have "mo_state_entered ?m1 \<noteq> now" using since by auto
    moreover have "mo_state_entered ?m1 \<le> now - of_int (stable_s cfg)" using since by linarith
    ultimately show ?thesis using new by blast
  qed
  moreover have "classified cfg m now = NOMINAL" using ready(1) by simp
  moreover have host: "mo_host (fst (is_grind_ready cfg m now wall)) \<in> {EXCLUSIVE_USB, UNKNOWN}"
    using assms(4) by (auto simp: is_grind_ready_def Let_def grind_ready_locked_def split: if_splits)
  moreover have "mo_host (fst (is_grind_ready cfg m now wall)) = infer_host_state cfg (mo_samples m) (effective_rate m now)"
    by (simp add: is_grind_ready_def Let_def)
  ultimately show ?thesis using classified_live by auto
qed

definition demo_pcc_cfg :: pcc_cfg where
  "demo_pcc_cfg = default_pcc_cfg\<lparr>stable_s := 1\<rparr>"

definition demo_frames :: pcc_event where
  "demo_frames = Frames 1000 1 False 0 0"

lemmas pcc_eval = pcc_step_def update_sample_def add_sample_def last_n_def recompute_def Let_def
  classified_def classify_rate_def effective_rate_def infer_host_state_def mean_of_def
  demo_pcc_cfg_def default_pcc_cfg_def demo_frames_def monitor_init_def

lemma grind_ready_means_live_capture_witness:
  "\<exists>m obs. pcc_run demo_pcc_cfg (monitor_init 0) [(1, 0, demo_frames), (2, 0, demo_frames)] = (m, obs) \<and>
     mo_host (fst (is_grind_ready demo_pcc_cfg m 2 0)) \<in> {EXCLUSIVE_USB, UNKNOWN} \<and>
     (\<exists>t \<le> 1. (t, NOMINAL) \<in> set obs)"
proof -
  let ?es = "[(1, 0, demo_frames), (2, 0, demo_frames)] :: (real \<times> real \<times> pcc_event) list"
  obtain m obs where run: "pcc_run demo_pcc_cfg (monitor_init 0) ?es = (m, obs)"
    and ready: "snd (is_grind_ready demo_pcc_cfg m 2 0)"
    by (simp add: pcc_eval is_grind_ready_def grind_ready_locked_def)
  have "stable_s demo_pcc_cfg = 1" by (simp add: demo_pcc_cfg_def)
  then show ?thesis using grind_ready_means_live_capture [OF _ _ run ready] run by simp
qed

text \<open>
  With the statistical classifier a stalled device stays ready: when the samples it holds are in
  control, the monitor goes on reporting a nominal capture and a ready session at a rate of nought,
  however long ago the last sample came.
\<close>

theorem stalled_capture_stays_ready:
  assumes "spc_enabled cfg" and "spc_in_control cfg (mo_samples m)" and "mo_disconnect_reason m = []"
    and "mo_capture m = NOMINAL" and "mo_nominal_since m = Some s" and "s + of_int (stable_s cfg) \<le> now"
    and "0 < degraded_hz cfg" and "3 < now - sm_ts (last (mo_samples m))"
  shows "snd (is_grind_ready cfg m now wall) \<and> mo_poll_rate_hz (fst (is_grind_ready cfg m now wall)) = 0"
proof -
  have ne: "mo_samples m \<noteq> []"
    using assms(2) by (auto simp: spc_in_control_def spc_recent_def py_tail_def last_n_def Let_def split: if_splits)
  have rate: "effective_rate m now = 0" using ne assms(3,8) by (simp add: effective_rate_def)
  have "infer_host_state cfg (mo_samples m) 0 = UNKNOWN"
    using assms(7) by (simp add: infer_host_state_def Let_def)
  moreover have c: "classified cfg m now = NOMINAL"
    using assms(1,2,3) by (simp add: classified_def classify_capture_state_spc_def)
  moreover have "mo_poll_rate_hz (fst (recompute cfg m now wall)) = 0"
    using rate by (simp add: recompute_def Let_def)
  ultimately show ?thesis
    using assms(4-6) rate
    by (simp add: is_grind_ready_def grind_ready_locked_def Let_def recompute_nominal_since)
qed

definition stalled_monitor :: monitor where
  "stalled_monitor = (monitor_init 0)\<lparr>mo_samples := [\<lparr>sm_rate = 1000, sm_ts = 1, sm_trigger = False,
     sm_accel_var = 0, sm_tremor_hz = 0\<rparr>], mo_capture := NOMINAL, mo_nominal_since := Some 1\<rparr>"

lemma stalled_capture_stays_ready_witness:
  "snd (is_grind_ready (default_pcc_cfg\<lparr>spc_enabled := True\<rparr>) stalled_monitor 86400 0)"
proof -
  let ?cfg = "default_pcc_cfg\<lparr>spc_enabled := True\<rparr>"
  have "spc_enabled ?cfg" "spc_in_control ?cfg (mo_samples stalled_monitor)"
    "mo_disconnect_reason stalled_monitor = []" "mo_capture stalled_monitor = NOMINAL"
    "mo_nominal_since stalled_monitor = Some 1" "1 + of_int (stable_s ?cfg) \<le> (86400 :: real)"
    "0 < degraded_hz ?cfg" "3 < 86400 - sm_ts (last (mo_samples stalled_monitor))"
    by (simp_all add: default_pcc_cfg_def stalled_monitor_def spc_in_control_def spc_recent_def in_spec_def
        mean_of_def monitor_init_def Let_def)
  from stalled_capture_stays_ready [OF this] show ?thesis by blast
qed

lemma quiet_step:
  assumes "mo_disconnect_reason m \<noteq> []" and "mo_capture m = DISCONNECTED" and "0 < nominal_hz cfg"
    and "0 < degraded_hz cfg" and "snd (snd e) \<in> {Query, Pop}"
  shows "mo_disconnect_reason (pcc_step cfg m e) \<noteq> [] \<and> mo_capture (pcc_step cfg m e) = DISCONNECTED"
proof -
  obtain now wall ev where e: "e = (now, wall, ev)" by (cases e)
  have "classified cfg m now = DISCONNECTED"
    using assms(1,3,4) by (simp add: classified_def effective_rate_def classify_rate_def)
  then show ?thesis using assms(1,2,5)
    by (auto simp: e pcc_step_def get_status_def pop_transitions_def Let_def)
qed

text \<open>
  A disconnect with a reason overrides everything: until the next sample, through any queries and
  flushes and in either mode, the capture is disconnected and no session is ready.
\<close>

theorem disconnect_overrides:
  assumes "reason \<noteq> []" and "0 < nominal_hz cfg" and "0 < degraded_hz cfg"
    and "\<forall>e \<in> set es. snd (snd e) \<in> {Query, Pop}"
    and "m = fst (pcc_run cfg (signal_disconnect cfg m0 reason t w) es)"
  shows "mo_capture m = DISCONNECTED \<and> \<not> snd (is_grind_ready cfg m now wall)"
proof -
  have run: "mo_disconnect_reason x \<noteq> [] \<Longrightarrow> mo_capture x = DISCONNECTED \<Longrightarrow>
      mo_disconnect_reason (fst (pcc_run cfg x es)) \<noteq> [] \<and> mo_capture (fst (pcc_run cfg x es)) = DISCONNECTED" for x
    using assms(4)
  proof (induction es arbitrary: x)
    case (Cons e es)
    then show ?case using quiet_step [OF Cons.prems(1,2) assms(2,3), of e]
      by (auto simp: Let_def split: prod.splits)
        (metis fst_conv)+
  qed simp
  have "mo_disconnect_reason (signal_disconnect cfg m0 reason t w) = reason"
    "mo_capture (signal_disconnect cfg m0 reason t w) = DISCONNECTED"
    using assms(1-3)
    by (simp_all add: signal_disconnect_def Let_def classified_def effective_rate_def classify_rate_def)
  then have m: "mo_disconnect_reason m \<noteq> []" "mo_capture m = DISCONNECTED"
    using run assms(1,5) by metis+
  have "classified cfg m now = DISCONNECTED"
    using m(1) assms(2,3) by (simp add: classified_def effective_rate_def classify_rate_def)
  then show ?thesis using m(2) by (simp add: is_grind_ready_def grind_ready_locked_def Let_def)
qed

lemma disconnect_overrides_witness:
  "mo_capture (fst (pcc_run default_pcc_cfg (signal_disconnect default_pcc_cfg stalled_monitor ''timeout'' 2 0)
      [(3, 0, Query), (4, 0, Pop), (5, 0, Query)])) = DISCONNECTED"
proof -
  have c: "0 < nominal_hz default_pcc_cfg" "0 < degraded_hz default_pcc_cfg" by (simp_all add: default_pcc_cfg_def)
  show ?thesis
    using disconnect_overrides [OF _ c _ refl, of "''timeout''" "[(3, 0, Query), (4, 0, Pop), (5, 0, Query)]"] by auto
qed

subsection \<open>The buffered transitions\<close>

fun pcc_collect ::
  "pcc_cfg \<Rightarrow> monitor \<Rightarrow> (real \<times> real \<times> pcc_event) list \<Rightarrow> monitor \<times> transition list" where
  "pcc_collect cfg m [] = (m, [])"
| "pcc_collect cfg m (e # es) =
     (let (m2, trs) = pcc_collect cfg (pcc_step cfg m e) es in
      (m2, (if snd (snd e) = Pop then mo_transitions m else []) @ trs))"

fun state_path :: "capture_state \<Rightarrow> transition list \<Rightarrow> capture_state \<Rightarrow> bool" where
  "state_path a [] b = (a = b)"
| "state_path a (tr # trs) b = (tr_old tr = a \<and> tr_new tr \<noteq> a \<and> state_path (tr_new tr) trs b)"

lemma state_path_append: "state_path a (xs @ ys) c \<longleftrightarrow> (\<exists>b. state_path a xs b \<and> state_path b ys c)"
  by (induction xs arbitrary: a) auto

lemma recompute_path:
  assumes "state_path a (mo_transitions m) (mo_capture m)"
  shows "state_path a (mo_transitions (fst (recompute cfg m now wall))) (mo_capture (fst (recompute cfg m now wall)))"
  using assms by (auto simp: recompute_def Let_def state_path_append)

lemma collect_path:
  assumes "state_path a (mo_transitions m) (mo_capture m)"
  shows "state_path a (snd (pcc_collect cfg m es) @ mo_transitions (fst (pcc_collect cfg m es)))
           (mo_capture (fst (pcc_collect cfg m es)))"
  using assms
proof (induction es arbitrary: m a)
  case Nil
  then show ?case by simp
next
  case (Cons e es)
  show ?case
  proof (cases "snd (snd e) = Pop")
    case True
    then have step: "pcc_step cfg m e = m\<lparr>mo_transitions := []\<rparr>"
      by (cases e) (simp add: pcc_step_def pop_transitions_def)
    have "state_path (mo_capture m) (mo_transitions (pcc_step cfg m e)) (mo_capture (pcc_step cfg m e))"
      by (simp add: step)
    from Cons.IH [OF this] show ?thesis
      using Cons.prems True by (auto simp: Let_def state_path_append split: prod.splits) blast
  next
    case False
    have "state_path a (mo_transitions (pcc_step cfg m e)) (mo_capture (pcc_step cfg m e))"
    proof (cases rule: pcc_step_cases [where cfg = cfg and m = m and e = e])
      case pop
      then show ?thesis using False by simp
    next
      case (re m1 wall)
      then show ?thesis using Cons.prems recompute_path [of a m1] by simp
    qed
    from Cons.IH [OF this] False show ?thesis by (auto simp: Let_def split: prod.splits)
  qed
qed

text \<open>
  The transitions handed to the store, over any flushes, with those still buffered, are a path of
  the state machine: they start at the initial state, each begins where the one before ended,
  none stays where it is, and the last ends in the current state.
\<close>

theorem transitions_form_path:
  "state_path DISCONNECTED
     (snd (pcc_collect cfg (monitor_init t0) es) @ mo_transitions (fst (pcc_collect cfg (monitor_init t0) es)))
     (mo_capture (fst (pcc_collect cfg (monitor_init t0) es)))"
  by (rule collect_path) (simp add: monitor_init_def)

end
