(* ===== verification/JsonDump.thy ===== *)
theory JsonDump
  imports Json "HOL-Library.Char_ord" "HOL-Library.List_Lexorder"
begin

section \<open>JSON values as text, and their equality\<close>

text \<open>
  \<open>json.dumps(v, sort_keys=True, separators=(",", ":"))\<close>, with \<open>ensure_ascii\<close>: the canonical encoding
  the bridge hashes. Keys are sorted by code point, which is the order of their UTF-8 bytes. How a
  float is written is an argument, since the shortest text of a double needs its rounding.
\<close>

text \<open>The code points of a UTF-8 text; every byte but a continuation starts one.\<close>

definition utf8_width :: "nat \<Rightarrow> nat" where
  "utf8_width n = (if n < 128 then 1 else if n < 224 then 2 else if n < 240 then 3 else 4)"

definition utf8_point :: "nat list \<Rightarrow> nat" where
  "utf8_point bs =
     (case bs of
        [a] \<Rightarrow> a
      | [a, b] \<Rightarrow> (a mod 32) * 64 + b mod 64
      | [a, b, c] \<Rightarrow> (a mod 16) * 4096 + (b mod 64) * 64 + c mod 64
      | [a, b, c, d] \<Rightarrow> (a mod 8) * 262144 + (b mod 64) * 4096 + (c mod 64) * 64 + d mod 64
      | _ \<Rightarrow> 65533)"

function utf8_points :: "nat list \<Rightarrow> nat list" where
  "utf8_points [] = []"
| "utf8_points (b # bs) =
     utf8_point (take (utf8_width b) (b # bs)) # utf8_points (drop (utf8_width b) (b # bs))"
  by pat_completeness auto
termination by (relation "measure length") (auto simp: utf8_width_def)

definition hex_digit :: "nat \<Rightarrow> char" where
  "hex_digit d = (if d < 10 then char_of (48 + d) else char_of (87 + d))"

definition u_escape :: "nat \<Rightarrow> string" where
  "u_escape n = [CHR 0x5C, CHR ''u'', hex_digit (n div 4096 mod 16), hex_digit (n div 256 mod 16),
                 hex_digit (n div 16 mod 16), hex_digit (n mod 16)]"

definition escape_point :: "nat \<Rightarrow> string" where
  "escape_point n =
     (if n = 34 then [CHR 0x5C, CHR 0x22]
      else if n = 92 then [CHR 0x5C, CHR 0x5C]
      else if n = 10 then [CHR 0x5C, CHR ''n'']
      else if n = 13 then [CHR 0x5C, CHR ''r'']
      else if n = 9 then [CHR 0x5C, CHR ''t'']
      else if n = 12 then [CHR 0x5C, CHR ''f'']
      else if n = 8 then [CHR 0x5C, CHR ''b'']
      else if 32 \<le> n \<and> n \<le> 126 then [char_of n]
      else if n < 65536 then u_escape n
      else u_escape (55296 + (n - 65536) div 1024) @ u_escape (56320 + (n - 65536) mod 1024))"

definition dump_string :: "string \<Rightarrow> string" where
  "dump_string s = [CHR 0x22] @ concat (map escape_point (utf8_points (map of_char s))) @ [CHR 0x22]"

fun join :: "string \<Rightarrow> string list \<Rightarrow> string" where
  "join sep [] = []"
| "join sep [s] = s"
| "join sep (s # ss) = s @ sep @ join sep ss"

primrec json_dumps :: "(real \<Rightarrow> string) \<Rightarrow> json \<Rightarrow> string" where
  "json_dumps fr JNull = ''null''"
| "json_dumps fr (JBool b) = (if b then ''true'' else ''false'')"
| "json_dumps fr (JInt i) = dec_int i"
| "json_dumps fr (JFloat r) = fr r"
| "json_dumps fr (JStr s) = dump_string s"
| "json_dumps fr (JArr vs) = ''['' @ join '','' (map (json_dumps fr) vs) @ '']''"
| "json_dumps fr (JObj kvs) =
     ''{'' @ join '','' (map (\<lambda>(k, s). dump_string k @ '':'' @ s)
               (sort_key fst (map (map_prod id (json_dumps fr)) kvs))) @ ''}''"

text \<open>
  Python's \<open>==\<close> between JSON values: a bool is the number 0 or 1, an int equals a float of the same
  value, and the order of keys does not matter.
\<close>

fun number_of :: "json \<Rightarrow> real option" where
  "number_of (JBool b) = Some (if b then 1 else 0)"
| "number_of (JInt i) = Some (of_int i)"
| "number_of (JFloat r) = Some r"
| "number_of v = None"

primrec py_eq :: "json \<Rightarrow> json \<Rightarrow> bool" where
  "py_eq JNull = (\<lambda>w. w = JNull)"
| "py_eq (JBool b) = (\<lambda>w. number_of w = Some (if b then 1 else 0))"
| "py_eq (JInt i) = (\<lambda>w. number_of w = Some (of_int i))"
| "py_eq (JFloat r) = (\<lambda>w. number_of w = Some r)"
| "py_eq (JStr s) = (\<lambda>w. w = JStr s)"
| "py_eq (JArr vs) =
     (\<lambda>w. case w of JArr ws \<Rightarrow> list_all2 (\<lambda>f x. f x) (map py_eq vs) ws | _ \<Rightarrow> False)"
| "py_eq (JObj kvs) =
     (\<lambda>w. case w of
            JObj d \<Rightarrow> length kvs = length d \<and>
              list_all (\<lambda>(k, f). case dget d k of None \<Rightarrow> False | Some x \<Rightarrow> f x) (map (map_prod id py_eq) kvs)
          | _ \<Rightarrow> False)"

end
