(* ===== verification/Cedar.thy ===== *)
theory Cedar
  imports JsonDump Sha256 ChainLog
begin

section \<open>Policy bundles\<close>

text \<open>
  \<open>cedar_parser.py\<close>: the schema check of a bundle, its root, and the decision algorithm. An error
  message keeps its fixed text; the printed value and the printed sets at its end are left out.
\<close>

definition VALID_EFFECTS :: "string set" where "VALID_EFFECTS = {''permit'', ''forbid''}"
definition VALID_CATEGORIES :: "string set" where "VALID_CATEGORIES = {''skill'', ''tool'', ''endpoint''}"
definition VALID_SCHEMES :: "string set" where "VALID_SCHEMES = {''lane://'', ''draft://'', ''chain://'', ''*''}"
definition VALID_PHASES :: "string set" where
  "VALID_PHASES = {''O0_DORMANT'', ''O1_SHADOW'', ''O2_SUGGEST'', ''O3_ACTING''}"

datatype cedar_decision =
    PERMIT
  | PERMIT_WITH_SHADOW_CONSTRAINT
  | FORBID_LANE_VIOLATION
  | FORBID_CAPABILITY_INACTIVE
  | FORBID_AGENT_NOT_PRINCIPAL
  | FORBID_EXPLICIT_POLICY
  | FORBID_DEFAULT_DENY

fun decision_value :: "cedar_decision \<Rightarrow> string" where
  "decision_value PERMIT = ''permit''"
| "decision_value PERMIT_WITH_SHADOW_CONSTRAINT = ''permit_with_shadow_constraint''"
| "decision_value FORBID_LANE_VIOLATION = ''forbid_lane_violation''"
| "decision_value FORBID_CAPABILITY_INACTIVE = ''forbid_capability_inactive''"
| "decision_value FORBID_AGENT_NOT_PRINCIPAL = ''forbid_agent_not_principal''"
| "decision_value FORBID_EXPLICIT_POLICY = ''forbid_explicit_policy''"
| "decision_value FORBID_DEFAULT_DENY = ''forbid_default_deny''"

type_synonym jobject = "(string \<times> json) list"

record cedar_policy =
  po_id :: string
  po_effect :: string
  po_principal_agent_id :: string
  po_action :: string
  po_resource :: string
  po_constraint :: "jobject option"

record parsed_bundle =
  pb_agent_id :: string
  pb_phase :: string
  pb_version :: int
  pb_issued_at_iso :: string
  pb_lane_prefixes :: "string list"
  pb_policies :: "cedar_policy list"
  pb_merkle_root :: bytes

abbreviation CedarBundleError :: "string \<Rightarrow> py_exc" where
  "CedarBundleError m \<equiv> PyExc ''CedarBundleError'' m"

subsection \<open>Canonical bytes and root\<close>

definition canonical_bytes :: "(real \<Rightarrow> string) \<Rightarrow> json \<Rightarrow> bytes" where
  "canonical_bytes fr bundle = encode (json_dumps fr bundle)"

definition bundle_merkle_root :: "(real \<Rightarrow> string) \<Rightarrow> json \<Rightarrow> bytes" where
  "bundle_merkle_root fr bundle = sha256 (encode ''VAPI-CEDAR-BUNDLE-v1'' @ canonical_bytes fr bundle)"

subsection \<open>Schema\<close>

text \<open>\<open>s.partition(c)\<close> of a text that holds the separator\<close>

definition before_sep :: "char \<Rightarrow> string \<Rightarrow> string" where
  "before_sep c s = takeWhile (\<lambda>x. x \<noteq> c) s"

definition after_sep :: "char \<Rightarrow> string \<Rightarrow> string" where
  "after_sep c s = drop 1 (dropWhile (\<lambda>x. x \<noteq> c) s)"

definition validate_action :: "json \<Rightarrow> string res" where
  "validate_action v =
     (case v of
        JStr action \<Rightarrow>
          if CHR '':'' \<notin> set action then Inl (CedarBundleError ''action must be <category>:<name>'')
          else if before_sep (CHR '':'') action \<notin> VALID_CATEGORIES
          then Inl (CedarBundleError ''action category not in VALID_CATEGORIES'')
          else if after_sep (CHR '':'') action = [] then Inl (CedarBundleError ''action name part empty'')
          else Inr action
      | _ \<Rightarrow> Inl (CedarBundleError ''action must be <category>:<name>''))"

definition validate_resource_scheme :: "json \<Rightarrow> string res" where
  "validate_resource_scheme v =
     (case v of
        JStr resource \<Rightarrow>
          if resource = ''*'' then Inr resource
          else if \<exists>scheme \<in> VALID_SCHEMES - {''*''}. startswith resource scheme then Inr resource
          else Inl (CedarBundleError ''resource scheme not in VALID_SCHEMES'')
      | _ \<Rightarrow> Inl (CedarBundleError ''resource must be string''))"

text \<open>\<open>v not in s\<close> for a set of strings: a list or a dict cannot be hashed, which raises.\<close>

definition member_of :: "json \<Rightarrow> string set \<Rightarrow> string option res" where
  "member_of v s =
     (case v of
        JArr _ \<Rightarrow> Inl (TypeError ''unhashable type: list'')
      | JObj _ \<Rightarrow> Inl (TypeError ''unhashable type: dict'')
      | JStr x \<Rightarrow> Inr (if x \<in> s then Some x else None)
      | _ \<Rightarrow> Inr None)"

definition require_member :: "json \<Rightarrow> string set \<Rightarrow> string \<Rightarrow> string res" where
  "require_member v s msg =
     bindE (member_of v s) (\<lambda>hit. case hit of None \<Rightarrow> Inl (CedarBundleError msg) | Some x \<Rightarrow> Inr x)"

definition nonempty_str :: "json \<Rightarrow> string \<Rightarrow> string res" where
  "nonempty_str v msg =
     (case v of JStr s \<Rightarrow> if s = [] then Inl (CedarBundleError msg) else Inr s | _ \<Rightarrow> Inl (CedarBundleError msg))"

definition agent_id_str :: "json \<Rightarrow> string \<Rightarrow> string res" where
  "agent_id_str v msg =
     (case v of
        JStr s \<Rightarrow> if startswith s ''0x'' \<and> length s = 66 then Inr s else Inl (CedarBundleError msg)
      | _ \<Rightarrow> Inl (CedarBundleError msg))"

definition as_dict :: "json \<Rightarrow> string \<Rightarrow> jobject res" where
  "as_dict v msg = (case v of JObj d \<Rightarrow> Inr d | _ \<Rightarrow> Inl (CedarBundleError msg))"

definition parse_policy :: "json \<Rightarrow> cedar_policy res" where
  "parse_policy v =
     bindE (as_dict v ''policies must be dict'') (\<lambda>p.
     bindE (nonempty_str (jget p ''id'') ''policies.id must be non-empty string'') (\<lambda>pid.
     bindE (require_member (jget p ''effect'') VALID_EFFECTS ''policies.effect not in'') (\<lambda>effect.
     bindE (as_dict (jget p ''principal'') ''policies.principal must be dict'') (\<lambda>principal.
     bindE (agent_id_str (jget principal ''agentId'')
              ''policies.principal.agentId must be 0x-prefixed 32-byte hex (66 chars)'') (\<lambda>pa.
     bindE (validate_action (dget_or p ''action'' (JStr []))) (\<lambda>action.
     bindE (validate_resource_scheme (dget_or p ''resource'' (JStr []))) (\<lambda>resource.
     bindE (case jget p ''constraint'' of
              JNull \<Rightarrow> Inr None
            | JObj d \<Rightarrow> Inr (Some d)
            | _ \<Rightarrow> Inl (CedarBundleError ''policies.constraint must be dict or absent'')) (\<lambda>constr.
       Inr \<lparr>po_id = pid, po_effect = effect, po_principal_agent_id = pa, po_action = action,
            po_resource = resource, po_constraint = constr\<rparr>))))))))"

fun parse_policies :: "json list \<Rightarrow> cedar_policy list res" where
  "parse_policies [] = Inr []"
| "parse_policies (v # vs) =
     bindE (parse_policy v) (\<lambda>p. bindE (parse_policies vs) (\<lambda>ps. Inr (p # ps)))"

fun as_strings :: "json list \<Rightarrow> string list option" where
  "as_strings [] = Some []"
| "as_strings (JStr s # vs) = map_option (\<lambda>ss. s # ss) (as_strings vs)"
| "as_strings (v # vs) = None"

text \<open>\<open>isinstance(v, int)\<close>, which holds of a bool too\<close>

fun as_int :: "json \<Rightarrow> int option" where
  "as_int (JInt i) = Some i"
| "as_int (JBool b) = Some (if b then 1 else 0)"
| "as_int v = None"

definition parse_bundle :: "(real \<Rightarrow> string) \<Rightarrow> json \<Rightarrow> parsed_bundle res" where
  "parse_bundle fr payload =
     bindE (as_dict payload ''bundle must be dict'') (\<lambda>d.
     bindE (guardE (jget d ''$schema'' = JStr ''vapi-cedar-bundle-v1'')
              (CedarBundleError ''$schema must be vapi-cedar-bundle-v1'')) (\<lambda>_.
     bindE (agent_id_str (jget d ''agent_id'') ''agent_id must be 0x-prefixed 32-byte hex (66 chars)'') (\<lambda>agent.
     bindE (require_member (jget d ''phase'') VALID_PHASES ''phase not in'') (\<lambda>phase.
     bindE (case as_int (jget d ''version'') of
              Some n \<Rightarrow> if n < 1 then Inl (CedarBundleError ''version must be positive int'') else Inr n
            | None \<Rightarrow> Inl (CedarBundleError ''version must be positive int'')) (\<lambda>version.
     bindE (nonempty_str (jget d ''issued_at_iso'') ''issued_at_iso must be non-empty ISO-8601 string'') (\<lambda>issued.
     bindE (case jget d ''lane_prefixes'' of
              JArr vs \<Rightarrow> (case as_strings vs of
                  Some ss \<Rightarrow> Inr ss
                | None \<Rightarrow> Inl (CedarBundleError ''lane_prefixes must be list of strings''))
            | _ \<Rightarrow> Inl (CedarBundleError ''lane_prefixes must be list of strings'')) (\<lambda>lanes.
     bindE (case jget d ''policies'' of
              JArr vs \<Rightarrow> Inr vs
            | _ \<Rightarrow> Inl (CedarBundleError ''policies must be list'')) (\<lambda>vs.
     bindE (parse_policies vs) (\<lambda>policies.
     bindE (guardE (list_all (\<lambda>p. po_principal_agent_id p = agent) policies)
              (CedarBundleError ''policies.principal.agentId does not match bundle.agent_id'')) (\<lambda>_.
       Inr \<lparr>pb_agent_id = agent, pb_phase = phase, pb_version = version, pb_issued_at_iso = issued,
            pb_lane_prefixes = lanes, pb_policies = policies,
            pb_merkle_root = bundle_merkle_root fr payload\<rparr>))))))))))"

subsection \<open>Decision\<close>

definition resource_matches :: "string \<Rightarrow> string \<Rightarrow> bool" where
  "resource_matches pat request =
     (if pat = ''*'' then True
      else if endswith pat ''/**'' then startswith request (take (length pat - 2) pat)
      else if endswith pat ''/*'' then
        (let prefix = take (length pat - 1) pat in
         startswith request prefix \<and> CHR ''/'' \<notin> set (drop (length prefix) request))
      else pat = request)"

definition lane_violation :: "parsed_bundle \<Rightarrow> string \<Rightarrow> bool" where
  "lane_violation b request =
     (startswith request ''lane://'' \<and>
      \<not> list_ex (startswith (drop 7 request)) (pb_lane_prefixes b))"

text \<open>All keys of a non-empty constraint are satisfied by the context; an absent key is \<open>None\<close>.\<close>

definition constraint_met :: "jobject \<Rightarrow> jobject option \<Rightarrow> bool" where
  "constraint_met ctx c =
     (case c of None \<Rightarrow> True | Some d \<Rightarrow> list_all (\<lambda>(k, v). py_eq (jget ctx k) v) d)"

definition applies :: "jobject \<Rightarrow> string \<Rightarrow> string \<Rightarrow> cedar_policy \<Rightarrow> bool" where
  "applies ctx action resource p \<longleftrightarrow>
     po_action p = action \<and> resource_matches (po_resource p) resource \<and> constraint_met ctx (po_constraint p)"

text \<open>The scan: a forbid ends it, a later permit replaces an earlier one.\<close>

fun scan_policies ::
  "jobject \<Rightarrow> string \<Rightarrow> string \<Rightarrow> cedar_policy option \<Rightarrow> cedar_policy list
     \<Rightarrow> cedar_policy option \<times> cedar_policy option" where
  "scan_policies ctx action resource permit [] = (permit, None)"
| "scan_policies ctx action resource permit (p # ps) =
     (if \<not> applies ctx action resource p then scan_policies ctx action resource permit ps
      else if po_effect p = ''forbid'' then (permit, Some p)
      else if po_effect p = ''permit'' then scan_policies ctx action resource (Some p) ps
      else scan_policies ctx action resource permit ps)"

definition shadow_permit :: "cedar_policy \<Rightarrow> bool" where
  "shadow_permit p = (case po_constraint p of None \<Rightarrow> False | Some d \<Rightarrow> jget d ''shadow_mode'' = JBool True)"

definition evaluate :: "parsed_bundle \<Rightarrow> string \<Rightarrow> string \<Rightarrow> string \<Rightarrow> jobject option \<Rightarrow> cedar_decision" where
  "evaluate b agent action resource context =
     (if agent \<noteq> pb_agent_id b then FORBID_AGENT_NOT_PRINCIPAL
      else if lane_violation b resource then FORBID_LANE_VIOLATION
      else
        (let ctx = (case context of None \<Rightarrow> [] | Some c \<Rightarrow> c) in
         case scan_policies ctx action resource None (pb_policies b) of
           (_, Some _) \<Rightarrow> FORBID_EXPLICIT_POLICY
         | (Some p, None) \<Rightarrow> if shadow_permit p then PERMIT_WITH_SHADOW_CONSTRAINT else PERMIT
         | (None, None) \<Rightarrow> FORBID_DEFAULT_DENY))"

subsection \<open>What a decision says\<close>

definition is_permit :: "cedar_decision \<Rightarrow> bool" where
  "is_permit d \<longleftrightarrow> d \<in> {PERMIT, PERMIT_WITH_SHADOW_CONSTRAINT}"

definition forbidden :: "parsed_bundle \<Rightarrow> jobject \<Rightarrow> string \<Rightarrow> string \<Rightarrow> bool" where
  "forbidden b ctx action resource \<longleftrightarrow>
     (\<exists>p \<in> set (pb_policies b). applies ctx action resource p \<and> po_effect p = ''forbid'')"

definition permits :: "parsed_bundle \<Rightarrow> jobject \<Rightarrow> string \<Rightarrow> string \<Rightarrow> cedar_policy list" where
  "permits b ctx action resource =
     filter (\<lambda>p. applies ctx action resource p \<and> po_effect p = ''permit'') (pb_policies b)"

lemma scan_forbid:
  "(snd (scan_policies ctx a r acc ps) \<noteq> None) \<longleftrightarrow> (\<exists>p \<in> set ps. applies ctx a r p \<and> po_effect p = ''forbid'')"
  by (induction ps arbitrary: acc) auto

lemma scan_permit:
  assumes "\<not> (\<exists>p \<in> set ps. applies ctx a r p \<and> po_effect p = ''forbid'')"
  shows "fst (scan_policies ctx a r acc ps) =
     (let xs = filter (\<lambda>p. applies ctx a r p \<and> po_effect p = ''permit'') ps in if xs = [] then acc else Some (last xs))"
  using assms by (induction ps arbitrary: acc) (auto simp: Let_def)

lemma scan_result:
  "scan_policies ctx a r None (pb_policies b) =
     (fst (scan_policies ctx a r None (pb_policies b)), snd (scan_policies ctx a r None (pb_policies b)))"
  by simp

lemma evaluate_cases:
  assumes "agent = pb_agent_id b" and "\<not> lane_violation b resource" and "ctx = (case context of None \<Rightarrow> [] | Some c \<Rightarrow> c)"
  shows "evaluate b agent action resource context =
     (if forbidden b ctx action resource then FORBID_EXPLICIT_POLICY
      else if permits b ctx action resource = [] then FORBID_DEFAULT_DENY
      else if shadow_permit (last (permits b ctx action resource)) then PERMIT_WITH_SHADOW_CONSTRAINT
      else PERMIT)"
proof -
  let ?s = "scan_policies ctx action resource None (pb_policies b)"
  have f: "(snd ?s \<noteq> None) = forbidden b ctx action resource"
    unfolding forbidden_def by (rule scan_forbid)
  have p: "fst ?s = (if permits b ctx action resource = [] then None else Some (last (permits b ctx action resource)))"
    if "\<not> forbidden b ctx action resource"
    using scan_permit [of "pb_policies b" ctx action resource None] that
    unfolding forbidden_def permits_def by (simp add: Let_def)
  have e: "evaluate b agent action resource context =
      (case (fst ?s, snd ?s) of
         (_, Some _) \<Rightarrow> FORBID_EXPLICIT_POLICY
       | (Some p, None) \<Rightarrow> if shadow_permit p then PERMIT_WITH_SHADOW_CONSTRAINT else PERMIT
       | (None, None) \<Rightarrow> FORBID_DEFAULT_DENY)"
    using assms by (simp add: evaluate_def)
  show ?thesis
  proof (cases "forbidden b ctx action resource")
    case True
    then show ?thesis using f e by (cases ?s) (auto split: option.splits)
  next
    case False
    then have "snd ?s = None" using f by blast
    then show ?thesis using p [OF False] False e by (cases ?s) simp
  qed
qed

text \<open>
  C9: The scan computes the decision of the policy language. A request of another agent, then one
  outside the lanes, is refused as such; otherwise it is forbidden exactly when some applicable
  policy forbids it, whatever stands before or after, denied exactly when none permits it either,
  and permitted else, under the shadow constraint when the last applicable permit carries it.
\<close>

theorem evaluate_meets_specification:
  "evaluate b agent action resource cx =
     (let ctx = (case cx of None \<Rightarrow> [] | Some c \<Rightarrow> c) in
      if agent \<noteq> pb_agent_id b then FORBID_AGENT_NOT_PRINCIPAL
      else if lane_violation b resource then FORBID_LANE_VIOLATION
      else if \<exists>p \<in> set (pb_policies b). applies ctx action resource p \<and> po_effect p = ''forbid''
      then FORBID_EXPLICIT_POLICY
      else if \<not> (\<exists>p \<in> set (pb_policies b). applies ctx action resource p \<and> po_effect p = ''permit'')
      then FORBID_DEFAULT_DENY
      else if shadow_permit (last (permits b ctx action resource)) then PERMIT_WITH_SHADOW_CONSTRAINT
      else PERMIT)"
proof (cases "agent = pb_agent_id b \<and> \<not> lane_violation b resource")
  case True
  let ?ctx = "case cx of None \<Rightarrow> [] | Some c \<Rightarrow> c"
  have "(permits b ?ctx action resource = []) =
      (\<not> (\<exists>p \<in> set (pb_policies b). applies ?ctx action resource p \<and> po_effect p = ''permit''))"
    by (auto simp: permits_def filter_empty_conv)
  then show ?thesis
    using evaluate_cases [of agent b resource ?ctx cx action] True unfolding forbidden_def Let_def by auto
next
  case False
  then show ?thesis by (auto simp: evaluate_def Let_def)
qed

lemma evaluate_permit:
  "is_permit (evaluate b agent action resource context) \<longleftrightarrow>
     agent = pb_agent_id b \<and> \<not> lane_violation b resource \<and>
     permits b (case context of None \<Rightarrow> [] | Some c \<Rightarrow> c) action resource \<noteq> [] \<and>
     \<not> forbidden b (case context of None \<Rightarrow> [] | Some c \<Rightarrow> c) action resource"
proof (cases "agent = pb_agent_id b \<and> \<not> lane_violation b resource")
  case True
  then show ?thesis using evaluate_cases [of agent b resource _ "context" action]
    by (auto simp: is_permit_def)
next
  case False
  then show ?thesis by (auto simp: evaluate_def is_permit_def)
qed

subsection \<open>What a parsed bundle satisfies\<close>

definition wf_agent_id :: "string \<Rightarrow> bool" where
  "wf_agent_id s \<longleftrightarrow> startswith s ''0x'' \<and> length s = 66"

definition wf_action :: "string \<Rightarrow> bool" where
  "wf_action s \<longleftrightarrow> (\<exists>cat name. s = cat @ [CHR '':''] @ name \<and> cat \<in> VALID_CATEGORIES \<and> name \<noteq> [])"

definition wf_resource :: "string \<Rightarrow> bool" where
  "wf_resource s \<longleftrightarrow> s = ''*'' \<or> startswith s ''lane://'' \<or> startswith s ''draft://'' \<or> startswith s ''chain://''"

definition wf_policy :: "string \<Rightarrow> cedar_policy \<Rightarrow> bool" where
  "wf_policy agent p \<longleftrightarrow>
     po_id p \<noteq> [] \<and> po_effect p \<in> VALID_EFFECTS \<and> po_principal_agent_id p = agent \<and>
     wf_action (po_action p) \<and> wf_resource (po_resource p)"

definition wf_bundle :: "parsed_bundle \<Rightarrow> bool" where
  "wf_bundle b \<longleftrightarrow>
     wf_agent_id (pb_agent_id b) \<and> pb_phase b \<in> VALID_PHASES \<and> 1 \<le> pb_version b \<and> pb_issued_at_iso b \<noteq> [] \<and>
     (\<forall>p \<in> set (pb_policies b). wf_policy (pb_agent_id b) p)"

lemma validate_action_Inr: "validate_action v = Inr a \<Longrightarrow> wf_action a"
proof -
  assume "validate_action v = Inr a"
  then have "CHR '':'' \<in> set a" "before_sep (CHR '':'') a \<in> VALID_CATEGORIES" "after_sep (CHR '':'') a \<noteq> []"
    by (auto simp: validate_action_def split: json.splits if_splits)
  moreover from this(1) have "a = before_sep (CHR '':'') a @ [CHR '':''] @ after_sep (CHR '':'') a"
    by (induction a) (auto simp: before_sep_def after_sep_def)
  ultimately show ?thesis unfolding wf_action_def by blast
qed

lemma validate_resource_Inr: "validate_resource_scheme v = Inr r \<Longrightarrow> wf_resource r"
  by (auto simp: validate_resource_scheme_def wf_resource_def VALID_SCHEMES_def split: json.splits if_splits)

lemma require_member_Inr: "require_member v s msg = Inr x \<Longrightarrow> x \<in> s"
  by (auto simp: require_member_def member_of_def res_iff split: json.splits option.splits if_splits)

lemma nonempty_str_Inr: "nonempty_str v msg = Inr x \<Longrightarrow> x \<noteq> []"
  by (auto simp: nonempty_str_def split: json.splits if_splits)

lemma agent_id_str_Inr: "agent_id_str v msg = Inr x \<Longrightarrow> wf_agent_id x"
  by (auto simp: agent_id_str_def wf_agent_id_def split: json.splits if_splits)

lemma parse_policy_Inr:
  "parse_policy v = Inr p \<Longrightarrow> wf_policy (po_principal_agent_id p) p"
  unfolding parse_policy_def wf_policy_def
  by (auto simp: bindE_Inr dest!: validate_action_Inr validate_resource_Inr require_member_Inr nonempty_str_Inr)

lemma parse_policies_Inr:
  "parse_policies vs = Inr ps \<Longrightarrow> \<forall>p \<in> set ps. wf_policy (po_principal_agent_id p) p"
  by (induction vs arbitrary: ps) (auto simp: bindE_Inr dest: parse_policy_Inr)

lemma parse_bundle_Inr:
  assumes "parse_bundle fr v = Inr b"
  shows "wf_bundle b \<and> pb_merkle_root b = bundle_merkle_root fr v"
  using assms unfolding parse_bundle_def wf_bundle_def
  by (auto simp: bindE_Inr guardE_Inr list_all_iff
      dest!: require_member_Inr nonempty_str_Inr agent_id_str_Inr parse_policies_Inr split: option.splits if_splits)

text \<open>
  Whatever the JSON value, a bundle that parses has the shape the runtime relies on: a valid
  phase and version, policies for its own agent only, with a known effect, a known category of
  action with a name, and a resource of a known scheme; and it carries the root of the value.
\<close>

theorem parsed_bundle_is_well_formed:
  assumes "parse_bundle fr v = Inr b"
  shows "wf_bundle b \<and> pb_merkle_root b = bundle_merkle_root fr v"
  using parse_bundle_Inr [OF assms] .

definition demo_agent :: string where
  "demo_agent = ''0x'' @ replicate 64 (CHR ''a'')"

definition demo_bundle :: json where
  "demo_bundle = JObj
     [(''$schema'', JStr ''vapi-cedar-bundle-v1''), (''agent_id'', JStr demo_agent),
      (''issued_at_iso'', JStr ''2026-05-03''), (''lane_prefixes'', JArr [JStr ''audits/'']), (''phase'', JStr ''O1_SHADOW''),
      (''policies'', JArr [JObj
         [(''action'', JStr ''skill:read''), (''effect'', JStr ''permit''), (''id'', JStr ''P-001''),
          (''principal'', JObj [(''agentId'', JStr demo_agent)]), (''resource'', JStr ''lane://audits/**'')]]),
      (''version'', JInt 1)]"

lemma demo_agent_ok: "agent_id_str (JStr demo_agent) m = Inr demo_agent"
  by (simp add: agent_id_str_def demo_agent_def startswith_def)

lemma demo_resource: "validate_resource_scheme (JStr ''lane://audits/**'') = Inr ''lane://audits/**''"
proof -
  have "\<exists>scheme \<in> VALID_SCHEMES - {''*''}. startswith ''lane://audits/**'' scheme"
    by (rule bexI [of _ "''lane://''"]) (simp_all add: VALID_SCHEMES_def startswith_def)
  then show ?thesis by (simp add: validate_resource_scheme_def)
qed

lemma demo_bundle_parses:
  "\<exists>b. parse_bundle fr demo_bundle = Inr b \<and> pb_agent_id b = demo_agent \<and> pb_lane_prefixes b = [''audits/''] \<and>
     pb_policies b = [\<lparr>po_id = ''P-001'', po_effect = ''permit'', po_principal_agent_id = demo_agent,
       po_action = ''skill:read'', po_resource = ''lane://audits/**'', po_constraint = None\<rparr>]"
  by (simp add: parse_bundle_def demo_bundle_def as_dict_def jget_def dget_or_def demo_agent_ok require_member_def
      member_of_def VALID_PHASES_def VALID_EFFECTS_def nonempty_str_def parse_policy_def validate_action_def
      VALID_CATEGORIES_def before_sep_def after_sep_def demo_resource)

lemma parsed_bundle_is_well_formed_witness:
  "\<exists>b. parse_bundle (\<lambda>_. []) demo_bundle = Inr b \<and> wf_bundle b"
  using demo_bundle_parses [of "\<lambda>_. []"] parsed_bundle_is_well_formed by metis

end
