(* ===== verification/JsonRound.thy ===== *)
theory JsonRound
  imports JsonDump
begin

section \<open>Reading back canonical JSON\<close>

text \<open>
  The parser of theory \<open>Json\<close> inverts the encoder of theory \<open>JsonDump\<close> on values without floats whose
  texts are ASCII and whose objects have distinct keys: it returns the value with every object
  sorted by key. So the canonical bytes determine such a value up to the order of its keys.
\<close>

definition plain :: "string \<Rightarrow> bool" where
  "plain s = list_all (\<lambda>c. of_char c < (128 :: nat)) s"

primrec dumpable :: "json \<Rightarrow> bool" where
  "dumpable JNull = True"
| "dumpable (JBool b) = True"
| "dumpable (JInt i) = True"
| "dumpable (JFloat r) = False"
| "dumpable (JStr s) = plain s"
| "dumpable (JArr vs) = list_all id (map dumpable vs)"
| "dumpable (JObj kvs) =
     (distinct (map fst kvs) \<and> list_all (\<lambda>(k, ok). plain k \<and> ok) (map (map_prod id dumpable) kvs))"

primrec sorted_json :: "json \<Rightarrow> json" where
  "sorted_json JNull = JNull"
| "sorted_json (JBool b) = JBool b"
| "sorted_json (JInt i) = JInt i"
| "sorted_json (JFloat r) = JFloat r"
| "sorted_json (JStr s) = JStr s"
| "sorted_json (JArr vs) = JArr (map sorted_json vs)"
| "sorted_json (JObj kvs) = JObj (sort_key fst (map (map_prod id sorted_json) kvs))"

subsection \<open>Texts\<close>

lemma utf8_points_plain: "plain s \<Longrightarrow> utf8_points (map of_char s) = map of_char s"
proof (induction s)
  case Nil
  then show ?case by simp
next
  case (Cons c s)
  then have "of_char c < (128 :: nat)" "plain s" by (simp_all add: plain_def)
  then show ?case using Cons.IH by (simp add: utf8_width_def utf8_point_def)
qed

lemma of_char_hex_digit: "d < 16 \<Longrightarrow> of_char (hex_digit d) = (if d < 10 then 48 + d else 87 + d :: nat)"
  unfolding hex_digit_def by (simp add: of_char_of)

lemma hex_digit_val: "d < 16 \<Longrightarrow> hex_digit_val (hex_digit d) = Some d"
  unfolding hex_digit_val_def Let_def by (simp add: of_char_hex_digit)

lemma unicode_escape_u:
  assumes "n < 128"
  shows "unicode_escape (drop 2 (u_escape n) @ rest) = Some ([char_of n], rest)"
proof -
  have d: "n div 4096 mod 16 = 0" "n div 256 mod 16 = 0" "n div 16 mod 16 < 16" "n mod 16 < 16"
    "n div 16 mod 16 = n div 16" using assms by auto
  have "hex4 (drop 2 (u_escape n) @ rest) = Some (n, rest)"
    using hex_digit_val [of 0] hex_digit_val [OF d(3)] hex_digit_val [OF d(4)] d
    by (simp add: u_escape_def hex4_def)
  then show ?thesis using assms by (simp add: unicode_escape_def utf8_def)
qed

lemma parse_simple_escape:
  assumes "c \<in> {CHR 0x22, CHR 0x5C, CHR 0x0A, CHR 0x0D, CHR 0x09, CHR 0x0C, CHR 0x08}"
  shows "parse_string (Suc n) (escape_point (of_char c) @ rest) =
           map_option (\<lambda>(y, q). (c # y, q)) (parse_string n rest)"
  using assms by (elim insertE emptyE; simp add: escape_point_def simple_escape_def)

lemma parse_escape:
  assumes "of_char c < (128 :: nat)"
  shows "parse_string (Suc n) (escape_point (of_char c) @ rest) =
           map_option (\<lambda>(y, q). (c # y, q)) (parse_string n rest)"
proof -
  let ?n = "of_char c :: nat"
  have c: "char_of ?n = c" by simp
  have ch: "c = d" if "?n = of_char d" for d using that of_char_eq_iff by blast
  consider (simple) "?n \<in> {34, 92, 10, 13, 9, 12, 8}"
    | (printed) "32 \<le> ?n" "?n \<le> 126" "?n \<notin> {34, 92}"
    | (coded) "?n < 32 \<or> ?n = 127" "?n \<notin> {10, 13, 9, 12, 8}"
    using assms by force
  then show ?thesis
  proof cases
    case simple
    then have "c \<in> {CHR 0x22, CHR 0x5C, CHR 0x0A, CHR 0x0D, CHR 0x09, CHR 0x0C, CHR 0x08}"
      using ch [of "CHR 0x22"] ch [of "CHR 0x5C"] ch [of "CHR 0x0A"] ch [of "CHR 0x0D"] ch [of "CHR 0x09"]
        ch [of "CHR 0x0C"] ch [of "CHR 0x08"] by auto
    then show ?thesis by (rule parse_simple_escape)
  next
    case printed
    then have "c \<noteq> CHR 0x22" "c \<noteq> CHR 0x5C" by auto
    then show ?thesis using printed by (simp add: escape_point_def)
  next
    case coded
    then have e: "escape_point ?n = u_escape ?n" using assms by (auto simp: escape_point_def)
    have u: "u_escape ?n = CHR 0x5C # CHR ''u'' # drop 2 (u_escape ?n)" by (simp add: u_escape_def)
    have "parse_string (Suc n) (CHR 0x5C # CHR ''u'' # drop 2 (u_escape ?n) @ rest) =
        map_option (\<lambda>(y, q). (c # y, q)) (parse_string n rest)"
      using unicode_escape_u [OF assms] c by simp
    then show ?thesis unfolding e by (subst u) simp
  qed
qed

definition string_body :: "string \<Rightarrow> string" where
  "string_body s = concat (map (\<lambda>c. escape_point (of_char c)) s)"

lemma dump_string_plain: "plain s \<Longrightarrow> dump_string s = CHR 0x22 # string_body s @ [CHR 0x22]"
  by (simp add: dump_string_def string_body_def utf8_points_plain comp_def)

lemma escape_point_nonempty: "escape_point n \<noteq> []"
  by (simp add: escape_point_def u_escape_def)

lemma length_string_body: "length s \<le> length (string_body s)"
proof (induction s)
  case (Cons c s)
  have "1 \<le> length (escape_point (of_char c))"
    using escape_point_nonempty [of "of_char c"] by (cases "escape_point (of_char c)") auto
  then show ?case using Cons by (simp add: string_body_def)
qed (simp add: string_body_def)

lemma parse_string_body:
  assumes "plain s" and "length s < n"
  shows "parse_string n (string_body s @ CHR 0x22 # rest) = Some (s, rest)"
  using assms
proof (induction s arbitrary: n)
  case Nil
  then show ?case by (cases n) (simp_all add: string_body_def)
next
  case (Cons c s)
  then obtain m where n: "n = Suc m" "length s < m" by (cases n) auto
  have "of_char c < (128 :: nat)" "plain s" using Cons.prems(1) by (simp_all add: plain_def)
  then show ?case using parse_escape Cons.IH [OF _ n(2)] by (simp add: n(1) string_body_def)
qed

subsection \<open>Numbers\<close>

lemma hd_dec_nat: "10 \<le> n \<Longrightarrow> hd (dec_nat n) \<noteq> CHR ''0''"
proof (induction n rule: dec_nat.induct)
  case (1 n)
  have d: "dec_nat n = dec_nat (n div 10) @ [digit_char (n mod 10)]"
    using "1.prems" by (subst dec_nat.simps) simp
  show ?case
  proof (cases "10 \<le> n div 10")
    case True
    then show ?thesis using 1 d by simp
  next
    case False
    then have "dec_nat (n div 10) = [digit_char (n div 10)]" by (subst dec_nat.simps) simp
    moreover have "of_char (digit_char (n div 10)) \<noteq> (48 :: nat)"
      using False "1.prems" by (simp add: of_char_digit)
    ultimately show ?thesis using d by auto
  qed
qed

definition delimited :: "string \<Rightarrow> bool" where
  "delimited rest \<longleftrightarrow> rest = [] \<or> hd rest \<in> {CHR '','', CHR '']'', CHR ''}''}"

lemma delimited_simps [simp]:
  "delimited []" "delimited (CHR '','' # r)" "delimited (CHR '']'' # r)" "delimited (CHR ''}'' # r)"
  by (simp_all add: delimited_def)

lemma delimited_rest:
  assumes "delimited rest"
  shows "takeWhile is_digit rest = []" "take_fraction rest = None" "take_exponent rest = None"
  using assms by (cases rest; auto simp: delimited_def is_digit_def take_fraction_def take_exponent_def)+

lemma takeWhile_digits:
  assumes "delimited rest"
  shows "takeWhile is_digit (dec_nat n @ rest) = dec_nat n"
  using dec_nat_digits [of n] delimited_rest(1) [OF assms] by (simp add: list_all_iff takeWhile_append2)

lemma dec_nat_zero_head: "(if startswith (dec_nat n) ''0'' then ''0'' else dec_nat n) = dec_nat n"
proof (cases "n < 10")
  case True
  then show ?thesis by (subst (1 2 3) dec_nat.simps) (auto simp: startswith_def)
next
  case False
  then have "\<not> startswith (dec_nat n) ''0''" using hd_dec_nat [of n] by (cases "dec_nat n") (auto simp: startswith_def)
  then show ?thesis by simp
qed

lemma parse_digits:
  assumes "delimited rest" and "(case s of c # r \<Rightarrow> if c = CHR ''-'' then (True, r) else (False, s) | [] \<Rightarrow> (False, s))
      = (neg, dec_nat n @ rest)"
  shows "parse_number s = Some (JInt (if neg then - int n else int n), rest)"
proof -
  have "parse_number s =
      (let ip = dec_nat n; s2 = drop (length ip) (ip @ rest); fr = take_fraction s2;
           s3 = (case fr of None \<Rightarrow> s2 | Some (_, r) \<Rightarrow> r); ex = take_exponent s3
       in if ip = [] then None
          else if fr = None \<and> ex = None
          then Some (JInt (if neg then - int (digits_val ip) else int (digits_val ip)), s2)
          else
            (let v = decimal_value ip (case fr of None \<Rightarrow> [] | Some (f, _) \<Rightarrow> f)
                       (case ex of None \<Rightarrow> 0 | Some (e, _) \<Rightarrow> e)
             in Some (JFloat (if neg then - v else v), (case ex of None \<Rightarrow> s3 | Some (_, r) \<Rightarrow> r))))"
    unfolding parse_number_def Let_def assms(2) prod.case takeWhile_digits [OF assms(1)] dec_nat_zero_head by (rule refl)
  then show ?thesis using delimited_rest [OF assms(1)] by (simp add: digits_val_dec_nat Let_def)
qed

lemma parse_int_text:
  assumes "delimited rest"
  shows "parse_number (dec_int i @ rest) = Some (JInt i, rest)"
proof (cases "i < 0")
  case True
  then show ?thesis using parse_digits [OF assms, of "dec_int i @ rest" True "nat (- i)"] by (simp add: dec_int_def)
next
  case False
  obtain c cs where d: "dec_nat (nat i) = c # cs" by (cases "dec_nat (nat i)") auto
  have "c \<noteq> CHR ''-''" using dec_nat_digits [of "nat i"] d by (auto simp: is_digit_def)
  then show ?thesis
    using parse_digits [OF assms, of "dec_int i @ rest" False "nat i"] False d by (simp add: dec_int_def)
qed

subsection \<open>Values\<close>

lemma sort_key_map_prod:
  fixes kvs :: "(string \<times> 'a) list"
  shows "sort_key fst (map (map_prod id f) kvs) = map (map_prod id f) (sort_key fst kvs)"
proof -
  have ins: "insort_key fst (map_prod id f x) (map (map_prod id f) xs) = map (map_prod id f) (insort_key fst x xs)"
    for x and xs :: "(string \<times> 'a) list"
    by (induction xs) auto
  show ?thesis
  proof (induction kvs)
    case (Cons x kvs)
    then show ?case unfolding list.map(2) sort_key_simps by (simp only: ins)
  qed simp
qed

lemma dec_int_head: "\<exists>c r. dec_int i = c # r \<and> (is_digit c \<or> c = CHR ''-'')"
proof (cases "i < 0")
  case True
  then show ?thesis by (simp add: dec_int_def)
next
  case False
  obtain c cs where d: "dec_nat (nat i) = c # cs" by (cases "dec_nat (nat i)") auto
  then show ?thesis using dec_nat_digits [of "nat i"] False by (simp add: dec_int_def)
qed

lemma digit_not:
  assumes "is_digit c \<or> c = CHR ''-''"
  shows "\<not> is_ws c" "c \<noteq> CHR 0x22" "c \<noteq> CHR ''{''" "c \<noteq> CHR ''[''" "c \<noteq> CHR ''n''" "c \<noteq> CHR ''t''" "c \<noteq> CHR ''f''"
    "c \<noteq> CHR '']''" "c \<noteq> CHR ''}''"
  using assms by (auto simp: is_digit_def is_ws_def)

lemma dumps_head:
  assumes "dumpable v"
  shows "\<exists>c r. json_dumps fr v = c # r \<and> \<not> is_ws c \<and> c \<noteq> CHR '']'' \<and> c \<noteq> CHR ''}''"
proof (cases v)
  case (JInt i)
  then show ?thesis using dec_int_head [of i] digit_not by fastforce
next
  case (JStr s)
  then show ?thesis using assms by (simp add: dump_string_plain is_ws_def)
qed (use assms in \<open>auto simp: is_ws_def\<close>)

lemma skip_ws_dumps: "dumpable v \<Longrightarrow> skip_ws (json_dumps fr v @ x) = json_dumps fr v @ x"
  using dumps_head [of v fr] by (auto simp: skip_ws_def)

definition reads_back :: "(real \<Rightarrow> string) \<Rightarrow> json \<Rightarrow> bool" where
  "reads_back fr v \<longleftrightarrow>
     (\<forall>n rest. 2 * length (json_dumps fr v) \<le> n \<longrightarrow> delimited rest \<longrightarrow>
        parse_value n (json_dumps fr v @ rest) = Some (sorted_json v, rest))"

lemma parse_elems_back:
  assumes "vs \<noteq> []" and "\<forall>v \<in> set vs. dumpable v \<and> reads_back fr v"
    and "2 * length (join '','' (map (json_dumps fr) vs)) + 1 \<le> n"
  shows "parse_elems n (join '','' (map (json_dumps fr) vs) @ CHR '']'' # rest) = Some (map sorted_json vs, rest)"
  using assms
proof (induction vs arbitrary: n)
  case (Cons v vs)
  obtain m where n: "n = Suc m" using Cons.prems(3) by (cases n) auto
  have v: "dumpable v" "reads_back fr v" using Cons.prems(2) by simp_all
  show ?case
  proof (cases vs)
    case Nil
    have "parse_value m (json_dumps fr v @ CHR '']'' # rest) = Some (sorted_json v, CHR '']'' # rest)"
      using v(2) Cons.prems(3) by (simp add: reads_back_def n Nil)
    then show ?thesis by (simp add: n Nil skip_ws_def is_ws_def)
  next
    case (Cons w ws)
    let ?js = "join '','' (map (json_dumps fr) vs)"
    have j: "join '','' (map (json_dumps fr) (v # vs)) = json_dumps fr v @ CHR '','' # ?js"
      by (simp add: Cons)
    have m: "2 * length (json_dumps fr v) \<le> m" "2 * length ?js + 1 \<le> m"
      using Cons.prems(3) unfolding j n by simp_all
    have "parse_value m (json_dumps fr v @ CHR '','' # ?js @ CHR '']'' # rest)
        = Some (sorted_json v, CHR '','' # ?js @ CHR '']'' # rest)"
      using v(2) m(1) by (simp add: reads_back_def)
    moreover have "parse_elems m (?js @ CHR '']'' # rest) = Some (map sorted_json vs, rest)"
      using Cons.IH m(2) Cons.prems(2) Cons by simp
    moreover have "skip_ws (?js @ CHR '']'' # rest) = ?js @ CHR '']'' # rest"
    proof -
      have "dumpable w" using Cons.prems(2) Cons by simp
      then obtain c r where "json_dumps fr w = c # r" "\<not> is_ws c" using dumps_head [of w fr] by blast
      then show ?thesis using Cons by (cases ws) (simp_all add: skip_ws_def)
    qed
    ultimately show ?thesis unfolding j n by (simp add: skip_ws_def is_ws_def)
  qed
qed simp

definition members_text :: "(real \<Rightarrow> string) \<Rightarrow> (string \<times> json) list \<Rightarrow> string" where
  "members_text fr ps = join '','' (map (\<lambda>(k, v). dump_string k @ '':'' @ json_dumps fr v) ps)"

lemma members_text_simps:
  "members_text fr [] = []"
  "members_text fr [(k, v)] = dump_string k @ '':'' @ json_dumps fr v"
  "members_text fr ((k, v) # p # ps) = dump_string k @ '':'' @ json_dumps fr v @ '','' @ members_text fr (p # ps)"
  by (simp_all add: members_text_def split: prod.splits)

lemma json_dumps_object:
  "json_dumps fr (JObj kvs) = ''{'' @ members_text fr (sort_key fst kvs) @ ''}''"
  unfolding members_text_def json_dumps.simps sort_key_map_prod by (simp add: comp_def case_prod_unfold)

lemma dump_string_head: "\<exists>r. dump_string k = CHR 0x22 # r"
  by (simp add: dump_string_def)

lemma members_text_head: "ps \<noteq> [] \<Longrightarrow> \<exists>r. members_text fr ps = CHR 0x22 # r"
  by (cases ps; cases "tl ps") (auto simp: members_text_def dump_string_def)

lemma parse_key:
  assumes "plain k"
  shows "parse_string (length (dump_string k @ x)) (drop 1 (dump_string k @ x)) = Some (k, x)"
proof -
  have "length k < length (dump_string k @ x)"
    using length_string_body [of k] by (simp add: dump_string_plain assms)
  then show ?thesis using parse_string_body [OF assms, of _ x] by (simp add: dump_string_plain assms)
qed

lemma dput_new: "k \<notin> set (dkeys d) \<Longrightarrow> dput k v d = d @ [(k, v)]"
  by (induction d) (auto simp: dkeys_def)

lemma parse_member:
  assumes "plain k" and "dumpable v"
    and "parse_value n (json_dumps fr v @ c # x) = Some (w, c # x)" and "\<not> is_ws c"
  shows "parse_members (Suc n) d (dump_string k @ '':'' @ json_dumps fr v @ c # x) =
      (if c = CHR ''}'' then Some (dput k w d, x)
       else if c = CHR '','' then parse_members n (dput k w d) (skip_ws x) else None)"
proof -
  let ?s = "dump_string k @ '':'' @ json_dumps fr v @ c # x"
  have "parse_string (length ?s) (drop 1 ?s) = Some (k, '':'' @ json_dumps fr v @ c # x)"
    using assms(1) by (rule parse_key)
  moreover have "startswith ?s [CHR 0x22]" by (simp add: dump_string_def startswith_def)
  moreover have "skip_ws ('':'' @ json_dumps fr v @ c # x) = '':'' @ json_dumps fr v @ c # x"
    by (simp add: skip_ws_def is_ws_def)
  moreover have "skip_ws (c # x) = c # x" using assms(4) by (simp add: skip_ws_def)
  ultimately show ?thesis
    unfolding parse_members.simps using skip_ws_dumps [OF assms(2)] assms(3) by (simp add: startswith_def)
qed

lemma parse_members_back:
  assumes "ps \<noteq> []" and "\<forall>(k, v) \<in> set ps. plain k \<and> dumpable v \<and> reads_back fr v"
    and "distinct (dkeys (d @ ps))" and "2 * length (members_text fr ps) + 1 \<le> n"
  shows "parse_members n d (members_text fr ps @ CHR ''}'' # rest) =
           Some (d @ map (map_prod id sorted_json) ps, rest)"
  using assms
proof (induction ps arbitrary: n d)
  case (Cons p ps)
  obtain k v where p: "p = (k, v)" by fastforce
  obtain m where n: "n = Suc m" using Cons.prems(4) by (cases n) auto
  have kv: "plain k" "dumpable v" "reads_back fr v" "k \<notin> set (dkeys d)" using Cons.prems(2,3) p by (auto simp: dkeys_def)
  have put: "dput k (sorted_json v) d = d @ [(k, sorted_json v)]" using kv(4) by (rule dput_new)
  show ?case
  proof (cases ps)
    case Nil
    have "parse_value m (json_dumps fr v @ CHR ''}'' # rest) = Some (sorted_json v, CHR ''}'' # rest)"
      using kv(3) Cons.prems(4) by (simp add: reads_back_def n Nil p members_text_simps)
    then show ?thesis
      using parse_member [OF kv(1,2), of m fr "CHR ''}''" rest "sorted_json v" d]
      by (simp add: n Nil p members_text_simps put is_ws_def)
  next
    case (Cons q qs)
    let ?js = "members_text fr ps"
    have j: "members_text fr (p # ps) = dump_string k @ '':'' @ json_dumps fr v @ '','' @ ?js"
      by (simp add: Cons p members_text_simps)
    have m: "2 * length (json_dumps fr v) \<le> m" "2 * length ?js + 1 \<le> m"
      using Cons.prems(4) unfolding j n by simp_all
    have "parse_value m (json_dumps fr v @ CHR '','' # ?js @ CHR ''}'' # rest)
        = Some (sorted_json v, CHR '','' # ?js @ CHR ''}'' # rest)"
      using kv(3) m(1) by (simp add: reads_back_def)
    from parse_member [OF kv(1,2) this, of d]
    have "parse_members n d (members_text fr (p # ps) @ CHR ''}'' # rest) =
        parse_members m (d @ [(k, sorted_json v)]) (skip_ws (?js @ CHR ''}'' # rest))"
      unfolding j n by (simp add: put is_ws_def)
    also have "skip_ws (?js @ CHR ''}'' # rest) = ?js @ CHR ''}'' # rest"
      using members_text_head [of ps fr] Cons by (auto simp: skip_ws_def is_ws_def)
    also have "parse_members m (d @ [(k, sorted_json v)]) (?js @ CHR ''}'' # rest) =
        Some ((d @ [(k, sorted_json v)]) @ map (map_prod id sorted_json) ps, rest)"
      (is "_ = ?r")
    proof (rule Cons.IH [OF _ _ _ m(2)])
      show "distinct (dkeys ((d @ [(k, sorted_json v)]) @ ps))" using Cons.prems(3) p by (auto simp: dkeys_def)
    qed (use Cons.prems(2) Cons in auto)
    also have "?r = Some (d @ map (map_prod id sorted_json) ((k, v) # ps), rest)" by simp
    finally show ?thesis unfolding p .
  qed
qed simp

subsection \<open>The round trip\<close>

lemma elems_text_head:
  "vs \<noteq> [] \<Longrightarrow> \<forall>v \<in> set vs. dumpable v \<Longrightarrow>
     \<exists>c r. join '','' (map (json_dumps fr) vs) = c # r \<and> \<not> is_ws c \<and> c \<noteq> CHR '']''"
proof (cases vs)
  case (Cons v ws)
  assume "\<forall>v \<in> set vs. dumpable v"
  with Cons obtain c r where "json_dumps fr v = c # r" "\<not> is_ws c" "c \<noteq> CHR '']''"
    using dumps_head [of v fr] by auto
  then show ?thesis using Cons by (cases ws) auto
qed simp

lemma reads_back_array:
  assumes "\<forall>v \<in> set vs. dumpable v \<and> reads_back fr v"
  shows "reads_back fr (JArr vs)"
  unfolding reads_back_def
proof (intro allI impI)
  fix n rest
  assume n: "2 * length (json_dumps fr (JArr vs)) \<le> n" and "delimited rest"
  obtain m where m: "n = Suc m" using n by (cases n) auto
  show "parse_value n (json_dumps fr (JArr vs) @ rest) = Some (sorted_json (JArr vs), rest)"
  proof (cases "vs = []")
    case True
    then show ?thesis by (simp add: m skip_ws_def is_ws_def startswith_def)
  next
    case False
    let ?js = "join '','' (map (json_dumps fr) vs)"
    obtain c r where c: "?js = c # r" "\<not> is_ws c" "c \<noteq> CHR '']''"
      using elems_text_head [OF False, of fr] assms by auto
    have "parse_elems m (?js @ CHR '']'' # rest) = Some (map sorted_json vs, rest)"
      using parse_elems_back [OF False assms, of m rest] n m by simp
    then show ?thesis using c by (simp add: m skip_ws_def startswith_def)
  qed
qed

lemma reads_back_object:
  assumes "\<forall>(k, v) \<in> set kvs. plain k \<and> dumpable v \<and> reads_back fr v" and "distinct (map fst kvs)"
  shows "reads_back fr (JObj kvs)"
  unfolding reads_back_def
proof (intro allI impI)
  fix n rest
  let ?ps = "sort_key fst kvs"
  assume n: "2 * length (json_dumps fr (JObj kvs)) \<le> n" and "delimited rest"
  obtain m where m: "n = Suc m" using n by (cases n) auto
  have l: "2 * length (members_text fr ?ps) + 1 \<le> m"
    using n m unfolding json_dumps_object by simp
  show "parse_value n (json_dumps fr (JObj kvs) @ rest) = Some (sorted_json (JObj kvs), rest)"
  proof (cases "kvs = []")
    case True
    then show ?thesis by (simp add: m skip_ws_def is_ws_def startswith_def)
  next
    case False
    then have ne: "?ps \<noteq> []" by (metis length_0_conv length_sort)
    have d: "distinct (dkeys ([] @ ?ps))"
      using assms(2) by (simp add: dkeys_def distinct_map)
    obtain r where "members_text fr ?ps = CHR 0x22 # r" using members_text_head [OF ne] by blast
    moreover have "parse_members m [] (members_text fr ?ps @ CHR ''}'' # rest) =
        Some (map (map_prod id sorted_json) ?ps, rest)"
      using parse_members_back [OF ne _ d l, of rest] assms(1) by simp
    ultimately show ?thesis
      unfolding json_dumps_object by (simp add: m skip_ws_def is_ws_def startswith_def sort_key_map_prod)
  qed
qed

lemma reads_back_int: "reads_back fr (JInt i)"
  unfolding reads_back_def
proof (intro allI impI)
  fix n rest
  assume n: "2 * length (json_dumps fr (JInt i)) \<le> n" and d: "delimited rest"
  obtain c r where c: "dec_int i = c # r" "is_digit c \<or> c = CHR ''-''" using dec_int_head by blast
  obtain m where m: "n = Suc m" using n c(1) by (cases n) auto
  have "parse_value (Suc m) (c # r @ rest) = parse_number (c # r @ rest)"
    unfolding parse_value.simps list.case using digit_not [OF c(2)]
    by (simp only: if_False startswith_def) simp
  then show "parse_value n (json_dumps fr (JInt i) @ rest) = Some (sorted_json (JInt i), rest)"
    using parse_int_text [OF d, of i] unfolding json_dumps.simps c m append_Cons by simp
qed

lemma reads_back_string: "plain s \<Longrightarrow> reads_back fr (JStr s)"
  unfolding reads_back_def
proof (intro allI impI)
  fix n rest
  assume s: "plain s" and n: "2 * length (json_dumps fr (JStr s)) \<le> n"
  obtain m where m: "n = Suc m" using n s by (cases n) (auto simp: dump_string_plain)
  show "parse_value n (json_dumps fr (JStr s) @ rest) = Some (sorted_json (JStr s), rest)"
    using parse_key [OF s, of rest] by (simp add: m dump_string_plain [OF s])
qed

lemma reads_back_word: "reads_back fr JNull" "reads_back fr (JBool b)"
proof -
  have "parse_value n (''null'' @ rest) = Some (JNull, rest)"
    "parse_value n (''true'' @ rest) = Some (JBool True, rest)"
    "parse_value n (''false'' @ rest) = Some (JBool False, rest)" if "2 \<le> n" for n rest
    using that by (cases n; simp add: startswith_def)+
  then show "reads_back fr JNull" "reads_back fr (JBool b)" by (auto simp: reads_back_def)
qed

lemma dumpable_reads_back: "dumpable v \<Longrightarrow> reads_back fr v"
proof (induction v)
  case (JInt i)
  show ?case by (rule reads_back_int)
next
  case (JStr s)
  then show ?case by (intro reads_back_string) simp
next
  case (JArr vs)
  then show ?case by (intro reads_back_array) (simp add: list_all_iff)
next
  case (JObj kvs)
  then show ?case by (intro reads_back_object) (auto simp: list_all_iff)
qed (simp_all add: reads_back_word)

lemma loads_dumps:
  assumes "dumpable v"
  shows "json_loads (json_dumps fr v) = Some (sorted_json v)"
proof -
  have "parse_value (2 * length (json_dumps fr v) + 2) (json_dumps fr v @ []) = Some (sorted_json v, [])"
    using dumpable_reads_back [OF assms, of fr] unfolding reads_back_def
    by (elim allE impE) (rule le_add1, rule delimited_simps(1))
  then show ?thesis using skip_ws_dumps [OF assms, of fr "[]"] by (simp add: json_loads_def skip_ws_def)
qed

text \<open>
  JSON round trip: \<open>json.loads\<close> of the canonical text of a value (sorted keys, no
  blanks) gives the value back, its objects sorted by key. This holds for every value without floats
  whose texts are ASCII and whose objects have distinct keys.
\<close>

theorem canonical_json_round_trip:
  assumes "dumpable v"
  shows "json_loads (json_dumps fr v) = Some (sorted_json v)"
  using assms by (rule loads_dumps)

theorem canonical_json_round_trip_witness:
  "json_loads (json_dumps (\<lambda>r. []) (JObj [(''b'', JArr [JInt (-12), JNull]), (''a'', JStr ''x'')])) =
     Some (JObj [(''a'', JStr ''x''), (''b'', JArr [JInt (-12), JNull])])"
proof -
  let ?v = "JObj [(''b'', JArr [JInt (-12), JNull]), (''a'', JStr ''x'')]"
  have "dumpable ?v" by (simp add: plain_def)
  moreover have "sorted_json ?v = JObj [(''a'', JStr ''x''), (''b'', JArr [JInt (-12), JNull])]" by simp
  ultimately show ?thesis using canonical_json_round_trip [of ?v "\<lambda>r. []"] by simp
qed

lemma canonical_text_injective:
  assumes "dumpable v" and "dumpable w" and "json_dumps fr v = json_dumps fr w"
  shows "sorted_json v = sorted_json w"
  using loads_dumps [OF assms(1), of fr] loads_dumps [OF assms(2), of fr] assms(3) by simp

end
