(* ===== verification/CedarRuntime.thy ===== *)
theory CedarRuntime
  imports Cedar JsonRound
begin

section \<open>Evaluation of agent actions and drift of the bundles\<close>

text \<open>
  \<open>cedar_shadow_runtime.py\<close> and the store functions it calls: where an agent's bundle lies, one
  evaluation with its log row, and the two drift sweeps. The file system is a function from paths to
  files, paths are those of \<open>pathlib\<close> on POSIX, and the chain reads of the scope sweep are
  arguments. One reading of the clock serves one call.
\<close>

subsection \<open>Paths and files\<close>

definition path_parts :: "string \<Rightarrow> string list" where
  "path_parts s = filter (\<lambda>p. p \<noteq> [] \<and> p \<noteq> ''.'') (split_on (CHR ''/'') s)"

definition path_absolute :: "string \<Rightarrow> bool" where
  "path_absolute s = startswith s ''/''"

definition path_str :: "string \<Rightarrow> string" where
  "path_str s =
     (let body = join ''/'' (path_parts s) in
      if path_absolute s then ''/'' @ body else if body = [] then ''.'' else body)"

definition path_join :: "string \<Rightarrow> string \<Rightarrow> string" where
  "path_join d n =
     (if path_absolute n then path_str n
      else if path_parts d = [] \<and> \<not> path_absolute d then path_str n
      else path_str (d @ ''/'' @ n))"

datatype fs_entry = Missing | Unreadable py_exc | Content string

subsection \<open>Tables\<close>

record cedar_cfg =
  cc_sentry_id :: string
  cc_guardian_id :: string
  cc_curator_id :: string
  cc_bundle_dir :: string

record activation_row =
  ac_agent_id :: string
  ac_to_scope_root :: string
  ac_bundle_path :: string
  ac_activated_at :: real

record shadow_row =
  sh_agent_id :: string
  sh_action :: string
  sh_resource :: string
  sh_context_json :: string
  sh_decision :: string
  sh_merkle_root :: string
  sh_bundle_path :: string
  sh_payload_hash :: string
  sh_source :: string
  sh_evaluated_at :: real
  sh_bucket :: int

record drift_row =
  dr_agent_id :: string
  dr_type :: string
  dr_expected :: string
  dr_actual :: string
  dr_bundle_path :: string
  dr_evidence_json :: string
  dr_sweep_id :: string
  dr_detected_at :: real
  dr_bucket :: int

record cedar_db =
  cd_activations :: "activation_row list"
  cd_shadow :: "shadow_row list"
  cd_drift :: "drift_row list"

definition get_operator_agent_activation_log :: "cedar_db \<Rightarrow> string option \<Rightarrow> int \<Rightarrow> activation_row list" where
  "get_operator_agent_activation_log db agent limit =
     (let n = max 1 (min 200 limit);
          rows = (case agent of None \<Rightarrow> cd_activations db
                  | Some a \<Rightarrow> filter (\<lambda>r. ac_agent_id r = a) (cd_activations db))
      in sql_limit n (order_desc ac_activated_at rows))"

text \<open>The id of the first row with a property: a row's id is its place in the table.\<close>

fun row_id_from :: "nat \<Rightarrow> ('r \<Rightarrow> bool) \<Rightarrow> 'r list \<Rightarrow> nat option" where
  "row_id_from i P [] = None"
| "row_id_from i P (r # rs) = (if P r then Some i else row_id_from (Suc i) P rs)"

definition same_shadow_key :: "shadow_row \<Rightarrow> shadow_row \<Rightarrow> bool" where
  "same_shadow_key r s \<longleftrightarrow>
     sh_agent_id r = sh_agent_id s \<and> sh_action r = sh_action s \<and> sh_resource r = sh_resource s \<and>
     sh_bucket r = sh_bucket s"

text \<open>\<open>INSERT OR IGNORE\<close> under a unique key: a second row with the key is dropped.\<close>

definition insert_operator_agent_shadow_log :: "cedar_db \<Rightarrow> shadow_row \<Rightarrow> cedar_db \<times> nat" where
  "insert_operator_agent_shadow_log db row =
     (case row_id_from 1 (same_shadow_key row) (cd_shadow db) of
        Some i \<Rightarrow> (db, i)
      | None \<Rightarrow> (db\<lparr>cd_shadow := cd_shadow db @ [row]\<rparr>, length (cd_shadow db) + 1))"

definition same_drift_key :: "drift_row \<Rightarrow> drift_row \<Rightarrow> bool" where
  "same_drift_key r s \<longleftrightarrow>
     dr_agent_id r = dr_agent_id s \<and> dr_type r = dr_type s \<and> dr_bucket r = dr_bucket s"

definition insert_operator_agent_drift :: "cedar_db \<Rightarrow> drift_row \<Rightarrow> cedar_db \<times> nat" where
  "insert_operator_agent_drift db row =
     (case row_id_from 1 (same_drift_key row) (cd_drift db) of
        Some i \<Rightarrow> (db, i)
      | None \<Rightarrow> (db\<lparr>cd_drift := cd_drift db @ [row]\<rparr>, length (cd_drift db) + 1))"

subsection \<open>Where a bundle lies\<close>

text \<open>
  \<open>lost\<close> says of which agents a lookup in the activation log raises. Resolving a path then falls
  back to the first bundle of the agent, and the sweep below goes on to the next agent.
\<close>

definition resolve_bundle_path :: "string \<Rightarrow> cedar_cfg \<Rightarrow> string" where
  "resolve_bundle_path p cfg =
     (if path_absolute p \<or> 2 \<le> length (path_parts p) then path_str p else path_join (cc_bundle_dir cfg) p)"

definition bundle_path_for_agent :: "(string \<Rightarrow> bool) \<Rightarrow> string \<Rightarrow> cedar_cfg \<Rightarrow> cedar_db \<Rightarrow> string option" where
  "bundle_path_for_agent lost agent cfg db =
     (let aid = lower agent;
          prefix = (if aid = lower (cc_sentry_id cfg) then Some ''anchor_sentry''
                    else if aid = lower (cc_guardian_id cfg) then Some ''guardian''
                    else if aid = lower (cc_curator_id cfg) then Some ''curator''
                    else None)
      in case prefix of
           None \<Rightarrow> None
         | Some pre \<Rightarrow>
             (let fallback = path_join (cc_bundle_dir cfg) (pre @ ''_o1_shadow_v1.json'') in
              if lost aid then Some fallback
              else case first_row (get_operator_agent_activation_log db (Some aid) 1) of
                     None \<Rightarrow> Some fallback
                   | Some r \<Rightarrow>
                       if ac_bundle_path r = [] then Some fallback
                       else Some (resolve_bundle_path (ac_bundle_path r) cfg)))"

definition load_bundle :: "fs_entry \<Rightarrow> json res" where
  "load_bundle f =
     (case f of
        Missing \<Rightarrow> Inl (PyExc ''FileNotFoundError'' ''No such file or directory'')
      | Unreadable e \<Rightarrow> Inl e
      | Content text \<Rightarrow>
          (case json_loads text of None \<Rightarrow> Inl (PyExc ''JSONDecodeError'' ''Expecting value'') | Some v \<Rightarrow> Inr v))"

definition root_hex :: "(real \<Rightarrow> string) \<Rightarrow> json \<Rightarrow> string" where
  "root_hex fr v = ''0x'' @ hex (bundle_merkle_root fr v)"

subsection \<open>One evaluation\<close>

record shadow_eval =
  se_agent_id :: string
  se_action :: string
  se_resource :: string
  se_decision :: cedar_decision
  se_merkle_root_hex :: string
  se_bundle_path :: string
  se_row_id :: nat
  se_error :: "string option"

record eval_request =
  rq_agent_id :: string
  rq_action :: string
  rq_resource :: string
  rq_context :: "jobject option"
  rq_payload_hash :: string
  rq_source :: string

text \<open>\<open>fails\<close> says that the insertion raises, which is logged and leaves the row id at 0.\<close>

definition persist_and_return ::
  "(real \<Rightarrow> string) \<Rightarrow> bool \<Rightarrow> real \<Rightarrow> cedar_db \<Rightarrow> eval_request \<Rightarrow> cedar_decision \<Rightarrow> string \<Rightarrow> string
     \<Rightarrow> string option \<Rightarrow> cedar_db \<times> shadow_eval" where
  "persist_and_return fr fails now db rq decision mroot path err =
     (let ctx = (case rq_context rq of None \<Rightarrow> [] | Some c \<Rightarrow> c);
          row = \<lparr>sh_agent_id = rq_agent_id rq, sh_action = rq_action rq, sh_resource = rq_resource rq,
                 sh_context_json = json_dumps fr (JObj ctx), sh_decision = decision_value decision,
                 sh_merkle_root = mroot, sh_bundle_path = path, sh_payload_hash = rq_payload_hash rq,
                 sh_source = rq_source rq, sh_evaluated_at = now, sh_bucket = trunc now\<rparr>;
          (db1, row_id) = (if fails then (db, 0) else insert_operator_agent_shadow_log db row)
      in (db1, \<lparr>se_agent_id = rq_agent_id rq, se_action = rq_action rq, se_resource = rq_resource rq,
                se_decision = decision, se_merkle_root_hex = mroot, se_bundle_path = path,
                se_row_id = row_id, se_error = err\<rparr>))"

text \<open>
  The steps up to the row. Computing the root and evaluating cannot raise on a value that came out of
  the JSON parser, so the two handlers around them are never entered.
\<close>

definition decide ::
  "(real \<Rightarrow> string) \<Rightarrow> cedar_cfg \<Rightarrow> (string \<Rightarrow> fs_entry) \<Rightarrow> (string \<Rightarrow> bool) \<Rightarrow> cedar_db \<Rightarrow> eval_request
     \<Rightarrow> cedar_decision \<times> string \<times> string \<times> string option" where
  "decide fr cfg fs lost db rq =
     (case bundle_path_for_agent lost (rq_agent_id rq) cfg db of
        None \<Rightarrow> (FORBID_DEFAULT_DENY, [], [], Some ''no_bundle_mapping_for_agent_id'')
      | Some path \<Rightarrow>
          if fs path = Missing then (FORBID_DEFAULT_DENY, [], path, Some ''bundle_file_missing'')
          else
            (case load_bundle (fs path) of
               Inl e \<Rightarrow> (FORBID_DEFAULT_DENY, [], path, Some (''bundle_load_failed: '' @ exc_class e))
             | Inr raw \<Rightarrow>
                 (case parse_bundle fr raw of
                    Inl e \<Rightarrow> (FORBID_DEFAULT_DENY, root_hex fr raw, path,
                              Some (''bundle_parse_failed: '' @ exc_class e))
                  | Inr b \<Rightarrow>
                      (evaluate b (rq_agent_id rq) (rq_action rq) (rq_resource rq) (rq_context rq),
                       root_hex fr raw, path, None))))"

definition evaluate_agent_action ::
  "(real \<Rightarrow> string) \<Rightarrow> cedar_cfg \<Rightarrow> (string \<Rightarrow> fs_entry) \<Rightarrow> (string \<Rightarrow> bool) \<Rightarrow> bool \<Rightarrow> real \<Rightarrow> cedar_db \<Rightarrow> eval_request
     \<Rightarrow> cedar_db \<times> shadow_eval" where
  "evaluate_agent_action fr cfg fs lost fails now db rq =
     (case decide fr cfg fs lost db rq of
        (decision, mroot, path, err) \<Rightarrow> persist_and_return fr fails now db rq decision mroot path err)"

subsection \<open>Sweeps\<close>

record drift_finding =
  df_agent_id :: string
  df_type :: string
  df_expected :: string
  df_actual :: string
  df_bundle_path :: string
  df_evidence_json :: string
  df_row_id :: nat

record sweep_result =
  sw_sweep_id :: string
  sw_agents_checked :: nat
  sw_findings :: "drift_finding list"
  sw_error :: "string option"

definition clean_sweep :: "sweep_result \<Rightarrow> bool" where
  "clean_sweep s = (sw_findings s = [])"

definition candidates :: "cedar_cfg \<Rightarrow> string list" where
  "candidates cfg =
     filter (\<lambda>a. a \<noteq> []) [lower (cc_sentry_id cfg), lower (cc_guardian_id cfg), lower (cc_curator_id cfg)]"

text \<open>A finding and its row; \<open>fails\<close> as above.\<close>

definition report_drift ::
  "bool \<Rightarrow> real \<Rightarrow> string \<Rightarrow> cedar_db \<Rightarrow> string \<Rightarrow> string \<Rightarrow> string \<Rightarrow> string \<Rightarrow> string \<Rightarrow> string
     \<Rightarrow> cedar_db \<times> drift_finding" where
  "report_drift fails now sid db aid ty expected actual path ev =
     (let row = \<lparr>dr_agent_id = aid, dr_type = ty, dr_expected = expected, dr_actual = actual,
                 dr_bundle_path = path, dr_evidence_json = ev, dr_sweep_id = sid, dr_detected_at = now,
                 dr_bucket = trunc now\<rparr>;
          (db1, i) = (if fails then (db, 0) else insert_operator_agent_drift db row)
      in (db1, \<lparr>df_agent_id = aid, df_type = ty, df_expected = expected, df_actual = actual,
                df_bundle_path = path, df_evidence_json = ev, df_row_id = i\<rparr>))"

text \<open>What the sweep over the files sees of one agent: nothing to report, or the actual value and the evidence.\<close>

definition bundle_drift ::
  "(real \<Rightarrow> string) \<Rightarrow> cedar_cfg \<Rightarrow> (string \<Rightarrow> fs_entry) \<Rightarrow> (string \<Rightarrow> bool) \<Rightarrow> cedar_db \<Rightarrow> string
     \<Rightarrow> (string \<times> string \<times> string \<times> json) option" where
  "bundle_drift fr cfg fs lost db aid =
     (case if lost aid then None else first_row (get_operator_agent_activation_log db (Some aid) 1) of
        None \<Rightarrow> None
      | Some r \<Rightarrow>
          (let anchored = lower (ac_to_scope_root r);
               path = resolve_bundle_path (ac_bundle_path r) cfg
           in if fs path = Missing then
                Some (anchored, ''<file_missing>'', path, JObj
                  [(''reason'', JStr ''bundle_file_missing''), (''anchored_to_scope_root'', JStr anchored),
                   (''anchored_at'', JFloat (ac_activated_at r))])
              else
                (case load_bundle (fs path) of
                   Inl e \<Rightarrow> Some (anchored, ''<recompute_failed>'', path, JObj
                     [(''reason'', JStr (''bundle_recompute_failed: '' @ exc_class e)),
                      (''anchored_to_scope_root'', JStr anchored)])
                 | Inr raw \<Rightarrow>
                     if lower (root_hex fr raw) \<noteq> anchored then
                       Some (anchored, root_hex fr raw, path, JObj
                         [(''reason'', JStr ''merkle_root_mismatch''), (''anchored'', JStr anchored),
                          (''recomputed'', JStr (root_hex fr raw)), (''bundle_path'', JStr path)])
                     else None)))"

fun bundle_sweep ::
  "(real \<Rightarrow> string) \<Rightarrow> cedar_cfg \<Rightarrow> (string \<Rightarrow> fs_entry) \<Rightarrow> (string \<Rightarrow> bool) \<Rightarrow> bool \<Rightarrow> real \<Rightarrow> string \<Rightarrow> string list \<Rightarrow> cedar_db
     \<Rightarrow> cedar_db \<times> drift_finding list" where
  "bundle_sweep fr cfg fs lost fails now sid [] db = (db, [])"
| "bundle_sweep fr cfg fs lost fails now sid (aid # aids) db =
     (case bundle_drift fr cfg fs lost db aid of
        None \<Rightarrow> bundle_sweep fr cfg fs lost fails now sid aids db
      | Some (expected, actual, path, ev) \<Rightarrow>
          (let (db1, f) = report_drift fails now sid db aid ''BUNDLE_HASH_DRIFT'' expected actual path (json_dumps fr ev);
               (db2, fs') = bundle_sweep fr cfg fs lost fails now sid aids db1
           in (db2, f # fs')))"

definition detect_bundle_hash_drift ::
  "(real \<Rightarrow> string) \<Rightarrow> cedar_cfg \<Rightarrow> (string \<Rightarrow> fs_entry) \<Rightarrow> (string \<Rightarrow> bool) \<Rightarrow> bool \<Rightarrow> real \<Rightarrow> string \<Rightarrow> cedar_db \<Rightarrow> cedar_db \<times> sweep_result" where
  "detect_bundle_hash_drift fr cfg fs lost fails now sid db =
     (let (db1, findings) = bundle_sweep fr cfg fs lost fails now sid (candidates cfg) db
      in (db1, \<lparr>sw_sweep_id = sid, sw_agents_checked = length (candidates cfg), sw_findings = findings,
                sw_error = None\<rparr>))"

text \<open>The two chain reads of an agent: the scope root as bytes, the governance scope as text.\<close>

record chain_reads =
  ch_scope_root :: "string \<Rightarrow> bytes res"
  ch_governance_scope :: "string \<Rightarrow> string res"

fun scope_sweep ::
  "(real \<Rightarrow> string) \<Rightarrow> chain_reads \<Rightarrow> bool \<Rightarrow> real \<Rightarrow> string \<Rightarrow> string list \<Rightarrow> cedar_db \<Rightarrow> string option
     \<Rightarrow> cedar_db \<times> drift_finding list \<times> string option" where
  "scope_sweep fr ch fails now sid [] db err = (db, [], err)"
| "scope_sweep fr ch fails now sid (aid # aids) db err =
     (case ch_scope_root ch aid of
        Inl e \<Rightarrow> scope_sweep fr ch fails now sid aids db (Some (''agent_scope_read_failed: '' @ exc_class e))
      | Inr op \<Rightarrow>
          (case ch_governance_scope ch aid of
             Inl e \<Rightarrow> scope_sweep fr ch fails now sid aids db (Some (''agent_registry_read_failed: '' @ exc_class e))
           | Inr gov \<Rightarrow>
               (let mroot = (if op = [] then [] else ''0x'' @ hex op) in
                if lower mroot \<noteq> lower gov then
                  (let ev = json_dumps fr (JObj [(''agent_scope_root'', JStr mroot), (''registry_scope_hash'', JStr gov)]);
                       (db1, f) = report_drift fails now sid db aid ''SCOPE_HASH_GOVERNANCE_DRIFT'' mroot gov [] ev;
                       (db2, fs', err') = scope_sweep fr ch fails now sid aids db1 err
                   in (db2, f # fs', err'))
                else scope_sweep fr ch fails now sid aids db err)))"

definition detect_scope_hash_governance_drift ::
  "(real \<Rightarrow> string) \<Rightarrow> cedar_cfg \<Rightarrow> chain_reads option \<Rightarrow> bool \<Rightarrow> real \<Rightarrow> string \<Rightarrow> cedar_db \<Rightarrow> cedar_db \<times> sweep_result" where
  "detect_scope_hash_governance_drift fr cfg chain fails now sid db =
     (case chain of
        None \<Rightarrow> (db, \<lparr>sw_sweep_id = sid, sw_agents_checked = 0, sw_findings = [],
                      sw_error = Some ''chain_not_configured''\<rparr>)
      | Some ch \<Rightarrow>
          (let (db1, findings, err) = scope_sweep fr ch fails now sid (candidates cfg) db None
           in (db1, \<lparr>sw_sweep_id = sid, sw_agents_checked = length (candidates cfg), sw_findings = findings,
                     sw_error = err\<rparr>)))"

subsection \<open>What the canonical root binds\<close>

text \<open>
  The root of a bundle fixes its content: two payloads (without floats, with ASCII texts and
  distinct keys) of equal root are equal up to the order of keys, or their two encodings are a
  collision of SHA-256.
\<close>

theorem bundle_root_binds_content:
  assumes "dumpable v" and "dumpable w" and "bundle_merkle_root fr v = bundle_merkle_root fr w"
  shows "sorted_json v = sorted_json w \<or>
     sha256_collision (encode ''VAPI-CEDAR-BUNDLE-v1'' @ canonical_bytes fr v)
       (encode ''VAPI-CEDAR-BUNDLE-v1'' @ canonical_bytes fr w)"
proof (cases "json_dumps fr v = json_dumps fr w")
  case True
  then show ?thesis using canonical_text_injective assms(1,2) by blast
next
  case False
  then show ?thesis
    using assms(3) by (simp add: sha256_collision_def bundle_merkle_root_def canonical_bytes_def encode_inj)
qed

subsection \<open>Sweeps report what has drifted\<close>

lemma lower_hexdigit: "d < 16 \<Longrightarrow> lower_char (hexdigit d) = hexdigit d"
  using of_char_hexdigit [of d] unfolding lower_char_def by (simp add: Let_def)

lemma lower_hex: "lower (hex bs) = hex bs"
proof (induction bs)
  case Nil
  then show ?case by (simp add: lower_def hex_def)
next
  case (Cons b bs)
  have "unat b div 16 < 16" "unat b mod 16 < 16" using unat_byte_lt [of b] by auto
  then show ?case using Cons by (simp add: hex_def hex_byte_def lower_hexdigit lower_def)
qed

lemma lower_root_hex: "lower (root_hex fr v) = root_hex fr v"
  using lower_hex by (simp add: root_hex_def) (simp add: lower_def lower_char_def)

lemma row_id_from_Some:
  "row_id_from i P rs = Some j \<Longrightarrow> i \<le> j \<and> j < i + length rs \<and> P (rs ! (j - i))"
proof (induction rs arbitrary: i)
  case (Cons r rs)
  then show ?case
  proof (cases "P r")
    case False
    then have j: "Suc i \<le> j" "j < Suc i + length rs" "P (rs ! (j - Suc i))"
      using Cons.IH [of "Suc i"] Cons.prems by simp_all
    then have "j - i = Suc (j - Suc i)" by linarith
    then show ?thesis using j by simp
  qed simp
qed simp

definition holds_drift :: "cedar_db \<Rightarrow> int \<Rightarrow> string \<Rightarrow> drift_finding \<Rightarrow> bool" where
  "holds_drift db bucket ty f \<longleftrightarrow>
     0 < df_row_id f \<and> df_row_id f \<le> length (cd_drift db) \<and>
     (let r = cd_drift db ! (df_row_id f - 1) in
      dr_agent_id r = df_agent_id f \<and> dr_type r = ty \<and> dr_bucket r = bucket)"

lemma report_drift_result:
  "report_drift fails now sid db aid ty ex ac path ev = (db1, f) \<Longrightarrow>
     df_agent_id f = aid \<and> cd_activations db1 = cd_activations db \<and> (\<exists>rs. cd_drift db1 = cd_drift db @ rs) \<and>
     (\<not> fails \<longrightarrow> holds_drift db1 (trunc now) ty f)"
  unfolding report_drift_def insert_operator_agent_drift_def holds_drift_def
  by (auto simp: Let_def same_drift_key_def dest!: row_id_from_Some split: if_splits option.splits)

lemma holds_drift_append: "holds_drift db t ty f \<Longrightarrow> cd_drift db1 = cd_drift db @ rs \<Longrightarrow> holds_drift db1 t ty f"
  by (auto simp: holds_drift_def nth_append Let_def)

lemma bundle_drift_cong:
  "cd_activations db1 = cd_activations db \<Longrightarrow> bundle_drift fr cfg fs lost db1 aid = bundle_drift fr cfg fs lost db aid"
  by (simp add: bundle_drift_def get_operator_agent_activation_log_def)

lemma bundle_sweep_result:
  "bundle_sweep fr cfg fs lost fails now sid aids db = (db1, xs) \<Longrightarrow>
     map df_agent_id xs = filter (\<lambda>a. bundle_drift fr cfg fs lost db a \<noteq> None) aids \<and>
     cd_activations db1 = cd_activations db \<and> (\<exists>rs. cd_drift db1 = cd_drift db @ rs) \<and>
     (\<not> fails \<longrightarrow> list_all (holds_drift db1 (trunc now) ''BUNDLE_HASH_DRIFT'') xs)"
proof (induction aids arbitrary: db db1 xs)
  case (Cons aid aids)
  show ?case
  proof (cases "bundle_drift fr cfg fs lost db aid")
    case None
    then show ?thesis using Cons.IH [of db db1 xs] Cons.prems by (simp del: not_None_eq)
  next
    case (Some d)
    obtain ex ac path ev where d: "d = (ex, ac, path, ev)" using prod_cases4 by metis
    obtain db2 f where r: "report_drift fails now sid db aid ''BUNDLE_HASH_DRIFT'' ex ac path (json_dumps fr ev) = (db2, f)"
      by fastforce
    obtain db3 ys where s: "bundle_sweep fr cfg fs lost fails now sid aids db2 = (db3, ys)" by fastforce
    have e: "db1 = db3" "xs = f # ys" using Cons.prems Some d r s by simp_all
    note R = report_drift_result [OF r]
    note S = Cons.IH [OF s]
    obtain qs where "cd_drift db3 = cd_drift db2 @ qs" using S by blast
    then show ?thesis
      using R S Some e bundle_drift_cong [of db2 db] by (auto simp: holds_drift_append simp del: not_None_eq)
  qed
qed simp

text \<open>
  The bundle sweep reports exactly the configured agents whose anchored bundle is missing,
  unreadable or of another root, in order; every finding it could store has a row of its agent,
  type and second in the table, and the activations are untouched.
\<close>

theorem bundle_sweep_reports_the_drifted:
  "(case detect_bundle_hash_drift fr cfg fs lost fails now sid db of
      (db1, s) \<Rightarrow>
        map df_agent_id (sw_findings s) = filter (\<lambda>a. bundle_drift fr cfg fs lost db a \<noteq> None) (candidates cfg) \<and>
        cd_activations db1 = cd_activations db \<and>
        (fails \<or> list_all (holds_drift db1 (trunc now) ''BUNDLE_HASH_DRIFT'') (sw_findings s)))"
  by (cases "bundle_sweep fr cfg fs lost fails now sid (candidates cfg) db")
    (auto simp: detect_bundle_hash_drift_def simp del: not_None_eq dest: bundle_sweep_result)

lemma clean_bundle_sweep:
  assumes "clean_sweep (snd (detect_bundle_hash_drift fr cfg fs lost fails now sid db))" and "a \<in> set (candidates cfg)"
  shows "bundle_drift fr cfg fs lost db a = None"
proof -
  obtain db1 xs where s: "bundle_sweep fr cfg fs lost fails now sid (candidates cfg) db = (db1, xs)" by fastforce
  have "xs = []" using assms(1) s by (simp add: detect_bundle_hash_drift_def clean_sweep_def)
  then have "filter (\<lambda>a. bundle_drift fr cfg fs lost db a \<noteq> None) (candidates cfg) = []"
    using bundle_sweep_result [OF s] by (simp del: not_None_eq)
  then show ?thesis using assms(2) by (simp add: filter_empty_conv del: not_None_eq)
qed

lemma decide_permit:
  assumes "decide fr cfg fs lost db rq = (d, mroot, path, err)" and "is_permit d"
  obtains raw b where "bundle_path_for_agent lost (rq_agent_id rq) cfg db = Some path" and "fs path \<noteq> Missing"
    and "load_bundle (fs path) = Inr raw" and "parse_bundle fr raw = Inr b"
    and "d = evaluate b (rq_agent_id rq) (rq_action rq) (rq_resource rq) (rq_context rq)"
    and "mroot = root_hex fr raw" and "err = None"
  using assms unfolding decide_def
  by (auto simp: is_permit_def split: option.splits sum.splits if_splits)

lemma permitted_agent_nonempty:
  assumes "parse_bundle fr raw = Inr b" and "is_permit (evaluate b agent action resource cx)"
  shows "agent \<noteq> []"
  using parse_bundle_Inr [OF assms(1)] assms(2) by (auto simp: wf_bundle_def wf_agent_id_def evaluate_permit)

text \<open>The path of an agent with an activation row that names a bundle\<close>

lemma bundle_path_activated:
  assumes "bundle_path_for_agent lost agent cfg db = Some path" and "\<not> lost (lower agent)" and "agent \<noteq> []"
    and "first_row (get_operator_agent_activation_log db (Some (lower agent)) 1) = Some r" and "ac_bundle_path r \<noteq> []"
  shows "path = resolve_bundle_path (ac_bundle_path r) cfg \<and> lower agent \<in> set (candidates cfg)"
proof -
  have "lower agent \<noteq> []" using assms(3) by (simp add: lower_def)
  then show ?thesis
    using assms by (auto simp: bundle_path_for_agent_def candidates_def Let_def split: if_splits)
qed

text \<open>
  C10: While the bundle sweep is clean and its lookup of the agent's activation did not fail, a permit
  for an agent with an anchored bundle, whose own lookup did not fail either, was decided under that
  bundle: the root it reports is the anchored root, the file parses to a bundle of the agent, some
  applicable policy of it permits the request and none forbids it.
\<close>

theorem permit_under_clean_sweep:
  assumes "clean_sweep (snd (detect_bundle_hash_drift fr cfg fs sweep_lost sweep_fails sweep_now sid db))"
    and "\<not> sweep_lost (lower (rq_agent_id rq))" and "\<not> lost (lower (rq_agent_id rq))"
    and "first_row (get_operator_agent_activation_log db (Some (lower (rq_agent_id rq))) 1) = Some r"
    and "ac_bundle_path r \<noteq> []"
    and "se_decision (snd (evaluate_agent_action fr cfg fs lost fails now db rq)) \<in> {PERMIT, PERMIT_WITH_SHADOW_CONSTRAINT}"
  shows "se_merkle_root_hex (snd (evaluate_agent_action fr cfg fs lost fails now db rq)) = lower (ac_to_scope_root r) \<and>
    (\<exists>raw b. load_bundle (fs (resolve_bundle_path (ac_bundle_path r) cfg)) = Inr raw \<and> parse_bundle fr raw = Inr b \<and>
       pb_agent_id b = rq_agent_id rq \<and>
       (let ctx = (case rq_context rq of None \<Rightarrow> [] | Some c \<Rightarrow> c) in
        permits b ctx (rq_action rq) (rq_resource rq) \<noteq> [] \<and> \<not> forbidden b ctx (rq_action rq) (rq_resource rq)))"
proof -
  obtain d mroot path err where D: "decide fr cfg fs lost db rq = (d, mroot, path, err)" using prod_cases4 by metis
  have se: "se_decision (snd (evaluate_agent_action fr cfg fs lost fails now db rq)) = d"
    "se_merkle_root_hex (snd (evaluate_agent_action fr cfg fs lost fails now db rq)) = mroot"
    by (simp_all add: evaluate_agent_action_def D persist_and_return_def Let_def split: prod.splits)
  have "is_permit d" using assms(6) se(1) by (simp add: is_permit_def)
  from decide_permit [OF D this] obtain raw b where
    P: "bundle_path_for_agent lost (rq_agent_id rq) cfg db = Some path" "fs path \<noteq> Missing"
      "load_bundle (fs path) = Inr raw" "parse_bundle fr raw = Inr b" "mroot = root_hex fr raw"
    and ev: "d = evaluate b (rq_agent_id rq) (rq_action rq) (rq_resource rq) (rq_context rq)" by metis
  have perm: "is_permit (evaluate b (rq_agent_id rq) (rq_action rq) (rq_resource rq) (rq_context rq))"
    using \<open>is_permit d\<close> ev by simp
  have path: "path = resolve_bundle_path (ac_bundle_path r) cfg" "lower (rq_agent_id rq) \<in> set (candidates cfg)"
    using bundle_path_activated [OF P(1) assms(3) permitted_agent_nonempty [OF P(4) perm] assms(4,5)] by simp_all
  have "bundle_drift fr cfg fs sweep_lost db (lower (rq_agent_id rq)) = None"
    using clean_bundle_sweep [OF assms(1) path(2)] .
  then have "root_hex fr raw = lower (ac_to_scope_root r)"
    using P(2,3) assms(2,4) path(1) by (simp add: bundle_drift_def Let_def lower_root_hex split: if_splits)
  then show ?thesis
    using se(2) P path(1) perm unfolding evaluate_permit Let_def by auto
qed

text \<open>
  A lookup that fails is only logged: the agent goes unchecked, and with all of them failing the sweep
  is clean and without error, whatever the files and the anchored roots. An evaluation whose lookup
  fails is decided under the agent's first bundle, whichever one is anchored.
\<close>

lemma failed_lookup_hides_drift:
  shows "clean_sweep (snd (detect_bundle_hash_drift fr cfg fs (\<lambda>_. True) fails now sid db)) \<and>
      sw_error (snd (detect_bundle_hash_drift fr cfg fs (\<lambda>_. True) fails now sid db)) = None"
    and "lower agent = lower (cc_sentry_id cfg) \<Longrightarrow>
      bundle_path_for_agent (\<lambda>_. True) agent cfg db = Some (path_join (cc_bundle_dir cfg) ''anchor_sentry_o1_shadow_v1.json'')"
proof -
  have "bundle_sweep fr cfg fs (\<lambda>_. True) fails now sid aids db = (db, [])" for aids
    by (induction aids) (simp_all add: bundle_drift_def)
  then show "clean_sweep (snd (detect_bundle_hash_drift fr cfg fs (\<lambda>_. True) fails now sid db)) \<and>
      sw_error (snd (detect_bundle_hash_drift fr cfg fs (\<lambda>_. True) fails now sid db)) = None"
    by (simp add: detect_bundle_hash_drift_def clean_sweep_def)
  show "lower agent = lower (cc_sentry_id cfg) \<Longrightarrow>
      bundle_path_for_agent (\<lambda>_. True) agent cfg db = Some (path_join (cc_bundle_dir cfg) ''anchor_sentry_o1_shadow_v1.json'')"
    by (simp add: bundle_path_for_agent_def)
qed

lemma demo_bundle_dumpable: "dumpable demo_bundle"
  by (simp add: demo_bundle_def demo_agent_def plain_def list_all_iff)

lemma demo_bundle_sorted: "sorted_json demo_bundle = demo_bundle"
  by (simp add: demo_bundle_def)

text \<open>A writer of floats for values that hold none\<close>

definition no_floats :: "real \<Rightarrow> string" where "no_floats = (\<lambda>_. [])"

definition demo_cfg :: cedar_cfg where
  "demo_cfg = \<lparr>cc_sentry_id = demo_agent, cc_guardian_id = [], cc_curator_id = [], cc_bundle_dir = ''bundles''\<rparr>"

definition demo_activation :: "(real \<Rightarrow> string) \<Rightarrow> activation_row" where
  "demo_activation fr = \<lparr>ac_agent_id = demo_agent, ac_to_scope_root = root_hex fr demo_bundle,
     ac_bundle_path = ''v1.json'', ac_activated_at = 0\<rparr>"

definition demo_db :: "(real \<Rightarrow> string) \<Rightarrow> cedar_db" where
  "demo_db fr = \<lparr>cd_activations = [demo_activation fr], cd_shadow = [], cd_drift = []\<rparr>"

definition demo_request :: eval_request where
  "demo_request = \<lparr>rq_agent_id = demo_agent, rq_action = ''skill:read'', rq_resource = ''lane://audits/x'',
     rq_context = None, rq_payload_hash = [], rq_source = ''demo''\<rparr>"

definition demo_file :: "(real \<Rightarrow> string) \<Rightarrow> string \<Rightarrow> fs_entry" where
  "demo_file fr = (\<lambda>p. Content (json_dumps fr demo_bundle))"

lemma lower_demo_agent: "lower demo_agent = demo_agent"
  by (simp add: demo_agent_def lower_def lower_char_def map_replicate_trivial)

lemma demo_agent_nonempty [simp]: "demo_agent \<noteq> []"
  by (simp add: demo_agent_def)

lemma demo_load: "load_bundle (demo_file fr p) = Inr demo_bundle"
  by (simp add: load_bundle_def demo_file_def loads_dumps demo_bundle_dumpable demo_bundle_sorted)

lemma demo_latest: "first_row (get_operator_agent_activation_log (demo_db fr) (Some demo_agent) 1) = Some (demo_activation fr)"
  by (simp add: get_operator_agent_activation_log_def demo_db_def demo_activation_def sql_limit_def order_desc_def)

lemma demo_candidates: "candidates demo_cfg = [demo_agent]"
  by (simp add: candidates_def demo_cfg_def lower_demo_agent) (simp add: lower_def)

lemma demo_clean: "bundle_drift fr demo_cfg (demo_file fr) (\<lambda>_. False) (demo_db fr) demo_agent = None"
  using demo_load [of fr]
  by (simp add: bundle_drift_def demo_latest Let_def lower_root_hex) (simp add: demo_activation_def demo_file_def lower_root_hex)

lemma demo_path: "\<exists>p. bundle_path_for_agent (\<lambda>_. False) demo_agent demo_cfg (demo_db fr) = Some p"
  by (simp add: bundle_path_for_agent_def lower_demo_agent Let_def demo_latest) (simp add: demo_cfg_def lower_demo_agent)

lemma demo_permitted:
  assumes "parse_bundle fr demo_bundle = Inr b" and "pb_agent_id b = demo_agent" and "pb_lane_prefixes b = [''audits/'']"
    and "pb_policies b = [\<lparr>po_id = ''P-001'', po_effect = ''permit'', po_principal_agent_id = demo_agent,
       po_action = ''skill:read'', po_resource = ''lane://audits/**'', po_constraint = None\<rparr>]"
  shows "evaluate b demo_agent ''skill:read'' ''lane://audits/x'' None = PERMIT"
  using assms by (simp add: evaluate_def lane_violation_def applies_def resource_matches_def startswith_def endswith_def
      constraint_met_def shadow_permit_def)

lemma demo_decide: "\<exists>p. decide fr demo_cfg (demo_file fr) (\<lambda>_. False) (demo_db fr) demo_request = (PERMIT, root_hex fr demo_bundle, p, None)"
proof -
  obtain p where p: "bundle_path_for_agent (\<lambda>_. False) demo_agent demo_cfg (demo_db fr) = Some p" using demo_path by blast
  obtain b where b: "parse_bundle fr demo_bundle = Inr b"
    "evaluate b demo_agent ''skill:read'' ''lane://audits/x'' None = PERMIT"
    using demo_bundle_parses [of fr] demo_permitted by metis
  show ?thesis
    using p b demo_load [of fr p] by (simp add: decide_def demo_request_def) (simp add: demo_file_def)
qed

lemma permit_under_clean_sweep_witness:
  "se_merkle_root_hex (snd (evaluate_agent_action (\<lambda>_. []) demo_cfg (demo_file (\<lambda>_. [])) (\<lambda>_. False) False 5 (demo_db (\<lambda>_. [])) demo_request))
     = lower (ac_to_scope_root (demo_activation (\<lambda>_. [])))"
proof -
  let ?fr = "\<lambda>_ :: real. [] :: string"
  have "clean_sweep (snd (detect_bundle_hash_drift ?fr demo_cfg (demo_file ?fr) (\<lambda>_. False) False 4 [] (demo_db ?fr)))"
    by (simp add: clean_sweep_def detect_bundle_hash_drift_def demo_candidates demo_clean)
  moreover have "se_decision (snd (evaluate_agent_action ?fr demo_cfg (demo_file ?fr) (\<lambda>_. False) False 5 (demo_db ?fr) demo_request))
      \<in> {PERMIT, PERMIT_WITH_SHADOW_CONSTRAINT}"
    using demo_decide [of ?fr]
    by (auto simp: evaluate_agent_action_def persist_and_return_def Let_def split: prod.splits)
  moreover have "first_row (get_operator_agent_activation_log (demo_db ?fr) (Some (lower (rq_agent_id demo_request))) 1)
      = Some (demo_activation ?fr)"
    using demo_latest [of ?fr] by (simp add: demo_request_def lower_demo_agent)
  ultimately show ?thesis
    using permit_under_clean_sweep [where fr = ?fr and cfg = demo_cfg and fs = "demo_file ?fr" and sweep_lost = "\<lambda>_. False"
        and lost = "\<lambda>_. False" and db = "demo_db ?fr"
        and rq = demo_request and r = "demo_activation ?fr"] by (simp add: demo_activation_def)
qed

lemma bundle_root_binds_content_witness:
  "sorted_json (JObj [(''b'', JInt 1), (''a'', JInt 2)]) = sorted_json (JObj [(''a'', JInt 2), (''b'', JInt 1)]) \<or>
     sha256_collision
       (encode ''VAPI-CEDAR-BUNDLE-v1'' @ canonical_bytes (\<lambda>_. []) (JObj [(''b'', JInt 1), (''a'', JInt 2)]))
       (encode ''VAPI-CEDAR-BUNDLE-v1'' @ canonical_bytes (\<lambda>_. []) (JObj [(''a'', JInt 2), (''b'', JInt 1)]))"
proof (rule bundle_root_binds_content)
  show "bundle_merkle_root (\<lambda>_. []) (JObj [(''b'', JInt 1), (''a'', JInt 2)]) =
      bundle_merkle_root (\<lambda>_. []) (JObj [(''a'', JInt 2), (''b'', JInt 1)])"
    by (simp add: bundle_merkle_root_def canonical_bytes_def)
qed (simp_all add: plain_def)

subsection \<open>The shadow log\<close>

lemma row_id_from_snoc:
  "row_id_from i P rs = None \<Longrightarrow> P r \<Longrightarrow> row_id_from i P (rs @ [r]) = Some (i + length rs)"
  by (induction rs arbitrary: i) (auto split: if_splits)

lemma insert_shadow_again:
  assumes "insert_operator_agent_shadow_log db row = (db1, i)" and "same_shadow_key row' row"
  shows "insert_operator_agent_shadow_log db1 row' = (db1, i)"
proof -
  have k: "same_shadow_key row' = same_shadow_key row"
    using assms(2) by (auto simp: same_shadow_key_def)
  have "same_shadow_key row row" by (simp add: same_shadow_key_def)
  then show ?thesis
    using assms(1) row_id_from_snoc [of 1 "same_shadow_key row" "cd_shadow db" row]
    unfolding insert_operator_agent_shadow_log_def k by (auto split: option.splits)
qed

definition shadow_row_of ::
  "(real \<Rightarrow> string) \<Rightarrow> cedar_cfg \<Rightarrow> (string \<Rightarrow> fs_entry) \<Rightarrow> (string \<Rightarrow> bool) \<Rightarrow> real \<Rightarrow> cedar_db \<Rightarrow> eval_request \<Rightarrow> shadow_row" where
  "shadow_row_of fr cfg fs lost now db rq =
     (case decide fr cfg fs lost db rq of (decision, mroot, path, err) \<Rightarrow>
        \<lparr>sh_agent_id = rq_agent_id rq, sh_action = rq_action rq, sh_resource = rq_resource rq,
         sh_context_json = json_dumps fr (JObj (case rq_context rq of None \<Rightarrow> [] | Some c \<Rightarrow> c)),
         sh_decision = decision_value decision, sh_merkle_root = mroot, sh_bundle_path = path,
         sh_payload_hash = rq_payload_hash rq, sh_source = rq_source rq, sh_evaluated_at = now,
         sh_bucket = trunc now\<rparr>)"

lemma evaluate_stores:
  "(fst (evaluate_agent_action fr cfg fs lost False now db rq), se_row_id (snd (evaluate_agent_action fr cfg fs lost False now db rq))) =
     insert_operator_agent_shadow_log db (shadow_row_of fr cfg fs lost now db rq)"
  by (simp add: evaluate_agent_action_def persist_and_return_def shadow_row_of_def Let_def split: prod.splits)

text \<open>
  A second evaluation of the same agent, action and resource in the same second is not
  logged, whatever changed in between (files, activations, context): the table stays as the first
  one left it, and the second result points to the row of the first decision.
\<close>

theorem second_decision_in_a_second_not_logged:
  assumes "evaluate_agent_action fr cfg fs lost False now db rq = (db1, se1)"
    and "evaluate_agent_action fr cfg2 fs2 lost2 False now2 db1 rq2 = (db2, se2)" and "trunc now2 = trunc now"
    and "rq_agent_id rq2 = rq_agent_id rq" and "rq_action rq2 = rq_action rq" and "rq_resource rq2 = rq_resource rq"
  shows "db2 = db1 \<and> se_row_id se2 = se_row_id se1"
proof -
  have "insert_operator_agent_shadow_log db (shadow_row_of fr cfg fs lost now db rq) = (db1, se_row_id se1)"
    using evaluate_stores [of fr cfg fs lost now db rq] assms(1) by simp
  moreover have "same_shadow_key (shadow_row_of fr cfg2 fs2 lost2 now2 db1 rq2) (shadow_row_of fr cfg fs lost now db rq)"
    using assms(3-6) by (simp add: same_shadow_key_def shadow_row_of_def split: prod.splits)
  ultimately show ?thesis
    using evaluate_stores [of fr cfg2 fs2 lost2 now2 db1 rq2] assms(2) insert_shadow_again by fastforce
qed

lemma second_decision_in_a_second_not_logged_witness:
  "\<exists>db2 se2. evaluate_agent_action no_floats demo_cfg (\<lambda>_. Missing) (\<lambda>_. False) False (11 / 2)
      (fst (evaluate_agent_action no_floats demo_cfg (demo_file no_floats) (\<lambda>_. False) False 5 (demo_db no_floats) demo_request)) demo_request = (db2, se2) \<and>
    se_decision se2 = FORBID_DEFAULT_DENY \<and> se_row_id se2 = 1 \<and> map sh_decision (cd_shadow db2) = [''permit'']"
proof -
  let ?fr = no_floats
  obtain p where p: "decide ?fr demo_cfg (demo_file ?fr) (\<lambda>_. False) (demo_db ?fr) demo_request = (PERMIT, root_hex ?fr demo_bundle, p, None)"
    using demo_decide by blast
  obtain db1 se1 where 1: "evaluate_agent_action ?fr demo_cfg (demo_file ?fr) (\<lambda>_. False) False 5 (demo_db ?fr) demo_request = (db1, se1)"
    by fastforce
  obtain db2 se2 where 2: "evaluate_agent_action ?fr demo_cfg (\<lambda>_. Missing) (\<lambda>_. False) False (11 / 2) db1 demo_request = (db2, se2)"
    by fastforce
  have "trunc (11 / 2) = trunc 5" by (simp add: trunc_def)
  then have "db2 = db1 \<and> se_row_id se2 = se_row_id se1"
    using second_decision_in_a_second_not_logged [OF 1 2] by simp
  moreover have "se_row_id se1 = 1 \<and> map sh_decision (cd_shadow db1) = [''permit'']"
    using 1 unfolding evaluate_agent_action_def p prod.case persist_and_return_def insert_operator_agent_shadow_log_def
    by (auto simp: demo_db_def)
  moreover have "se_decision se2 = FORBID_DEFAULT_DENY"
    using 2 by (auto simp: evaluate_agent_action_def persist_and_return_def decide_def Let_def split: option.splits prod.splits)
  ultimately show ?thesis using 1 2 by simp
qed

subsection \<open>The sweep over the chain\<close>

definition unread :: "chain_reads \<Rightarrow> string \<Rightarrow> bool" where
  "unread ch a \<longleftrightarrow> \<not> isl (ch_scope_root ch a) \<longrightarrow> isl (ch_governance_scope ch a)"

definition scope_drifted :: "chain_reads \<Rightarrow> string \<Rightarrow> bool" where
  "scope_drifted ch a =
     (case (ch_scope_root ch a, ch_governance_scope ch a) of
        (Inr op, Inr gov) \<Rightarrow> lower (if op = [] then [] else ''0x'' @ hex op) \<noteq> lower gov
      | _ \<Rightarrow> False)"

lemma scope_sweep_result:
  "scope_sweep fr ch fails now sid aids db err = (db1, xs, err1) \<Longrightarrow>
     map df_agent_id xs = filter (scope_drifted ch) aids \<and>
     (err1 = None \<longleftrightarrow> err = None \<and> \<not> list_ex (unread ch) aids) \<and>
     (\<exists>rs. cd_drift db1 = cd_drift db @ rs) \<and>
     (\<not> fails \<longrightarrow> list_all (holds_drift db1 (trunc now) ''SCOPE_HASH_GOVERNANCE_DRIFT'') xs)"
proof (induction aids arbitrary: db err db1 xs err1)
  case (Cons aid aids)
  show ?case
  proof (cases "scope_drifted ch aid")
    case False
    then show ?thesis
      using Cons.IH [of db _ db1 xs err1] Cons.prems
      by (auto simp: scope_drifted_def unread_def Let_def split: sum.splits if_splits)
  next
    case True
    then obtain op gov where ch: "ch_scope_root ch aid = Inr op" "ch_governance_scope ch aid = Inr gov"
      "lower (if op = [] then [] else ''0x'' @ hex op) \<noteq> lower gov"
      by (auto simp: scope_drifted_def split: sum.splits)
    let ?m = "if op = [] then [] else ''0x'' @ hex op"
    let ?ev = "json_dumps fr (JObj [(''agent_scope_root'', JStr ?m), (''registry_scope_hash'', JStr gov)])"
    obtain db2 f where r: "report_drift fails now sid db aid ''SCOPE_HASH_GOVERNANCE_DRIFT'' ?m gov [] ?ev = (db2, f)"
      by fastforce
    obtain db3 ys e3 where s: "scope_sweep fr ch fails now sid aids db2 err = (db3, ys, e3)"
      using prod_cases3 by metis
    have e: "db1 = db3" "xs = f # ys" "err1 = e3"
      using Cons.prems ch r s unfolding scope_sweep.simps ch sum.case Let_def by simp_all
    note R = report_drift_result [OF r]
    note S = Cons.IH [OF s]
    obtain qs where "cd_drift db3 = cd_drift db2 @ qs" using S by blast
    then show ?thesis
      using R S True e ch by (auto simp: holds_drift_append unread_def)
  qed
qed simp

text \<open>
  The scope sweep reports exactly the configured agents whose two chain reads both succeed and
  differ, and its error is set exactly when some read failed: a sweep is clean and without error
  only when every configured agent was read and agrees.
\<close>

theorem scope_sweep_reports_the_drifted:
  "(case detect_scope_hash_governance_drift fr cfg (Some ch) fails now sid db of
      (db1, s) \<Rightarrow>
        map df_agent_id (sw_findings s) = filter (scope_drifted ch) (candidates cfg) \<and>
        (sw_error s = None \<longleftrightarrow> \<not> list_ex (unread ch) (candidates cfg)) \<and>
        (fails \<or> list_all (holds_drift db1 (trunc now) ''SCOPE_HASH_GOVERNANCE_DRIFT'') (sw_findings s)))"
proof -
  obtain db1 xs e where s: "scope_sweep fr ch fails now sid (candidates cfg) db None = (db1, xs, e)"
    using prod_cases3 by metis
  show ?thesis
    using scope_sweep_result [OF s] by (simp add: detect_scope_hash_governance_drift_def s) blast
qed

end
