(* ===== verification/RecordsStore.thy ===== *)
theory RecordsStore
  imports Codec ChainLog
begin

section \<open>Devices, records and submissions\<close>

text \<open>
  The tables \<open>devices\<close>, \<open>records\<close> and \<open>submissions\<close> of \<open>store/_core.py\<close> with the functions over
  them that ingestion and the batcher use. A table is the list of its rows in order of insertion; a
  submission's id is its place. \<open>now\<close> is the clock. The list of hashes a submission stores as JSON
  text is kept as that list, and the side-car columns of a record as the record they come from.
\<close>

datatype rec_status = ST_PENDING | ST_BATCHED | ST_SUBMITTED | ST_VERIFIED | ST_FAILED | ST_DEAD_LETTER

fun status_text :: "rec_status \<Rightarrow> string" where
  "status_text ST_PENDING = ''pending''"
| "status_text ST_BATCHED = ''batched''"
| "status_text ST_SUBMITTED = ''submitted''"
| "status_text ST_VERIFIED = ''verified''"
| "status_text ST_FAILED = ''failed''"
| "status_text ST_DEAD_LETTER = ''dead_letter''"

record device_row =
  dv_id :: string
  dv_pubkey_hex :: string
  dv_first_seen :: real
  dv_last_seen :: real
  dv_last_counter :: int
  dv_chain_head :: string
  dv_last_battery :: int
  dv_last_latitude :: f64
  dv_last_longitude :: f64
  dv_records_total :: int
  dv_records_verified :: int

record record_row =
  rr_hash :: string
  rr_device_id :: string
  rr_counter :: int
  rr_timestamp_ms :: int
  rr_inference :: int
  rr_action_code :: int
  rr_confidence :: int
  rr_battery_pct :: int
  rr_bounty_id :: int
  rr_latitude :: f64
  rr_longitude :: f64
  rr_status :: rec_status
  rr_raw :: "bytes option"
  rr_created_at :: real
  rr_pitl :: pitl_fields
  rr_trigger_active :: int

record submission_row =
  sb_tx_hash :: string
  sb_record_hashes :: "string list"
  sb_status :: rec_status
  sb_retries :: int
  sb_last_error :: string
  sb_created_at :: real
  sb_submitted_at :: real
  sb_confirmed_at :: real

record records_db =
  rd_devices :: "device_row list"
  rd_records :: "record_row list"
  rd_submissions :: "submission_row list"

definition empty_records_db :: records_db where
  "empty_records_db = \<lparr>rd_devices = [], rd_records = [], rd_submissions = []\<rparr>"

subsection \<open>Devices\<close>

definition update_device :: "string \<Rightarrow> (device_row \<Rightarrow> device_row) \<Rightarrow> records_db \<Rightarrow> records_db" where
  "update_device d f db = db\<lparr>rd_devices := map (\<lambda>r. if dv_id r = d then f r else r) (rd_devices db)\<rparr>"

text \<open>A known device only gets a new time: the key it was first stored with stays.\<close>

definition upsert_device :: "records_db \<Rightarrow> string \<Rightarrow> string \<Rightarrow> real \<Rightarrow> records_db" where
  "upsert_device db d pubkey_hex now =
     (if list_ex (\<lambda>r. dv_id r = d) (rd_devices db)
      then update_device d (\<lambda>r. r\<lparr>dv_last_seen := now\<rparr>) db
      else db\<lparr>rd_devices := rd_devices db @
             [\<lparr>dv_id = d, dv_pubkey_hex = pubkey_hex, dv_first_seen = now, dv_last_seen = now, dv_last_counter = 0,
               dv_chain_head = [], dv_last_battery = 0, dv_last_latitude = 0, dv_last_longitude = 0,
               dv_records_total = 0, dv_records_verified = 0\<rparr>]\<rparr>)"

definition update_device_state :: "records_db \<Rightarrow> string \<Rightarrow> poac_record \<Rightarrow> real \<Rightarrow> records_db" where
  "update_device_state db d p now =
     update_device d (\<lambda>r. r\<lparr>dv_last_seen := now, dv_last_counter := monotonic_ctr p,
         dv_chain_head := record_hash_hex p, dv_last_battery := battery_pct p, dv_last_latitude := latitude p,
         dv_last_longitude := longitude p, dv_records_total := dv_records_total r + 1\<rparr>) db"

definition get_device :: "records_db \<Rightarrow> string \<Rightarrow> device_row option" where
  "get_device db d = find (\<lambda>r. dv_id r = d) (rd_devices db)"

definition list_devices :: "records_db \<Rightarrow> device_row list" where
  "list_devices db = order_desc dv_last_seen (rd_devices db)"

definition increment_device_verified :: "records_db \<Rightarrow> string \<Rightarrow> int \<Rightarrow> records_db" where
  "increment_device_verified db d count =
     update_device d (\<lambda>r. r\<lparr>dv_records_verified := dv_records_verified r + count\<rparr>) db"

definition get_verified_nominal_count :: "records_db \<Rightarrow> string \<Rightarrow> int" where
  "get_verified_nominal_count db d = (case get_device db d of None \<Rightarrow> 0 | Some r \<Rightarrow> dv_records_verified r)"

subsection \<open>Records\<close>

text \<open>
  The insertion fails, and the failure is reported as a duplicate, when the hash is already stored
  or when the device is not (the foreign key is enforced).
\<close>

definition insert_record :: "records_db \<Rightarrow> poac_record \<Rightarrow> int \<Rightarrow> bytes \<Rightarrow> real \<Rightarrow> records_db \<times> bool" where
  "insert_record db p trigger raw now =
     (if list_ex (\<lambda>r. rr_hash r = record_hash_hex p) (rd_records db) \<or>
         \<not> list_ex (\<lambda>r. dv_id r = device_id_hex p) (rd_devices db)
      then (db, False)
      else (db\<lparr>rd_records := rd_records db @
             [\<lparr>rr_hash = record_hash_hex p, rr_device_id = device_id_hex p, rr_counter = monotonic_ctr p,
               rr_timestamp_ms = timestamp_ms p, rr_inference = inference_result p, rr_action_code = action_code p,
               rr_confidence = confidence p, rr_battery_pct = battery_pct p, rr_bounty_id = bounty_id p,
               rr_latitude = latitude p, rr_longitude = longitude p, rr_status = ST_PENDING, rr_raw = Some raw,
               rr_created_at = now, rr_pitl = pitl p, rr_trigger_active = trigger\<rparr>]\<rparr>, True))"

definition get_pending_records :: "records_db \<Rightarrow> int \<Rightarrow> record_row list" where
  "get_pending_records db limit =
     sql_limit limit (order_asc rr_counter (filter (\<lambda>r. rr_status r = ST_PENDING) (rd_records db)))"

definition update_record_status :: "string \<Rightarrow> rec_status \<Rightarrow> records_db \<Rightarrow> records_db" where
  "update_record_status h st db =
     db\<lparr>rd_records := map (\<lambda>r. if rr_hash r = h then r\<lparr>rr_status := st\<rparr> else r) (rd_records db)\<rparr>"

definition batch_update_status :: "string list \<Rightarrow> rec_status \<Rightarrow> records_db \<Rightarrow> records_db" where
  "batch_update_status hs st db = fold (\<lambda>h. update_record_status h st) hs db"

subsection \<open>Submissions\<close>

definition create_submission :: "records_db \<Rightarrow> string list \<Rightarrow> real \<Rightarrow> records_db \<times> nat" where
  "create_submission db hs now =
     (db\<lparr>rd_submissions := rd_submissions db @
        [\<lparr>sb_tx_hash = [], sb_record_hashes = hs, sb_status = ST_PENDING, sb_retries = 0, sb_last_error = [],
          sb_created_at = now, sb_submitted_at = 0, sb_confirmed_at = 0\<rparr>]\<rparr>,
      length (rd_submissions db) + 1)"

definition opt_set :: "'a option \<Rightarrow> ('a \<Rightarrow> 'r \<Rightarrow> 'r) \<Rightarrow> 'r \<Rightarrow> 'r" where
  "opt_set v f r = (case v of None \<Rightarrow> r | Some x \<Rightarrow> f x r)"

text \<open>The columns named by the arguments that are given; an empty transaction hash counts as absent.\<close>

definition update_submission ::
  "nat \<Rightarrow> rec_status option \<Rightarrow> string option \<Rightarrow> string option \<Rightarrow> int option \<Rightarrow> real \<Rightarrow> records_db \<Rightarrow> records_db" where
  "update_submission i st tx err retries now db =
     (let upd = opt_set st (\<lambda>s r. r\<lparr>sb_status := s\<rparr>)
            \<circ> opt_set (if tx = Some [] then None else tx) (\<lambda>t r. r\<lparr>sb_tx_hash := t, sb_submitted_at := now\<rparr>)
            \<circ> opt_set err (\<lambda>e r. r\<lparr>sb_last_error := e\<rparr>)
            \<circ> opt_set retries (\<lambda>n r. r\<lparr>sb_retries := n\<rparr>)
            \<circ> (if st = Some ST_VERIFIED then (\<lambda>r. r\<lparr>sb_confirmed_at := now\<rparr>) else id)
      in if i = 0 \<or> length (rd_submissions db) < i then db
         else db\<lparr>rd_submissions := (rd_submissions db)[i - 1 := upd (rd_submissions db ! (i - 1))]\<rparr>)"

text \<open>The failed submissions with fewer retries than a bound, oldest first, each with its id.\<close>

definition get_failed_submissions :: "records_db \<Rightarrow> int \<Rightarrow> (nat \<times> submission_row) list" where
  "get_failed_submissions db max_retries =
     order_asc (\<lambda>(i, s). sb_created_at s)
       (filter (\<lambda>(i, s). sb_status s = ST_FAILED \<and> sb_retries s < max_retries)
          (enumerate 1 (rd_submissions db)))"

subsection \<open>Lemmas\<close>

lemma update_device_simps [simp]:
  "rd_records (update_device d f db) = rd_records db"
  "rd_submissions (update_device d f db) = rd_submissions db"
  by (simp_all add: update_device_def)

lemma upsert_device_simps [simp]:
  "rd_records (upsert_device db d k now) = rd_records db"
  "rd_submissions (upsert_device db d k now) = rd_submissions db"
  by (simp_all add: upsert_device_def)

lemma update_device_ids:
  assumes "\<And>r. dv_id (f r) = dv_id r"
  shows "map dv_id (rd_devices (update_device d f db)) = map dv_id (rd_devices db)"
  by (simp add: update_device_def assms)

lemma upsert_device_ids:
  "map dv_id (rd_devices (upsert_device db d k now)) =
     map dv_id (rd_devices db) @ (if d \<in> set (map dv_id (rd_devices db)) then [] else [d])"
  by (auto simp: upsert_device_def update_device_ids list_ex_iff)

lemma update_device_state_ids [simp]:
  "map dv_id (rd_devices (update_device_state db d p now)) = map dv_id (rd_devices db)"
  by (simp add: update_device_state_def update_device_ids)

lemma update_device_state_simps [simp]:
  "rd_records (update_device_state db d p now) = rd_records db"
  "rd_submissions (update_device_state db d p now) = rd_submissions db"
  by (simp_all add: update_device_state_def)

lemma batch_update_status_simps [simp]:
  "rd_devices (batch_update_status hs st db) = rd_devices db"
  "rd_submissions (batch_update_status hs st db) = rd_submissions db"
  unfolding batch_update_status_def
  by (induction hs arbitrary: db) (simp_all add: update_record_status_def)

lemma batch_update_status_records:
  "rd_records (batch_update_status hs st db) =
     map (\<lambda>r. if rr_hash r \<in> set hs then r\<lparr>rr_status := st\<rparr> else r) (rd_records db)"
  unfolding batch_update_status_def
  by (induction hs arbitrary: db) (auto simp: update_record_status_def)

lemma update_submission_simps [simp]:
  "rd_devices (update_submission i st tx err n now db) = rd_devices db"
  "rd_records (update_submission i st tx err n now db) = rd_records db"
  "length (rd_submissions (update_submission i st tx err n now db)) = length (rd_submissions db)"
  by (simp_all add: update_submission_def Let_def)

lemma create_submission_simps [simp]:
  "rd_devices (fst (create_submission db hs now)) = rd_devices db"
  "rd_records (fst (create_submission db hs now)) = rd_records db"
  by (simp_all add: create_submission_def)

lemma opt_set_simps [simp]: "opt_set None f r = r" "opt_set (Some x) f r = f x r"
  by (simp_all add: opt_set_def)

lemma increment_device_verified_ids [simp]:
  "map dv_id (rd_devices (increment_device_verified db d n)) = map dv_id (rd_devices db)"
  "rd_records (increment_device_verified db d n) = rd_records db"
  "rd_submissions (increment_device_verified db d n) = rd_submissions db"
  by (simp_all add: increment_device_verified_def update_device_ids)

end
