(* ===== verification/Batcher.thy ===== *)
theory Batcher
  imports RecordsStore
begin

section \<open>The submission batcher\<close>

text \<open>
  \<open>batcher.py\<close>: the bounded queue, collection of a batch, submission with its outcomes, the retry pass
  and the recovery at start. What the chain answers is an argument: to the i-th call of a submission,
  and to the wait for a receipt. Checkpoints after a verified batch are in \<open>PhgCheckpoint\<close>; logging
  is left out.
\<close>

type_synonym queued = "poac_record \<times> bytes"

record batcher_cfg =
  bc_batch_size :: int
  bc_max_retries :: int
  bc_retry_base_delay_s :: real

record batcher =
  bt_queue :: "queued list"
  bt_dropped_records :: int
  bt_p256_unavailable :: bool
  bt_no_key_logged :: bool
  bt_chain_paused_logged :: bool

definition queue_maxsize :: nat where "queue_maxsize = 1000"

definition batcher_init :: batcher where
  "batcher_init = \<lparr>bt_queue = [], bt_dropped_records = 0, bt_p256_unavailable = False, bt_no_key_logged = False,
     bt_chain_paused_logged = False\<rparr>"

definition put_nowait :: "batcher \<Rightarrow> queued \<Rightarrow> batcher option" where
  "put_nowait b x =
     (if queue_maxsize \<le> length (bt_queue b) then None else Some (b\<lparr>bt_queue := bt_queue b @ [x]\<rparr>))"

definition enqueue :: "batcher \<Rightarrow> queued \<Rightarrow> batcher" where
  "enqueue b x =
     (case put_nowait b x of
        Some b' \<Rightarrow> b'
      | None \<Rightarrow> b\<lparr>bt_dropped_records := bt_dropped_records b + 1\<rparr>)"

subsection \<open>Collecting\<close>

text \<open>One Boolean per further wait: whether it brought an item before the deadline.\<close>

fun collect_more :: "int \<Rightarrow> queued list \<Rightarrow> queued list \<Rightarrow> bool list \<Rightarrow> queued list \<times> queued list" where
  "collect_more limit batch q [] = (batch, q)"
| "collect_more limit batch q (got # waits) =
     (if limit \<le> int (length batch) \<or> \<not> got then (batch, q)
      else case q of
        [] \<Rightarrow> (batch, q)
      | x # q' \<Rightarrow> collect_more limit (batch @ [x]) q' waits)"

text \<open>Nothing happens while the queue is empty: the first \<open>get\<close> blocks.\<close>

definition collect_batch :: "batcher_cfg \<Rightarrow> batcher \<Rightarrow> bool list \<Rightarrow> batcher \<times> queued list" where
  "collect_batch cfg b waits =
     (case bt_queue b of
        [] \<Rightarrow> (b, [])
      | x # q \<Rightarrow>
          (let (batch, q') = collect_more (bc_batch_size cfg) [x] q waits in (b\<lparr>bt_queue := q'\<rparr>, batch)))"

subsection \<open>The chain\<close>

datatype chain_call =
    VerifyPoac bytes bytes bytes int
  | VerifySingle bytes poac_record
  | VerifyBatch "bytes list" "poac_record list"

record chain_client =
  ch_send :: "nat \<Rightarrow> chain_call \<Rightarrow> string res"
  ch_receipt_status :: "string \<Rightarrow> int option res"

definition verify_call :: "poac_record \<Rightarrow> chain_call" where
  "verify_call r =
     (if 0 < schema_version r then VerifyPoac (device_id r) (raw_body r) (signature r) (schema_version r)
      else VerifySingle (device_id r) r)"

definition calls_of :: "poac_record list \<Rightarrow> chain_call list" where
  "calls_of rs =
     (case rs of
        [r] \<Rightarrow> [verify_call r]
      | _ \<Rightarrow> if list_ex (\<lambda>r. 0 < schema_version r) rs then map verify_call rs
             else [VerifyBatch (map device_id rs) rs])"

text \<open>The calls one after the other; the hash of the last one is kept.\<close>

fun send_all :: "(nat \<Rightarrow> chain_call \<Rightarrow> string res) \<Rightarrow> nat \<Rightarrow> chain_call list \<Rightarrow> string \<Rightarrow> string res" where
  "send_all send i [] tx = Inr tx"
| "send_all send i (c # cs) tx =
     (case send i c of Inl e \<Rightarrow> Inl e | Inr t \<Rightarrow> send_all send (Suc i) cs t)"

subsection \<open>Submission\<close>

datatype failure = NoKey | NoP256 | NoFunds | Paused | Revert | Transient

definition revert_patterns :: "string list" where
  "revert_patterns = [''out of gas'', ''intrinsic gas too low'', ''gas required exceeds allowance'',
     ''transaction reverted'', ''execution reverted'', ''contract revert'']"

definition classify_failure :: "string \<Rightarrow> failure" where
  "classify_failure err =
     (if contains (lower err) ''private key not set'' \<or> contains (lower err) ''cannot sign transactions'' then NoKey
      else if contains err ''f46a06ea'' then NoP256
      else if contains err ''insufficient funds'' then NoFunds
      else if contains (lower err) ''chain_submission_paused'' then Paused
      else if list_ex (contains (lower err)) revert_patterns then Revert
      else Transient)"

definition failure_status :: "failure \<Rightarrow> rec_status" where
  "failure_status f = (if f = Transient then ST_FAILED else ST_DEAD_LETTER)"

fun failure_message :: "failure \<Rightarrow> string \<Rightarrow> string" where
  "failure_message NoKey err = ''no signing key (dry_run mode)''"
| "failure_message NoP256 err = ''P256PrecompileEmptyReturn (testnet)''"
| "failure_message NoFunds err = ''insufficient funds for gas''"
| "failure_message Paused err = ''chain_submission_paused (kill-switch active)''"
| "failure_message Revert err = take 500 err"
| "failure_message Transient err = take 500 err"

fun note_failure :: "failure \<Rightarrow> batcher \<Rightarrow> batcher" where
  "note_failure NoKey b = b\<lparr>bt_no_key_logged := True\<rparr>"
| "note_failure NoP256 b = b\<lparr>bt_p256_unavailable := True\<rparr>"
| "note_failure Paused b = b\<lparr>bt_chain_paused_logged := True\<rparr>"
| "note_failure f b = b"

definition finish_batch ::
  "nat \<Rightarrow> string list \<Rightarrow> rec_status \<Rightarrow> string option \<Rightarrow> real \<Rightarrow> records_db \<Rightarrow> records_db" where
  "finish_batch sid hashes st err now db =
     batch_update_status hashes st (update_submission sid (Some st) None err None now db)"

definition fail_batch ::
  "py_exc \<Rightarrow> nat \<Rightarrow> string list \<Rightarrow> real \<Rightarrow> batcher \<times> records_db \<Rightarrow> batcher \<times> records_db" where
  "fail_batch e sid hashes now bd =
     (let f = classify_failure (exc_msg e)
      in (note_failure f (fst bd),
          finish_batch sid hashes (failure_status f) (Some (failure_message f (exc_msg e))) now (snd bd)))"

definition nominal_counts :: "poac_record list \<Rightarrow> (string, int) dict" where
  "nominal_counts rs =
     fold (\<lambda>r d. if inference_result r = 32 then dput (device_id_hex r) (dget_or d (device_id_hex r) 0 + 1) d else d) rs []"

definition submit_batch ::
  "chain_client \<Rightarrow> real \<Rightarrow> batcher \<Rightarrow> records_db \<Rightarrow> queued list \<Rightarrow> batcher \<times> records_db" where
  "submit_batch ch now b db batch =
     (let records = map fst batch;
          hashes = map record_hash_hex records;
          (db2, sid) = create_submission (batch_update_status hashes ST_BATCHED db) hashes now
      in case send_all (ch_send ch) 0 (calls_of records) [] of
           Inl e \<Rightarrow> fail_batch e sid hashes now (b, db2)
         | Inr tx \<Rightarrow>
             (let db3 = batch_update_status hashes ST_SUBMITTED
                          (update_submission sid (Some ST_SUBMITTED) (Some tx) None None now db2)
              in case ch_receipt_status ch tx of
                   Inl e \<Rightarrow>
                     if exc_class e = ''TimeoutError''
                     then (b, finish_batch sid hashes ST_FAILED (Some ''confirmation timeout'') now db3)
                     else fail_batch e sid hashes now (b, db3)
                 | Inr st \<Rightarrow>
                     if st = Some 1
                     then (b, fold (\<lambda>(d, n) db. increment_device_verified db d n) (nominal_counts records)
                                (finish_batch sid hashes ST_VERIFIED None now db3))
                     else fail_batch (PyExc ''RuntimeError'' (''Transaction reverted: '' @ tx)) sid hashes now (b, db3)))"

subsection \<open>Retries\<close>

text \<open>\<open>jitter i\<close> is the random share of the delay added for submission \<open>i\<close>, between 0 and 1/4.\<close>

definition retry_delay :: "batcher_cfg \<Rightarrow> (nat \<Rightarrow> real) \<Rightarrow> nat \<Rightarrow> int \<Rightarrow> real" where
  "retry_delay cfg jitter i retries =
     (let delay = bc_retry_base_delay_s cfg * 2 ^ nat retries in delay + jitter i * delay)"

definition retry_one ::
  "batcher_cfg \<Rightarrow> (nat \<Rightarrow> real) \<Rightarrow> real \<Rightarrow> nat \<times> submission_row \<Rightarrow> records_db \<Rightarrow> records_db" where
  "retry_one cfg jitter now = (\<lambda>(i, s) db.
     if now - sb_created_at s < retry_delay cfg jitter i (sb_retries s) then db
     else update_submission i (Some ST_PENDING) None None (Some (sb_retries s + 1)) now
            (batch_update_status (sb_record_hashes s) ST_PENDING db))"

definition bury_one :: "batcher_cfg \<Rightarrow> real \<Rightarrow> nat \<times> submission_row \<Rightarrow> records_db \<Rightarrow> records_db" where
  "bury_one cfg now = (\<lambda>(i, s) db.
     if bc_max_retries cfg \<le> sb_retries s
     then update_submission i (Some ST_DEAD_LETTER) None None None now
            (batch_update_status (sb_record_hashes s) ST_DEAD_LETTER db)
     else db)"

text \<open>One round of the retry loop; it ends early when there is nothing to retry.\<close>

definition retry_pass :: "batcher_cfg \<Rightarrow> (nat \<Rightarrow> real) \<Rightarrow> real \<Rightarrow> records_db \<Rightarrow> records_db" where
  "retry_pass cfg jitter now db =
     (let failed = get_failed_submissions db (bc_max_retries cfg) in
      if failed = [] then db
      else
        (let db1 = fold (retry_one cfg jitter now) failed db
         in fold (bury_one cfg now) (get_failed_submissions db1 0) db1))"

subsection \<open>Recovery at start\<close>

text \<open>
  Five seconds after its start the batcher queries the first 500 pending rows and queues them one by
  one; the query runs on a worker thread. The two halves are separate steps of \<open>Pipeline\<close>.
\<close>

text \<open>A stored record as the batcher takes it up again; \<open>None\<close> when the row is skipped or corrupt.\<close>

definition restore_record :: "record_row \<Rightarrow> queued option" where
  "restore_record r =
     (case rr_raw r of
        None \<Rightarrow> None
      | Some raw \<Rightarrow>
          (case parse_record raw of
             Inl e \<Rightarrow> None
           | Inr p \<Rightarrow>
               if rr_device_id r = [] then Some (p, raw)
               else (case fromhex (rr_device_id r) of
                       Inl e \<Rightarrow> None
                     | Inr d \<Rightarrow> Some (p\<lparr>device_id := d\<rparr>, raw))))"

definition recover_one :: "record_row \<Rightarrow> batcher \<Rightarrow> batcher" where
  "recover_one r b =
     (case restore_record r of
        None \<Rightarrow> b
      | Some x \<Rightarrow> (case put_nowait b x of None \<Rightarrow> b | Some b' \<Rightarrow> b'))"

definition requeue :: "record_row list \<Rightarrow> batcher \<Rightarrow> batcher" where
  "requeue rows b = fold recover_one rows b"

subsection \<open>What a submission leaves behind\<close>

definition batch_outcome :: "chain_client \<Rightarrow> poac_record list \<Rightarrow> rec_status" where
  "batch_outcome ch records =
     (case send_all (ch_send ch) 0 (calls_of records) [] of
        Inl e \<Rightarrow> failure_status (classify_failure (exc_msg e))
      | Inr tx \<Rightarrow>
          (case ch_receipt_status ch tx of
             Inl e \<Rightarrow> if exc_class e = ''TimeoutError'' then ST_FAILED
                      else failure_status (classify_failure (exc_msg e))
           | Inr st \<Rightarrow> if st = Some 1 then ST_VERIFIED else ST_DEAD_LETTER))"

definition set_status :: "string list \<Rightarrow> rec_status \<Rightarrow> record_row list \<Rightarrow> record_row list" where
  "set_status hs st rows = map (\<lambda>r. if rr_hash r \<in> set hs then r\<lparr>rr_status := st\<rparr> else r) rows"

definition nominal_count :: "poac_record list \<Rightarrow> string \<Rightarrow> int" where
  "nominal_count rs d = int (length (filter (\<lambda>r. inference_result r = 32 \<and> device_id_hex r = d) rs))"

definition credit :: "poac_record list \<Rightarrow> device_row list \<Rightarrow> device_row list" where
  "credit rs ds = map (\<lambda>d. d\<lparr>dv_records_verified := dv_records_verified d + nominal_count rs (dv_id d)\<rparr>) ds"

lemma revert_is_dead: "failure_status (classify_failure (''Transaction reverted: '' @ tx)) = ST_DEAD_LETTER"
proof -
  have "lower ''Transaction reverted: '' = ''transaction reverted'' @ '': ''"
    by code_simp
  then have "contains (lower (''Transaction reverted: '' @ tx)) ''transaction reverted''"
    unfolding lower_append by (simp only: append_assoc contains_startswith startswith_append)
  then have "list_ex (contains (lower (''Transaction reverted: '' @ tx))) revert_patterns"
    unfolding list_ex_iff revert_patterns_def by (intro bexI [of _ "''transaction reverted''"]) simp_all
  then show ?thesis unfolding classify_failure_def failure_status_def by (simp only: if_True) simp
qed

lemma set_status_twice [simp]: "set_status hs st (set_status hs st' rows) = set_status hs st rows"
  by (simp add: set_status_def)

lemma batch_update_records: "rd_records (batch_update_status hs st db) = set_status hs st (rd_records db)"
  by (simp add: batch_update_status_records set_status_def)

lemma set_status_hashes [simp]: "map rr_hash (set_status hs st rows) = map rr_hash rows"
  by (simp add: set_status_def)

lemma finish_batch_simps:
  "rd_records (finish_batch sid hs st err now db) = set_status hs st (rd_records db)"
  "rd_devices (finish_batch sid hs st err now db) = rd_devices db"
  "rd_submissions (finish_batch sid hs st err now db) =
     rd_submissions (update_submission sid (Some st) None err None now db)"
  by (simp_all add: finish_batch_def batch_update_records)

lemma update_last_submission:
  assumes "rd_submissions db = subs @ [row]" and "sid = length subs + 1"
  shows "\<exists>row'. rd_submissions (update_submission sid (Some st) tx err None now db) = subs @ [row'] \<and>
     sb_status row' = st \<and> sb_record_hashes row' = sb_record_hashes row \<and> sb_retries row' = sb_retries row"
  unfolding update_submission_def assms Let_def
  by (cases tx; cases err) (auto simp: opt_set_def comp_def nth_append)

text \<open>The counts a verified batch credits\<close>

lemma nominal_fold:
  "dget_or (fold (\<lambda>r d. if inference_result r = 32 then dput (device_id_hex r) (dget_or d (device_id_hex r) 0 + 1) d else d)
      rs d0) d 0 = dget_or d0 d 0 + nominal_count rs d"
proof (induction rs arbitrary: d0)
  case Nil
  then show ?case by (simp add: nominal_count_def)
next
  case (Cons r rs)
  have "nominal_count (r # rs) d = (if inference_result r = 32 \<and> device_id_hex r = d then 1 else 0) + nominal_count rs d"
    by (simp add: nominal_count_def)
  then show ?case using Cons by simp
qed

lemma nominal_counts_get: "dget_or (nominal_counts rs) d 0 = nominal_count rs d"
  using nominal_fold [where rs = rs and ?d0.0 = "[]" and d = d] by (simp add: nominal_counts_def dget_or_def)

lemma nominal_counts_distinct: "distinct (dkeys (nominal_counts rs))"
proof -
  have "distinct (dkeys d0) \<Longrightarrow> distinct (dkeys (fold
      (\<lambda>r d. if inference_result r = 32 then dput (device_id_hex r) (dget_or d (device_id_hex r) 0 + 1) d else d) rs d0))"
    for d0 :: "(string, int) dict"
    by (induction rs arbitrary: d0) (simp_all add: distinct_dkeys_dput)
  then show ?thesis by (simp add: nominal_counts_def dkeys_def)
qed

lemma credit_fold:
  assumes "distinct (dkeys kvs)"
  shows "rd_devices (fold (\<lambda>(d, n) db. increment_device_verified db d n) kvs db) =
     map (\<lambda>r. r\<lparr>dv_records_verified := dv_records_verified r + dget_or kvs (dv_id r) 0\<rparr>) (rd_devices db)"
  using assms
proof (induction kvs arbitrary: db)
  case Nil
  then show ?case by (simp add: dget_or_def)
next
  case (Cons kv kvs)
  obtain k n where kv: "kv = (k, n)" by fastforce
  have "dget kvs k = None" using Cons.prems kv by (simp add: dget_None_iff dkeys_def)
  then show ?case
    using Cons kv by (auto simp: dkeys_def increment_device_verified_def update_device_def dget_or_def)
qed

lemma credit_fold_simps [simp]:
  "rd_records (fold (\<lambda>(d, n) db. increment_device_verified db d n) kvs db) = rd_records db"
  "rd_submissions (fold (\<lambda>(d, n) db. increment_device_verified db d n) kvs db) = rd_submissions db"
  by (induction kvs arbitrary: db) auto

definition settled :: "string list \<Rightarrow> rec_status \<Rightarrow> records_db \<Rightarrow> records_db \<Rightarrow> bool" where
  "settled hs st db db' \<longleftrightarrow>
     rd_records db' = set_status hs st (rd_records db) \<and>
     (\<exists>row. rd_submissions db' = rd_submissions db @ [row] \<and> sb_status row = st \<and> sb_record_hashes row = hs \<and>
        sb_retries row = 0)"

lemma finish_settles:
  assumes "rd_submissions db2 = rd_submissions db @ [row]" and "sb_record_hashes row = hs" and "sb_retries row = 0"
    and "set_status hs st (rd_records db2) = set_status hs st (rd_records db)"
  shows "settled hs st db (finish_batch (length (rd_submissions db) + 1) hs st err now db2)"
  using update_last_submission [OF assms(1) refl, of st None err now] assms(2-4)
  by (auto simp: settled_def finish_batch_simps)

lemma fail_reverted:
  "\<exists>f msg. fail_batch (PyExc ''RuntimeError'' (''Transaction reverted: '' @ tx)) sid hs now (b, d) =
     (note_failure f b, finish_batch sid hs ST_DEAD_LETTER (Some msg) now d)"
  unfolding fail_batch_def Let_def fst_conv snd_conv py_exc.sel revert_is_dead by (intro exI) (rule refl)

lemma submit_settles:
  assumes "submit_batch ch now b db batch = (b', db')"
  shows "settled (map (\<lambda>x. record_hash_hex (fst x)) batch) (batch_outcome ch (map fst batch)) db db' \<and>
     rd_devices db' = (if batch_outcome ch (map fst batch) = ST_VERIFIED
                       then credit (map fst batch) (rd_devices db) else rd_devices db) \<and>
     bt_queue b' = bt_queue b \<and> bt_dropped_records b' = bt_dropped_records b"
proof -
  let ?hs = "map (\<lambda>x. record_hash_hex (fst x)) batch"
  let ?db1 = "batch_update_status ?hs ST_BATCHED db"
  let ?row = "\<lparr>sb_tx_hash = [], sb_record_hashes = ?hs, sb_status = ST_PENDING, sb_retries = 0, sb_last_error = [],
          sb_created_at = now, sb_submitted_at = 0, sb_confirmed_at = 0\<rparr>"
  let ?db2 = "?db1\<lparr>rd_submissions := rd_submissions db @ [?row]\<rparr>"
  let ?sid = "length (rd_submissions db) + 1"
  have c: "create_submission ?db1 ?hs now = (?db2, ?sid)" by (simp add: create_submission_def)
  have 2: "settled ?hs st db (finish_batch ?sid ?hs st err now ?db2)"
    "rd_devices (finish_batch ?sid ?hs st err now ?db2) = rd_devices db" for st err
    by (rule finish_settles [where row = ?row]) (simp_all add: batch_update_records finish_batch_simps)
  have q: "bt_queue (note_failure f b) = bt_queue b" "bt_dropped_records (note_failure f b) = bt_dropped_records b" for f
    by (cases f; simp)+
  note S = assms [unfolded submit_batch_def Let_def, simplified c map_map comp_def prod.case]
  show ?thesis
  proof (cases "send_all (ch_send ch) 0 (calls_of (map fst batch)) []")
    case (Inl e)
    then show ?thesis
      using S 2 q by (auto simp: fail_batch_def Let_def batch_outcome_def failure_status_def)
  next
    case (Inr tx)
    let ?db3 = "batch_update_status ?hs ST_SUBMITTED
        (update_submission ?sid (Some ST_SUBMITTED) (Some tx) None None now ?db2)"
    obtain row where row: "rd_submissions ?db3 = rd_submissions db @ [row]" "sb_record_hashes row = ?hs" "sb_retries row = 0"
      using update_last_submission [where db = ?db2 and sid = ?sid and st = ST_SUBMITTED and tx = "Some tx" and err = None
          and now = now, OF _ refl] by auto
    have 3: "settled ?hs st db (finish_batch ?sid ?hs st err now ?db3)"
      "rd_devices (finish_batch ?sid ?hs st err now ?db3) = rd_devices db" for st err
      by (rule finish_settles [OF row]) (simp_all add: batch_update_records finish_batch_simps)
    show ?thesis
    proof (cases "ch_receipt_status ch tx")
      case (Inl e)
      then show ?thesis
        using S \<open>send_all _ _ _ _ = _\<close> 3 q
        by (auto simp: fail_batch_def Let_def batch_outcome_def failure_status_def split: if_splits)
    next
      case (Inr st)
      obtain f msg where F: "fail_batch (PyExc ''RuntimeError'' (''Transaction reverted: '' @ tx)) ?sid ?hs now (b, ?db3) =
          (note_failure f b, finish_batch ?sid ?hs ST_DEAD_LETTER (Some msg) now ?db3)"
        using fail_reverted by blast
      show ?thesis
      proof (cases "st = Some 1")
        case True
        then show ?thesis
          using S \<open>send_all _ _ _ _ = _\<close> Inr 3
          by (auto simp: batch_outcome_def settled_def credit_def credit_fold [OF nominal_counts_distinct]
              nominal_counts_get)
      next
        case False
        then have "batch_outcome ch (map fst batch) = ST_DEAD_LETTER"
          using \<open>send_all _ _ _ _ = _\<close> Inr by (simp add: batch_outcome_def)
        moreover have "b' = note_failure f b \<and> db' = finish_batch ?sid ?hs ST_DEAD_LETTER (Some msg) now ?db3"
          using assms \<open>send_all _ _ _ _ = _\<close> Inr False F
          unfolding submit_batch_def Let_def c map_map comp_def prod.case by (simp only: sum.case if_False) simp
        ultimately show ?thesis using 3 q by simp
      qed
    qed
  qed
qed

text \<open>
  C7: A submission settles its batch: it ends with one new row, without retries, of the batch's
  hashes; that row and every stored record of the batch have the same final status, verified,
  failed or dead-lettered; no other record changes; a device is credited with its nominal records of
  the batch exactly when the batch is verified; and it is verified exactly when every call went
  through and the receipt of the last one has status 1.
\<close>

theorem submit_settles_batch:
  "(case submit_batch ch now b db batch of
      (b', db') \<Rightarrow>
        (let rs = map fst batch; hs = map record_hash_hex rs; st = batch_outcome ch rs in
         st \<in> {ST_VERIFIED, ST_FAILED, ST_DEAD_LETTER} \<and>
         (st = ST_VERIFIED \<longleftrightarrow>
            (\<exists>tx. send_all (ch_send ch) 0 (calls_of rs) [] = Inr tx \<and> ch_receipt_status ch tx = Inr (Some 1))) \<and>
         rd_records db' = set_status hs st (rd_records db) \<and>
         (\<exists>row. rd_submissions db' = rd_submissions db @ [row] \<and> sb_status row = st \<and> sb_record_hashes row = hs \<and>
            sb_retries row = 0) \<and>
         rd_devices db' = (if st = ST_VERIFIED then credit rs (rd_devices db) else rd_devices db) \<and>
         bt_queue b' = bt_queue b))"
proof -
  obtain b' db' where s: "submit_batch ch now b db batch = (b', db')" by fastforce
  have "batch_outcome ch rs \<in> {ST_VERIFIED, ST_FAILED, ST_DEAD_LETTER}" for rs
    by (simp add: batch_outcome_def failure_status_def split: sum.splits)
  moreover have "batch_outcome ch rs = ST_VERIFIED \<longleftrightarrow>
      (\<exists>tx. send_all (ch_send ch) 0 (calls_of rs) [] = Inr tx \<and> ch_receipt_status ch tx = Inr (Some 1))" for rs
    by (auto simp: batch_outcome_def failure_status_def split: sum.splits)
  ultimately show ?thesis
    using submit_settles [OF s] s unfolding Let_def settled_def map_map comp_def by auto
qed

lemma send_all_last:
  assumes "\<forall>j < length cs. send (i + j) (cs ! j) = Inr (tx j)" and "cs \<noteq> []"
  shows "send_all send i cs t0 = Inr (tx (length cs - 1))"
  using assms
proof (induction cs arbitrary: i tx t0)
  case (Cons c cs)
  have c: "send i c = Inr (tx 0)" using Cons.prems(1) by (metis Nat.add_0_right length_greater_0_conv list.discI nth_Cons_0)
  show ?case
  proof (cases "cs = []")
    case True
    then show ?thesis using c by simp
  next
    case False
    have "\<forall>j < length cs. send (Suc i + j) (cs ! j) = Inr (tx (Suc j))"
      using Cons.prems(1) by force
    from Cons.IH [OF this False] show ?thesis using c False by simp
  qed
qed simp

text \<open>
  A batch with schema versions is sent one transaction per record, and only the receipt of the
  last one is looked at: when that is good, every record of the batch is stored as verified, whatever
  became of the transactions of the others.
\<close>

theorem only_last_receipt_counts:
  assumes "2 \<le> length rs" and "list_ex (\<lambda>r. 0 < schema_version r) rs"
    and "\<forall>j < length rs. ch_send ch j (verify_call (rs ! j)) = Inr (tx j)"
    and "ch_receipt_status ch (tx (length rs - 1)) = Inr (Some 1)"
    and "submit_batch ch now b db (map (\<lambda>r. (r, raw r)) rs) = (b', db')"
  shows "rd_records db' = set_status (map record_hash_hex rs) ST_VERIFIED (rd_records db) \<and>
     rd_devices db' = credit rs (rd_devices db)"
proof -
  have c: "calls_of rs = map verify_call rs"
    using assms(1,2) by (simp add: calls_of_def split: list.splits)
  have "send_all (ch_send ch) 0 (calls_of rs) [] = Inr (tx (length rs - 1))"
    using send_all_last [of "map verify_call rs" "ch_send ch" 0 tx "[]"] assms(1,3) unfolding c
    by (cases "rs = []") simp_all
  then have "batch_outcome ch rs = ST_VERIFIED" using assms(4) by (simp add: batch_outcome_def)
  then show ?thesis using submit_settles [OF assms(5)] by (simp add: settled_def comp_def)
qed

definition demo_record :: "nat \<Rightarrow> poac_record" where
  "demo_record n = (case parse_record (be_bytes 228 n) of Inr p \<Rightarrow> p\<lparr>schema_version := 2, device_id := [of_nat n]\<rparr>)"

definition demo_chain :: chain_client where
  "demo_chain = \<lparr>ch_send = (\<lambda>i c. Inr (if i = 0 then ''first'' else ''second'')),
     ch_receipt_status = (\<lambda>t. Inr (if t = ''first'' then Some 0 else Some 1))\<rparr>"

lemma demo_record_schema: "schema_version (demo_record n) = 2"
  by (simp add: demo_record_def parse_record_def Let_def)

definition demo_row :: "poac_record \<Rightarrow> record_row" where
  "demo_row r = \<lparr>rr_hash = record_hash_hex r, rr_device_id = device_id_hex r, rr_counter = 0, rr_timestamp_ms = 0,
     rr_inference = 0, rr_action_code = 0, rr_confidence = 0, rr_battery_pct = 0, rr_bounty_id = 0, rr_latitude = 0,
     rr_longitude = 0, rr_status = ST_PENDING, rr_raw = None, rr_created_at = 0, rr_pitl = no_pitl,
     rr_trigger_active = 0\<rparr>"

definition demo_rows :: records_db where
  "demo_rows = \<lparr>rd_devices = [], rd_records = [demo_row (demo_record 1), demo_row (demo_record 2)], rd_submissions = []\<rparr>"

lemma only_last_receipt_counts_witness:
  "ch_receipt_status demo_chain ''first'' = Inr (Some 0) \<and>
   map rr_status (rd_records (snd (submit_batch demo_chain 0 batcher_init demo_rows
      [(demo_record 1, []), (demo_record 2, [])]))) = [ST_VERIFIED, ST_VERIFIED]"
proof -
  let ?rs = "[demo_record 1, demo_record 2]"
  obtain b' db' where s: "submit_batch demo_chain 0 batcher_init demo_rows (map (\<lambda>r. (r, [])) ?rs) = (b', db')" by fastforce
  have "\<forall>j < length ?rs. ch_send demo_chain j (verify_call (?rs ! j)) = Inr (if j = 0 then ''first'' else ''second'')"
    by (simp add: demo_chain_def)
  from only_last_receipt_counts [OF _ _ this _ s]
  have "rd_records db' = set_status (map record_hash_hex ?rs) ST_VERIFIED (rd_records demo_rows)"
    by (simp add: demo_record_schema demo_chain_def)
  then show ?thesis using s by (simp add: demo_rows_def set_status_def demo_row_def demo_chain_def)
qed

end
