(* ===== verification/Ingest.thy ===== *)
theory Ingest
  imports Batcher
begin

section \<open>Ingestion of records\<close>

text \<open>
  \<open>Bridge.on_record\<close> of \<open>main.py\<close> and what it calls: the key of the signing device is looked up by the
  link to the record before, the signature is checked, the device and the record are stored and a new
  record is queued. The cryptographic library is an argument. The broadcast to web clients and the
  optional study table are left out; one reading of the clock serves one call.
\<close>

record 'key crypto =
  cr_load_key :: "bytes \<Rightarrow> 'key res"
  cr_encode_dss :: "nat \<Rightarrow> nat \<Rightarrow> bytes"
  cr_verify :: "'key \<Rightarrow> bytes \<Rightarrow> bytes \<Rightarrow> unit res"
  cr_keccak :: "bytes \<Rightarrow> bytes"

definition signed_by :: "'key crypto \<Rightarrow> poac_record \<Rightarrow> bytes \<Rightarrow> bool res" where
  "signed_by cr p pk = verify_signature (cr_load_key cr) (cr_encode_dss cr) (cr_verify cr) p pk"

type_synonym pubkey_cache = "(string, bytes) dict"

record bridge =
  br_db :: records_db
  br_cache :: pubkey_cache
  br_batcher :: batcher

definition bridge_init :: bridge where
  "bridge_init = \<lparr>br_db = empty_records_db, br_cache = [], br_batcher = batcher_init\<rparr>"

subsection \<open>The key of the device\<close>

text \<open>The first known device whose head is the link; a key that is not hex raises.\<close>

fun device_with_head :: "string \<Rightarrow> device_row list \<Rightarrow> bytes option res" where
  "device_with_head prev [] = Inr None"
| "device_with_head prev (d # ds) =
     (if dv_pubkey_hex d = ''unknown'' then device_with_head prev ds
      else if dv_chain_head d = prev then bindE (fromhex (dv_pubkey_hex d)) (\<lambda>pk. Inr (Some pk))
      else device_with_head prev ds)"

fun first_known_device :: "device_row list \<Rightarrow> bytes option res" where
  "first_known_device [] = Inr None"
| "first_known_device (d # ds) =
     (if dv_pubkey_hex d = ''unknown'' then first_known_device ds
      else bindE (fromhex (dv_pubkey_hex d)) (\<lambda>pk. Inr (Some pk)))"

definition cache_pair :: "pubkey_cache \<Rightarrow> string \<Rightarrow> string \<Rightarrow> bytes \<Rightarrow> pubkey_cache" where
  "cache_pair c prev h pk = dput h pk (dput prev pk c)"

text \<open>More than 4096 entries: the oldest one goes.\<close>

definition bound_cache :: "pubkey_cache \<Rightarrow> pubkey_cache" where
  "bound_cache c = (if 4096 < length c then tl c else c)"

definition resolve_pubkey_miss ::
  "records_db \<Rightarrow> pubkey_cache \<Rightarrow> poac_record \<Rightarrow> string \<Rightarrow> pubkey_cache \<times> bytes option res" where
  "resolve_pubkey_miss db c p prev =
     (case device_with_head prev (list_devices db) of
        Inl e \<Rightarrow> (c, Inl e)
      | Inr (Some pk) \<Rightarrow> (bound_cache (cache_pair c prev (record_hash_hex p) pk), Inr (Some pk))
      | Inr None \<Rightarrow>
          if prev_poac_hash p = replicate 32 0 then
            (case first_known_device (list_devices db) of
               Inl e \<Rightarrow> (c, Inl e)
             | Inr (Some pk) \<Rightarrow> (cache_pair c prev (record_hash_hex p) pk, Inr (Some pk))
             | Inr None \<Rightarrow> (c, Inr None))
          else (c, Inr None))"

definition resolve_pubkey :: "records_db \<Rightarrow> pubkey_cache \<Rightarrow> poac_record \<Rightarrow> pubkey_cache \<times> bytes option res" where
  "resolve_pubkey db c p =
     (let prev = hex (prev_poac_hash p) in
      case dget c prev of
        Some pk \<Rightarrow> (dput (record_hash_hex p) pk c, Inr (Some pk))
      | None \<Rightarrow> resolve_pubkey_miss db c p prev)"

subsection \<open>Storing\<close>

text \<open>
  What a transport knows beside the bytes: the version its device profile has, and the side-car
  fields with the trigger flag, absent when there are none.
\<close>

record source_info =
  si_dualshock :: bool
  si_schema :: "int option"
  si_meta :: "(pitl_fields \<times> int) option"

definition apply_source :: "source_info \<Rightarrow> poac_record \<Rightarrow> poac_record \<times> int" where
  "apply_source si p =
     (if si_dualshock si then
        (let p1 = p\<lparr>schema_version := (case si_schema si of Some v \<Rightarrow> v | None \<Rightarrow> 2)\<rparr> in
         case si_meta si of
           None \<Rightarrow> (p1, 0)
         | Some (m, trigger) \<Rightarrow> (p1\<lparr>pitl := m\<rparr>, trigger))
      else (p, 0))"

definition store_device :: "records_db \<Rightarrow> string \<Rightarrow> string \<Rightarrow> poac_record \<Rightarrow> real \<Rightarrow> records_db" where
  "store_device db d pubkey_hex p now = update_device_state (upsert_device db d pubkey_hex now) d p now"

text \<open>The result is the record as stored, with whether it is new.\<close>

definition persist_record ::
  "'key crypto \<Rightarrow> records_db \<Rightarrow> poac_record \<Rightarrow> bytes \<Rightarrow> bytes option \<Rightarrow> source_info \<Rightarrow> real
     \<Rightarrow> records_db \<times> (poac_record \<times> bool) res" where
  "persist_record cr db p raw pubkey si now =
     (let (p1, trigger) = apply_source si p in
      if pubkey \<noteq> None \<and> pubkey \<noteq> Some [] then
        (let pk = the pubkey;
             p2 = p1\<lparr>device_id := compute_device_id (cr_keccak cr) pk\<rparr>
         in case signed_by cr p2 pk of
              Inl e \<Rightarrow> (db, Inl e)
            | Inr ok \<Rightarrow>
                if \<not> ok then (db, Inl (ValueError ''Invalid signature''))
                else
                  (let (db', new) = insert_record (store_device db (device_id_hex p2) (hex pk) p2 now) p2 trigger raw now
                   in (db', Inr (p2, new))))
      else
        (let p2 = p1\<lparr>device_id := record_hash p1\<rparr>;
             (db', new) = insert_record (store_device db (record_hash_hex p2) ''unknown'' p2 now) p2 trigger raw now
         in (db', Inr (p2, new))))"

definition on_record :: "'key crypto \<Rightarrow> bridge \<Rightarrow> bytes \<Rightarrow> source_info \<Rightarrow> real \<Rightarrow> bridge \<times> unit res" where
  "on_record cr b raw si now =
     (case parse_record raw of
        Inl e \<Rightarrow> (b, Inl e)
      | Inr p \<Rightarrow>
          (let (c, k) = resolve_pubkey (br_db b) (br_cache b) p;
               b1 = b\<lparr>br_cache := c\<rparr>
           in case k of
                Inl e \<Rightarrow> (b1, Inl e)
              | Inr pubkey \<Rightarrow>
                  (let (db', r) = persist_record cr (br_db b1) p raw pubkey si now;
                       b2 = b1\<lparr>br_db := db'\<rparr>
                   in case r of
                        Inl e \<Rightarrow> (b2, Inl e)
                      | Inr (p2, new) \<Rightarrow>
                          if new then (b2\<lparr>br_batcher := enqueue (br_batcher b2) (p2, raw)\<rparr>, Inr ())
                          else (b2, Inr ()))))"

subsection \<open>What one call does to the tables and the queue\<close>

text \<open>
  A stored row comes from the bytes it keeps, and its device is either the row itself (accepted
  without a key) or the identity of a key that signed it.
\<close>

definition row_ok :: "'key crypto \<Rightarrow> record_row \<Rightarrow> bool" where
  "row_ok cr row \<longleftrightarrow>
     (\<exists>raw p. rr_raw row = Some raw \<and> parse_record raw = Inr p \<and> rr_hash row = record_hash_hex p \<and>
        (rr_device_id row = rr_hash row \<or>
         (\<exists>pk. signed_by cr p pk = Inr True \<and> rr_device_id row = hex (cr_keccak cr pk))))"

lemma row_ok_status [simp]: "row_ok cr (r\<lparr>rr_status := st\<rparr>) = row_ok cr r"
  by (simp add: row_ok_def)

lemma signed_by_cong: "signature p = signature q \<Longrightarrow> raw_body p = raw_body q \<Longrightarrow> signed_by cr p pk = signed_by cr q pk"
  by (simp add: signed_by_def verify_signature_def Let_def)

lemma apply_source_keeps:
  assumes "apply_source si p = (p1, t)"
  shows "signature p1 = signature p \<and> raw_body p1 = raw_body p \<and> record_hash p1 = record_hash p \<and>
    monotonic_ctr p1 = monotonic_ctr p"
  using assms by (auto simp: apply_source_def Let_def split: if_splits option.splits)

lemma store_device_simps [simp]:
  "rd_records (store_device db d k p now) = rd_records db"
  "rd_submissions (store_device db d k p now) = rd_submissions db"
  by (simp_all add: store_device_def)

lemma store_device_known: "list_ex (\<lambda>r. dv_id r = d) (rd_devices (store_device db d k p now))"
proof -
  have "d \<in> set (map dv_id (rd_devices (store_device db d k p now)))"
    unfolding store_device_def update_device_state_ids upsert_device_ids by simp
  then show ?thesis by (auto simp: list_ex_iff)
qed

definition stored :: "records_db \<Rightarrow> string set" where
  "stored db = rr_hash ` set (rd_records db)"

lemma insert_known:
  assumes "list_ex (\<lambda>r. dv_id r = device_id_hex p) (rd_devices db)"
  shows "insert_record db p t raw now = (db', new) \<Longrightarrow>
     (new \<longleftrightarrow> record_hash_hex p \<notin> stored db) \<and> rd_submissions db' = rd_submissions db \<and>
     (if new then \<exists>row. rd_records db' = rd_records db @ [row] \<and> rr_hash row = record_hash_hex p \<and>
          rr_status row = ST_PENDING \<and> rr_raw row = Some raw \<and> rr_device_id row = device_id_hex p
      else rd_records db' = rd_records db)"
  using assms by (auto simp: insert_record_def stored_def list_ex_iff image_iff split: if_splits; metis)

lemma stored_store_device [simp]: "stored (store_device db d k p now) = stored db"
  by (simp add: stored_def)

lemma row_okI:
  "rr_raw row = Some raw \<Longrightarrow> parse_record raw = Inr p \<Longrightarrow> rr_hash row = record_hash_hex p \<Longrightarrow>
     rr_device_id row = rr_hash row \<or> (signed_by cr p pk = Inr True \<and> rr_device_id row = hex (cr_keccak cr pk)) \<Longrightarrow>
     row_ok cr row"
  unfolding row_ok_def by blast

lemma persist_record_effect:
  assumes "persist_record cr db p raw pubkey si now = (db', r)" and "parse_record raw = Inr p"
  shows "rd_submissions db' = rd_submissions db \<and>
    (case r of
       Inl e \<Rightarrow> rd_records db' = rd_records db
     | Inr (q, new) \<Rightarrow>
         record_hash_hex q = record_hash_hex p \<and> (new \<longleftrightarrow> record_hash_hex p \<notin> stored db) \<and>
         (if new then \<exists>row. rd_records db' = rd_records db @ [row] \<and> rr_hash row = record_hash_hex p \<and>
              rr_status row = ST_PENDING \<and> row_ok cr row
          else rd_records db' = rd_records db))"
proof -
  obtain p1 t where p1: "apply_source si p = (p1, t)" by fastforce
  note k = apply_source_keeps [OF p1]
  show ?thesis
  proof (cases "pubkey \<noteq> None \<and> pubkey \<noteq> Some []")
    case True
    let ?pk = "the pubkey"
    let ?q = "p1\<lparr>device_id := compute_device_id (cr_keccak cr) ?pk\<rparr>"
    have sg: "signed_by cr ?q ?pk = signed_by cr p ?pk" using k by (intro signed_by_cong) simp_all
    have d: "device_id_hex ?q = hex (cr_keccak cr ?pk)" by (simp add: device_id_hex_def compute_device_id_def)
    have h: "record_hash_hex ?q = record_hash_hex p" using k by (simp add: record_hash_hex_def)
    show ?thesis
    proof (cases "signed_by cr p ?pk = Inr True")
      case ok: True
      obtain db2 new where i: "insert_record (store_device db (device_id_hex ?q) (hex ?pk) ?q now) ?q t raw now = (db2, new)"
        by fastforce
      have e: "db' = db2" "r = Inr (?q, new)"
        using assms(1) True ok i sg by (simp_all add: persist_record_def p1 Let_def)
      show ?thesis
        using insert_known [OF store_device_known i] e h d ok row_okI [OF _ assms(2), where cr = cr and pk = ?pk] by auto
    next
      case False
      then show ?thesis
        using assms(1) True sg by (auto simp: persist_record_def p1 Let_def split: sum.splits if_splits)
    qed
  next
    case False
    let ?q = "p1\<lparr>device_id := record_hash p1\<rparr>"
    have d: "device_id_hex ?q = record_hash_hex p" "record_hash_hex ?q = record_hash_hex p"
      using k by (simp_all add: device_id_hex_def record_hash_hex_def)
    obtain db2 new where i: "insert_record (store_device db (record_hash_hex ?q) ''unknown'' ?q now) ?q t raw now = (db2, new)"
      by fastforce
    have e: "db' = db2" "r = Inr (?q, new)"
      using assms(1) False i by (auto simp: persist_record_def p1 Let_def)
    have "list_ex (\<lambda>x. dv_id x = device_id_hex ?q) (rd_devices (store_device db (record_hash_hex ?q) ''unknown'' ?q now))"
      using store_device_known [of "record_hash_hex ?q"] d by simp
    from insert_known [OF this i] show ?thesis using e d row_okI [OF _ assms(2), where cr = cr] by auto
  qed
qed

lemma on_record_effect:
  assumes "on_record cr b raw si now = (b', r)"
  shows "rd_submissions (br_db b') = rd_submissions (br_db b) \<and>
    ((rd_records (br_db b') = rd_records (br_db b) \<and> br_batcher b' = br_batcher b) \<or>
     (\<exists>q row. rd_records (br_db b') = rd_records (br_db b) @ [row] \<and> rr_hash row \<notin> stored (br_db b) \<and>
        rr_hash row = record_hash_hex q \<and> rr_status row = ST_PENDING \<and> row_ok cr row \<and>
        br_batcher b' = enqueue (br_batcher b) (q, raw)))"
proof (cases "parse_record raw")
  case (Inl e)
  then show ?thesis using assms by (simp add: on_record_def)
next
  case (Inr p)
  obtain c k where c: "resolve_pubkey (br_db b) (br_cache b) p = (c, k)" by fastforce
  show ?thesis
  proof (cases k)
    case (Inl e)
    then show ?thesis using assms Inr c by (auto simp: on_record_def)
  next
    case k: (Inr pubkey)
    obtain db' x where d: "persist_record cr (br_db b) p raw pubkey si now = (db', x)" by fastforce
    show ?thesis
    proof (cases x)
      case (Inl e)
      then show ?thesis using assms Inr c k d persist_record_effect [OF d Inr] by (auto simp: on_record_def)
    next
      case x: (Inr qn)
      obtain q new where q: "qn = (q, new)" by fastforce
      have b: "b' = (if new then b\<lparr>br_cache := c, br_db := db', br_batcher := enqueue (br_batcher b) (q, raw)\<rparr>
          else b\<lparr>br_cache := c, br_db := db'\<rparr>)"
        using assms Inr c k d x q by (auto simp: on_record_def split: if_splits)
      show ?thesis
      proof (cases new)
        case True
        obtain row where "rd_records db' = rd_records (br_db b) @ [row]" "rr_hash row \<notin> stored (br_db b)"
          "rr_hash row = record_hash_hex q" "rr_status row = ST_PENDING" "row_ok cr row"
          using persist_record_effect [OF d Inr] x q True by auto
        moreover have "br_db b' = db'" "br_batcher b' = enqueue (br_batcher b) (q, raw)" using b True by simp_all
        ultimately show ?thesis using persist_record_effect [OF d Inr] by blast
      next
        case False
        then show ?thesis using persist_record_effect [OF d Inr] x q b by simp
      qed
    qed
  qed
qed

subsection \<open>Replays\<close>

lemma find_map_id:
  "(\<And>r. dv_id (f r) = dv_id r) \<Longrightarrow> find (\<lambda>r. dv_id r = d) (map (\<lambda>r. if dv_id r = e then f r else r) ds) =
     map_option (\<lambda>r. if dv_id r = e then f r else r) (find (\<lambda>r. dv_id r = d) ds)"
  by (induction ds) auto

lemma get_update_device:
  "(\<And>r. dv_id (f r) = dv_id r) \<Longrightarrow> get_device (update_device e f db) d =
     map_option (\<lambda>r. if dv_id r = e then f r else r) (get_device db d)"
  by (simp add: get_device_def update_device_def find_map_id)

lemma get_device_Some: "get_device db d = Some r \<Longrightarrow> dv_id r = d \<and> list_ex (\<lambda>r. dv_id r = d) (rd_devices db)"
  by (auto simp: get_device_def find_Some_iff list_ex_iff)

lemma get_store_device:
  assumes "get_device db d = Some r"
  shows "get_device (store_device db d k p now) d =
     Some (r\<lparr>dv_last_seen := now, dv_last_counter := monotonic_ctr p, dv_chain_head := record_hash_hex p,
             dv_last_battery := battery_pct p, dv_last_latitude := latitude p, dv_last_longitude := longitude p,
             dv_records_total := dv_records_total r + 1\<rparr>)"
  using assms get_device_Some [OF assms]
  by (simp add: store_device_def update_device_state_def upsert_device_def get_update_device)

text \<open>
  A replayed record rewinds its device. A record that is already stored and still verifies under
  the key its link leads to is neither stored nor queued again, but the device's head and counter are
  set back to it and it is counted once more.
\<close>

theorem replay_rewinds_device:
  assumes "parse_record raw = Inr p" and "record_hash_hex p \<in> rr_hash ` set (rd_records (br_db b))"
    and "snd (resolve_pubkey (br_db b) (br_cache b) p) = Inr (Some pk)" and "pk \<noteq> []"
    and "signed_by cr p pk = Inr True" and "get_device (br_db b) (hex (cr_keccak cr pk)) = Some d"
    and "si_dualshock si = False"
  shows "\<exists>b' d'. on_record cr b raw si now = (b', Inr ()) \<and> rd_records (br_db b') = rd_records (br_db b) \<and>
     br_batcher b' = br_batcher b \<and> get_device (br_db b') (hex (cr_keccak cr pk)) = Some d' \<and>
     dv_chain_head d' = record_hash_hex p \<and> dv_last_counter d' = monotonic_ctr p \<and>
     dv_records_total d' = dv_records_total d + 1"
proof -
  let ?q = "p\<lparr>device_id := compute_device_id (cr_keccak cr) pk\<rparr>"
  obtain c where c: "resolve_pubkey (br_db b) (br_cache b) p = (c, Inr (Some pk))"
    using assms(3) by (cases "resolve_pubkey (br_db b) (br_cache b) p") simp
  have a: "apply_source si p = (p, 0)" using assms(7) by (simp add: apply_source_def)
  have s: "signed_by cr ?q pk = Inr True" using assms(5) signed_by_cong [of ?q p cr pk] by simp
  have q: "device_id_hex ?q = hex (cr_keccak cr pk)" "record_hash_hex ?q = record_hash_hex p"
    by (simp_all add: device_id_hex_def compute_device_id_def record_hash_hex_def)
  let ?db = "store_device (br_db b) (hex (cr_keccak cr pk)) (hex pk) ?q now"
  have i: "insert_record ?db ?q 0 raw now = (?db, False)"
    using assms(2) q by (auto simp: insert_record_def list_ex_iff)
  have "on_record cr b raw si now = (b\<lparr>br_cache := c, br_db := ?db\<rparr>, Inr ())"
    using assms(1,4) c i s q by (simp add: on_record_def persist_record_def a Let_def)
  then show ?thesis using get_store_device [OF assms(6)] by (auto simp: q)
qed

definition demo_crypto :: "unit crypto" where
  "demo_crypto = \<lparr>cr_load_key = (\<lambda>_. Inr ()), cr_encode_dss = (\<lambda>_ _. []), cr_verify = (\<lambda>_ _ _. Inr ()),
     cr_keccak = (\<lambda>_. [1])\<rparr>"

definition demo_pubkey :: bytes where "demo_pubkey = 4 # replicate 64 0"

definition demo_raw :: bytes where "demo_raw = replicate 228 1"

definition demo_device :: device_row where
  "demo_device = \<lparr>dv_id = hex [1], dv_pubkey_hex = hex demo_pubkey, dv_first_seen = 0, dv_last_seen = 1,
     dv_last_counter = 4000000000, dv_chain_head = ''newer'', dv_last_battery = 50, dv_last_latitude = 0,
     dv_last_longitude = 0, dv_records_total = 7, dv_records_verified = 0\<rparr>"

definition demo_source :: source_info where
  "demo_source = \<lparr>si_dualshock = False, si_schema = None, si_meta = None\<rparr>"

definition demo_parsed :: poac_record where
  "demo_parsed = (case parse_record demo_raw of Inr p \<Rightarrow> p)"

lemma demo_parse:
  "parse_record demo_raw = Inr demo_parsed" "prev_poac_hash demo_parsed = replicate 32 1"
  "monotonic_ctr demo_parsed = int (be_nat [1, 1, 1, 1])"
  by (simp_all add: demo_parsed_def parse_record_def demo_raw_def Let_def slice_def numeral_eq_Suc)

definition demo_bridge :: bridge where
  "demo_bridge = \<lparr>br_db = \<lparr>rd_devices = [demo_device], rd_records = [demo_row demo_parsed], rd_submissions = []\<rparr>,
     br_cache = [(hex (replicate 32 1), demo_pubkey)], br_batcher = batcher_init\<rparr>"

lemma replay_rewinds_device_witness:
  "\<exists>b' d'. on_record demo_crypto demo_bridge demo_raw demo_source 9 = (b', Inr ()) \<and>
     get_device (br_db b') (hex [1]) = Some d' \<and> dv_chain_head demo_device = ''newer'' \<and>
     dv_chain_head d' = record_hash_hex demo_parsed \<and> dv_records_total d' = 8"
proof -
  have "record_hash_hex demo_parsed \<in> rr_hash ` set (rd_records (br_db demo_bridge))"
    by (simp add: demo_bridge_def demo_row_def)
  moreover have "snd (resolve_pubkey (br_db demo_bridge) (br_cache demo_bridge) demo_parsed) = Inr (Some demo_pubkey)"
    by (simp add: resolve_pubkey_def demo_bridge_def demo_parse Let_def)
  moreover have "signed_by demo_crypto demo_parsed demo_pubkey = Inr True"
    by (simp add: signed_by_def verify_signature_def demo_crypto_def demo_pubkey_def Let_def split: unit.splits)
  moreover have "get_device (br_db demo_bridge) (hex (cr_keccak demo_crypto demo_pubkey)) = Some demo_device"
    by (simp add: get_device_def demo_bridge_def demo_device_def demo_crypto_def)
  ultimately obtain b' d' where "on_record demo_crypto demo_bridge demo_raw demo_source 9 = (b', Inr ())"
    "get_device (br_db b') (hex (cr_keccak demo_crypto demo_pubkey)) = Some d'"
    "dv_chain_head d' = record_hash_hex demo_parsed" "dv_records_total d' = dv_records_total demo_device + 1"
    using replay_rewinds_device [OF demo_parse(1), of demo_bridge demo_pubkey demo_crypto demo_device demo_source 9]
    by (auto simp: demo_source_def demo_pubkey_def)
  then show ?thesis by (simp add: demo_crypto_def demo_device_def)
qed

end
