(* ===== verification/Pipeline.thy ===== *)
theory Pipeline
  imports Ingest
begin

section \<open>Ingestion and submission together\<close>

text \<open>
  The bridge as a transition system. A start empties the cache and the queue; the transports run at
  once, while the batcher sleeps five seconds, then queries the pending rows, then queues them, then
  collects and submits. The query may fail, which is logged and skipped. Records come in during every
  phase; a submission and a round of the retry loop are possible only once the batcher runs. Each is
  one step, the steps interleave in any order, and the process may be restarted after any of them.
\<close>

datatype run_phase = Starting | Recovering "record_row list" | Running

inductive run_step :: "'key crypto \<Rightarrow> batcher_cfg \<Rightarrow> run_phase \<times> bridge \<Rightarrow> run_phase \<times> bridge \<Rightarrow> bool" for cr cfg where
  ingest: "on_record cr b raw si now = (b', r) \<Longrightarrow> run_step cr cfg (p, b) (p, b')"
| query: "run_step cr cfg (Starting, b) (Recovering (get_pending_records (br_db b) 500), b)"
| query_fails: "run_step cr cfg (Starting, b) (Running, b)"
| requeue: "run_step cr cfg (Recovering rows, b) (Running, b\<lparr>br_batcher := requeue rows (br_batcher b)\<rparr>)"
| submit: "collect_batch cfg (br_batcher b) waits = (bt, batch) \<Longrightarrow> batch \<noteq> [] \<Longrightarrow>
    submit_batch ch now bt (br_db b) batch = (bt', db') \<Longrightarrow>
    run_step cr cfg (Running, b) (Running, b\<lparr>br_db := db', br_batcher := bt'\<rparr>)"
| retry: "run_step cr cfg (Running, b) (Running, b\<lparr>br_db := retry_pass cfg jitter now (br_db b)\<rparr>)"

inductive_cases from_recovering: "run_step cr cfg (Recovering rows, b) s"
inductive_cases from_running: "run_step cr cfg (Running, b) s"

definition restart :: "bridge \<Rightarrow> bridge" where
  "restart b = \<lparr>br_db = br_db b, br_cache = [], br_batcher = batcher_init\<rparr>"

inductive reached :: "'key crypto \<Rightarrow> batcher_cfg \<Rightarrow> run_phase \<times> bridge \<Rightarrow> bool" for cr cfg where
  init: "reached cr cfg (Starting, bridge_init)"
| run: "reached cr cfg s \<Longrightarrow> run_step cr cfg s s' \<Longrightarrow> reached cr cfg s'"
| boot: "reached cr cfg (p, b) \<Longrightarrow> reached cr cfg (Starting, restart b)"

definition reachable :: "'key crypto \<Rightarrow> batcher_cfg \<Rightarrow> bridge \<Rightarrow> bool" where
  "reachable cr cfg b \<longleftrightarrow> (\<exists>p. reached cr cfg (p, b))"

text \<open>The steps of one run of the process, without a restart.\<close>

inductive run_steps :: "'key crypto \<Rightarrow> batcher_cfg \<Rightarrow> run_phase \<times> bridge \<Rightarrow> run_phase \<times> bridge \<Rightarrow> bool" for cr cfg where
  none: "run_steps cr cfg s s"
| more: "run_steps cr cfg s s1 \<Longrightarrow> run_step cr cfg s1 s2 \<Longrightarrow> run_steps cr cfg s s2"

lemma reachable_restart: "reachable cr cfg b \<Longrightarrow> reachable cr cfg (restart b)"
  unfolding reachable_def by (blast intro: reached.boot)

subsection \<open>The invariants\<close>

definition qhashes :: "batcher \<Rightarrow> string list" where
  "qhashes b = map (\<lambda>x. record_hash_hex (fst x)) (bt_queue b)"

definition rows_ok :: "'key crypto \<Rightarrow> records_db \<Rightarrow> bool" where
  "rows_ok cr db \<longleftrightarrow> distinct (map rr_hash (rd_records db)) \<and> list_all (row_ok cr) (rd_records db)"

definition has_status :: "records_db \<Rightarrow> rec_status \<Rightarrow> string \<Rightarrow> bool" where
  "has_status db st h \<longleftrightarrow> (\<exists>r \<in> set (rd_records db). rr_hash r = h \<and> rr_status r = st)"

text \<open>No submission has been retried more than once, a failed one never.\<close>

definition sub_ok :: "submission_row \<Rightarrow> bool" where
  "sub_ok s \<longleftrightarrow> 0 \<le> sb_retries s \<and> sb_retries s \<le> 1 \<and> (sb_status s = ST_FAILED \<longrightarrow> sb_retries s = 0)"

definition store_ok :: "'key crypto \<Rightarrow> records_db \<Rightarrow> bool" where
  "store_ok cr db \<longleftrightarrow> rows_ok cr db \<and> list_all sub_ok (rd_submissions db)"

text \<open>
  The tables are in order in every reachable state. The queue is in order in a run whose recovery
  query came before its first record: the records to be queued again and those in the queue are
  pending and no two of them are the same.
\<close>

definition queue_ok :: "records_db \<Rightarrow> string list \<Rightarrow> bool" where
  "queue_ok db hs \<longleftrightarrow> distinct hs \<and> list_all (has_status db ST_PENDING) hs"

fun awaited :: "run_phase \<Rightarrow> record_row list" where
  "awaited (Recovering rows) = rows"
| "awaited p = []"

fun run_ok :: "'key crypto \<Rightarrow> run_phase \<times> bridge \<Rightarrow> bool" where
  "run_ok cr (p, b) \<longleftrightarrow> p \<noteq> Starting \<and> store_ok cr (br_db b) \<and> list_all (row_ok cr) (awaited p) \<and>
     queue_ok (br_db b) (map rr_hash (awaited p) @ qhashes (br_batcher b))"

lemma store_init: "store_ok cr (br_db bridge_init)"
  by (simp add: bridge_init_def store_ok_def rows_ok_def empty_records_db_def)

subsection \<open>Statuses\<close>

lemma stored_alt: "stored db = set (map rr_hash (rd_records db))"
  by (simp add: stored_def)

lemma stored_set_status [simp]: "rd_records db' = set_status hs st (rd_records db) \<Longrightarrow> stored db' = stored db"
  by (simp only: stored_alt set_status_hashes)

lemma has_status_stored: "has_status db st h \<Longrightarrow> h \<in> stored db"
  by (auto simp: has_status_def stored_def)

lemma has_status_set:
  assumes "rd_records db' = set_status hs st (rd_records db)"
  shows "has_status db' st' h \<longleftrightarrow> (if h \<in> set hs then h \<in> stored db \<and> st' = st else has_status db st' h)"
  unfolding has_status_def assms set_status_def stored_def set_map image_iff bex_simps by auto

lemma has_status_unique:
  assumes "distinct (map rr_hash (rd_records db))" and "has_status db st h" and "has_status db st' h"
  shows "st = st'"
  using assms unfolding has_status_def distinct_map by (auto dest: inj_onD)

lemma has_status_append:
  "rd_records db' = rd_records db @ [row] \<Longrightarrow> has_status db st h \<Longrightarrow> has_status db' st h"
  by (auto simp: has_status_def)

lemma rows_ok_set:
  "rd_records db' = set_status hs st (rd_records db) \<Longrightarrow> rows_ok cr db' = rows_ok cr db"
  unfolding rows_ok_def
proof (simp only: set_status_hashes)
  have "row_ok cr (if rr_hash r \<in> set hs then r\<lparr>rr_status := st\<rparr> else r) = row_ok cr r" for r by simp
  then show "(distinct (map rr_hash (rd_records db)) \<and> list_all (row_ok cr) (set_status hs st (rd_records db))) =
      (distinct (map rr_hash (rd_records db)) \<and> list_all (row_ok cr) (rd_records db))"
    unfolding set_status_def list.pred_map comp_def by simp
qed

subsection \<open>Every step keeps them\<close>

lemma ingest_cases:
  assumes "on_record cr b raw si now = (b', r)"
  obtains "rd_records (br_db b') = rd_records (br_db b)" "br_batcher b' = br_batcher b"
    "rd_submissions (br_db b') = rd_submissions (br_db b)"
  | q row where "rd_records (br_db b') = rd_records (br_db b) @ [row]" "rr_hash row \<notin> stored (br_db b)"
      "rr_hash row = record_hash_hex q" "rr_status row = ST_PENDING" "row_ok cr row"
      "br_batcher b' = enqueue (br_batcher b) (q, raw)" "rd_submissions (br_db b') = rd_submissions (br_db b)"
  using on_record_effect [OF assms] by blast

lemma qhashes_enqueue:
  "qhashes (enqueue b (q, raw)) = qhashes b \<or> qhashes (enqueue b (q, raw)) = qhashes b @ [record_hash_hex q]"
  by (simp add: qhashes_def enqueue_def put_nowait_def)

lemma ingest_store:
  assumes "on_record cr b raw si now = (b', r)" and "store_ok cr (br_db b)"
  shows "store_ok cr (br_db b')"
  using assms(2) by (cases rule: ingest_cases [OF assms(1)]) (auto simp: store_ok_def rows_ok_def stored_alt)

lemma ingest_queue:
  assumes "on_record cr b raw si now = (b', r)" and "queue_ok (br_db b) (hs @ qhashes (br_batcher b))"
  shows "queue_ok (br_db b') (hs @ qhashes (br_batcher b'))"
proof (cases rule: ingest_cases [OF assms(1)])
  case 1
  then have "has_status (br_db b') = has_status (br_db b)" by (simp add: has_status_def [abs_def])
  then show ?thesis using assms(2) 1 by (simp add: queue_ok_def)
next
  case (2 q row)
  have new: "has_status (br_db b') ST_PENDING (rr_hash row)" using 2(1,4) by (auto simp: has_status_def)
  have old: "h \<noteq> rr_hash row \<and> has_status (br_db b') ST_PENDING h" if "h \<in> set (hs @ qhashes (br_batcher b))" for h
  proof -
    have "has_status (br_db b) ST_PENDING h" using assms(2) that unfolding queue_ok_def list_all_iff by blast
    then show ?thesis using has_status_stored 2(2) has_status_append [OF 2(1)] by metis
  qed
  have "qhashes (br_batcher b') = qhashes (br_batcher b) \<or> qhashes (br_batcher b') = qhashes (br_batcher b) @ [rr_hash row]"
    using qhashes_enqueue [of "br_batcher b" q raw] 2(3,6) by simp
  then show ?thesis
  proof
    assume "qhashes (br_batcher b') = qhashes (br_batcher b)"
    then show ?thesis using assms(2) old unfolding queue_ok_def list_all_iff by simp
  next
    assume "qhashes (br_batcher b') = qhashes (br_batcher b) @ [rr_hash row]"
    moreover have "rr_hash row \<notin> set (hs @ qhashes (br_batcher b))" using old by blast
    ultimately show ?thesis using assms(2) old new unfolding queue_ok_def list_all_iff by simp
  qed
qed

lemma collect_more_split:
  "collect_more n batch q waits = (batch', q') \<Longrightarrow> batch @ q = batch' @ q'"
  by (induction n batch q waits rule: collect_more.induct) (auto split: if_splits list.splits)

lemma collect_batch_split:
  "collect_batch cfg b waits = (b', batch) \<Longrightarrow> bt_queue b = batch @ bt_queue b' \<and>
     bt_dropped_records b' = bt_dropped_records b"
  by (auto simp: collect_batch_def dest!: collect_more_split split: list.splits prod.splits)

lemma submit_effect:
  assumes "collect_batch cfg (br_batcher b) waits = (bt, batch)" and "submit_batch ch now bt (br_db b) batch = (bt', db')"
  defines "hs \<equiv> map (\<lambda>x. record_hash_hex (fst x)) batch"
  shows "qhashes (br_batcher b) = hs @ qhashes bt'"
    and "rd_records db' = set_status hs (batch_outcome ch (map fst batch)) (rd_records (br_db b))"
    and "list_all sub_ok (rd_submissions (br_db b)) \<Longrightarrow> list_all sub_ok (rd_submissions db')"
proof -
  have q: "bt_queue (br_batcher b) = batch @ bt_queue bt" using collect_batch_split [OF assms(1)] by blast
  note S = submit_settles [OF assms(2)]
  show "qhashes (br_batcher b) = hs @ qhashes bt'" using q S by (simp add: qhashes_def hs_def)
  show "rd_records db' = set_status hs (batch_outcome ch (map fst batch)) (rd_records (br_db b))"
    using S by (simp add: settled_def hs_def)
  obtain row where "rd_submissions db' = rd_submissions (br_db b) @ [row]" "sb_retries row = 0"
    using S unfolding settled_def by blast
  then show "list_all sub_ok (rd_submissions (br_db b)) \<Longrightarrow> list_all sub_ok (rd_submissions db')"
    by (simp add: sub_ok_def)
qed

lemma submit_store:
  assumes "collect_batch cfg (br_batcher b) waits = (bt, batch)" and "submit_batch ch now bt (br_db b) batch = (bt', db')"
    and "store_ok cr (br_db b)"
  shows "store_ok cr db'"
  using assms(3) rows_ok_set [OF submit_effect(2) [OF assms(1,2)], of cr] submit_effect(3) [OF assms(1,2)]
  by (simp add: store_ok_def)

lemma submit_queue:
  assumes "collect_batch cfg (br_batcher b) waits = (bt, batch)" and "submit_batch ch now bt (br_db b) batch = (bt', db')"
    and "queue_ok (br_db b) (qhashes (br_batcher b))"
  shows "queue_ok db' (qhashes bt')"
  using assms(3) has_status_set [OF submit_effect(2) [OF assms(1,2)]]
  unfolding queue_ok_def submit_effect(1) [OF assms(1,2)] list_all_iff by (auto simp del: set_map)

definition retried :: "submission_row \<Rightarrow> submission_row" where
  "retried s = s\<lparr>sb_status := ST_PENDING, sb_retries := sb_retries s + 1\<rparr>"

lemma update_to_pending:
  assumes "i \<noteq> 0" and "i - 1 < length (rd_submissions db)" and "rd_submissions db ! (i - 1) = s"
  shows "rd_submissions (update_submission i (Some ST_PENDING) None None (Some n) now db) =
     (rd_submissions db)[i - 1 := s\<lparr>sb_status := ST_PENDING, sb_retries := n\<rparr>]"
proof -
  have "\<not> length (rd_submissions db) < i" using assms(1,2) by linarith
  then show ?thesis using assms(1,3) by (cases s) (simp add: update_submission_def Let_def opt_set_def)
qed

lemma retry_one_cases:
  assumes "(i, s) \<in> set (enumerate 1 (rd_submissions db))"
  obtains "retry_one cfg jitter now (i, s) db = db"
  | "rd_submissions (retry_one cfg jitter now (i, s) db) = (rd_submissions db)[i - 1 := retried s]"
    "rd_records (retry_one cfg jitter now (i, s) db) = set_status (sb_record_hashes s) ST_PENDING (rd_records db)"
proof (cases "now - sb_created_at s < retry_delay cfg jitter i (sb_retries s)")
  case True
  then show ?thesis using that(1) by (simp add: retry_one_def)
next
  case False
  let ?db = "batch_update_status (sb_record_hashes s) ST_PENDING db"
  have r: "retry_one cfg jitter now (i, s) db = update_submission i (Some ST_PENDING) None None (Some (sb_retries s + 1)) now ?db"
    using False by (simp add: retry_one_def)
  have "i \<noteq> 0" "i - 1 < length (rd_submissions ?db)" "rd_submissions ?db ! (i - 1) = s"
    using assms by (auto simp: in_set_enumerate_eq)
  from update_to_pending [OF this]
  show ?thesis using that(2) unfolding r by (simp add: batch_update_records retried_def)
qed

lemma retry_one_keeps:
  assumes "list_all sub_ok (rd_submissions db)" and "(i, s) \<in> set (enumerate 1 (rd_submissions db))"
    and "sb_status s = ST_FAILED"
  shows "list_all sub_ok (rd_submissions (retry_one cfg jitter now (i, s) db))"
proof (cases rule: retry_one_cases [OF assms(2), of cfg jitter now])
  case 1
  then show ?thesis using assms(1) by simp
next
  case 2
  have "sub_ok s" using assms(1,2) unfolding list_all_iff by (auto simp: in_set_enumerate_eq dest: nth_mem)
  then have "sub_ok (retried s)" using assms(3) by (simp add: sub_ok_def retried_def)
  then show ?thesis
    using assms(1) set_update_subset_insert [of "rd_submissions db" "i - 1" "retried s"]
    unfolding 2(1) list_all_iff by blast
qed

definition only_revived :: "records_db \<Rightarrow> records_db \<Rightarrow> bool" where
  "only_revived db db' \<longleftrightarrow>
     (\<exists>f. rd_records db' = map (\<lambda>r. if f r then r\<lparr>rr_status := ST_PENDING\<rparr> else r) (rd_records db))"

lemma only_revived_refl: "only_revived db db"
  unfolding only_revived_def by (rule exI [of _ "\<lambda>_. False"]) simp

lemma only_revived_trans:
  assumes "only_revived a b" and "only_revived b c"
  shows "only_revived a c"
proof -
  obtain f g where "rd_records b = map (\<lambda>r. if f r then r\<lparr>rr_status := ST_PENDING\<rparr> else r) (rd_records a)"
    "rd_records c = map (\<lambda>r. if g r then r\<lparr>rr_status := ST_PENDING\<rparr> else r) (rd_records b)"
    using assms unfolding only_revived_def by blast
  then show ?thesis
    unfolding only_revived_def
    by (intro exI [of _ "\<lambda>r. f r \<or> g (if f r then r\<lparr>rr_status := ST_PENDING\<rparr> else r)"]) auto
qed

lemma only_revived_set: "rd_records db' = set_status hs ST_PENDING (rd_records db) \<Longrightarrow> only_revived db db'"
  unfolding only_revived_def set_status_def by (rule exI [of _ "\<lambda>r. rr_hash r \<in> set hs"])

lemma only_revived_facts:
  assumes "only_revived db db'"
  shows "map rr_hash (rd_records db') = map rr_hash (rd_records db)"
    and "rows_ok cr db' = rows_ok cr db"
    and "has_status db ST_PENDING h \<Longrightarrow> has_status db' ST_PENDING h"
    and "has_status db' st h \<Longrightarrow> has_status db st h \<or> st = ST_PENDING"
proof -
  obtain f where f: "rd_records db' = map (\<lambda>r. if f r then r\<lparr>rr_status := ST_PENDING\<rparr> else r) (rd_records db)"
    using assms unfolding only_revived_def by blast
  show h: "map rr_hash (rd_records db') = map rr_hash (rd_records db)" unfolding f by simp
  have "row_ok cr (if f r then r\<lparr>rr_status := ST_PENDING\<rparr> else r) = row_ok cr r" for r by simp
  then have "list_all (row_ok cr) (rd_records db') = list_all (row_ok cr) (rd_records db)"
    unfolding f list.pred_map comp_def by simp
  then show "rows_ok cr db' = rows_ok cr db" unfolding rows_ok_def h by simp
  show "has_status db ST_PENDING h \<Longrightarrow> has_status db' ST_PENDING h"
    unfolding has_status_def f set_map bex_simps by force
  show "has_status db' st h \<Longrightarrow> has_status db st h \<or> st = ST_PENDING"
    unfolding has_status_def f set_map bex_simps by (auto split: if_splits)
qed

lemma retry_fold:
  assumes "list_all sub_ok (rd_submissions db)" and "distinct (map fst xs)"
    and "\<forall>(i, s) \<in> set xs. (i, s) \<in> set (enumerate 1 (rd_submissions db)) \<and> sb_status s = ST_FAILED"
  shows "list_all sub_ok (rd_submissions (fold (retry_one cfg jitter now) xs db)) \<and>
    only_revived db (fold (retry_one cfg jitter now) xs db)"
  using assms
proof (induction xs arbitrary: db)
  case Nil
  then show ?case by (simp add: only_revived_refl)
next
  case (Cons x xs)
  obtain i s where x: "x = (i, s)" by fastforce
  have m: "(i, s) \<in> set (enumerate 1 (rd_submissions db))" "sb_status s = ST_FAILED" using Cons.prems(3) x by auto
  let ?db = "retry_one cfg jitter now (i, s) db"
  have ok: "list_all sub_ok (rd_submissions ?db)" using retry_one_keeps [OF Cons.prems(1) m] .
  have rev: "only_revived db ?db"
    by (cases rule: retry_one_cases [OF m(1), of cfg jitter now]) (auto simp: only_revived_refl intro: only_revived_set)
  have rest: "(j, t) \<in> set (enumerate 1 (rd_submissions ?db)) \<and> sb_status t = ST_FAILED" if "(j, t) \<in> set xs" for j t
  proof -
    have j: "(j, t) \<in> set (enumerate 1 (rd_submissions db))" "sb_status t = ST_FAILED" using Cons.prems(3) that by auto
    have "j \<noteq> i" using Cons.prems(2) that x by force
    then have "j - 1 \<noteq> i - 1" "j - 1 < length (rd_submissions db)" using j(1) m(1) by (auto simp: in_set_enumerate_eq)
    then show ?thesis
      using j by (cases rule: retry_one_cases [OF m(1), of cfg jitter now])
        (auto simp: in_set_enumerate_eq nth_list_update)
  qed
  have "list_all sub_ok (rd_submissions (fold (retry_one cfg jitter now) xs ?db)) \<and>
      only_revived ?db (fold (retry_one cfg jitter now) xs ?db)"
    using Cons.prems(2) rest x by (intro Cons.IH [OF ok]) auto
  then show ?case using rev only_revived_trans x by auto
qed

lemma get_failed_subset:
  "(i, s) \<in> set (get_failed_submissions db n) \<Longrightarrow>
     (i, s) \<in> set (enumerate 1 (rd_submissions db)) \<and> sb_status s = ST_FAILED \<and> sb_retries s < n"
  by (auto simp: get_failed_submissions_def)

lemma distinct_order_asc: "distinct (map g xs) \<Longrightarrow> distinct (map g (order_asc f xs))"
  unfolding order_asc_def by (simp add: distinct_map)

lemma get_failed_distinct: "distinct (map fst (get_failed_submissions db n))"
  unfolding get_failed_submissions_def
  by (intro distinct_order_asc) (simp add: distinct_map_filter)

lemma none_exhausted: "list_all sub_ok (rd_submissions db) \<Longrightarrow> get_failed_submissions db 0 = []"
  unfolding get_failed_submissions_def list_all_iff sub_ok_def
  by (auto simp: filter_empty_conv in_set_enumerate_eq dest: nth_mem)

lemma retry_pass_effect:
  assumes "list_all sub_ok (rd_submissions db)"
  shows "list_all sub_ok (rd_submissions (retry_pass cfg jitter now db)) \<and> only_revived db (retry_pass cfg jitter now db)"
proof -
  let ?xs = "get_failed_submissions db (bc_max_retries cfg)"
  have "list_all sub_ok (rd_submissions (fold (retry_one cfg jitter now) ?xs db)) \<and>
      only_revived db (fold (retry_one cfg jitter now) ?xs db)"
    using get_failed_subset by (intro retry_fold [OF assms get_failed_distinct]) blast
  then show ?thesis using assms none_exhausted by (auto simp: retry_pass_def Let_def only_revived_refl)
qed

lemma retry_store: "store_ok cr db \<Longrightarrow> store_ok cr (retry_pass cfg jitter now db)"
  using retry_pass_effect [of db cfg jitter now] only_revived_facts(2) [of db "retry_pass cfg jitter now db" cr]
  by (simp add: store_ok_def)

lemma retry_queue:
  "store_ok cr db \<Longrightarrow> queue_ok db hs \<Longrightarrow> queue_ok (retry_pass cfg jitter now db) hs"
  using retry_pass_effect [of db cfg jitter now] only_revived_facts(3) [of db "retry_pass cfg jitter now db"]
  by (auto simp: store_ok_def queue_ok_def list_all_iff)

subsection \<open>Restart and recovery\<close>

lemma restore_row:
  assumes "row_ok cr r"
  shows "\<exists>q raw. restore_record r = Some (q, raw) \<and> record_hash_hex q = rr_hash r \<and> schema_version q = 0"
proof -
  obtain raw p d where p: "rr_raw r = Some raw" "parse_record raw = Inr p" "rr_hash r = record_hash_hex p"
    and "rr_device_id r = hex d"
    using assms unfolding row_ok_def record_hash_hex_def by metis
  moreover have "schema_version p = 0" using p(2) by (auto simp: parse_record_def Let_def split: if_splits)
  ultimately show ?thesis using p(1-3) by (auto simp: restore_record_def record_hash_hex_def)
qed

lemma recover_one_row:
  assumes "row_ok cr r"
  shows "qhashes (recover_one r b) = qhashes b \<or> qhashes (recover_one r b) = qhashes b @ [rr_hash r]"
proof -
  obtain q raw where "restore_record r = Some (q, raw)" "record_hash_hex q = rr_hash r"
    using restore_row [OF assms] by blast
  then show ?thesis by (simp add: recover_one_def put_nowait_def qhashes_def)
qed

text \<open>Whatever finds no place in the queue is left out; the rest stays in order.\<close>

lemma requeue_queue_ok:
  assumes "list_all (row_ok cr) rows" and "queue_ok db (map rr_hash rows @ qhashes b)"
  shows "queue_ok db (qhashes (requeue rows b))"
  using assms
proof (induction rows arbitrary: b)
  case (Cons r rows)
  have "row_ok cr r" using Cons.prems(1) by simp
  from recover_one_row [OF this, of b]
  have "queue_ok db (map rr_hash rows @ qhashes (recover_one r b))"
  proof
    assume "qhashes (recover_one r b) = qhashes b"
    then show ?thesis using Cons.prems(2) by (simp add: queue_ok_def)
  next
    assume "qhashes (recover_one r b) = qhashes b @ [rr_hash r]"
    then show ?thesis using Cons.prems(2) by (simp add: queue_ok_def)
  qed
  then show ?case using Cons.IH [of "recover_one r b"] Cons.prems(1) by (simp add: requeue_def)
qed (simp add: requeue_def)

lemma requeue_all:
  assumes "list_all (row_ok cr) rows" and "length (bt_queue b) + length rows \<le> queue_maxsize"
  shows "bt_queue (requeue rows b) = bt_queue b @ map (\<lambda>r. the (restore_record r)) rows"
  using assms
proof (induction rows arbitrary: b)
  case (Cons r rows)
  obtain x where "restore_record r = Some x" using restore_row [of cr r] Cons.prems(1) by auto
  then have r: "recover_one r b = b\<lparr>bt_queue := bt_queue b @ [x]\<rparr>"
    using Cons.prems(2) by (simp add: recover_one_def put_nowait_def)
  show ?case
    using Cons.IH [of "recover_one r b"] Cons.prems \<open>restore_record r = Some x\<close> by (simp add: r requeue_def)
qed (simp add: requeue_def)

lemma get_pending_facts:
  shows "length (get_pending_records db 500) \<le> 500"
    and "r \<in> set (get_pending_records db n) \<Longrightarrow> r \<in> set (rd_records db) \<and> rr_status r = ST_PENDING"
    and "distinct (map rr_hash (rd_records db)) \<Longrightarrow> distinct (map rr_hash (get_pending_records db n))"
proof -
  show "length (get_pending_records db 500) \<le> 500" by (simp add: get_pending_records_def sql_limit_def)
  show "r \<in> set (get_pending_records db n) \<Longrightarrow> r \<in> set (rd_records db) \<and> rr_status r = ST_PENDING"
    by (auto simp: get_pending_records_def sql_limit_def split: if_splits dest: in_set_takeD)
  assume "distinct (map rr_hash (rd_records db))"
  then have "distinct (map rr_hash (order_asc rr_counter (filter (\<lambda>r. rr_status r = ST_PENDING) (rd_records db))))"
    by (intro distinct_order_asc distinct_map_filter)
  then show "distinct (map rr_hash (get_pending_records db n))"
    by (simp add: get_pending_records_def sql_limit_def take_map [symmetric])
qed

lemma pending_rows:
  assumes "rows_ok cr db"
  shows "list_all (row_ok cr) (get_pending_records db 500)"
    and "queue_ok db (map rr_hash (get_pending_records db 500))"
proof -
  show "list_all (row_ok cr) (get_pending_records db 500)"
    using assms get_pending_facts(2) [of _ db 500] by (auto simp: rows_ok_def list_all_iff)
  show "queue_ok db (map rr_hash (get_pending_records db 500))"
    using assms get_pending_facts(2) [of _ db 500] get_pending_facts(3) [of db 500]
    by (auto simp: rows_ok_def queue_ok_def list_all_iff has_status_def)
qed

lemma recovered_queue:
  assumes "rows_ok cr db" and "length (bt_queue b) \<le> 500"
  defines "rows \<equiv> get_pending_records db 500"
  shows "qhashes (requeue rows b) = qhashes b @ map rr_hash rows"
    and "bt_queue b = [] \<Longrightarrow> list_all (\<lambda>x. schema_version (fst x) = 0) (bt_queue (requeue rows b))"
proof -
  have ok: "list_all (row_ok cr) rows" unfolding rows_def by (rule pending_rows(1) [OF assms(1)])
  have q: "bt_queue (requeue rows b) = bt_queue b @ map (\<lambda>r. the (restore_record r)) rows"
    using get_pending_facts(1) [of db] assms(2) unfolding rows_def
    by (intro requeue_all [OF ok [unfolded rows_def]]) (simp add: queue_maxsize_def)
  have "record_hash_hex (fst (the (restore_record r))) = rr_hash r \<and> schema_version (fst (the (restore_record r))) = 0"
    if "r \<in> set rows" for r
    using ok that restore_row [of cr r] by (auto simp: list_all_iff)
  then show "qhashes (requeue rows b) = qhashes b @ map rr_hash rows"
    "bt_queue b = [] \<Longrightarrow> list_all (\<lambda>x. schema_version (fst x) = 0) (bt_queue (requeue rows b))"
    unfolding qhashes_def q by (auto simp: list_all_iff)
qed

lemma run_step_store:
  "run_step cr cfg s s' \<Longrightarrow> store_ok cr (br_db (snd s)) \<Longrightarrow> store_ok cr (br_db (snd s'))"
  by (induction rule: run_step.induct) (auto intro: ingest_store submit_store retry_store)

lemma reached_store: "reached cr cfg s \<Longrightarrow> store_ok cr (br_db (snd s))"
  by (induction rule: reached.induct) (auto intro: run_step_store simp: store_init restart_def)

lemma reachable_store: "reachable cr cfg b \<Longrightarrow> store_ok cr (br_db b)"
  unfolding reachable_def using reached_store by fastforce

lemma first_step_ok:
  assumes "store_ok cr (br_db b)" and "run_step cr cfg (Starting, restart b) s" and "fst s \<noteq> Starting"
  shows "run_ok cr s"
  using assms(2,3,1) pending_rows [of cr "br_db b"]
  by cases (simp_all add: restart_def store_ok_def queue_ok_def qhashes_def batcher_init_def)

lemma run_step_ok:
  assumes "run_step cr cfg s s'" and "run_ok cr s"
  shows "run_ok cr s'"
  using assms
proof cases
  case (ingest b raw si now b' r p)
  then show ?thesis using assms(2) ingest_store [OF ingest(3)] ingest_queue [OF ingest(3)] by simp
next
  case (requeue rows b)
  then show ?thesis using assms(2) requeue_queue_ok [of cr rows "br_db b" "br_batcher b"] by simp
next
  case (submit b waits bt batch ch now bt' db')
  then show ?thesis using assms(2) submit_store [OF submit(3,5), of cr] submit_queue [OF submit(3,5)] by simp
next
  case (retry b jitter now)
  then show ?thesis using assms(2) retry_store retry_queue by auto
qed simp_all

lemma run_steps_ok: "run_steps cr cfg s s' \<Longrightarrow> run_ok cr s \<Longrightarrow> run_ok cr s'"
  by (induction rule: run_steps.induct) (auto intro: run_step_ok)

text \<open>A run of the process whose recovery query came before its first record.\<close>

definition clean_run :: "'key crypto \<Rightarrow> batcher_cfg \<Rightarrow> run_phase \<times> bridge \<Rightarrow> bool" where
  "clean_run cr cfg s \<longleftrightarrow> (\<exists>b s1. reachable cr cfg b \<and> run_step cr cfg (Starting, restart b) s1 \<and>
     fst s1 \<noteq> Starting \<and> run_steps cr cfg s1 s)"

lemma clean_run_ok: "clean_run cr cfg s \<Longrightarrow> run_ok cr s"
  unfolding clean_run_def using reachable_store first_step_ok run_steps_ok by blast

subsection \<open>A record that left the queue\<close>

definition idle :: "bridge \<Rightarrow> string \<Rightarrow> bool" where
  "idle b h \<longleftrightarrow> h \<in> stored (br_db b) \<and> h \<notin> set (qhashes (br_batcher b))"

definition keeps_idle :: "bridge \<Rightarrow> bridge \<Rightarrow> string \<Rightarrow> bool" where
  "keeps_idle b b' h \<longleftrightarrow> idle b' h \<and> (\<forall>st. has_status (br_db b') st h \<longrightarrow> has_status (br_db b) st h \<or> st = ST_PENDING)"

lemma ingest_idle:
  assumes "on_record cr b raw si now = (b', r)" and "idle b h"
  shows "keeps_idle b b' h"
proof (cases rule: ingest_cases [OF assms(1)])
  case 1
  then show ?thesis using assms(2) by (simp add: keeps_idle_def idle_def stored_def has_status_def)
next
  case (2 q row)
  have "rr_hash row \<noteq> h" using assms(2) 2(2) by (auto simp: idle_def)
  then show ?thesis
    using assms(2) 2(1,3,6) qhashes_enqueue [of "br_batcher b" q raw]
    by (auto simp: keeps_idle_def idle_def stored_def has_status_def)
qed

lemma submit_idle:
  assumes "collect_batch cfg (br_batcher b) waits = (bt, batch)" and "submit_batch ch now bt (br_db b) batch = (bt', db')"
    and "idle b h"
  shows "keeps_idle b (b\<lparr>br_db := db', br_batcher := bt'\<rparr>) h"
proof -
  let ?hs = "map (\<lambda>x. record_hash_hex (fst x)) batch"
  note E = submit_effect [OF assms(1,2)]
  have "h \<notin> set ?hs" using assms(3) E(1) by (auto simp: idle_def)
  then show ?thesis
    using assms(3) E(1) has_status_set [OF E(2)] stored_set_status [OF E(2)] by (auto simp: keeps_idle_def idle_def)
qed

lemma running_idle:
  assumes "run_step cr cfg (Running, b) (p, b')" and "store_ok cr (br_db b)" and "idle b h"
  shows "p = Running \<and> keeps_idle b b' h"
  using assms(1)
proof (cases rule: from_running [consumes 1, case_names ingest submit retry])
  case (retry jitter now)
  have e: "only_revived (br_db b) (br_db b')"
    using retry_pass_effect [of "br_db b"] assms(2) retry by (simp add: store_ok_def)
  show ?thesis
    using assms(3) only_revived_facts(1,4) [OF e] retry by (auto simp: keeps_idle_def idle_def stored_alt)
qed (use assms(3) ingest_idle submit_idle in auto)

lemma running_steps_idle:
  assumes "run_steps cr cfg s s'" and "fst s = Running" and "run_ok cr s" and "idle (snd s) h"
  shows "fst s' = Running \<and> keeps_idle (snd s) (snd s') h"
  using assms
proof induction
  case (none s)
  then show ?case by (simp add: keeps_idle_def)
next
  case (more s s1 s2)
  have "run_ok cr s1" using run_steps_ok [OF more.hyps(1)] more.prems by blast
  then have "store_ok cr (br_db (snd s1))" by (cases s1) simp
  then show ?case
    using more running_idle [of cr cfg "snd s1" "fst s2" "snd s2" h] unfolding keeps_idle_def
    by (metis prod.collapse)
qed

lemma settled_is_idle:
  assumes "run_ok cr (Running, b)" and "has_status (br_db b) st h" and "st \<noteq> ST_PENDING"
  shows "idle b h"
proof -
  have "h \<notin> set (qhashes (br_batcher b))"
    using assms has_status_unique [of "br_db b" st h ST_PENDING]
    by (auto simp: queue_ok_def store_ok_def rows_ok_def list_all_iff)
  then show ?thesis using has_status_stored [OF assms(2)] by (simp add: idle_def)
qed

subsection \<open>Properties\<close>

text \<open>
  C8: Start the process in any reachable state and let the recovery's query, or its failure, be the
  first step, so that no record has come in before it. From then on, whatever calls, submissions and
  retry rounds follow, no record is stored twice, none is queued twice, and every queued record is
  stored and still pending.
\<close>

theorem queue_and_records_agree:
  assumes "reachable cr cfg b0" and "run_step cr cfg (Starting, restart b0) (p1, b1)" and "p1 \<noteq> Starting"
    and "run_steps cr cfg (p1, b1) (p, b)"
  shows "distinct (map rr_hash (rd_records (br_db b))) \<and> distinct (qhashes (br_batcher b)) \<and>
    list_all (has_status (br_db b) ST_PENDING) (qhashes (br_batcher b))"
proof -
  have "clean_run cr cfg (p, b)" unfolding clean_run_def using assms by fastforce
  from clean_run_ok [OF this] show ?thesis by (simp add: store_ok_def rows_ok_def queue_ok_def)
qed


text \<open>
  C6: Every record stored in a reachable state comes from bytes that parse, is stored under the hash
  of its body, and its device is either the record itself (it was accepted without a key) or the
  identity of a key under which its signature verified.
\<close>

theorem stored_records_are_authentic:
  assumes "reachable cr cfg b"
  shows "list_all (row_ok cr) (rd_records (br_db b))"
  using reachable_store [OF assms] by (simp add: store_ok_def rows_ok_def)

text \<open>
  The dead-letter branch of the retry loop is never taken: in every reachable state no submission
  has been retried more than once, a failed one never, and the query that should find the exhausted
  submissions finds none.
\<close>

theorem exhausted_submissions_never_found:
  assumes "reachable cr cfg b"
  shows "list_all (\<lambda>s. sb_retries s \<le> 1) (rd_submissions (br_db b)) \<and> get_failed_submissions (br_db b) 0 = []"
  using reachable_store [OF assms] none_exhausted [of "br_db b"] by (auto simp: store_ok_def sub_ok_def list_all_iff)

text \<open>
  A retry submits nothing. In a run without early records, a record whose submission failed stays
  failed, or pending once a retry round has come over it, through any sequence of calls, submissions
  and retry rounds: only a restart puts it in the queue again.
\<close>

theorem failed_records_wait_for_restart:
  assumes "clean_run cr cfg (Running, b)" and "has_status (br_db b) ST_FAILED h"
    and "run_steps cr cfg (Running, b) (p, b')"
  shows "h \<notin> set (qhashes (br_batcher b')) \<and> (has_status (br_db b') ST_FAILED h \<or> has_status (br_db b') ST_PENDING h)"
proof -
  have ok: "run_ok cr (Running, b)" using clean_run_ok [OF assms(1)] .
  have i: "idle b h" using settled_is_idle [OF ok assms(2)] by simp
  have L: "keeps_idle b b' h" using running_steps_idle [OF assms(3) _ ok] i by simp
  obtain st where st: "has_status (br_db b') st h" using L by (auto simp: keeps_idle_def idle_def stored_def has_status_def)
  then have "has_status (br_db b) st h \<or> st = ST_PENDING" using L by (simp add: keeps_idle_def)
  then have "st = ST_FAILED \<or> st = ST_PENDING"
    using has_status_unique [of "br_db b" st h ST_FAILED] assms(2) ok by (auto simp: store_ok_def rows_ok_def)
  then show ?thesis using st L by (auto simp: keeps_idle_def idle_def)
qed

text \<open>
  Without early records, the recovery queues exactly the first 500 pending records in the order of
  their counters, each once; but none keeps its schema version, so no batch made of them goes the way
  of records with one.
\<close>

theorem restart_requeues_pending:
  assumes "reachable cr cfg b"
  defines "rows \<equiv> get_pending_records (br_db b) 500"
  shows "qhashes (requeue rows (br_batcher (restart b))) = map rr_hash rows \<and>
    list_all (\<lambda>x. schema_version (fst x) = 0) (bt_queue (requeue rows (br_batcher (restart b))))"
  using recovered_queue [of cr "br_db b" batcher_init] reachable_store [OF assms(1)]
  by (simp add: rows_def store_ok_def restart_def batcher_init_def qhashes_def)

subsection \<open>A run\<close>

definition demo_hash :: string where "demo_hash = record_hash_hex demo_parsed"

definition demo_ingested :: bridge where
  "demo_ingested = fst (on_record demo_crypto bridge_init demo_raw demo_source 0)"

lemma demo_ingest:
  "map rr_hash (rd_records (br_db demo_ingested)) = [demo_hash] \<and> map rr_status (rd_records (br_db demo_ingested)) = [ST_PENDING] \<and>
   rd_submissions (br_db demo_ingested) = [] \<and>
   (\<exists>q. bt_queue (br_batcher demo_ingested) = [(q, demo_raw)] \<and> record_hash_hex q = demo_hash)"
proof -
  let ?q = "demo_parsed\<lparr>device_id := record_hash demo_parsed\<rparr>"
  have "resolve_pubkey empty_records_db [] demo_parsed = ([], Inr None)"
    by (simp add: resolve_pubkey_def resolve_pubkey_miss_def demo_parse list_devices_def empty_records_db_def Let_def)
  moreover have "record_hash_hex ?q = demo_hash" "device_id_hex ?q = demo_hash"
    by (simp_all add: demo_hash_def record_hash_hex_def device_id_hex_def)
  ultimately show ?thesis
    by (auto simp: demo_ingested_def on_record_def demo_parse bridge_init_def persist_record_def apply_source_def
        demo_source_def insert_record_def store_device_def upsert_device_def update_device_state_def update_device_def
        empty_records_db_def batcher_init_def enqueue_def put_nowait_def queue_maxsize_def Let_def)
qed

lemma restart_init: "restart bridge_init = bridge_init"
  by (simp add: restart_def bridge_init_def)

lemma demo_early: "reached demo_crypto cfg (Starting, demo_ingested)"
  using reached.run [OF reached.init run_step.ingest [OF surjective_pairing]]
  unfolding demo_ingested_def .

lemma demo_reached: "reachable demo_crypto cfg demo_ingested"
  using demo_early unfolding reachable_def by blast

lemma init_reached: "reachable cr cfg bridge_init"
  unfolding reachable_def by (blast intro: reached.init)

lemma demo_recovered: "run_step cr cfg (Starting, restart bridge_init) (Recovering [], bridge_init)"
  using run_step.query [of cr cfg bridge_init] unfolding restart_init
  by (simp add: bridge_init_def empty_records_db_def get_pending_records_def order_asc_def sql_limit_def)

lemma demo_run_ingest: "run_steps demo_crypto cfg (Recovering [], bridge_init) (Running, demo_ingested)"
proof -
  have "run_step demo_crypto cfg (Recovering [], bridge_init) (Running, bridge_init)"
    using run_step.requeue [of demo_crypto cfg "[]" bridge_init] by (simp add: requeue_def)
  from run_steps.more [OF run_steps.none this] run_step.ingest [OF surjective_pairing]
  show ?thesis unfolding demo_ingested_def by (rule run_steps.more)
qed

lemma demo_clean_run: "clean_run demo_crypto cfg (Running, demo_ingested)"
  unfolding clean_run_def using init_reached demo_recovered demo_run_ingest by fastforce

definition demo_offline :: chain_client where
  "demo_offline = \<lparr>ch_send = (\<lambda>i c. Inl (PyExc ''ConnectionError'' ''boom'')), ch_receipt_status = (\<lambda>t. Inr None)\<rparr>"

definition demo_cfg_b :: batcher_cfg where
  "demo_cfg_b = \<lparr>bc_batch_size = 10, bc_max_retries = 5, bc_retry_base_delay_s = 2\<rparr>"

definition demo_failed :: bridge where
  "demo_failed =
     (let (bt, batch) = collect_batch demo_cfg_b (br_batcher demo_ingested) [];
          (bt', db') = submit_batch demo_offline 1 bt (br_db demo_ingested) batch
      in demo_ingested\<lparr>br_db := db', br_batcher := bt'\<rparr>)"

lemma boom_is_transient: "failure_status (classify_failure ''boom'') = ST_FAILED"
  by code_simp

lemma demo_failing: "run_step demo_crypto demo_cfg_b (Running, demo_ingested) (Running, demo_failed) \<and> has_status (br_db demo_failed) ST_FAILED demo_hash"
proof -
  obtain q where q: "bt_queue (br_batcher demo_ingested) = [(q, demo_raw)]" "record_hash_hex q = demo_hash"
    using demo_ingest by blast
  let ?bt = "(br_batcher demo_ingested)\<lparr>bt_queue := []\<rparr>"
  have c: "collect_batch demo_cfg_b (br_batcher demo_ingested) [] = (?bt, [(q, demo_raw)])"
    by (simp add: collect_batch_def q)
  obtain bt' db' where s: "submit_batch demo_offline 1 ?bt (br_db demo_ingested) [(q, demo_raw)] = (bt', db')" by fastforce
  have f: "demo_failed = demo_ingested\<lparr>br_db := db', br_batcher := bt'\<rparr>"
    by (simp add: demo_failed_def c s)
  have o: "batch_outcome demo_offline [q] = ST_FAILED"
    by (simp add: batch_outcome_def demo_offline_def calls_of_def boom_is_transient)
  have recs: "rd_records db' = set_status [demo_hash] ST_FAILED (rd_records (br_db demo_ingested))"
    using submit_settles [OF s] o q(2) by (simp add: settled_def)
  have "demo_hash \<in> stored (br_db demo_ingested)"
    using demo_ingest unfolding stored_alt by simp
  then have "has_status db' ST_FAILED demo_hash" using has_status_set [OF recs] by simp
  moreover have "run_step demo_crypto demo_cfg_b (Running, demo_ingested) (Running, demo_ingested\<lparr>br_db := db', br_batcher := bt'\<rparr>)"
    using run_step.submit [OF c _ s, of demo_crypto] by simp
  ultimately show ?thesis unfolding f by simp
qed

lemma demo_failed_clean: "clean_run demo_crypto demo_cfg_b (Running, demo_failed)"
  unfolding clean_run_def
  using init_reached [of demo_crypto demo_cfg_b] demo_recovered [of demo_crypto demo_cfg_b]
    run_steps.more [OF demo_run_ingest [of demo_cfg_b] conjunct1 [OF demo_failing]] by fastforce

lemma demo_failed_reached: "reachable demo_crypto demo_cfg_b demo_failed"
proof -
  have "reached demo_crypto demo_cfg_b (Running, bridge_init)"
    using reached.run [OF reached.init run_step.query_fails] .
  from reached.run [OF this run_step.ingest [OF surjective_pairing]]
  have "reached demo_crypto demo_cfg_b (Running, demo_ingested)" unfolding demo_ingested_def .
  from reached.run [OF this conjunct1 [OF demo_failing]] show ?thesis unfolding reachable_def by blast
qed

lemma queue_and_records_agree_witness:
  "qhashes (br_batcher demo_ingested) = [demo_hash] \<and> list_all (has_status (br_db demo_ingested) ST_PENDING) [demo_hash]"
proof -
  have "qhashes (br_batcher demo_ingested) = [demo_hash]" using demo_ingest by (auto simp: qhashes_def)
  then show ?thesis
    using queue_and_records_agree [OF init_reached demo_recovered _ demo_run_ingest] by simp
qed

lemma demo_pending: "map rr_hash (get_pending_records (br_db demo_ingested) 500) = [demo_hash]"
proof -
  obtain r where r: "rd_records (br_db demo_ingested) = [r]" "rr_hash r = demo_hash" "rr_status r = ST_PENDING"
    using demo_ingest by (cases "rd_records (br_db demo_ingested)") auto
  then show ?thesis by (simp add: get_pending_records_def sql_limit_def order_asc_def)
qed


lemma stored_records_are_authentic_witness:
  "map rr_hash (rd_records (br_db demo_ingested)) = [demo_hash] \<and> list_all (row_ok demo_crypto) (rd_records (br_db demo_ingested))"
  using stored_records_are_authentic [OF demo_reached] demo_ingest by simp

lemma exhausted_submissions_never_found_witness:
  "get_failed_submissions (br_db demo_failed) 0 = [] \<and> has_status (br_db demo_failed) ST_FAILED demo_hash"
  using exhausted_submissions_never_found [OF demo_failed_reached] demo_failing by simp

definition demo_retried :: bridge where
  "demo_retried = demo_failed\<lparr>br_db := retry_pass demo_cfg_b (\<lambda>_. 0) 60 (br_db demo_failed)\<rparr>"

lemma failed_records_wait_for_restart_witness:
  "demo_hash \<notin> set (qhashes (br_batcher demo_retried)) \<and>
   (has_status (br_db demo_retried) ST_FAILED demo_hash \<or> has_status (br_db demo_retried) ST_PENDING demo_hash)"
proof -
  have "run_steps demo_crypto demo_cfg_b (Running, demo_failed) (Running, demo_retried)"
    unfolding demo_retried_def by (rule run_steps.more [OF run_steps.none run_step.retry])
  then show ?thesis using failed_records_wait_for_restart [OF demo_failed_clean] demo_failing by blast
qed

lemma restart_requeues_pending_witness:
  "qhashes (requeue (get_pending_records (br_db demo_ingested) 500) (br_batcher (restart demo_ingested))) = [demo_hash]"
  using restart_requeues_pending [OF demo_reached] demo_pending by simp

end
