(* ===== verification/Shutdown.thy ===== *)
theory Shutdown
  imports Batcher
begin

section \<open>Draining the queue at shutdown\<close>

text \<open>
  The handler of \<open>CancelledError\<close> in \<open>Batcher.run\<close>: batches are collected and submitted until the queue is
  empty, each collection cut off after five seconds. Nobody puts records in any more. A collection
  gets the records that are in the queue; when these do not fill the batch it goes on waiting until
  its own deadline, and is cut off when that is not before the limit. Then the records it holds are
  gone from the queue without having been submitted. When the store fails for good during a submission,
  the exception ends the drain as well.
\<close>

definition drain_limit_s :: int where "drain_limit_s = 5"

definition waits_at_shutdown :: "int \<Rightarrow> batcher \<Rightarrow> bool list" where
  "waits_at_shutdown tmo b = (if tmo \<le> 0 then [] else replicate (length (bt_queue b)) True)"

definition cut_off :: "batcher_cfg \<Rightarrow> int \<Rightarrow> queued list \<Rightarrow> bool" where
  "cut_off cfg tmo batch \<longleftrightarrow> int (length batch) < bc_batch_size cfg \<and> drain_limit_s \<le> tmo"

lemma collect_more_available:
  "length q \<le> k \<Longrightarrow> collect_more limit batch q (replicate k True) =
     (let m = nat (limit - int (length batch)) in (batch @ take m q, drop m q))"
proof (induction q arbitrary: batch k)
  case Nil
  then show ?case by (cases k) auto
next
  case (Cons x q)
  then obtain k' where k: "k = Suc k'" and "length q \<le> k'" by (cases k) auto
  show ?case
  proof (cases "limit \<le> int (length batch)")
    case False
    then have "nat (limit - int (length batch)) = Suc (nat (limit - int (length (batch @ [x]))))" by simp
    then show ?thesis using Cons.IH [OF \<open>length q \<le> k'\<close>, of "batch @ [x]"] False k by (simp add: Let_def)
  qed (use k in simp)
qed

text \<open>The size of the batches at shutdown: one when the collection does not wait at all.\<close>

definition drain_step :: "batcher_cfg \<Rightarrow> int \<Rightarrow> nat" where
  "drain_step cfg tmo = (if tmo \<le> 0 then 1 else nat (max 1 (bc_batch_size cfg)))"

lemma drain_step_pos [simp]: "0 < drain_step cfg tmo"
  by (auto simp: drain_step_def max_def)

lemma collect_at_shutdown:
  assumes "bt_queue b \<noteq> []"
  shows "collect_batch cfg b (waits_at_shutdown tmo b) =
     (b\<lparr>bt_queue := drop (drain_step cfg tmo) (bt_queue b)\<rparr>, take (drain_step cfg tmo) (bt_queue b))"
proof -
  obtain x q where q: "bt_queue b = x # q" using assms by (cases "bt_queue b") auto
  have *: "nat (max 1 s) = Suc (nat (s - 1))" for s :: int by linarith
  show ?thesis
    using collect_more_available [of q "Suc (length q)" "bc_batch_size cfg" "[x]"] q
    by (simp add: collect_batch_def waits_at_shutdown_def drain_step_def * Let_def)
qed

lemma submit_batch_queue [simp]: "bt_queue (fst (submit_batch ch now b db batch)) = bt_queue b"
  using submit_settles [of ch now b db batch] by (cases "submit_batch ch now b db batch") simp

text \<open>
  The writes of one submission in order, for the answers of the chain. When the store raises from the
  write number \<open>m\<close> on, the first two leave the exception to the caller at once, the others after the
  handler's own writes have failed too: what stays are the first \<open>m\<close> writes.
\<close>

definition failing_writes :: "py_exc \<Rightarrow> nat \<Rightarrow> string list \<Rightarrow> real \<Rightarrow> (records_db \<Rightarrow> records_db) list" where
  "failing_writes e sid hashes now =
     (let f = classify_failure (exc_msg e)
      in [update_submission sid (Some (failure_status f)) None (Some (failure_message f (exc_msg e))) None now,
          batch_update_status hashes (failure_status f)])"

definition submission_writes :: "chain_client \<Rightarrow> real \<Rightarrow> nat \<Rightarrow> queued list \<Rightarrow> (records_db \<Rightarrow> records_db) list" where
  "submission_writes ch now sid batch =
     (let records = map fst batch;
          hashes = map record_hash_hex records
      in [batch_update_status hashes ST_BATCHED, \<lambda>db. fst (create_submission db hashes now)] @
         (case send_all (ch_send ch) 0 (calls_of records) [] of
            Inl e \<Rightarrow> failing_writes e sid hashes now
          | Inr tx \<Rightarrow>
              [update_submission sid (Some ST_SUBMITTED) (Some tx) None None now, batch_update_status hashes ST_SUBMITTED] @
              (case ch_receipt_status ch tx of
                 Inl e \<Rightarrow>
                   if exc_class e = ''TimeoutError''
                   then [update_submission sid (Some ST_FAILED) None (Some ''confirmation timeout'') None now,
                         batch_update_status hashes ST_FAILED]
                   else failing_writes e sid hashes now
               | Inr st \<Rightarrow>
                   if st = Some 1
                   then [update_submission sid (Some ST_VERIFIED) None None None now, batch_update_status hashes ST_VERIFIED] @
                        map (\<lambda>(d, n) db. increment_device_verified db d n) (nominal_counts records)
                   else failing_writes (PyExc ''RuntimeError'' (''Transaction reverted: '' @ tx)) sid hashes now)))"

definition after_writes :: "(records_db \<Rightarrow> records_db) list \<Rightarrow> records_db \<Rightarrow> records_db" where
  "after_writes ws db = fold (\<lambda>w. w) ws db"

lemma fail_batch_writes:
  "snd (fail_batch e sid hashes now (b, db)) = after_writes (failing_writes e sid hashes now) db"
  by (simp add: fail_batch_def failing_writes_def finish_batch_def after_writes_def Let_def)

lemma after_writes_Cons [simp]: "after_writes (w # ws) db = after_writes ws (w db)" "after_writes [] db = db"
  by (simp_all add: after_writes_def)

lemma after_writes_increments:
  "after_writes (map (\<lambda>(d, n) db. increment_device_verified db d n) kvs) db =
     fold (\<lambda>(d, n) db. increment_device_verified db d n) kvs db"
  by (induction kvs arbitrary: db) auto

lemma create_submission_snd: "snd (create_submission db hs now) = length (rd_submissions db) + 1"
  by (simp add: create_submission_def)

lemma batch_update_submissions: "rd_submissions (batch_update_status hs st db) = rd_submissions db"
  by simp

text \<open>All the writes together are the submission.\<close>

lemma submission_writes_run:
  "after_writes (submission_writes ch now (length (rd_submissions db) + 1) batch) db = snd (submit_batch ch now b db batch)"
proof -
  let ?hs = "map record_hash_hex (map fst batch)"
  obtain db2 sid where c: "create_submission (batch_update_status ?hs ST_BATCHED db) ?hs now = (db2, sid)" by fastforce
  have sid: "sid = length (rd_submissions db) + 1"
    using create_submission_snd [of "batch_update_status ?hs ST_BATCHED db" ?hs now] c by simp
  show ?thesis
    unfolding submission_writes_def submit_batch_def Let_def c prod.case sid
    by (simp add: c [simplified] fail_batch_writes after_writes_increments finish_batch_def split: sum.split)
qed

text \<open>\<open>fault i\<close> is the write from which on the store raises in round \<open>i\<close>.\<close>

function drain ::
  "batcher_cfg \<Rightarrow> int \<Rightarrow> (nat \<Rightarrow> nat option) \<Rightarrow> (nat \<Rightarrow> chain_client) \<Rightarrow> real \<Rightarrow> nat \<Rightarrow> batcher \<Rightarrow> records_db \<Rightarrow> nat
     \<Rightarrow> batcher \<times> records_db \<times> nat"
  where
  "drain cfg tmo fault chain now i b db drained =
     (if bt_queue b = [] then (b, db, drained)
      else
        (let (b2, batch) = collect_batch cfg b (waits_at_shutdown tmo b);
             writes = submission_writes (chain i) now (length (rd_submissions db) + 1) batch
         in if cut_off cfg tmo batch then (b2, db, drained)
            else if (case fault i of None \<Rightarrow> False | Some m \<Rightarrow> m < length writes)
            then (b2, after_writes (take (the (fault i)) writes) db, drained)
            else
              (let (b3, db3) = submit_batch (chain i) now b2 db batch
               in drain cfg tmo fault chain now (Suc i) b3 db3 (drained + length batch))))"
  by pat_completeness auto
termination
  by (relation "measure (\<lambda>(cfg, tmo, fault, chain, now, i, b, db, n). length (bt_queue b))")
     (auto simp: collect_at_shutdown dest!: arg_cong [where f = "\<lambda>p. bt_queue (fst p)"])

declare drain.simps [simp del]

definition drained_count :: "batcher_cfg \<Rightarrow> int \<Rightarrow> nat \<Rightarrow> nat" where
  "drained_count cfg tmo n =
     (if drain_limit_s \<le> tmo then n div drain_step cfg tmo * drain_step cfg tmo else n)"

lemma cut_off_iff:
  assumes "q \<noteq> []"
  shows "cut_off cfg tmo (take (drain_step cfg tmo) q) \<longleftrightarrow> drain_limit_s \<le> tmo \<and> length q < drain_step cfg tmo"
  using assms by (cases q) (auto simp: cut_off_def drain_step_def drain_limit_s_def)

lemma drained_count_step:
  "\<lbrakk>q \<noteq> []; \<not> cut_off cfg tmo (take (drain_step cfg tmo) q)\<rbrakk> \<Longrightarrow>
     length (take (drain_step cfg tmo) q) + drained_count cfg tmo (length (drop (drain_step cfg tmo) q)) =
     drained_count cfg tmo (length q)"
  by (auto simp: cut_off_iff drained_count_def le_div_geq [of "drain_step cfg tmo"] not_less)

lemma drained_count_cut:
  "\<lbrakk>q \<noteq> []; cut_off cfg tmo (take (drain_step cfg tmo) q)\<rbrakk> \<Longrightarrow> drained_count cfg tmo (length q) = 0"
  by (simp add: cut_off_iff drained_count_def)

text \<open>A list cut into pieces of \<open>k\<close> elements, the last one perhaps shorter\<close>

function pieces :: "nat \<Rightarrow> 'a list \<Rightarrow> 'a list list" where
  "pieces k xs = (if xs = [] then [] else take (max 1 k) xs # pieces k (drop (max 1 k) xs))"
  by pat_completeness auto
termination
  by (relation "measure (\<lambda>(k, xs). length xs)") auto

declare pieces.simps [simp del]

lemma pieces_Nil [simp]: "pieces k [] = []"
  by (simp add: pieces.simps [of k "[]"])

lemma pieces_step: "0 < k \<Longrightarrow> xs \<noteq> [] \<Longrightarrow> pieces k xs = take k xs # pieces k (drop k xs)"
  by (simp add: pieces.simps [of k xs] max_def Suc_le_eq)

definition settle_rows :: "(nat \<Rightarrow> chain_client) \<Rightarrow> nat \<times> queued list \<Rightarrow> record_row list \<Rightarrow> record_row list" where
  "settle_rows chain = (\<lambda>(j, batch).
     set_status (map (\<lambda>x. record_hash_hex (fst x)) batch) (batch_outcome (chain j) (map fst batch)))"

definition submissions_of :: "(nat \<Rightarrow> chain_client) \<Rightarrow> (nat \<times> queued list) list \<Rightarrow> submission_row list \<Rightarrow> bool" where
  "submissions_of chain batches rows \<longleftrightarrow>
     map (\<lambda>s. (sb_record_hashes s, sb_status s)) rows =
     map (\<lambda>(j, batch). (map (\<lambda>x. record_hash_hex (fst x)) batch, batch_outcome (chain j) (map fst batch))) batches"

lemma drain_result:
  "drain cfg tmo (\<lambda>_. None) chain now i b db n = (b', db', n') \<Longrightarrow>
     (let m = drained_count cfg tmo (length (bt_queue b));
          batches = enumerate i (pieces (drain_step cfg tmo) (take m (bt_queue b)))
      in bt_queue b' = [] \<and> n' = n + m \<and> rd_records db' = fold (settle_rows chain) batches (rd_records db) \<and>
         (\<exists>rows. rd_submissions db' = rd_submissions db @ rows \<and> submissions_of chain batches rows))"
proof (induction "length (bt_queue b)" arbitrary: i b db n rule: less_induct)
  case less
  let ?q = "bt_queue b" and ?k = "drain_step cfg tmo"
  let ?b2 = "b\<lparr>bt_queue := drop ?k ?q\<rparr>"
  show ?case
  proof (cases "?q = []")
    case True
    then show ?thesis
      using less.prems by (auto simp: drain.simps [of _ _ _ _ _ _ b] drained_count_def Let_def submissions_of_def)
  next
    case False
    note c = collect_at_shutdown [OF False, of cfg tmo]
    show ?thesis
    proof (cases "cut_off cfg tmo (take ?k ?q)")
      case True
      have "?b2 = b' \<and> db = db' \<and> n = n'"
        using less.prems False True by (simp add: drain.simps [of _ _ _ _ _ _ b] c)
      moreover have "length ?q < ?k" using True by (simp add: cut_off_iff [OF False])
      ultimately show ?thesis using drained_count_cut [OF False True] by (auto simp: Let_def submissions_of_def)
    next
      case no_cut: False
      obtain b3 db3 where s: "submit_batch (chain i) now ?b2 db (take ?k ?q) = (b3, db3)" by fastforce
      have run: "drain cfg tmo (\<lambda>_. None) chain now (Suc i) b3 db3 (n + length (take ?k ?q)) = (b', db', n')"
        using less.prems False no_cut by (simp add: drain.simps [of _ _ _ _ _ _ b] c s)
      have b3: "bt_queue b3 = drop ?k ?q" using submit_batch_queue [of "chain i" now ?b2 db "take ?k ?q"] s by simp
      have "length (bt_queue b3) < length ?q" using False b3 by simp
      note IH = less.hyps [OF this run, unfolded b3]
      let ?m = "drained_count cfg tmo (length (drop ?k ?q))" and ?M = "drained_count cfg tmo (length ?q)"
      have M: "length (take ?k ?q) + ?m = ?M" using drained_count_step [OF False no_cut] .
      have taken: "take ?M ?q = take ?k ?q @ take ?m (drop ?k ?q)"
        unfolding M [symmetric] by (cases "?k \<le> length ?q") (simp_all add: take_add)
      have more: "take ?m (drop ?k ?q) \<noteq> [] \<Longrightarrow> ?k \<le> length ?q" by (cases "?k \<le> length ?q") simp_all
      have "take ?k (take ?M ?q) = take ?k ?q \<and> drop ?k (take ?M ?q) = take ?m (drop ?k ?q)"
        unfolding taken using more by (cases "?k \<le> length ?q") auto
      moreover have "take ?M ?q \<noteq> []" unfolding taken using False by simp
      ultimately have P: "enumerate i (pieces ?k (take ?M ?q)) =
          (i, take ?k ?q) # enumerate (Suc i) (pieces ?k (take ?m (drop ?k ?q)))"
        using pieces_step [of ?k "take ?M ?q"] by simp
      have S: "rd_records db3 = settle_rows chain (i, take ?k ?q) (rd_records db)"
        "\<exists>row. rd_submissions db3 = rd_submissions db @ [row] \<and> sb_status row = batch_outcome (chain i) (map fst (take ?k ?q)) \<and>
          sb_record_hashes row = map (\<lambda>x. record_hash_hex (fst x)) (take ?k ?q)"
        using submit_settles [OF s] by (auto simp: settled_def settle_rows_def)
      then obtain row where row: "rd_submissions db3 = rd_submissions db @ [row]"
        "sb_status row = batch_outcome (chain i) (map fst (take ?k ?q))"
        "sb_record_hashes row = map (\<lambda>x. record_hash_hex (fst x)) (take ?k ?q)" by blast
      obtain rows where rows: "rd_submissions db' = rd_submissions db3 @ rows"
        "submissions_of chain (enumerate (Suc i) (pieces ?k (take ?m (drop ?k ?q)))) rows"
        using IH by (auto simp: Let_def)
      have "rd_submissions db' = rd_submissions db @ row # rows" using row(1) rows(1) by simp
      moreover have "submissions_of chain (enumerate i (pieces ?k (take ?M ?q))) (row # rows)"
        using row(2,3) rows(2) unfolding P by (simp add: submissions_of_def)
      ultimately have "\<exists>rows. rd_submissions db' = rd_submissions db @ rows \<and>
          submissions_of chain (enumerate i (pieces ?k (take ?M ?q))) rows" by blast
      moreover have "rd_records db' = fold (settle_rows chain) (enumerate i (pieces ?k (take ?M ?q))) (rd_records db)"
        using IH S(1) unfolding P by (simp add: Let_def)
      ultimately show ?thesis using IH M by (simp add: Let_def)
    qed
  qed
qed

text \<open>A store that fails for good ends the drain: the batch is lost to the queue, and so is what waits behind it.\<close>

lemma drain_stops_at_fault:
  assumes "bt_queue b \<noteq> []" and "\<not> cut_off cfg tmo (take (drain_step cfg tmo) (bt_queue b))" and "fault i = Some m" and "m < 2"
  shows "\<exists>db'. drain cfg tmo fault chain now i b db n = (b\<lparr>bt_queue := drop (drain_step cfg tmo) (bt_queue b)\<rparr>, db', n) \<and>
    rd_submissions db' = rd_submissions db"
proof -
  let ?ws = "submission_writes (chain i) now (length (rd_submissions db) + 1) (take (drain_step cfg tmo) (bt_queue b))"
  have "2 \<le> length ?ws" by (simp add: submission_writes_def Let_def)
  then have "m < length ?ws" using assms(4) by linarith
  moreover have "m = 0 \<or> m = 1" using assms(4) by linarith
  then have "rd_submissions (after_writes (take m ?ws) db) = rd_submissions db"
    by (elim disjE) (simp_all add: submission_writes_def Let_def)
  ultimately show ?thesis
    using assms(1-3) by (simp add: drain.simps [of _ _ _ _ _ _ b] collect_at_shutdown Let_def)
qed

text \<open>
  C35: The drain at shutdown returns with an empty queue, the store working. With a batch timeout below
  five seconds every queued record is submitted; with a longer one (the default is thirty seconds) only
  the full batches are, and the records left over, fewer than a batch, leave the queue without being
  submitted. The new submissions are exactly these batches in the order of the queue, each with the
  final status that the chain's answers give it, and so are the rows of their records; all others stay.
\<close>

theorem shutdown_drops_partial_batch:
  "case drain cfg tmo (\<lambda>_. None) chain now 0 b db 0 of (b', db', n) \<Rightarrow>
     bt_queue b' = [] \<and>
     n = (if 5 \<le> tmo then length (bt_queue b) div nat (max 1 (bc_batch_size cfg)) * nat (max 1 (bc_batch_size cfg))
          else length (bt_queue b)) \<and>
     (let batches = enumerate 0 (pieces (if tmo \<le> 0 then 1 else nat (max 1 (bc_batch_size cfg))) (take n (bt_queue b)))
      in rd_records db' = fold (settle_rows chain) batches (rd_records db) \<and>
         (\<exists>rows. rd_submissions db' = rd_submissions db @ rows \<and> submissions_of chain batches rows))"
proof -
  obtain b' db' n where d: "drain cfg tmo (\<lambda>_. None) chain now 0 b db 0 = (b', db', n)" by (metis prod_cases3)
  show ?thesis
    unfolding d prod.case using drain_result [OF d]
    by (auto simp: drained_count_def drain_limit_s_def drain_step_def Let_def)
qed

end
