(* ===== verification/Checkpoints.thy ===== *)
theory Checkpoints
  imports Batcher Json
begin

section \<open>Score checkpoints\<close>

text \<open>
  The checkpoint step of \<open>batcher.py\<close> for one device and the functions of \<open>store/vhp.py\<close> over
  \<open>phg_checkpoints\<close>. The player's score, the fingerprint, the behavioural modifier and what the chain
  answers are arguments; a row's id is its place. The credential that may be minted afterwards touches
  no table of this theory and is left out.
\<close>

record checkpoint_row =
  ck_device_id :: string
  ck_phg_score :: int
  ck_record_count :: int
  ck_bio_hash :: string
  ck_tx_hash :: string
  ck_committed_at :: real
  ck_last_committed_score :: int
  ck_confirmed :: bool

type_synonym checkpoints = "checkpoint_row list"

definition get_last_phg_checkpoint :: "checkpoints \<Rightarrow> string \<Rightarrow> checkpoint_row option" where
  "get_last_phg_checkpoint cs d = find (\<lambda>c. ck_device_id c = d \<and> ck_confirmed c) (rev cs)"

definition store_phg_checkpoint ::
  "checkpoints \<Rightarrow> string \<Rightarrow> int \<Rightarrow> int \<Rightarrow> string \<Rightarrow> string \<Rightarrow> int \<Rightarrow> bool \<Rightarrow> real \<Rightarrow> checkpoints" where
  "store_phg_checkpoint cs d score count bio tx cumulative confirmed now =
     cs @ [\<lparr>ck_device_id = d, ck_phg_score = score, ck_record_count = count, ck_bio_hash = bio, ck_tx_hash = tx,
            ck_committed_at = now, ck_last_committed_score = cumulative, ck_confirmed = confirmed\<rparr>]"

definition mark_checkpoint_confirmed :: "string \<Rightarrow> checkpoints \<Rightarrow> checkpoints" where
  "mark_checkpoint_confirmed tx cs = map (\<lambda>c. if ck_tx_hash c = tx then c\<lparr>ck_confirmed := True\<rparr> else c) cs"

definition get_unconfirmed_checkpoints :: "checkpoints \<Rightarrow> real \<Rightarrow> real \<Rightarrow> checkpoint_row list" where
  "get_unconfirmed_checkpoints cs age now =
     order_asc ck_committed_at (filter (\<lambda>c. \<not> ck_confirmed c \<and> ck_committed_at c < now - age) cs)"

text \<open>The score since the last confirmed checkpoint; \<open>profile\<close> is the player's score, if known.\<close>

record checkpoint_data =
  cp_phg_score :: int
  cp_biometric_hash :: bytes
  cp_cumulative_score :: int

definition get_phg_checkpoint_data :: "checkpoints \<Rightarrow> string \<Rightarrow> int option \<Rightarrow> bytes \<Rightarrow> checkpoint_data option" where
  "get_phg_checkpoint_data cs d profile bio =
     (case profile of
        None \<Rightarrow> None
      | Some cumulative \<Rightarrow>
          (let committed = (case get_last_phg_checkpoint cs d of None \<Rightarrow> 0 | Some c \<Rightarrow> ck_last_committed_score c)
           in Some \<lparr>cp_phg_score = max 0 (cumulative - committed), cp_biometric_hash = bio,
                    cp_cumulative_score = cumulative\<rparr>))"

subsection \<open>One round for one device\<close>

text \<open>
  What is known and answered in one round: the verified count, the score, the modifier (absent when
  its analysis raises), the transaction hash (or an exception) and the receipt's status (or an
  exception).
\<close>

record ck_input =
  ki_verified :: int
  ki_profile :: "int option"
  ki_bio :: bytes
  ki_modifier :: "real option"
  ki_commit :: "string res"
  ki_receipt :: "int option res"
  ki_now :: real

text \<open>The transaction sent: score and count it adds on the chain.\<close>

type_synonym ck_tx = "int \<times> int"

definition record_checkpoint ::
  "string \<Rightarrow> ck_input \<Rightarrow> checkpoint_data \<Rightarrow> int \<Rightarrow> string \<Rightarrow> checkpoints \<Rightarrow> checkpoints" where
  "record_checkpoint d i cp score tx cs =
     (let store = store_phg_checkpoint cs d score (ki_verified i) (hex (cp_biometric_hash cp)) tx (cp_cumulative_score cp)
      in case ki_receipt i of
           Inr st \<Rightarrow> store (st = Some 1) (ki_now i)
         | Inl e \<Rightarrow> if exc_class e = ''TimeoutError'' then store False (ki_now i) else cs)"

definition commit_checkpoint ::
  "int \<Rightarrow> string \<Rightarrow> checkpoints \<Rightarrow> ck_input \<Rightarrow> checkpoints \<times> ck_tx option" where
  "commit_checkpoint interval d cs i =
     (if interval \<le> 0 \<or> ki_verified i \<le> 0 \<or> ki_verified i mod interval \<noteq> 0 then (cs, None)
      else
        (case get_phg_checkpoint_data cs d (ki_profile i) (ki_bio i) of
           None \<Rightarrow> (cs, None)
         | Some cp \<Rightarrow>
             (let score = (case ki_modifier i of
                     None \<Rightarrow> cp_phg_score cp
                   | Some m \<Rightarrow> trunc (real_of_int (cp_phg_score cp) * m));
                  last_count = (case get_last_phg_checkpoint cs d of None \<Rightarrow> 0 | Some c \<Rightarrow> ck_record_count c);
                  count = max 0 (ki_verified i - last_count)
              in case ki_commit i of
                   Inl e \<Rightarrow> (cs, None)
                 | Inr tx \<Rightarrow>
                     if tx = [] then (cs, None) else (record_checkpoint d i cp score tx cs, Some (score, count)))))"

text \<open>A history of rounds of one device, with the transactions it sends.\<close>

fun checkpoint_rounds :: "int \<Rightarrow> string \<Rightarrow> checkpoints \<Rightarrow> ck_input list \<Rightarrow> checkpoints \<times> ck_tx list" where
  "checkpoint_rounds interval d cs [] = (cs, [])"
| "checkpoint_rounds interval d cs (i # is) =
     (let (cs1, t) = commit_checkpoint interval d cs i;
          (cs2, ts) = checkpoint_rounds interval d cs1 is
      in (cs2, (case t of None \<Rightarrow> ts | Some x \<Rightarrow> x # ts)))"

definition last_count :: "checkpoints \<Rightarrow> string \<Rightarrow> int" where
  "last_count cs d = (case get_last_phg_checkpoint cs d of None \<Rightarrow> 0 | Some c \<Rightarrow> ck_record_count c)"

lemma last_count_confirmed [simp]:
  "last_count (store_phg_checkpoint cs d s n b t c True now) d = n"
  "last_count (store_phg_checkpoint cs d s n b t c False now) d = last_count cs d"
  by (simp_all add: last_count_def get_last_phg_checkpoint_def store_phg_checkpoint_def)

lemma commit_checkpoint_sent:
  assumes "commit_checkpoint interval d cs i = (cs', Some (s, n))"
  shows "n = max 0 (ki_verified i - last_count cs d) \<and>
    last_count cs' d = (if ki_receipt i = Inr (Some 1) then ki_verified i else last_count cs d)"
  using assms unfolding commit_checkpoint_def
  by (auto simp: Let_def record_checkpoint_def last_count_def [symmetric] split: if_splits option.splits sum.splits)

lemma commit_checkpoint_silent:
  "commit_checkpoint interval d cs i = (cs', None) \<Longrightarrow> cs' = cs"
  unfolding commit_checkpoint_def by (auto simp: Let_def split: if_splits option.splits sum.splits)

lemma confirmed_counts:
  assumes "checkpoint_rounds interval d cs is = (cs', ts)" and "list_all (\<lambda>i. ki_receipt i = Inr (Some 1)) is"
    and "sorted (last_count cs d # map ki_verified is)"
  shows "sum_list (map snd ts) = last_count cs' d - last_count cs d \<and> list_all (\<lambda>t. 0 \<le> snd t) ts"
  using assms
proof (induction "is" arbitrary: cs cs' ts)
  case (Cons i "is")
  obtain cs1 t where c: "commit_checkpoint interval d cs i = (cs1, t)" by fastforce
  obtain cs2 us where r: "checkpoint_rounds interval d cs1 is = (cs2, us)" by fastforce
  have e: "cs' = cs2" "ts = (case t of None \<Rightarrow> us | Some x \<Rightarrow> x # us)" using Cons.prems(1) c r by auto
  show ?case
  proof (cases t)
    case None
    then have "cs1 = cs" using commit_checkpoint_silent c by simp
    then show ?thesis using Cons.IH [OF r] Cons.prems(2,3) e None by simp
  next
    case (Some x)
    obtain s n where x: "x = (s, n)" by fastforce
    have "n = max 0 (ki_verified i - last_count cs d)" "last_count cs1 d = ki_verified i"
      using commit_checkpoint_sent c Some x Cons.prems(2) by auto
    then show ?thesis using Cons.IH [OF r] Cons.prems(2,3) e Some x by auto
  qed
qed simp

text \<open>
  C31: When every transaction of a device is confirmed at once and its verified count does not
  shrink, the counts sent to the chain are not negative and add up to exactly the count of the last
  checkpoint: no record is counted twice or lost, however many rounds send nothing.
\<close>

theorem confirmed_checkpoints_add_up:
  assumes "checkpoint_rounds interval d [] inputs = (cs, txs)"
    and "list_all (\<lambda>i. ki_receipt i = Inr (Some 1)) inputs" and "sorted (0 # map ki_verified inputs)"
  shows "sum_list (map snd txs) = last_count cs d \<and> list_all (\<lambda>t. 0 \<le> snd t) txs"
  using confirmed_counts [OF assms(1,2)] assms(3) by (simp add: last_count_def get_last_phg_checkpoint_def)

definition demo_ck :: "int \<Rightarrow> int option res \<Rightarrow> ck_input" where
  "demo_ck n receipt = \<lparr>ki_verified = n, ki_profile = Some (7 * n), ki_bio = [], ki_modifier = None,
     ki_commit = Inr ''0xab'', ki_receipt = receipt, ki_now = 0\<rparr>"

lemmas ck_eval = commit_checkpoint_def get_phg_checkpoint_data_def get_last_phg_checkpoint_def record_checkpoint_def
  store_phg_checkpoint_def demo_ck_def Let_def

lemma confirmed_checkpoints_add_up_witness:
  "map snd (snd (checkpoint_rounds 10 ''d'' [] [demo_ck 10 (Inr (Some 1)), demo_ck 13 (Inr (Some 1)), demo_ck 30 (Inr (Some 1))]))
     = [10, 20] \<and>
   last_count (fst (checkpoint_rounds 10 ''d'' [] [demo_ck 10 (Inr (Some 1)), demo_ck 13 (Inr (Some 1)), demo_ck 30 (Inr (Some 1))])) ''d''
     = 30"
proof -
  let ?is = "[demo_ck 10 (Inr (Some 1)), demo_ck 13 (Inr (Some 1)), demo_ck 30 (Inr (Some 1))]"
  have t: "map snd (snd (checkpoint_rounds 10 ''d'' [] ?is)) = [10, 20]" by (simp add: ck_eval)
  obtain cs txs where r: "checkpoint_rounds 10 ''d'' [] ?is = (cs, txs)" by fastforce
  have "sum_list (map snd txs) = last_count cs ''d''"
    using confirmed_checkpoints_add_up [OF r] by (simp add: demo_ck_def)
  then show ?thesis using t r by simp
qed

text \<open>
  A transaction whose receipt is not seen as good is sent again in full: the next checkpoint
  starts from the last confirmed count, so the two transactions together count the records since then
  up to the first one twice. When the wait for the receipt fails otherwise than by asyncio's timeout, the
  first transaction leaves no row at all.
\<close>

theorem unconfirmed_checkpoint_counts_twice:
  assumes "commit_checkpoint interval d cs i = (cs1, Some (s1, n1))" and "ki_receipt i \<noteq> Inr (Some 1)"
    and "commit_checkpoint interval d cs1 j = (cs2, Some (s2, n2))"
    and "last_count cs d \<le> ki_verified i" and "ki_verified i \<le> ki_verified j"
  shows "n1 + n2 = (ki_verified j - last_count cs d) + (ki_verified i - last_count cs d) \<and>
    (\<forall>e. ki_receipt i = Inl e \<longrightarrow> exc_class e \<noteq> ''TimeoutError'' \<longrightarrow> cs1 = cs)"
proof -
  have 1: "n1 = max 0 (ki_verified i - last_count cs d)" "last_count cs1 d = last_count cs d"
    using commit_checkpoint_sent [OF assms(1)] assms(2) by simp_all
  have 2: "n2 = max 0 (ki_verified j - last_count cs1 d)" using commit_checkpoint_sent [OF assms(3)] by simp
  have "cs1 = cs" if "ki_receipt i = Inl e" "exc_class e \<noteq> ''TimeoutError''" for e
    using assms(1) that by (auto simp: commit_checkpoint_def record_checkpoint_def Let_def split: if_splits option.splits sum.splits)
  then show ?thesis using 1 2 assms(4,5) by auto
qed

lemma unconfirmed_checkpoint_counts_twice_witness:
  "map snd (snd (checkpoint_rounds 10 ''d'' [] [demo_ck 10 (Inl (PyExc ''TimeExhausted'' [])), demo_ck 20 (Inr (Some 1))])) = [10, 20]
   \<and> (10::int) + 20 = (20 - 0) + (10 - 0)"
proof -
  let ?i = "demo_ck 10 (Inl (PyExc ''TimeExhausted'' []))" and ?j = "demo_ck 20 (Inr (Some 1))"
  obtain s1 n1 cs1 where 1: "commit_checkpoint 10 ''d'' [] ?i = (cs1, Some (s1, n1))" "n1 = 10" "cs1 = []"
    by (simp add: ck_eval)
  obtain s2 n2 cs2 where 2: "commit_checkpoint 10 ''d'' cs1 ?j = (cs2, Some (s2, n2))" "n2 = 20"
    by (simp add: ck_eval 1(3))
  show ?thesis
    using unconfirmed_checkpoint_counts_twice [OF 1(1) _ 2(1)] 1 2 by (simp add: demo_ck_def last_count_def get_last_phg_checkpoint_def)
qed

end
