(* ===== verification/ReadGovernor.thy ===== *)
theory ReadGovernor
  imports Prelude
begin

section \<open>The chain-read governor\<close>

text \<open>
  \<open>chain_read_governor.py\<close>: a cache of the block number with a time to live, and reads that fall back
  instead of raising. What a fetch answers within the timeout and the semaphore is an argument; running
  out of time is \<open>TimeoutError\<close>. The lock makes the part of a call behind it one step, the check before
  it is another, so calls interleave between the two.
\<close>

record governor =
  gv_ttl :: real
  gv_value :: int
  gv_at :: real
  gv_hits :: int
  gv_misses :: int
  gv_fail_open :: int
  gv_timeouts :: int
  gv_reads :: int

definition governor_init :: "real \<Rightarrow> governor" where
  "governor_init ttl = \<lparr>gv_ttl = ttl, gv_value = 0, gv_at = 0, gv_hits = 0, gv_misses = 0, gv_fail_open = 0,
     gv_timeouts = 0, gv_reads = 0\<rparr>"

definition cache_fresh :: "governor \<Rightarrow> real \<Rightarrow> bool" where
  "cache_fresh g now \<longleftrightarrow> 0 < gv_value g \<and> now - gv_at g < gv_ttl g"

text \<open>The check without the lock: a value, or the call goes on to the lock.\<close>

definition block_number_fast :: "governor \<Rightarrow> real \<Rightarrow> governor \<times> int option" where
  "block_number_fast g now =
     (let g1 = g\<lparr>gv_reads := gv_reads g + 1\<rparr> in
      if cache_fresh g1 now then (g1\<lparr>gv_hits := gv_hits g1 + 1\<rparr>, Some (gv_value g1)) else (g1, None))"

text \<open>Behind the lock: \<open>now\<close> at the second check, \<open>fin\<close> when the fetch has come back.\<close>

definition block_number_locked :: "governor \<Rightarrow> real \<Rightarrow> int res \<Rightarrow> real \<Rightarrow> governor \<times> int" where
  "block_number_locked g now fetched fin =
     (if cache_fresh g now then (g\<lparr>gv_hits := gv_hits g + 1\<rparr>, gv_value g)
      else
        (let g1 = g\<lparr>gv_misses := gv_misses g + 1\<rparr> in
         case fetched of
           Inr v \<Rightarrow> (g1\<lparr>gv_value := v, gv_at := fin\<rparr>, v)
         | Inl e \<Rightarrow>
             (let g2 = (if exc_class e = ''TimeoutError'' then g1\<lparr>gv_timeouts := gv_timeouts g1 + 1\<rparr> else g1)
              in (g2\<lparr>gv_fail_open := gv_fail_open g2 + 1\<rparr>, gv_value g))))"

text \<open>One call when nothing comes between its two parts.\<close>

definition get_block_number :: "governor \<Rightarrow> real \<Rightarrow> int res \<Rightarrow> real \<Rightarrow> governor \<times> int" where
  "get_block_number g now fetched fin =
     (case block_number_fast g now of
        (g1, Some v) \<Rightarrow> (g1, v)
      | (g1, None) \<Rightarrow> block_number_locked g1 now fetched fin)"

text \<open>\<open>in_thread\<close>: the read runs as a function on a worker thread, without a timeout of its own.\<close>

definition run_read :: "governor \<Rightarrow> bool \<Rightarrow> 'a res \<Rightarrow> 'a \<Rightarrow> governor \<times> 'a" where
  "run_read g in_thread answer fallback =
     (let g1 = g\<lparr>gv_reads := gv_reads g + 1\<rparr> in
      case answer of
        Inr v \<Rightarrow> (g1, v)
      | Inl e \<Rightarrow>
          ((if \<not> in_thread \<and> exc_class e = ''TimeoutError'' then g1\<lparr>gv_timeouts := gv_timeouts g1 + 1\<rparr> else g1),
           fallback))"

subsection \<open>Interleaved calls\<close>

datatype gov_event =
    Fast real
  | Locked real "int res" real
  | OtherRead bool "unit res"

text \<open>
  What a step answers: the value with the time of the check that led to it, and the fetch when one was
  made, with its end and what it brought. A first check that fails answers nothing yet.
\<close>

datatype reply = Reply real int "(real \<times> int res) option"

fun gov_step :: "governor \<Rightarrow> gov_event \<Rightarrow> governor \<times> reply option" where
  "gov_step g (Fast now) =
     (case block_number_fast g now of (g1, v) \<Rightarrow> (g1, map_option (\<lambda>x. Reply now x None) v))"
| "gov_step g (Locked now fetched fin) =
     (case block_number_locked g now fetched fin of
        (g1, v) \<Rightarrow> (g1, Some (Reply now v (if cache_fresh g now then None else Some (fin, fetched)))))"
| "gov_step g (OtherRead th answer) = (case run_read g th answer () of (g1, _) \<Rightarrow> (g1, None))"

fun gov_run :: "governor \<Rightarrow> gov_event list \<Rightarrow> governor \<times> reply list" where
  "gov_run g [] = (g, [])"
| "gov_run g (e # es) =
     (let (g1, r) = gov_step g e; (g2, rs) = gov_run g1 es
      in (g2, (case r of None \<Rightarrow> rs | Some x \<Rightarrow> x # rs)))"

text \<open>
  What the governor promises of its replies, \<open>v\<close> being the value that a fetch brought last and \<open>t\<close> the
  time it came (nought before the first): without a fetch the reply is \<open>v\<close>, positive and younger than
  the time to live; a fetch begins only when \<open>v\<close> is not positive or as old as that; the reply is then what
  it brought, or \<open>v\<close> again when it failed.
\<close>

fun replies_ok :: "real \<Rightarrow> real \<Rightarrow> int \<Rightarrow> reply list \<Rightarrow> bool" where
  "replies_ok ttl t v [] \<longleftrightarrow> True"
| "replies_ok ttl t v (Reply now x None # rs) \<longleftrightarrow> 0 < v \<and> now < t + ttl \<and> x = v \<and> replies_ok ttl t v rs"
| "replies_ok ttl t v (Reply now x (Some (fin, Inr w)) # rs) \<longleftrightarrow>
     (0 < v \<longrightarrow> t + ttl \<le> now) \<and> x = w \<and> replies_ok ttl fin w rs"
| "replies_ok ttl t v (Reply now x (Some (fin, Inl e)) # rs) \<longleftrightarrow>
     (0 < v \<longrightarrow> t + ttl \<le> now) \<and> x = v \<and> replies_ok ttl t v rs"

fun from_cache :: "reply \<Rightarrow> bool" where
  "from_cache (Reply now x f) \<longleftrightarrow> f = None"

fun failed_fetch :: "reply \<Rightarrow> bool" where
  "failed_fetch (Reply now x f) \<longleftrightarrow> (case f of None \<Rightarrow> False | Some (fin, r) \<Rightarrow> raised r)"

lemma gov_step_cases:
  assumes "gov_step g e = (g1, r)"
  obtains (silent) "r = None" "gv_value g1 = gv_value g" "gv_at g1 = gv_at g" "gv_ttl g1 = gv_ttl g"
      "gv_hits g1 = gv_hits g" "gv_misses g1 = gv_misses g" "gv_fail_open g1 = gv_fail_open g"
    | (cached) now where "r = Some (Reply now (gv_value g) None)" "0 < gv_value g" "now < gv_at g + gv_ttl g"
      "gv_value g1 = gv_value g" "gv_at g1 = gv_at g" "gv_ttl g1 = gv_ttl g"
      "gv_hits g1 = gv_hits g + 1" "gv_misses g1 = gv_misses g" "gv_fail_open g1 = gv_fail_open g"
    | (fetched) now w fin where "r = Some (Reply now w (Some (fin, Inr w)))" "0 < gv_value g \<longrightarrow> gv_at g + gv_ttl g \<le> now"
      "gv_value g1 = w" "gv_at g1 = fin" "gv_ttl g1 = gv_ttl g"
      "gv_hits g1 = gv_hits g" "gv_misses g1 = gv_misses g + 1" "gv_fail_open g1 = gv_fail_open g"
    | (failed) now x fin where "r = Some (Reply now (gv_value g) (Some (fin, Inl x)))"
      "0 < gv_value g \<longrightarrow> gv_at g + gv_ttl g \<le> now"
      "gv_value g1 = gv_value g" "gv_at g1 = gv_at g" "gv_ttl g1 = gv_ttl g"
      "gv_hits g1 = gv_hits g" "gv_misses g1 = gv_misses g + 1" "gv_fail_open g1 = gv_fail_open g + 1"
proof (cases e)
  case (Fast now)
  show ?thesis
  proof (cases "cache_fresh g now")
    case True
    then show ?thesis
      using assms by (intro cached [of now]) (auto simp: Fast block_number_fast_def cache_fresh_def Let_def)
  next
    case False
    then have "\<not> cache_fresh (g\<lparr>gv_reads := gv_reads g + 1\<rparr>) now" by (simp add: cache_fresh_def)
    then show ?thesis using assms by (intro silent) (auto simp: Fast block_number_fast_def Let_def)
  qed
next
  case (Locked now answer fin)
  show ?thesis
  proof (cases "cache_fresh g now")
    case True
    then show ?thesis
      using assms by (intro cached [of now]) (auto simp: Locked block_number_locked_def cache_fresh_def)
  next
    case stale: False
    then have old: "0 < gv_value g \<longrightarrow> gv_at g + gv_ttl g \<le> now" by (auto simp: cache_fresh_def)
    show ?thesis
    proof (cases answer)
      case (Inl x)
      then show ?thesis
        using assms stale old by (intro failed [of now fin x]) (auto simp: Locked block_number_locked_def Let_def)
    next
      case (Inr w)
      then show ?thesis
        using assms stale old by (intro fetched [of now w fin]) (auto simp: Locked block_number_locked_def Let_def)
    qed
  qed
next
  case (OtherRead th answer)
  then show ?thesis using assms by (intro silent) (auto simp: run_read_def Let_def split: sum.splits if_splits)
qed

lemma gov_run_facts:
  "gov_run g es = (g2, rs) \<Longrightarrow>
     replies_ok (gv_ttl g) (gv_at g) (gv_value g) rs \<and>
     gv_hits g2 = gv_hits g + int (length (filter from_cache rs)) \<and>
     gv_misses g2 = gv_misses g + int (length (filter (\<lambda>r. \<not> from_cache r) rs)) \<and>
     gv_fail_open g2 = gv_fail_open g + int (length (filter failed_fetch rs))"
proof (induction es arbitrary: g rs)
  case Nil
  then show ?case by simp
next
  case (Cons e es)
  obtain g1 r where s: "gov_step g e = (g1, r)" by fastforce
  obtain us where r: "gov_run g1 es = (g2, us)" "rs = (case r of None \<Rightarrow> us | Some x \<Rightarrow> x # us)"
    using Cons.prems s by (auto split: prod.splits)
  show ?case using Cons.IH [OF r(1)] r(2) by (cases rule: gov_step_cases [OF s]) (simp_all add: raised_def)
qed

text \<open>
  C34: The governor bounds the reads of the block number and never raises: in any interleaving of calls,
  a call is answered without a fetch only by the value that was fetched last and while that is younger
  than the time to live; a fetch begins only when there is no such value; it answers with what it
  brought, and when it fails or runs out of time with the value fetched last, however old, and with 0
  only when no fetch has brought another. The counters count cached, fetched and failed replies.
\<close>

theorem governor_serves_last_fetched:
  "(case gov_run (governor_init ttl) es of
      (g, rs) \<Rightarrow> replies_ok ttl 0 0 rs \<and> gv_hits g = int (length (filter from_cache rs)) \<and>
        gv_misses g = int (length (filter (\<lambda>r. \<not> from_cache r) rs)) \<and> gv_fail_open g = int (length (filter failed_fetch rs)))"
proof -
  obtain g rs where r: "gov_run (governor_init ttl) es = (g, rs)" by fastforce
  then show ?thesis using gov_run_facts [OF r] by (simp add: governor_init_def)
qed

end
