(* ===== verification/Reconciler.thy ===== *)
theory Reconciler
  imports Checkpoints ReadGovernor
begin

section \<open>The chain reconciler\<close>

text \<open>
  \<open>chain_reconciler.py\<close>: one cycle reads the chain's head, asks for the checkpoint events since the
  last head it saw, confirms the stored checkpoints they name, and spawns a task for each old unconfirmed
  one, which asks for its receipt and runs at any later time, between or after other cycles. Without a
  governor the chain is read directly. The endless loop and its sleeps are left out.
\<close>

datatype event_hash = HashBytes bytes | HashText string

text \<open>
  What the chain answers in one cycle, the head as fetched between two readings of the clock, and where
  the store raises: at the confirmation of a hash, or at the listing of old checkpoints.
\<close>

record cycle_input =
  ci_now :: real
  ci_done :: real
  ci_head :: "int res"
  ci_in_thread :: bool
  ci_events :: "int \<Rightarrow> int \<Rightarrow> event_hash list res"
  ci_write_fails :: "string \<Rightarrow> bool"
  ci_list_fails :: bool
  ci_wall :: real

record reconciler =
  rc_last_block :: int
  rc_retry_age_s :: real
  rc_governor :: "governor option"

definition normalise_hash :: "event_hash \<Rightarrow> string" where
  "normalise_hash h =
     (let t = (case h of HashBytes b \<Rightarrow> hex b | HashText s \<Rightarrow> s)
      in if startswith t ''0x'' then t else ''0x'' @ t)"

definition read_head :: "governor option \<Rightarrow> cycle_input \<Rightarrow> governor option \<times> int res" where
  "read_head g ci =
     (case g of
        None \<Rightarrow> (None, ci_head ci)
      | Some gv \<Rightarrow> (let (g1, v) = get_block_number gv (ci_now ci) (ci_head ci) (ci_done ci) in (Some g1, Inr v)))"

definition read_events :: "governor option \<Rightarrow> cycle_input \<Rightarrow> int \<Rightarrow> int \<Rightarrow> governor option \<times> event_hash list" where
  "read_events g ci from to' =
     (case g of
        None \<Rightarrow> (None, (case ci_events ci from to' of Inl e \<Rightarrow> [] | Inr es \<Rightarrow> es))
      | Some gv \<Rightarrow> (let (g1, es) = run_read gv (ci_in_thread ci) (ci_events ci from to') [] in (Some g1, es)))"

definition apply_confirmed_events :: "(string \<Rightarrow> bool) \<Rightarrow> string list \<Rightarrow> checkpoints \<Rightarrow> checkpoints" where
  "apply_confirmed_events fails txs cs = fold (\<lambda>tx cs. if fails tx then cs else mark_checkpoint_confirmed tx cs) txs cs"

text \<open>The result carries the range of blocks asked for, if any, and the checkpoints a task is spawned for.\<close>

definition reconcile_cycle ::
  "cycle_input \<Rightarrow> reconciler \<Rightarrow> checkpoints \<Rightarrow> reconciler \<times> checkpoints \<times> (int \<times> int) option \<times> checkpoint_row list" where
  "reconcile_cycle ci rc cs =
     (let (g1, blk) = read_head (rc_governor rc) ci;
          rc1 = rc\<lparr>rc_governor := g1\<rparr>
      in case blk of
           Inl e \<Rightarrow> (rc1, cs, None, [])
         | Inr cur \<Rightarrow>
             if cur \<le> rc_last_block rc then (rc1, cs, None, [])
             else
               (let (g2, events) = read_events g1 ci (rc_last_block rc + 1) cur;
                    cs1 = apply_confirmed_events (ci_write_fails ci) (map normalise_hash events) cs;
                    unconfirmed = (if ci_list_fails ci then []
                                   else get_unconfirmed_checkpoints cs1 (rc_retry_age_s rc) (ci_wall ci))
                in (rc1\<lparr>rc_governor := g2, rc_last_block := cur\<rparr>, cs1, Some (rc_last_block rc + 1, cur), unconfirmed)))"

text \<open>A task, with the answer to its request for the receipt and whether the store then raises\<close>

definition requeue_checkpoint :: "(string \<Rightarrow> int option res) \<Rightarrow> bool \<Rightarrow> checkpoint_row \<Rightarrow> checkpoints \<Rightarrow> checkpoints" where
  "requeue_checkpoint receipt fails c cs =
     (if ck_tx_hash c = [] then cs
      else
        (case receipt (ck_tx_hash c) of
           Inl e \<Rightarrow> cs
         | Inr st \<Rightarrow> if st = Some 1 \<and> \<not> fails then mark_checkpoint_confirmed (ck_tx_hash c) cs else cs))"

text \<open>
  Cycles and tasks in any order: a task is one of those spawned so far and runs once. A task that runs
  in the middle of a cycle does what it does before or after it, as confirmations commute.
\<close>

datatype reconcile_op = Cycle cycle_input | Retry nat "string \<Rightarrow> int option res" bool

fun reconcile_step ::
  "reconcile_op \<Rightarrow> reconciler \<times> checkpoints \<times> checkpoint_row list \<Rightarrow>
     (reconciler \<times> checkpoints \<times> checkpoint_row list) \<times> (int \<times> int) option" where
  "reconcile_step (Cycle ci) (rc, cs, tasks) =
     (let (rc1, cs1, q, spawned) = reconcile_cycle ci rc cs in ((rc1, cs1, tasks @ spawned), q))"
| "reconcile_step (Retry i receipt fails) (rc, cs, tasks) =
     (if i < length tasks
      then ((rc, requeue_checkpoint receipt fails (tasks ! i) cs, take i tasks @ drop (Suc i) tasks), None)
      else ((rc, cs, tasks), None))"

fun reconcile_run ::
  "reconcile_op list \<Rightarrow> reconciler \<times> checkpoints \<times> checkpoint_row list \<Rightarrow>
     (reconciler \<times> checkpoints \<times> checkpoint_row list) \<times> (int \<times> int) list" where
  "reconcile_run [] s = (s, [])"
| "reconcile_run (x # xs) s =
     (let (s1, q) = reconcile_step x s;
          (s2, qs) = reconcile_run xs s1
      in (s2, (case q of None \<Rightarrow> qs | Some x \<Rightarrow> x # qs)))"

subsection \<open>The blocks asked for\<close>

fun tiles :: "int \<Rightarrow> (int \<times> int) list \<Rightarrow> int \<Rightarrow> bool" where
  "tiles a [] b \<longleftrightarrow> a = b"
| "tiles a ((f, t) # qs) b \<longleftrightarrow> f = a + 1 \<and> f \<le> t \<and> tiles t qs b"

lemma reconcile_cycle_range:
  assumes "reconcile_cycle ci rc cs = (rc1, cs1, q, spawned)"
  shows "(case q of None \<Rightarrow> rc_last_block rc1 = rc_last_block rc
    | Some (f, t) \<Rightarrow> f = rc_last_block rc + 1 \<and> f \<le> t \<and> rc_last_block rc1 = t)"
  using assms unfolding reconcile_cycle_def by (auto simp: Let_def split: prod.splits sum.splits if_splits)

lemma reconcile_step_range:
  assumes "reconcile_step x s = (s1, q)"
  shows "(case q of None \<Rightarrow> rc_last_block (fst s1) = rc_last_block (fst s)
    | Some (f, t) \<Rightarrow> f = rc_last_block (fst s) + 1 \<and> f \<le> t \<and> rc_last_block (fst s1) = t)"
  using assms
  by (cases "(x, s)" rule: reconcile_step.cases)
    (auto dest!: reconcile_cycle_range simp: Let_def split: prod.splits if_splits option.splits)

lemma run_tiles: "reconcile_run xs s = (s', qs) \<Longrightarrow> tiles (rc_last_block (fst s)) qs (rc_last_block (fst s'))"
proof (induction xs arbitrary: s qs)
  case (Cons x xs)
  obtain s1 q where c: "reconcile_step x s = (s1, q)" by fastforce
  obtain rs where r: "reconcile_run xs s1 = (s', rs)" "qs = (case q of None \<Rightarrow> rs | Some x \<Rightarrow> x # rs)"
    using Cons.prems c by (auto split: prod.splits)
  show ?case using reconcile_step_range [OF c] Cons.IH [OF r(1)] r(2) by (cases q) auto
qed simp

text \<open>
  C33: Over any cycles, with the tasks they spawn running at any time, the ranges of blocks asked for
  follow one another without gap and without overlap, from the head at the start to the head at the end.
  So each block's events are asked for exactly once, also when that reading fails: the events of a
  failed read are not asked for again.
\<close>

theorem reconciler_tiles_blocks:
  "(case reconcile_run ops (rc, cs, tasks) of ((rc', cs', tasks'), qs) \<Rightarrow> tiles (rc_last_block rc) qs (rc_last_block rc'))"
  by (cases "reconcile_run ops (rc, cs, tasks)") (auto dest: run_tiles)

subsection \<open>Confirmations\<close>

text \<open>The rows of a table keep everything but the confirmation, which needs a reason.\<close>

definition confirmed_only_by :: "(string \<Rightarrow> bool) \<Rightarrow> checkpoints \<Rightarrow> checkpoints \<Rightarrow> bool" where
  "confirmed_only_by P cs cs' \<longleftrightarrow>
     list_all2 (\<lambda>c c'. c' = c \<or> (c' = c\<lparr>ck_confirmed := True\<rparr> \<and> P (ck_tx_hash c))) cs cs'"

lemma confirmed_refl: "confirmed_only_by P cs cs"
  by (simp add: confirmed_only_by_def list_all2_refl)

lemma confirmed_trans:
  assumes "confirmed_only_by P a b" and "confirmed_only_by P b c"
  shows "confirmed_only_by P a c"
  unfolding confirmed_only_by_def
  by (rule list_all2_trans [OF _ assms [unfolded confirmed_only_by_def]]) auto

lemma confirmed_mono: "confirmed_only_by P a b \<Longrightarrow> (\<And>t. P t \<Longrightarrow> Q t) \<Longrightarrow> confirmed_only_by Q a b"
  unfolding confirmed_only_by_def by (erule list_all2_mono) auto

lemma confirmed_mark: "P tx \<Longrightarrow> confirmed_only_by P cs (mark_checkpoint_confirmed tx cs)"
  by (induction cs) (auto simp: confirmed_only_by_def mark_checkpoint_confirmed_def)

lemma confirmed_events:
  "list_all P txs \<Longrightarrow> confirmed_only_by P cs (apply_confirmed_events fails txs cs)"
  unfolding apply_confirmed_events_def
  by (induction txs arbitrary: cs) (auto intro: confirmed_refl confirmed_trans confirmed_mark)

lemma confirmed_requeue:
  "(\<And>t. receipt t = Inr (Some 1) \<Longrightarrow> P t) \<Longrightarrow> confirmed_only_by P cs (requeue_checkpoint receipt fails c cs)"
  by (auto simp: requeue_checkpoint_def confirmed_refl intro: confirmed_mark split: sum.split)

text \<open>A hash is attested by an event some cycle reads, or by the receipt a task is given for it.\<close>

definition attested :: "reconcile_op list \<Rightarrow> string \<Rightarrow> bool" where
  "attested ops tx \<longleftrightarrow>
     (\<exists>x \<in> set ops. case x of
        Cycle ci \<Rightarrow> \<exists>f t es. ci_events ci f t = Inr es \<and> tx \<in> normalise_hash ` set es
      | Retry i receipt fails \<Rightarrow> receipt tx = Inr (Some 1))"

lemma read_events_given:
  "read_events g ci f t = (g', es) \<Longrightarrow> es = [] \<or> ci_events ci f t = Inr es"
  by (auto simp: read_events_def run_read_def Let_def split: option.splits sum.splits prod.splits if_splits)

lemma cycle_confirms:
  assumes "reconcile_cycle ci rc cs = (rc1, cs1, q, spawned)"
  shows "confirmed_only_by (attested [Cycle ci]) cs cs1"
proof -
  obtain g1 blk where h: "read_head (rc_governor rc) ci = (g1, blk)" by fastforce
  show ?thesis
  proof (cases "\<exists>cur. blk = Inr cur \<and> rc_last_block rc < cur")
    case False
    then have "cs1 = cs" using assms h by (auto simp: reconcile_cycle_def Let_def split: sum.splits if_splits)
    then show ?thesis by (simp add: confirmed_refl)
  next
    case True
    then obtain cur where cur: "blk = Inr cur" "rc_last_block rc < cur" by blast
    obtain g2 es where e: "read_events g1 ci (rc_last_block rc + 1) cur = (g2, es)" by fastforce
    have cs1: "cs1 = apply_confirmed_events (ci_write_fails ci) (map normalise_hash es) cs"
      using assms h cur e by (auto simp: reconcile_cycle_def Let_def)
    have "list_all (attested [Cycle ci]) (map normalise_hash es)"
      using read_events_given [OF e] by (auto simp: list_all_iff attested_def)
    then show ?thesis unfolding cs1 by (rule confirmed_events)
  qed
qed

lemma step_confirms:
  assumes "reconcile_step x s = (s1, q)"
  shows "confirmed_only_by (attested [x]) (fst (snd s)) (fst (snd s1))"
proof (cases "(x, s)" rule: reconcile_step.cases)
  case (1 ci rc cs tasks)
  then show ?thesis using assms by (auto dest!: cycle_confirms simp: Let_def split: prod.splits)
next
  case (2 i receipt fails rc cs tasks)
  then show ?thesis
    using assms by (auto simp: confirmed_refl attested_def intro!: confirmed_requeue split: if_splits)
qed

lemma run_confirms:
  "reconcile_run xs s = (s', qs) \<Longrightarrow> confirmed_only_by (attested xs) (fst (snd s)) (fst (snd s'))"
proof (induction xs arbitrary: s qs)
  case (Cons x xs)
  obtain s1 q where c: "reconcile_step x s = (s1, q)" by fastforce
  obtain rs where r: "reconcile_run xs s1 = (s', rs)" using Cons.prems c by (auto split: prod.splits)
  have "confirmed_only_by (attested (x # xs)) (fst (snd s)) (fst (snd s1))"
    using step_confirms [OF c] by (rule confirmed_mono) (auto simp: attested_def)
  moreover have "confirmed_only_by (attested (x # xs)) (fst (snd s1)) (fst (snd s'))"
    using Cons.IH [OF r] by (rule confirmed_mono) (auto simp: attested_def)
  ultimately show ?case by (rule confirmed_trans)
qed (simp add: confirmed_refl)

text \<open>
  C32: The reconciler confirms nothing without a reason: over any cycles, and the tasks they spawn at
  any time, every stored checkpoint stays as it is, or only becomes confirmed because an event that was
  read names its transaction (with the prefix 0x) or the transaction's receipt is good.
\<close>

theorem confirmations_are_attested:
  "(case reconcile_run ops (rc, cs, tasks) of ((rc', cs', tasks'), qs) \<Rightarrow>
      list_all2 (\<lambda>c c'. c' = c \<or> (c' = c\<lparr>ck_confirmed := True\<rparr> \<and> attested ops (ck_tx_hash c))) cs cs')"
  using run_confirms [of ops "(rc, cs, tasks)"] unfolding confirmed_only_by_def
  by (cases "reconcile_run ops (rc, cs, tasks)") auto

end
