(* ===== verification/ChainAudit.thy ===== *)
theory ChainAudit
  imports RecordsStore
begin

section \<open>The audit of record counters\<close>

text \<open>
  \<open>poac_chain_integrity_monitor.py\<close> and its table \<open>poac_chain_audit_log\<close> in \<open>store/chain_log.py\<close>. The agent
  reads the records through \<open>store._connect()\<close>, which the store does not define; the model says what
  the audit computes from the rows, and what it does with the store as it is.
\<close>

record audit_result =
  au_total_records :: int
  au_valid_links :: int
  au_broken_links :: int
  au_integrity_score :: real
  au_audit_passed :: bool

record audit_row =
  al_device_id :: string
  al_total_records :: int
  al_valid_links :: int
  al_broken_links :: int
  al_integrity_score :: real
  al_audit_passed :: bool
  al_created_at :: real

text \<open>The rows in the order of their ids.\<close>

definition insert_poac_chain_audit_log :: "audit_row list \<Rightarrow> string \<Rightarrow> int \<Rightarrow> int \<Rightarrow> int \<Rightarrow> real \<Rightarrow> audit_row list" where
  "insert_poac_chain_audit_log rows d tot valid broken now =
     rows @ [\<lparr>al_device_id = d, al_total_records = tot, al_valid_links = valid, al_broken_links = broken,
              al_integrity_score = (if 0 < tot then py_round 6 (real_of_int valid / real_of_int tot) else 1),
              al_audit_passed = (broken = 0), al_created_at = now\<rparr>]"

definition get_poac_chain_audit_status :: "audit_row list \<Rightarrow> string option \<Rightarrow> int \<Rightarrow> audit_row list" where
  "get_poac_chain_audit_status rows device limit =
     sql_limit limit (rev
       (case device of None \<Rightarrow> rows | Some d \<Rightarrow> if d = [] then rows else filter (\<lambda>r. al_device_id r = d) rows))"

text \<open>\<open>store._connect()\<close>: the attribute does not exist.\<close>

definition store_connect :: "records_db \<Rightarrow> records_db res" where
  "store_connect db = Inl (PyExc ''AttributeError'' ''Store object has no attribute _connect'')"

definition device_counters :: "records_db \<Rightarrow> string option \<Rightarrow> int list" where
  "device_counters db device =
     map rr_counter (order_asc rr_counter
       (case device of
          None \<Rightarrow> rd_records db
        | Some d \<Rightarrow> if d = [] then rd_records db else filter (\<lambda>r. rr_device_id r = d) (rd_records db)))"

definition no_records :: "int \<Rightarrow> audit_result" where
  "no_records tot = \<lparr>au_total_records = tot, au_valid_links = max 0 (tot - 1), au_broken_links = 0,
     au_integrity_score = 1, au_audit_passed = True\<rparr>"

fun count_links :: "int list \<Rightarrow> int" where
  "count_links (a # b # cs) = (if b = a + 1 then 1 else 0) + count_links (b # cs)"
| "count_links cs = 0"

definition audit_counters :: "int list \<Rightarrow> audit_result" where
  "audit_counters cs =
     (let tot = int (length cs) in
      if tot \<le> 1 then no_records tot
      else
        (let valid = count_links cs; possible = tot - 1; broken = possible - valid
         in \<lparr>au_total_records = tot, au_valid_links = valid, au_broken_links = broken,
             au_integrity_score = py_round 6 (real_of_int valid / real_of_int possible),
             au_audit_passed = (broken = 0)\<rparr>))"

definition audit_device :: "(records_db \<Rightarrow> records_db res) \<Rightarrow> records_db \<Rightarrow> string option \<Rightarrow> audit_result" where
  "audit_device connect db device =
     (case connect db of Inl e \<Rightarrow> no_records 0 | Inr conn \<Rightarrow> audit_counters (device_counters conn device))"

definition get_primary_device_id :: "(records_db \<Rightarrow> records_db res) \<Rightarrow> records_db \<Rightarrow> string option" where
  "get_primary_device_id connect db =
     (case connect db of
        Inl e \<Rightarrow> None
      | Inr conn \<Rightarrow> map_option rr_device_id (first_row (order_desc rr_created_at (rd_records conn))))"

text \<open>One round: the result, the log, and the device it tries to announce on the bus when the audit fails (the
  call lacks the source that \<open>publish\<close> requires and raises, which is ignored).\<close>

definition run_audit ::
  "(records_db \<Rightarrow> records_db res) \<Rightarrow> bool \<Rightarrow> real \<Rightarrow> records_db \<Rightarrow> audit_row list
     \<Rightarrow> audit_row list \<times> audit_result option \<times> string option" where
  "run_audit connect enabled now db rows =
     (if \<not> enabled then (rows, None, None)
      else
        (let device = get_primary_device_id connect db;
             r = audit_device connect db device;
             name = (case device of None \<Rightarrow> ''all'' | Some d \<Rightarrow> if d = [] then ''all'' else d)
         in (insert_poac_chain_audit_log rows name (au_total_records r) (au_valid_links r) (au_broken_links r) now,
             Some r, if au_audit_passed r then None else Some name)))"

lemma count_links_bounds: "0 \<le> count_links cs \<and> count_links cs \<le> int (length cs - 1)"
  by (induction cs rule: count_links.induct) auto

lemma count_links_full:
  "cs \<noteq> [] \<Longrightarrow> count_links cs = int (length cs - 1) \<longleftrightarrow> cs = map (\<lambda>i. hd cs + int i) [0..<length cs]"
proof (induction cs rule: count_links.induct)
  case (1 a b cs)
  have bound: "count_links (b # cs) \<le> int (length cs)" using count_links_bounds [of "b # cs"] by simp
  have shift: "map (\<lambda>i. a + int i) [0..<length (a # b # cs)] = a # map (\<lambda>i. (a + 1) + int i) [0..<length (b # cs)]"
    by (simp add: upt_conv_Cons map_Suc_upt [symmetric] del: upt_Suc)
  show ?case
  proof (cases "b = a + 1")
    case True
    then show ?thesis using "1.IH" shift by (simp del: upt_Suc)
  next
    case False
    have "b # cs \<noteq> map (\<lambda>i. (a + 1) + int i) [0..<length (b # cs)]"
      using False by (simp add: upt_conv_Cons del: upt_Suc)
    then show ?thesis using bound False shift by (simp del: upt_Suc)
  qed
qed simp_all

lemma audit_counters_result:
  "(au_audit_passed (audit_counters cs) \<longleftrightarrow> cs = map (\<lambda>i. hd cs + int i) [0..<length cs]) \<and>
   au_valid_links (audit_counters cs) + au_broken_links (audit_counters cs) = max 0 (int (length cs) - 1)"
proof (cases "length cs \<le> 1")
  case True
  then show ?thesis by (cases cs) (auto simp: audit_counters_def no_records_def)
next
  case False
  then have "cs \<noteq> []" by auto
  then show ?thesis
    using False count_links_full [of cs] by (auto simp: audit_counters_def Let_def)
qed

text \<open>
  What the audit computes is right, were it given the records: it passes exactly when the stored
  counters of the device, in order, are consecutive numbers, each once; and the links it calls valid
  and broken are one fewer than the records.
\<close>

theorem audit_passes_iff_consecutive:
  "(au_audit_passed (audit_device Inr db device) \<longleftrightarrow>
      device_counters db device =
        map (\<lambda>i. hd (device_counters db device) + int i) [0..<length (device_counters db device)]) \<and>
   au_valid_links (audit_device Inr db device) + au_broken_links (audit_device Inr db device) =
      max 0 (int (length (device_counters db device)) - 1)"
  using audit_counters_result by (simp add: audit_device_def)

text \<open>
  With the store as it is the audit never fails: whatever the records, each round finds nothing,
  passes, logs an intact chain of all devices and has nothing to announce.
\<close>

theorem audit_always_passes:
  "run_audit store_connect True now db rows =
     (insert_poac_chain_audit_log rows ''all'' 0 0 0 now, Some (no_records 0), None) \<and>
   au_audit_passed (no_records 0)"
  by (simp add: run_audit_def get_primary_device_id_def audit_device_def store_connect_def no_records_def)

end
