(* ===== verification/Enforcement.thy ===== *)
theory Enforcement
  imports GrindStore
begin

section \<open>Enforcing rulings\<close>

text \<open>
  \<open>ruling_enforcement_agent.py\<close> and Mode 5 of \<open>insight_synthesizer.py\<close> with the functions of
  \<open>store/agents.py\<close> and \<open>store/vhp.py\<close> over the tables they write: the events between agents, the streaks of equal verdicts, the rulings committed
  to the chain, the suspended credentials and the shadow log. The payload of an event stands as
  decoded (\<open>BadJson\<close> when decoding raises; device, ruling, verdict and, in a reply, what was done). What the chain answers is an argument, per event; a
  missing chain client is \<open>None\<close>. The bus is the list of what has been published.
\<close>

datatype event_payload =
    BadJson
  | Payload string "nat option" "string option" "(string \<times> int \<times> string option) option"

record event_row =
  ev_id :: nat
  ev_type :: string
  ev_device_id :: string
  ev_payload :: event_payload
  ev_source :: string
  ev_target :: string
  ev_created_at :: real
  ev_consumed :: "(real \<times> string) option"

record streak_row =
  sk_device_id :: string
  sk_current :: int
  sk_verdict :: string
  sk_start :: real
  sk_last_verdict :: string
  sk_last_ruling_id :: nat
  sk_escalated_to :: "string option"
  sk_updated_at :: real

record on_chain_row =
  oc_ruling_id :: nat
  oc_device_id :: string
  oc_commitment_hash :: string
  oc_tx_hash :: string
  oc_created_at :: real

record credential_row =
  ce_device_id :: string
  ce_consecutive_critical :: int
  ce_suspended :: bool
  ce_suspended_since :: "real option"
  ce_suspended_until :: "real option"
  ce_evidence_hash :: "string option"
  ce_last_updated :: real
  ce_reinstated :: bool
  ce_reinstated_at :: "real option"

record shadow_row =
  sh_device_id :: string
  sh_ruling_id :: nat
  sh_commitment_hash :: string
  sh_duration_s :: int
  sh_warmup :: real

record risk_row =
  rl_device_id :: string
  rl_risk_label :: string
  rl_label_evidence :: json
  rl_label_set_at :: real
  rl_prior_label :: string

record insight_row =
  in_type :: string
  in_device_id :: string
  in_content :: string
  in_severity :: string
  in_created_at :: real

record enf_db =
  en_events :: "event_row list"
  en_rulings :: "ruling list"
  en_streaks :: "streak_row list"
  en_on_chain :: "on_chain_row list"
  en_credentials :: "credential_row list"
  en_shadow :: "shadow_row list"
  en_risk_labels :: "risk_row list"
  en_bus :: "(string \<times> nat \<times> string) list"
  en_insights :: "insight_row list"

subsection \<open>Events\<close>

definition write_event :: "string \<Rightarrow> event_payload \<Rightarrow> string \<Rightarrow> string \<Rightarrow> string \<Rightarrow> real \<Rightarrow> enf_db \<Rightarrow> enf_db" where
  "write_event ty payload source device target now db =
     db\<lparr>en_events := en_events db @
       [\<lparr>ev_id = length (en_events db) + 1, ev_type = ty, ev_device_id = device, ev_payload = payload,
         ev_source = source, ev_target = target, ev_created_at = now, ev_consumed = None\<rparr>]\<rparr>"

definition read_unconsumed_events :: "enf_db \<Rightarrow> string \<Rightarrow> int \<Rightarrow> event_row list" where
  "read_unconsumed_events db target limit =
     sql_limit limit (order_asc ev_created_at
       (filter (\<lambda>e. ev_target e = target \<and> ev_consumed e = None) (en_events db)))"

definition mark_event_consumed :: "nat \<Rightarrow> string \<Rightarrow> real \<Rightarrow> enf_db \<Rightarrow> enf_db" where
  "mark_event_consumed i who now db =
     db\<lparr>en_events := map (\<lambda>e. if ev_id e = i then e\<lparr>ev_consumed := Some (now, who)\<rparr> else e) (en_events db)\<rparr>"

subsection \<open>Streaks\<close>

definition get_ruling_streak :: "streak_row list \<Rightarrow> string \<Rightarrow> streak_row option" where
  "get_ruling_streak sks d = find (\<lambda>k. sk_device_id k = d) sks"

definition new_streak :: "string \<Rightarrow> string \<Rightarrow> nat \<Rightarrow> real \<Rightarrow> streak_row" where
  "new_streak d verdict rid now =
     \<lparr>sk_device_id = d, sk_current = 1, sk_verdict = verdict, sk_start = now, sk_last_verdict = verdict,
      sk_last_ruling_id = rid, sk_escalated_to = None, sk_updated_at = now\<rparr>"

definition upsert_ruling_streak ::
  "string \<Rightarrow> string \<Rightarrow> nat \<Rightarrow> real \<Rightarrow> streak_row list \<Rightarrow> streak_row list" where
  "upsert_ruling_streak d verdict rid now sks =
     (case get_ruling_streak sks d of
        None \<Rightarrow> sks @ [new_streak d verdict rid now]
      | Some k \<Rightarrow>
          map (\<lambda>r. if sk_device_id r \<noteq> d then r
                   else if sk_verdict k = verdict
                   then r\<lparr>sk_current := sk_current k + 1, sk_last_verdict := verdict, sk_last_ruling_id := rid,
                          sk_updated_at := now\<rparr>
                   else r\<lparr>sk_current := 1, sk_verdict := verdict, sk_start := now, sk_last_verdict := verdict,
                          sk_last_ruling_id := rid, sk_updated_at := now\<rparr>) sks)"

definition set_streak_escalation :: "string \<Rightarrow> string \<Rightarrow> real \<Rightarrow> streak_row list \<Rightarrow> streak_row list" where
  "set_streak_escalation d verdict now sks =
     map (\<lambda>r. if sk_device_id r = d then r\<lparr>sk_escalated_to := Some verdict, sk_updated_at := now\<rparr> else r) sks"

subsection \<open>Suspensions\<close>

definition store_credential_suspension ::
  "string \<Rightarrow> string \<Rightarrow> real \<Rightarrow> real \<Rightarrow> credential_row list \<Rightarrow> credential_row list" where
  "store_credential_suspension d evidence till now ces =
     (if find (\<lambda>c. ce_device_id c = d) ces = None
      then ces @ [\<lparr>ce_device_id = d, ce_consecutive_critical = 0, ce_suspended = True, ce_suspended_since = Some now,
                   ce_suspended_until = Some till, ce_evidence_hash = Some evidence, ce_last_updated = now,
                   ce_reinstated = False, ce_reinstated_at = None\<rparr>]
      else map (\<lambda>c. if ce_device_id c = d
                    then c\<lparr>ce_suspended := True, ce_suspended_since := Some now, ce_suspended_until := Some till,
                           ce_evidence_hash := Some evidence, ce_last_updated := now\<rparr> else c) ces)"

definition is_credential_suspended :: "credential_row list \<Rightarrow> string \<Rightarrow> bool" where
  "is_credential_suspended ces d =
     (case find (\<lambda>c. ce_device_id c = d) ces of None \<Rightarrow> False | Some c \<Rightarrow> ce_suspended c)"

definition get_expired_suspensions :: "credential_row list \<Rightarrow> real \<Rightarrow> credential_row list" where
  "get_expired_suspensions ces now =
     filter (\<lambda>c. ce_suspended c \<and> (case ce_suspended_until c of None \<Rightarrow> False | Some t \<Rightarrow> t < now)
                 \<and> \<not> ce_reinstated c) ces"

definition mark_suspension_reinstated :: "string \<Rightarrow> real \<Rightarrow> credential_row list \<Rightarrow> credential_row list" where
  "mark_suspension_reinstated d now ces =
     map (\<lambda>c. if ce_device_id c = d then c\<lparr>ce_reinstated := True, ce_reinstated_at := Some now\<rparr> else c) ces"

definition get_device_suspension :: "credential_row list \<Rightarrow> string \<Rightarrow> credential_row option" where
  "get_device_suspension ces d =
     find (\<lambda>c. ce_device_id c = d \<and> ce_suspended c \<and> \<not> ce_reinstated c) ces"

subsection \<open>The agent\<close>

record enf_chain =
  ec_record :: "nat \<Rightarrow> string res"
  ec_suspend :: "nat \<Rightarrow> unit res"
  ec_reinstate :: "string \<Rightarrow> unit res"

definition FLAG_STREAK_THRESH :: int where "FLAG_STREAK_THRESH = 5"

definition HOLD_STREAK_THRESH :: int where "HOLD_STREAK_THRESH = 2"

definition SUSPEND_DEFAULT_S :: int where "SUSPEND_DEFAULT_S = 86400"

definition SUSPEND_WARMUP_S :: int where "SUSPEND_WARMUP_S = 604800"

definition effective_verdict :: "string \<Rightarrow> int \<Rightarrow> string" where
  "effective_verdict verdict n =
     (if verdict = ''FLAG'' \<and> FLAG_STREAK_THRESH \<le> n then ''HOLD''
      else if verdict = ''HOLD'' \<and> HOLD_STREAK_THRESH \<le> n then ''BLOCK''
      else verdict)"

text \<open>The row of a risk label as the dictionary the store returns: its columns.\<close>

definition get_device_risk_label :: "risk_row list \<Rightarrow> string \<Rightarrow> jdict option" where
  "get_device_risk_label rls d =
     map_option (\<lambda>r. [(''device_id'', JStr (rl_device_id r)), (''risk_label'', JStr (rl_risk_label r)),
                      (''label_evidence'', rl_label_evidence r), (''label_set_at'', JFloat (rl_label_set_at r)),
                      (''prior_label'', JStr (rl_prior_label r))])
       (find (\<lambda>r. rl_device_id r = d) rls)"

definition warmup_of :: "jdict option \<Rightarrow> real res" where
  "warmup_of trajectory =
     (case dget (case trajectory of None \<Rightarrow> [] | Some t \<Rightarrow> t) ''warmup_attack_score'' of
        None \<Rightarrow> Inr 0
      | Some v \<Rightarrow> if truthy v then py_float v else Inr 0)"

definition warmup_score :: "risk_row list \<Rightarrow> string \<Rightarrow> real res" where
  "warmup_score rls d = warmup_of (get_device_risk_label rls d)"

definition suspend_duration :: "real \<Rightarrow> int" where
  "suspend_duration w = (if 7 / 10 < w then SUSPEND_WARMUP_S else SUSPEND_DEFAULT_S)"

definition shadow_block :: "string \<Rightarrow> ruling \<Rightarrow> enf_db \<Rightarrow> enf_db res" where
  "shadow_block d r db =
     bindE (warmup_score (en_risk_labels db) d) (\<lambda>w.
       Inr (db\<lparr>en_shadow := en_shadow db @
         [\<lparr>sh_device_id = d, sh_ruling_id = ru_id r, sh_commitment_hash = ru_commitment_hash r,
           sh_duration_s = suspend_duration w, sh_warmup = w\<rparr>]\<rparr>))"

definition enforce_block ::
  "enf_chain option \<Rightarrow> nat \<Rightarrow> real \<Rightarrow> string \<Rightarrow> ruling \<Rightarrow> enf_db \<Rightarrow> enf_db res" where
  "enforce_block ch i now d r db =
     (case ch of
        None \<Rightarrow> Inr db
      | Some c \<Rightarrow>
          bindE (warmup_score (en_risk_labels db) d) (\<lambda>w.
            case bindE (fromhex (ru_commitment_hash r)) (\<lambda>bs. ec_suspend c i) of
              Inl e \<Rightarrow> Inr db
            | Inr u \<Rightarrow>
                Inr (db\<lparr>en_credentials := store_credential_suspension d (ru_commitment_hash r)
                       (now + of_int (suspend_duration w)) now (en_credentials db)\<rparr>)))"

text \<open>The commitment to the chain, with the transaction's hash when there is one.\<close>

definition commit_ruling ::
  "enf_chain option \<Rightarrow> nat \<Rightarrow> real \<Rightarrow> string \<Rightarrow> string \<Rightarrow> ruling \<Rightarrow> enf_db \<Rightarrow> enf_db \<times> string option" where
  "commit_ruling ch i now d verdict r db =
     (let commitment = ru_commitment_hash r in
      case ch of
        None \<Rightarrow> (db, None)
      | Some c \<Rightarrow>
          if commitment = [] then (db, None)
          else
            (case bindE (fromhex commitment) (\<lambda>bs. ec_record c i) of
               Inl e \<Rightarrow> (db, None)
             | Inr tx \<Rightarrow>
                 (db\<lparr>en_on_chain := en_on_chain db @
                       [\<lparr>oc_ruling_id = ru_id r, oc_device_id = d, oc_commitment_hash = commitment, oc_tx_hash = tx,
                         oc_created_at = now\<rparr>],
                     en_bus := (if verdict = ''BLOCK'' then en_bus db @ [(d, ru_id r, tx)] else en_bus db)\<rparr>,
                  Some tx)))"

definition escalate :: "string \<Rightarrow> string \<Rightarrow> string \<Rightarrow> real \<Rightarrow> enf_db \<Rightarrow> enf_db" where
  "escalate d verdict effective now db =
     (if effective = verdict then db
      else db\<lparr>en_streaks := set_streak_escalation d effective now (en_streaks db)\<rparr>)"

definition finish_event ::
  "event_row \<Rightarrow> string \<Rightarrow> nat \<Rightarrow> string \<Rightarrow> string \<Rightarrow> int \<Rightarrow> string option \<Rightarrow> real \<Rightarrow> enf_db \<Rightarrow> enf_db" where
  "finish_event e d rid verdict effective n tx now db =
     write_event ''ruling_enforced'' (Payload d (Some rid) (Some verdict) (Some (effective, n, tx))) ''ruling_enforcement_agent'' d
       ''bridge_agent'' now (mark_event_consumed (ev_id e) ''ruling_enforcement_agent'' now db)"

definition streak_count :: "streak_row list \<Rightarrow> string \<Rightarrow> int" where
  "streak_count sks d = (case get_ruling_streak sks d of None \<Rightarrow> 1 | Some k \<Rightarrow> sk_current k)"

text \<open>The ruling has been found. The result is the state, and the exception if one escapes.\<close>

definition enforce_ruling ::
  "bool \<Rightarrow> enf_chain option \<Rightarrow> real \<Rightarrow> event_row \<Rightarrow> string \<Rightarrow> nat \<Rightarrow> string \<Rightarrow> ruling \<Rightarrow> enf_db \<Rightarrow> enf_db \<times> py_exc option"
  where
  "enforce_ruling shadow ch now e d rid verdict r db =
     (let sks = upsert_ruling_streak d verdict rid now (en_streaks db);
          n = streak_count sks d;
          eff = effective_verdict verdict n;
          (db2, tx) = commit_ruling ch (ev_id e) now d eff r (escalate d verdict eff now (db\<lparr>en_streaks := sks\<rparr>))
      in case (if eff \<noteq> ''BLOCK'' then Inr db2
               else if shadow then shadow_block d r db2
               else enforce_block ch (ev_id e) now d r db2) of
           Inl x \<Rightarrow> (db2, Some x)
         | Inr db3 \<Rightarrow> (finish_event e d rid verdict eff n tx now db3, None))"

definition process_ruling_completed ::
  "bool \<Rightarrow> enf_chain option \<Rightarrow> real \<Rightarrow> event_row \<Rightarrow> enf_db \<Rightarrow> enf_db \<times> py_exc option" where
  "process_ruling_completed shadow ch now e db =
     (case ev_payload e of
        BadJson \<Rightarrow> (db, Some (ValueError ''JSONDecodeError''))
      | Payload d rid' v _ \<Rightarrow>
          (case rid' of
             None \<Rightarrow> (db, None)
           | Some rid \<Rightarrow>
               if d = [] then (db, None)
               else
                 (case find (\<lambda>r. ru_id r = rid) (en_rulings db) of
                    None \<Rightarrow> (db, None)
                  | Some r \<Rightarrow>
                      enforce_ruling shadow ch now e d rid (case v of None \<Rightarrow> ''FLAG'' | Some x \<Rightarrow> x) r db)))"

definition consume_enforcement_events ::
  "bool \<Rightarrow> enf_chain option \<Rightarrow> real \<Rightarrow> enf_db \<Rightarrow> enf_db" where
  "consume_enforcement_events shadow ch now db =
     fold (\<lambda>e db. if ev_type e = ''ruling_completed'' then fst (process_ruling_completed shadow ch now e db) else db)
       (read_unconsumed_events db ''ruling_enforcement_agent'' 20) db"

definition reinstate_one :: "enf_chain \<Rightarrow> real \<Rightarrow> credential_row \<Rightarrow> enf_db \<Rightarrow> enf_db" where
  "reinstate_one c now row db =
     (if ce_device_id row = [] then db
      else
        (case ec_reinstate c (ce_device_id row) of
           Inl e \<Rightarrow> db
         | Inr u \<Rightarrow>
             db\<lparr>en_credentials := mark_suspension_reinstated (ce_device_id row) now (en_credentials db),
                en_streaks := upsert_ruling_streak (ce_device_id row) ''CLEAR'' 0 now (en_streaks db)\<rparr>))"

definition check_expired_suspensions :: "enf_chain option \<Rightarrow> real \<Rightarrow> enf_db \<Rightarrow> enf_db" where
  "check_expired_suspensions ch now db =
     (case ch of
        None \<Rightarrow> db
      | Some c \<Rightarrow> fold (reinstate_one c now) (get_expired_suspensions (en_credentials db) now) db)"

text \<open>One round of the loop.\<close>

definition enforcement_round :: "bool \<Rightarrow> enf_chain option \<Rightarrow> real \<Rightarrow> enf_db \<Rightarrow> enf_db" where
  "enforcement_round shadow ch now db =
     check_expired_suspensions ch now (consume_enforcement_events shadow ch now db)"

subsection \<open>Enforcement by risk labels\<close>

text \<open>
  Mode 5 of the synthesiser works on the same table. Which devices have a credential and the id of the
  latest weekly digest are arguments. The answers of the chain change nothing in the store, a failed
  call is logged only; so the calls are listed and their answers left out.
\<close>

record synth_cfg =
  sy_enforcement_enabled :: bool
  sy_min_consecutive :: int
  sy_base_days :: real
  sy_max_days :: real

datatype cred_call = SuspendCall string bytes int | ReinstateCall string

definition get_devices_by_risk_label :: "risk_row list \<Rightarrow> string \<Rightarrow> risk_row list" where
  "get_devices_by_risk_label rls label = order_desc rl_label_set_at (filter (\<lambda>r. rl_risk_label r = label) rls)"

definition new_credential :: "string \<Rightarrow> int \<Rightarrow> real \<Rightarrow> credential_row" where
  "new_credential d n now =
     \<lparr>ce_device_id = d, ce_consecutive_critical = n, ce_suspended = False, ce_suspended_since = None,
      ce_suspended_until = None, ce_evidence_hash = None, ce_last_updated = now, ce_reinstated = False,
      ce_reinstated_at = None\<rparr>"

definition upsert_credential ::
  "string \<Rightarrow> credential_row \<Rightarrow> (credential_row \<Rightarrow> credential_row) \<Rightarrow> credential_row list \<Rightarrow> credential_row list" where
  "upsert_credential d fresh f ces =
     (if find (\<lambda>c. ce_device_id c = d) ces = None then ces @ [fresh]
      else map (\<lambda>c. if ce_device_id c = d then f c else c) ces)"

definition increment_consecutive_critical :: "string \<Rightarrow> real \<Rightarrow> credential_row list \<Rightarrow> credential_row list \<times> int" where
  "increment_consecutive_critical d now ces =
     (let ces1 = upsert_credential d (new_credential d 1 now)
            (\<lambda>c. c\<lparr>ce_consecutive_critical := ce_consecutive_critical c + 1, ce_last_updated := now\<rparr>) ces
      in (ces1, case find (\<lambda>c. ce_device_id c = d) ces1 of None \<Rightarrow> 1 | Some c \<Rightarrow> ce_consecutive_critical c))"

definition reset_consecutive_critical :: "string \<Rightarrow> real \<Rightarrow> credential_row list \<Rightarrow> credential_row list" where
  "reset_consecutive_critical d now ces =
     upsert_credential d (new_credential d 0 now) (\<lambda>c. c\<lparr>ce_consecutive_critical := 0, ce_last_updated := now\<rparr>) ces"

definition clear_credential_suspension :: "string \<Rightarrow> real \<Rightarrow> credential_row list \<Rightarrow> credential_row list" where
  "clear_credential_suspension d now ces =
     upsert_credential d (new_credential d 0 now)
       (\<lambda>c. c\<lparr>ce_suspended := False, ce_suspended_since := None, ce_suspended_until := None,
               ce_evidence_hash := None, ce_last_updated := now\<rparr>) ces"

definition store_protocol_insight :: "string \<Rightarrow> string \<Rightarrow> string \<Rightarrow> string \<Rightarrow> real \<Rightarrow> enf_db \<Rightarrow> enf_db" where
  "store_protocol_insight ty device content severity now db =
     db\<lparr>en_insights := en_insights db @
       [\<lparr>in_type = ty, in_device_id = device, in_content = content, in_severity = severity, in_created_at = now\<rparr>]\<rparr>"

definition mode5_duration :: "synth_cfg \<Rightarrow> int \<Rightarrow> int" where
  "mode5_duration cfg consecutive =
     trunc (min (sy_base_days cfg * 86400 * 2 ^ nat (consecutive - sy_min_consecutive cfg)) (sy_max_days cfg * 86400))"

definition suspend_critical ::
  "synth_cfg \<Rightarrow> (string \<Rightarrow> bool) \<Rightarrow> int option \<Rightarrow> real \<Rightarrow> string \<Rightarrow> enf_db \<times> cred_call list \<Rightarrow> enf_db \<times> cred_call list" where
  "suspend_critical cfg minted digest now d = (\<lambda>(db, calls).
     if \<not> minted d then (db, calls)
     else
       (let (ces, n) = increment_consecutive_critical d now (en_credentials db);
            db1 = db\<lparr>en_credentials := ces\<rparr>
        in if n < sy_min_consecutive cfg \<or> is_credential_suspended ces d then (db1, calls)
           else
             (let evidence = sha256 (encode (d @ '':'' @ (case digest of None \<Rightarrow> ''none'' | Some i \<Rightarrow> dec_int i)));
                  duration = mode5_duration cfg n
              in (store_protocol_insight ''credential_suspended'' d
                    (''PHGCredential suspended: '' @ dec_int n @ '' consecutive critical windows, '' @
                     dec_int (duration div 86400) @ ''d. Evidence: '' @ take 16 (hex evidence)) ''critical'' now
                    (db1\<lparr>en_credentials := store_credential_suspension d (hex evidence) (now + of_int duration) now ces\<rparr>),
                  calls @ [SuspendCall d evidence duration]))))"

definition reinstate_cleared :: "real \<Rightarrow> string \<Rightarrow> enf_db \<times> cred_call list \<Rightarrow> enf_db \<times> cred_call list" where
  "reinstate_cleared now d = (\<lambda>(db, calls).
     if \<not> is_credential_suspended (en_credentials db) d then (db, calls)
     else (store_protocol_insight ''credential_reinstated'' d ''PHGCredential reinstated: device trajectory cleared'' ''low'' now
             (db\<lparr>en_credentials :=
                clear_credential_suspension d now (reset_consecutive_critical d now (en_credentials db))\<rparr>),
           calls @ [ReinstateCall d]))"

definition synthesize_credential_enforcement ::
  "synth_cfg \<Rightarrow> (string \<Rightarrow> bool) \<Rightarrow> int option \<Rightarrow> real \<Rightarrow> enf_db \<Rightarrow> enf_db \<times> cred_call list" where
  "synthesize_credential_enforcement cfg minted digest now db =
     (if \<not> sy_enforcement_enabled cfg then (db, [])
      else
        (let labelled = (\<lambda>label. map rl_device_id (get_devices_by_risk_label (en_risk_labels db) label));
             s1 = fold (suspend_critical cfg minted digest now) (labelled ''critical'') (db, []);
             (db2, calls) = fold (reinstate_cleared now) (labelled ''cleared'') s1
         in (db2\<lparr>en_credentials := fold (\<lambda>d. reset_consecutive_critical d now)
               (labelled ''stable'' @ labelled ''warming'') (en_credentials db2)\<rparr>, calls)))"

subsection \<open>What a round does\<close>

lemma find_map_keep:
  "(\<And>x. p (f x) = p x) \<Longrightarrow> find p (map f xs) = map_option f (find p xs)"
  by (induction xs) auto

lemma find_app: "find p (xs @ ys) = (case find p xs of None \<Rightarrow> find p ys | Some x \<Rightarrow> Some x)"
  by (induction xs) auto

lemma get_upserted:
  "get_ruling_streak (upsert_ruling_streak d v rid now sks) d' =
     (if d' \<noteq> d then get_ruling_streak sks d'
      else case get_ruling_streak sks d of
        None \<Rightarrow> Some (new_streak d v rid now)
      | Some k \<Rightarrow>
          Some (if sk_verdict k = v
                then k\<lparr>sk_current := sk_current k + 1, sk_last_verdict := v, sk_last_ruling_id := rid, sk_updated_at := now\<rparr>
                else k\<lparr>sk_current := 1, sk_verdict := v, sk_start := now, sk_last_verdict := v,
                       sk_last_ruling_id := rid, sk_updated_at := now\<rparr>))"
proof (cases "get_ruling_streak sks d")
  case None
  then show ?thesis
    by (auto simp: upsert_ruling_streak_def get_ruling_streak_def new_streak_def find_app split: option.splits)
next
  case (Some k)
  then have k: "sk_device_id k = d" "find (\<lambda>k. sk_device_id k = d) sks = Some k"
    by (auto simp: get_ruling_streak_def find_Some_iff)
  let ?f = "\<lambda>r. if sk_device_id r \<noteq> d then r
                   else if sk_verdict k = v
                   then r\<lparr>sk_current := sk_current k + 1, sk_last_verdict := v, sk_last_ruling_id := rid,
                          sk_updated_at := now\<rparr>
                   else r\<lparr>sk_current := 1, sk_verdict := v, sk_start := now, sk_last_verdict := v,
                          sk_last_ruling_id := rid, sk_updated_at := now\<rparr>"
  have m: "upsert_ruling_streak d v rid now sks = map ?f sks" using Some by (simp add: upsert_ruling_streak_def)
  have "find (\<lambda>k. sk_device_id k = d') (map ?f sks) = map_option ?f (find (\<lambda>k. sk_device_id k = d') sks)"
    by (rule find_map_keep) simp
  moreover have "map_option ?f (find (\<lambda>k. sk_device_id k = d') sks) = find (\<lambda>k. sk_device_id k = d') sks" if "d' \<noteq> d"
  proof (cases "find (\<lambda>k. sk_device_id k = d') sks")
    case (Some x)
    then have "sk_device_id x = d'" by (auto simp: find_Some_iff)
    then show ?thesis using Some that by simp
  qed simp
  ultimately have "get_ruling_streak (map ?f sks) d' = (if d' \<noteq> d then get_ruling_streak sks d' else Some (?f k))"
    using k(2) by (simp add: get_ruling_streak_def)
  then show ?thesis using k(1) Some unfolding m by simp
qed

definition run_length :: "string list \<Rightarrow> nat" where
  "run_length vs = length (takeWhile (\<lambda>v. v = last vs) (rev vs))"

lemma run_length_snoc:
  "run_length (vs @ [v]) = (if vs \<noteq> [] \<and> last vs = v then run_length vs + 1 else 1)"
  by (cases vs rule: rev_cases) (auto simp: run_length_def)

definition verdicts_of :: "string \<Rightarrow> (string \<times> string \<times> nat \<times> real) list \<Rightarrow> string list" where
  "verdicts_of d ops = map (\<lambda>(d', v, rid, now). v) (filter (\<lambda>(d', v, rid, now). d' = d) ops)"

definition run_streaks :: "(string \<times> string \<times> nat \<times> real) list \<Rightarrow> streak_row list" where
  "run_streaks ops = fold (\<lambda>(d, v, rid, now). upsert_ruling_streak d v rid now) ops []"

definition streak_spec :: "string list \<Rightarrow> (string \<times> int) option" where
  "streak_spec vs = (if vs = [] then None else Some (last vs, int (run_length vs)))"

lemma run_streaks_spec:
  "map_option (\<lambda>k. (sk_verdict k, sk_current k)) (get_ruling_streak (run_streaks ops) d) = streak_spec (verdicts_of d ops)"
proof (induction ops rule: rev_induct)
  case Nil
  then show ?case by (simp add: run_streaks_def verdicts_of_def streak_spec_def get_ruling_streak_def)
next
  case (snoc x ops)
  obtain d' v rid now where x: "x = (d', v, rid, now)" by (cases x)
  have s: "run_streaks (ops @ [x]) = upsert_ruling_streak d' v rid now (run_streaks ops)"
    by (simp add: run_streaks_def x)
  show ?case
  proof (cases "d' = d")
    case False
    then have "verdicts_of d (ops @ [x]) = verdicts_of d ops" by (simp add: verdicts_of_def x)
    then show ?thesis using snoc.IH False by (simp only: s get_upserted) simp
  next
    case True
    have vs: "verdicts_of d (ops @ [x]) = verdicts_of d ops @ [v]" by (simp add: verdicts_of_def x True)
    show ?thesis
      using snoc.IH unfolding vs s True
      by (auto simp: get_upserted streak_spec_def run_length_snoc new_streak_def split: option.splits if_splits)
  qed
qed

text \<open>
  C12: The streak counters count what they should: after any updates, a device's row holds its last
  verdict and the number of equal verdicts at the end of its history, whatever other devices did.
\<close>

theorem streaks_count_runs:
  "map_option (\<lambda>k. (sk_verdict k, sk_current k)) (get_ruling_streak (run_streaks ops) d) =
     (let vs = verdicts_of d ops
      in if vs = [] then None else Some (last vs, int (length (takeWhile (\<lambda>v. v = last vs) (rev vs)))))"
  using run_streaks_spec [of ops d] by (simp add: streak_spec_def run_length_def Let_def)


text \<open>The stored risk labels have no such score, so the longer suspension is never chosen.\<close>

lemma warmup_score_0 [simp]: "warmup_score rls d = Inr 0"
  by (cases "find (\<lambda>r. rl_device_id r = d) rls") (simp_all add: warmup_score_def warmup_of_def get_device_risk_label_def)

lemma suspend_duration_0 [simp]: "suspend_duration 0 = 86400"
  by (simp add: suspend_duration_def SUSPEND_DEFAULT_S_def)

lemma commit_ruling_keeps [simp]:
  "en_credentials (fst (commit_ruling ch i now d v r db)) = en_credentials db"
  "en_risk_labels (fst (commit_ruling ch i now d v r db)) = en_risk_labels db"
  "en_rulings (fst (commit_ruling ch i now d v r db)) = en_rulings db"
  by (auto simp: commit_ruling_def Let_def split: option.splits sum.splits)

lemma escalate_keeps [simp]:
  "en_credentials (escalate d v eff now db) = en_credentials db"
  "en_rulings (escalate d v eff now db) = en_rulings db"
  by (simp_all add: escalate_def)

lemma finish_event_keeps [simp]:
  "en_credentials (finish_event e d rid v eff n tx now db) = en_credentials db"
  "en_rulings (finish_event e d rid v eff n tx now db) = en_rulings db"
  by (simp_all add: finish_event_def write_event_def mark_event_consumed_def)

text \<open>When a verdict blocks: it says so, or it holds and the streak it continues holds as well.\<close>

definition blocks :: "streak_row list \<Rightarrow> string \<Rightarrow> string \<Rightarrow> bool" where
  "blocks sks d verdict \<longleftrightarrow>
     verdict = ''BLOCK'' \<or>
     (verdict = ''HOLD'' \<and>
      (case get_ruling_streak sks d of None \<Rightarrow> False | Some k \<Rightarrow> sk_verdict k = ''HOLD'' \<and> 1 \<le> sk_current k))"

definition suspends ::
  "bool \<Rightarrow> enf_chain option \<Rightarrow> event_row \<Rightarrow> enf_db \<Rightarrow> (string \<times> string) option" where
  "suspends shadow ch e db =
     (case (ev_payload e, ch) of
        (Payload d (Some rid) v _, Some c) \<Rightarrow>
          (case find (\<lambda>r. ru_id r = rid) (en_rulings db) of
             None \<Rightarrow> None
           | Some r \<Rightarrow>
               if d \<noteq> [] \<and> \<not> shadow \<and> blocks (en_streaks db) d (case v of None \<Rightarrow> ''FLAG'' | Some x \<Rightarrow> x) \<and>
                  \<not> raised (fromhex (ru_commitment_hash r)) \<and> \<not> raised (ec_suspend c (ev_id e))
               then Some (d, ru_commitment_hash r) else None)
      | _ \<Rightarrow> None)"

lemma effective_blocks:
  "effective_verdict v (streak_count (upsert_ruling_streak d v rid now sks) d) = ''BLOCK'' \<longleftrightarrow> blocks sks d v"
  by (auto simp: effective_verdict_def blocks_def get_upserted new_streak_def FLAG_STREAK_THRESH_def HOLD_STREAK_THRESH_def
      streak_count_def split: option.splits)

lemma enforce_block_credentials:
  "enforce_block ch i now d r db =
     Inr (db\<lparr>en_credentials :=
       (case ch of
          None \<Rightarrow> en_credentials db
        | Some c \<Rightarrow>
            if raised (fromhex (ru_commitment_hash r)) \<or> raised (ec_suspend c i) then en_credentials db
            else store_credential_suspension d (ru_commitment_hash r) (now + 86400) now (en_credentials db))\<rparr>)"
  by (auto simp: enforce_block_def bindE_def raised_def split: option.splits sum.splits)

lemma enforce_ruling_credentials:
  "en_credentials (fst (enforce_ruling shadow ch now e d rid v r db)) =
     (if \<not> blocks (en_streaks db) d v \<or> shadow then en_credentials db
      else case ch of
        None \<Rightarrow> en_credentials db
      | Some c \<Rightarrow>
          if raised (fromhex (ru_commitment_hash r)) \<or> raised (ec_suspend c (ev_id e)) then en_credentials db
          else store_credential_suspension d (ru_commitment_hash r) (now + 86400) now (en_credentials db))"
proof -
  let ?sks = "upsert_ruling_streak d v rid now (en_streaks db)"
  let ?eff = "effective_verdict v (streak_count ?sks d)"
  obtain db2 tx where
    c: "commit_ruling ch (ev_id e) now d ?eff r (escalate d v ?eff now (db\<lparr>en_streaks := ?sks\<rparr>)) = (db2, tx)"
    by fastforce
  have "en_credentials db2 = en_credentials db"
    using commit_ruling_keeps(1) [of ch "ev_id e" now d ?eff r "escalate d v ?eff now (db\<lparr>en_streaks := ?sks\<rparr>)", unfolded c]
    by simp
  then show ?thesis
    unfolding enforce_ruling_def Let_def c prod.case effective_blocks enforce_block_credentials
    by (simp add: shadow_block_def bindE_def split: option.split)
qed

lemma process_credentials:
  "en_credentials (fst (process_ruling_completed shadow ch now e db)) =
     (case suspends shadow ch e db of
        None \<Rightarrow> en_credentials db
      | Some (d, c) \<Rightarrow> store_credential_suspension d c (now + 86400) now (en_credentials db))"
proof (cases "ev_payload e")
  case BadJson
  then show ?thesis by (simp add: process_ruling_completed_def suspends_def)
next
  case (Payload d rid' v x)
  show ?thesis
  proof (cases rid')
    case None
    then show ?thesis using Payload by (simp add: process_ruling_completed_def suspends_def)
  next
    case (Some rid)
    then show ?thesis
      using Payload
      by (cases ch; cases "find (\<lambda>r. ru_id r = rid) (en_rulings db)")
        (simp_all add: process_ruling_completed_def suspends_def enforce_ruling_credentials)
  qed
qed

text \<open>
  C13: The longer suspension is written but never given. A label row with a warm-up score above 0.7 would
  make a suspension last seven days, as the agent's documentation says and a test checks with a mocked
  row; but the rows the store returns have no such score. So one ruling suspends a credential exactly
  when it blocks (by its own verdict, or as a second hold in a row), enforcement is not in shadow
  mode, a chain client is there, the commitment is hexadecimal and the chain accepts the suspension;
  and then for one day, whatever the device's history.
\<close>

theorem warmup_suspension_never_given:
  "warmup_of (Some [(''risk_label'', l), (''warmup_attack_score'', JFloat w)]) = Inr w \<and>
   suspend_duration w = (if 7 / 10 < w then 604800 else 86400) \<and>
   en_credentials (fst (process_ruling_completed shadow ch now e db)) =
     (case suspends shadow ch e db of
        None \<Rightarrow> en_credentials db
      | Some (d, c) \<Rightarrow> store_credential_suspension d c (now + 86400) now (en_credentials db))"
  unfolding process_credentials
  by (simp add: warmup_of_def py_float_def suspend_duration_def SUSPEND_DEFAULT_S_def SUSPEND_WARMUP_S_def)

subsection \<open>Rounds\<close>

type_synonym round = "bool \<times> enf_chain option \<times> real"

definition run_rounds :: "round list \<Rightarrow> enf_db \<Rightarrow> enf_db" where
  "run_rounds rounds db = fold (\<lambda>(shadow, ch, now). enforcement_round shadow ch now) rounds db"

lemma run_rounds_simps [simp]:
  "run_rounds [] db = db"
  "run_rounds ((shadow, ch, now) # rounds) db = run_rounds rounds (enforcement_round shadow ch now db)"
  by (simp_all add: run_rounds_def)

text \<open>The device has a row, and its row is marked reinstated.\<close>

definition marks :: "credential_row list \<Rightarrow> (string \<times> bool) list" where
  "marks ces = map (\<lambda>c. (ce_device_id c, ce_reinstated c)) ces"

definition reinstated :: "string \<Rightarrow> credential_row list \<Rightarrow> bool" where
  "reinstated d ces \<longleftrightarrow> (d, True) \<in> set (marks ces) \<and> (d, False) \<notin> set (marks ces)"

lemma marks_suspended:
  "marks (store_credential_suspension d ev till now ces) =
     (if d \<in> fst ` set (marks ces) then marks ces else marks ces @ [(d, False)])"
  by (auto simp: marks_def store_credential_suspension_def find_None_iff image_image)

lemma marks_reinstated:
  "marks (mark_suspension_reinstated d now ces) = map (\<lambda>(x, b). (x, b \<or> x = d)) (marks ces)"
  by (auto simp: marks_def mark_suspension_reinstated_def)

lemma reinstated_kept:
  "reinstated d ces \<Longrightarrow> reinstated d (store_credential_suspension d' ev till now ces)"
  "reinstated d ces \<Longrightarrow> reinstated d (mark_suspension_reinstated d' now ces)"
proof -
  assume r: "reinstated d ces"
  then show "reinstated d (store_credential_suspension d' ev till now ces)"
    unfolding reinstated_def marks_suspended by force
  have "(d, True) \<in> (\<lambda>(x, b). (x, b \<or> x = d')) ` set (marks ces)"
    by (rule image_eqI [of _ _ "(d, True)"]) (use r in \<open>simp_all add: reinstated_def\<close>)
  moreover have "(d, False) \<notin> (\<lambda>(x, b). (x, b \<or> x = d')) ` set (marks ces)"
  proof
    assume "(d, False) \<in> (\<lambda>(x, b). (x, b \<or> x = d')) ` set (marks ces)"
    then obtain p where p: "p \<in> set (marks ces)" "(d, False) = (\<lambda>(x, b). (x, b \<or> x = d')) p" by blast
    have "p = (d, False)" using p(2) by (simp add: case_prod_beta prod_eq_iff)
    then show False using r p(1) by (simp add: reinstated_def)
  qed
  ultimately show "reinstated d (mark_suspension_reinstated d' now ces)"
    by (simp add: reinstated_def marks_reinstated)
qed

lemma reinstated_process:
  "reinstated d (en_credentials db) \<Longrightarrow> reinstated d (en_credentials (fst (process_ruling_completed shadow ch now e db)))"
  by (auto simp: process_credentials intro: reinstated_kept split: option.split)

lemma reinstated_consume:
  assumes "reinstated d (en_credentials db)"
  shows "reinstated d (en_credentials (consume_enforcement_events shadow ch now db))"
proof -
  have "reinstated d (en_credentials
      (fold (\<lambda>e db. if ev_type e = ''ruling_completed'' then fst (process_ruling_completed shadow ch now e db) else db) es db))"
    for es using assms by (induction es arbitrary: db) (auto intro: reinstated_process)
  then show ?thesis unfolding consume_enforcement_events_def .
qed

lemma reinstated_check:
  assumes "reinstated d (en_credentials db)"
  shows "reinstated d (en_credentials (check_expired_suspensions ch now db))"
proof -
  have one: "reinstated d (en_credentials (reinstate_one c now row db))" if "reinstated d (en_credentials db)" for c row db
    using that by (auto simp: reinstate_one_def intro: reinstated_kept split: sum.split)
  have "reinstated d (en_credentials (fold (reinstate_one c now) rows db))" for c rows
    using assms by (induction rows arbitrary: db) (auto intro: one)
  then show ?thesis using assms by (simp add: check_expired_suspensions_def split: option.split)
qed

lemma marks_upsert:
  assumes "\<And>c. ce_device_id (f c) = ce_device_id c" and "\<And>c. ce_reinstated (f c) = ce_reinstated c"
    and "ce_device_id fresh = d" and "\<not> ce_reinstated fresh"
  shows "marks (upsert_credential d fresh f ces) = (if d \<in> fst ` set (marks ces) then marks ces else marks ces @ [(d, False)])"
proof -
  have "map (\<lambda>c. (ce_device_id c, ce_reinstated c)) (map (\<lambda>c. if ce_device_id c = d then f c else c) ces) = marks ces"
    using assms(1,2) by (auto simp: marks_def)
  moreover have "d \<in> fst ` set (marks ces) \<longleftrightarrow> find (\<lambda>c. ce_device_id c = d) ces \<noteq> None"
    by (force simp: marks_def find_None_iff)
  ultimately show ?thesis
    using assms(3,4) by (simp add: upsert_credential_def) (simp add: marks_def)
qed

lemma reinstated_marks:
  "reinstated d ces \<Longrightarrow> marks ces' = (if d' \<in> fst ` set (marks ces) then marks ces else marks ces @ [(d', False)]) \<Longrightarrow>
     reinstated d ces'"
  unfolding reinstated_def by force

lemma reinstated_upserts:
  assumes "reinstated d ces"
  shows "reinstated d (fst (increment_consecutive_critical d' now ces))"
    and "reinstated d (reset_consecutive_critical d' now ces)"
    and "reinstated d (clear_credential_suspension d' now ces)"
  using assms
  by (auto simp: increment_consecutive_critical_def reset_consecutive_critical_def clear_credential_suspension_def Let_def
      new_credential_def intro!: reinstated_marks [OF assms marks_upsert])

lemma reinstated_suspend:
  assumes "reinstated d (en_credentials (fst s))"
  shows "reinstated d (en_credentials (fst (suspend_critical cfg minted digest now d' s)))"
proof -
  obtain db calls where s: "s = (db, calls)" by fastforce
  obtain ces n where i: "increment_consecutive_critical d' now (en_credentials db) = (ces, n)" by fastforce
  have "reinstated d ces" using reinstated_upserts(1) [of d "en_credentials db" d' now] assms s i by simp
  then show ?thesis
    using assms by (auto simp: s i suspend_critical_def Let_def store_protocol_insight_def intro: reinstated_kept)
qed

lemma reinstated_clear:
  "reinstated d (en_credentials (fst s)) \<Longrightarrow> reinstated d (en_credentials (fst (reinstate_cleared now d' s)))"
  by (cases s) (auto simp: reinstate_cleared_def store_protocol_insight_def intro: reinstated_upserts)

lemma fold_invariant: "P s \<Longrightarrow> (\<And>x s. P s \<Longrightarrow> P (f x s)) \<Longrightarrow> P (fold f xs s)"
  by (induction xs arbitrary: s) auto

lemma reinstated_synthesis:
  assumes "reinstated d (en_credentials db)"
  shows "reinstated d (en_credentials (fst (synthesize_credential_enforcement cfg minted digest now db)))"
proof (cases "sy_enforcement_enabled cfg")
  case True
  let ?l = "\<lambda>label. map rl_device_id (get_devices_by_risk_label (en_risk_labels db) label)"
  let ?s1 = "fold (suspend_critical cfg minted digest now) (?l ''critical'') (db, [])"
  let ?s2 = "fold (reinstate_cleared now) (?l ''cleared'') ?s1"
  have 1: "reinstated d (en_credentials (fst ?s1))"
    by (rule fold_invariant [where P = "\<lambda>s. reinstated d (en_credentials (fst s))"])
      (simp_all add: assms reinstated_suspend)
  have 2: "reinstated d (en_credentials (fst ?s2))"
    by (rule fold_invariant [where P = "\<lambda>s. reinstated d (en_credentials (fst s))"]) (simp_all add: 1 reinstated_clear)
  have "reinstated d (fold (\<lambda>d. reset_consecutive_critical d now) xs (en_credentials (fst ?s2)))" for xs
    by (rule fold_invariant [where P = "reinstated d"]) (simp_all add: 2 reinstated_upserts)
  then show ?thesis using True by (simp add: synthesize_credential_enforcement_def Let_def case_prod_beta del: fold_append)
qed (simp add: synthesize_credential_enforcement_def assms)

text \<open>
  What happens to the credentials: a round of the agent, a pass of Mode 5, or others writing events,
  rulings and risk labels. The second function lists the devices whose credential an operation asks
  the chain to reinstate.
\<close>

datatype cred_op =
    EnforcementRound bool "enf_chain option" real
  | SynthesisPass synth_cfg "string \<Rightarrow> bool" "int option" real
  | OthersWrite "event_row list" "ruling list" "risk_row list"

fun cred_step :: "cred_op \<Rightarrow> enf_db \<Rightarrow> enf_db" where
  "cred_step (EnforcementRound shadow ch now) db = enforcement_round shadow ch now db"
| "cred_step (SynthesisPass cfg minted digest now) db = fst (synthesize_credential_enforcement cfg minted digest now db)"
| "cred_step (OthersWrite es rs ls) db =
     db\<lparr>en_events := en_events db @ es, en_rulings := en_rulings db @ rs, en_risk_labels := ls\<rparr>"

fun asked_to_reinstate :: "cred_op \<Rightarrow> enf_db \<Rightarrow> string list" where
  "asked_to_reinstate (EnforcementRound shadow ch now) db =
     (if ch = None then []
      else filter (\<lambda>d. d \<noteq> []) (map ce_device_id
        (get_expired_suspensions (en_credentials (consume_enforcement_events shadow ch now db)) now)))"
| "asked_to_reinstate (SynthesisPass cfg minted digest now) db =
     [d. ReinstateCall d \<leftarrow> snd (synthesize_credential_enforcement cfg minted digest now db)]"
| "asked_to_reinstate (OthersWrite es rs ls) db = []"

definition cred_run :: "cred_op list \<Rightarrow> enf_db \<Rightarrow> enf_db" where
  "cred_run ops db = fold cred_step ops db"

lemma reinstated_run:
  "reinstated d (en_credentials db) \<Longrightarrow> reinstated d (en_credentials (cred_run ops db))"
  unfolding cred_run_def
proof (rule fold_invariant [where P = "\<lambda>db. reinstated d (en_credentials db)"])
  fix op and db :: enf_db
  assume "reinstated d (en_credentials db)"
  then show "reinstated d (en_credentials (cred_step op db))"
    by (cases op) (auto simp: enforcement_round_def intro: reinstated_check reinstated_consume reinstated_synthesis)
qed

lemma suspend_calls:
  "d \<notin> {d. ReinstateCall d \<in> set (snd s)} \<Longrightarrow>
     d \<notin> {d. ReinstateCall d \<in> set (snd (suspend_critical cfg minted digest now d' s))}"
  by (cases s) (auto simp: suspend_critical_def Let_def split: prod.splits)

lemma clear_calls:
  "ReinstateCall d \<in> set (snd (fold (reinstate_cleared now) ds s)) \<Longrightarrow> d \<in> set ds \<or> ReinstateCall d \<in> set (snd s)"
  by (induction ds arbitrary: s) (fastforce simp: reinstate_cleared_def case_prod_beta split: if_splits)+

lemma synthesis_lifts_cleared:
  assumes "ReinstateCall d \<in> set (snd (synthesize_credential_enforcement cfg minted digest now db))"
  shows "\<exists>r \<in> set (en_risk_labels db). rl_device_id r = d \<and> rl_risk_label r = ''cleared''"
proof -
  let ?l = "\<lambda>label. map rl_device_id (get_devices_by_risk_label (en_risk_labels db) label)"
  let ?s1 = "fold (suspend_critical cfg minted digest now) (?l ''critical'') (db, [])"
  have "d \<notin> {d. ReinstateCall d \<in> set (snd ?s1)}"
    by (rule fold_invariant [where P = "\<lambda>s. d \<notin> {d. ReinstateCall d \<in> set (snd s)}"])
      (simp, rule suspend_calls)
  then have "d \<in> set (?l ''cleared'')"
    using assms clear_calls [of d now "?l ''cleared''" ?s1]
    by (auto simp: synthesize_credential_enforcement_def Let_def case_prod_beta split: if_splits)
  then show ?thesis by (auto simp: get_devices_by_risk_label_def order_desc_def)
qed

lemma reinstated_find:
  "reinstated d ces \<longleftrightarrow>
     find (\<lambda>c. ce_device_id c = d) ces \<noteq> None \<and> find (\<lambda>c. ce_device_id c = d \<and> \<not> ce_reinstated c) ces = None"
  unfolding reinstated_def marks_def find_None_iff by (fastforce simp: image_iff)

text \<open>
  C14: A suspension expires once per device: when the row has been marked reinstated, the mark stays
  through every later round of the agent, pass of Mode 5 and write of others. A second suspension is
  then never found expired, the query for an active suspension does not find it, and no operation
  asks the chain to lift it but a pass of Mode 5 that finds the device labelled cleared.
\<close>

theorem second_suspension_never_expires:
  assumes "find (\<lambda>c. ce_device_id c = d) (en_credentials db) \<noteq> None"
    and "find (\<lambda>c. ce_device_id c = d \<and> \<not> ce_reinstated c) (en_credentials db) = None"
  shows "d \<notin> set (map ce_device_id (get_expired_suspensions (en_credentials (cred_run ops db)) t)) \<and>
     get_device_suspension (en_credentials (cred_run ops db)) d = None \<and>
     (d \<in> set (asked_to_reinstate op (cred_run ops db)) \<longrightarrow>
        (\<exists>cfg minted digest now. op = SynthesisPass cfg minted digest now) \<and>
        (\<exists>r \<in> set (en_risk_labels (cred_run ops db)). rl_device_id r = d \<and> rl_risk_label r = ''cleared''))"
proof -
  let ?db = "cred_run ops db"
  have r: "reinstated d (en_credentials ?db)"
    using assms by (intro reinstated_run) (simp add: reinstated_find)
  have none: "reinstated d ces \<Longrightarrow> d \<notin> set (map ce_device_id (get_expired_suspensions ces t))" for ces t
    by (auto simp: reinstated_find get_expired_suspensions_def find_None_iff)
  have "get_device_suspension (en_credentials ?db) d = None"
    using r by (auto simp: reinstated_find get_device_suspension_def find_None_iff)
  moreover have "(\<exists>cfg minted digest now. op = SynthesisPass cfg minted digest now) \<and>
      (\<exists>r \<in> set (en_risk_labels ?db). rl_device_id r = d \<and> rl_risk_label r = ''cleared'')"
    if d: "d \<in> set (asked_to_reinstate op ?db)"
  proof (cases op)
    case (EnforcementRound shadow ch now)
    then show ?thesis using d none [OF reinstated_consume [OF r], of shadow ch now now] by (auto split: if_splits)
  next
    case (SynthesisPass cfg minted digest now)
    have "ReinstateCall d \<in> set (snd (synthesize_credential_enforcement cfg minted digest now ?db))"
      using d SynthesisPass by (auto split: cred_call.splits)
    from synthesis_lifts_cleared [OF this] show ?thesis using SynthesisPass by blast
  qed (use d in simp)
  ultimately show ?thesis using none [OF r] by blast
qed

definition demo_ruling :: ruling where
  "demo_ruling = \<lparr>ru_id = 1, ru_device_id = ''ab'', ru_verdict = ''BLOCK'', ru_confidence = 1, ru_reasoning = [],
     ru_evidence_json = [], ru_commitment_hash = ''0f'', ru_created_at = 0\<rparr>"

definition demo_event :: "nat \<Rightarrow> event_payload \<Rightarrow> event_row" where
  "demo_event i payload = \<lparr>ev_id = i, ev_type = ''ruling_completed'', ev_device_id = ''ab'', ev_payload = payload,
     ev_source = ''session_adjudicator'', ev_target = ''ruling_enforcement_agent'', ev_created_at = of_nat i,
     ev_consumed = None\<rparr>"

definition demo_block :: event_payload where
  "demo_block = Payload ''ab'' (Some 1) (Some ''BLOCK'') None"

definition demo_lifted :: enf_db where
  "demo_lifted = \<lparr>en_events = [demo_event 1 demo_block], en_rulings = [demo_ruling], en_streaks = [], en_on_chain = [],
     en_credentials = [\<lparr>ce_device_id = ''ab'', ce_consecutive_critical = 0, ce_suspended = True,
       ce_suspended_since = Some 0, ce_suspended_until = Some 5, ce_evidence_hash = None, ce_last_updated = 0,
       ce_reinstated = True, ce_reinstated_at = Some 6\<rparr>],
     en_shadow = [], en_risk_labels = [], en_bus = [], en_insights = []\<rparr>"

definition demo_chain :: enf_chain where
  "demo_chain = \<lparr>ec_record = (\<lambda>i. Inr ''tx''), ec_suspend = (\<lambda>i. Inr ()), ec_reinstate = (\<lambda>d. Inr ())\<rparr>"

definition demo_rounds :: "cred_op list" where
  "demo_rounds = [EnforcementRound False (Some demo_chain) 10]"

lemma demo_suspended:
  "map (\<lambda>c. (ce_suspended c, ce_suspended_until c)) (en_credentials (cred_run demo_rounds demo_lifted)) = [(True, Some 86410)]"
  by code_simp

theorem second_suspension_never_expires_witness:
  "map (\<lambda>c. (ce_suspended c, ce_suspended_until c)) (en_credentials (cred_run demo_rounds demo_lifted)) = [(True, Some 86410)] \<and>
   ''ab'' \<notin> set (map ce_device_id (get_expired_suspensions (en_credentials (cred_run demo_rounds demo_lifted)) 1000000)) \<and>
   ''ab'' \<notin> set (asked_to_reinstate (EnforcementRound False (Some demo_chain) 1000000) (cred_run demo_rounds demo_lifted))"
  using second_suspension_never_expires [of "''ab''" demo_lifted demo_rounds 1000000
      "EnforcementRound False (Some demo_chain) 1000000"] demo_suspended
  by (simp add: demo_lifted_def)

subsection \<open>Events that cannot be processed\<close>

definition processable :: "ruling list \<Rightarrow> event_row \<Rightarrow> bool" where
  "processable rs e \<longleftrightarrow>
     ev_type e = ''ruling_completed'' \<and>
     (case ev_payload e of
        Payload d (Some rid) _ _ \<Rightarrow> d \<noteq> [] \<and> find (\<lambda>r. ru_id r = rid) rs \<noteq> None
      | _ \<Rightarrow> False)"

lemma process_unprocessable:
  "\<lbrakk>\<not> processable (en_rulings db) e; ev_type e = ''ruling_completed''\<rbrakk> \<Longrightarrow>
     fst (process_ruling_completed shadow ch now e db) = db"
  by (auto simp: processable_def process_ruling_completed_def split: event_payload.splits option.splits)

lemma consume_unprocessable:
  assumes "list_all (\<lambda>e. \<not> processable (en_rulings db) e) (read_unconsumed_events db ''ruling_enforcement_agent'' 20)"
  shows "consume_enforcement_events shadow ch now db = db"
proof -
  have "fold (\<lambda>e db. if ev_type e = ''ruling_completed'' then fst (process_ruling_completed shadow ch now e db) else db) es db = db"
    if "list_all (\<lambda>e. \<not> processable (en_rulings db) e) es" for es
    using that by (induction es) (auto simp: process_unprocessable)
  then show ?thesis using assms by (simp add: consume_enforcement_events_def)
qed

lemma check_expired_keeps [simp]:
  "en_events (check_expired_suspensions ch now db) = en_events db"
  "en_rulings (check_expired_suspensions ch now db) = en_rulings db"
proof -
  have "en_events (fold (reinstate_one c now) rows db) = en_events db \<and>
        en_rulings (fold (reinstate_one c now) rows db) = en_rulings db" for c rows
    by (induction rows arbitrary: db) (auto simp: reinstate_one_def split: sum.split)
  then show "en_events (check_expired_suspensions ch now db) = en_events db"
    "en_rulings (check_expired_suspensions ch now db) = en_rulings db"
    by (simp_all add: check_expired_suspensions_def split: option.split)
qed

text \<open>
  C39: Twenty events that cannot be processed stop enforcement: when the oldest unconsumed events, up to
  the limit of a round, have an undecodable payload, no device, no ruling or one that is not stored,
  then no round consumes an event or enforces a ruling any more, however many wait behind them.
\<close>

theorem stuck_events_stop_enforcement:
  assumes "list_all (\<lambda>e. \<not> processable (en_rulings db) e) (read_unconsumed_events db ''ruling_enforcement_agent'' 20)"
  shows "en_events (run_rounds rounds db) = en_events db"
proof -
  have "en_events (run_rounds rounds db') = en_events db' " if "en_events db' = en_events db" "en_rulings db' = en_rulings db" for db'
    using that
  proof (induction rounds arbitrary: db')
    case (Cons r rounds)
    obtain shadow ch now where r: "r = (shadow, ch, now)" by (cases r)
    have "consume_enforcement_events shadow ch now db' = db'"
      using assms Cons.prems by (intro consume_unprocessable) (simp add: read_unconsumed_events_def)
    then show ?case
      using Cons.IH [of "enforcement_round shadow ch now db'"] Cons.prems by (simp add: r enforcement_round_def)
  qed simp
  then show ?thesis by simp
qed

definition demo_stuck :: enf_db where
  "demo_stuck = demo_lifted\<lparr>en_events := map (\<lambda>i. demo_event i BadJson) [0..<20] @ [demo_event 20 demo_block]\<rparr>"

lemma demo_stuck_read:
  "map ev_payload (read_unconsumed_events demo_stuck ''ruling_enforcement_agent'' 20) = replicate 20 BadJson"
  by code_simp

theorem stuck_events_stop_enforcement_witness:
  "processable (en_rulings demo_stuck) (demo_event 20 demo_block) \<and>
   en_events (run_rounds [(False, Some demo_chain, 10)] demo_stuck) = en_events demo_stuck"
proof
  show "processable (en_rulings demo_stuck) (demo_event 20 demo_block)" by code_simp
  have "list_all (\<lambda>p. p = BadJson) (map ev_payload (read_unconsumed_events demo_stuck ''ruling_enforcement_agent'' 20))"
    unfolding demo_stuck_read by (simp add: list_all_iff)
  then have "list_all (\<lambda>e. \<not> processable (en_rulings demo_stuck) e)
      (read_unconsumed_events demo_stuck ''ruling_enforcement_agent'' 20)"
    by (auto simp: list_all_iff processable_def)
  then show "en_events (run_rounds [(False, Some demo_chain, 10)] demo_stuck) = en_events demo_stuck"
    by (rule stuck_events_stop_enforcement)
qed

end
