(* ===== verification/Dbscan.thy ===== *)
theory Dbscan
  imports Prelude
begin

section \<open>Clusters of similar devices\<close>

text \<open>
  \<open>network_correlation_detector.py\<close>: the matrix of distances between devices, its clustering by a
  breadth-first search, and the clusters reported. A distance comes from a prover that may have none
  or raise and is an argument; numbers are reals and \<open>epsilon\<close> is not zero.
\<close>

definition dist_matrix :: "(string \<Rightarrow> string \<Rightarrow> real option res) \<Rightarrow> real \<Rightarrow> string list \<Rightarrow> nat \<Rightarrow> nat \<Rightarrow> real" where
  "dist_matrix compute eps ids i j =
     (if i = j then 0
      else (case compute (ids ! min i j) (ids ! max i j) of Inr (Some d) \<Rightarrow> d | _ \<Rightarrow> eps * 10))"

definition neighbours :: "(nat \<Rightarrow> nat \<Rightarrow> real) \<Rightarrow> real \<Rightarrow> nat \<Rightarrow> nat \<Rightarrow> nat list" where
  "neighbours dm eps n i = filter (\<lambda>j. j \<noteq> i \<and> dm i j \<le> eps) [0..<n]"

definition is_core :: "(nat \<Rightarrow> nat \<Rightarrow> real) \<Rightarrow> real \<Rightarrow> nat \<Rightarrow> int \<Rightarrow> nat \<Rightarrow> bool" where
  "is_core dm eps n m i \<longleftrightarrow> m - 1 \<le> int (length (neighbours dm eps n i))"

text \<open>The queue and all that has ever been in it; only what is new is put in.\<close>

definition push_new :: "nat list \<Rightarrow> nat list \<times> nat list \<Rightarrow> nat list \<times> nat list" where
  "push_new nbs qv =
     fold (\<lambda>nb (q, v). if nb \<in> set v then (q, v) else (q @ [nb], v @ [nb])) nbs qv"

lemma push_new_eq:
  "distinct nbs \<Longrightarrow>
     push_new nbs (q, v) = (q @ filter (\<lambda>x. x \<notin> set v) nbs, v @ filter (\<lambda>x. x \<notin> set v) nbs)"
proof (induction nbs arbitrary: q v)
  case Nil
  then show ?case by (simp add: push_new_def)
next
  case (Cons x nbs)
  have "push_new (x # nbs) (q, v) = push_new nbs (if x \<in> set v then (q, v) else (q @ [x], v @ [x]))"
    by (simp add: push_new_def)
  moreover have "filter (\<lambda>y. y \<noteq> x \<and> y \<notin> set v) nbs = filter (\<lambda>y. y \<notin> set v) nbs"
    using Cons.prems by (intro filter_cong) auto
  ultimately show ?case using Cons by (simp add: conj_commute)
qed

lemma neighbours_facts [simp]:
  "distinct (neighbours dm eps n i)"
  "set (neighbours dm eps n i) = {j. j < n \<and> j \<noteq> i \<and> dm i j \<le> eps}"
  by (auto simp: neighbours_def)

lemma fewer_left:
  assumes "distinct xs" and "set xs \<subseteq> A - set v" and "finite A"
  shows "card (A - set (v @ xs)) + length xs = card (A - set v)"
proof -
  have "A - set v = (A - set (v @ xs)) \<union> set xs" using assms(2) by auto
  moreover have "card ((A - set (v @ xs)) \<union> set xs) = card (A - set (v @ xs)) + card (set xs)"
    using assms(3) by (intro card_Un_disjoint) auto
  ultimately show ?thesis using distinct_card [OF assms(1)] by simp
qed

lemma push_measure:
  assumes "(q2, v2) = (if b then push_new (neighbours dm eps n cur) (q, v) else (q, v))"
  shows "card ({..<n} - set v2) + length q2 = card ({..<n} - set v) + length q"
proof (cases b)
  case True
  let ?xs = "filter (\<lambda>x. x \<notin> set v) (neighbours dm eps n cur)"
  have "card ({..<n} - set (v @ ?xs)) + length ?xs = card ({..<n} - set v)"
    by (rule fewer_left) auto
  then show ?thesis using assms True by (simp add: push_new_eq)
qed (use assms in simp)

function expand ::
  "(nat \<Rightarrow> nat \<Rightarrow> real) \<Rightarrow> real \<Rightarrow> nat \<Rightarrow> int \<Rightarrow> int \<Rightarrow> int list \<Rightarrow> nat list \<Rightarrow> nat list \<Rightarrow> int list" where
  "expand dm eps n m cid labels [] v = labels"
| "expand dm eps n m cid labels (cur # q) v =
     (let labels1 = (if labels ! cur = - 1 then labels[cur := cid] else labels)
      in if labels1 ! cur \<noteq> cid then expand dm eps n m cid labels1 q v
         else
           (let (q2, v2) = (if is_core dm eps n m cur then push_new (neighbours dm eps n cur) (q, v) else (q, v))
            in expand dm eps n m cid labels1 q2 v2))"
  by pat_completeness auto

termination
proof (relation "measure (\<lambda>(dm, eps, n, m, cid, labels, q, v). card ({..<n} - set v) + length q)")
  show "wf (measure (\<lambda>(dm, eps, n, m, cid, labels, q, v). card ({..<n} - set v) + length q))" by simp
next
  fix dm :: "nat \<Rightarrow> nat \<Rightarrow> real" and eps n m cid labels cur q v labels1 p q2 v2
  assume "p = (if is_core dm eps n m cur then push_new (neighbours dm eps n cur) (q, v) else (q, v))"
    and "(q2, v2) = p"
  then have "(q2, v2) = (if is_core dm eps n m cur then push_new (neighbours dm eps n cur) (q, v) else (q, v))"
    by simp
  from push_measure [OF this]
  show "((dm, eps, n, m, cid, labels1, q2, v2), dm, eps, n, m, cid, labels, cur # q, v)
     \<in> measure (\<lambda>(dm, eps, n, m, cid, labels, q, v). card ({..<n} - set v) + length q)"
    by simp
qed simp_all

definition dbscan_step ::
  "(nat \<Rightarrow> nat \<Rightarrow> real) \<Rightarrow> real \<Rightarrow> nat \<Rightarrow> int \<Rightarrow> nat \<Rightarrow> int list \<times> nat \<Rightarrow> int list \<times> nat" where
  "dbscan_step dm eps n m i = (\<lambda>(labels, cid).
     if labels ! i \<noteq> - 1 then (labels, cid)
     else if \<not> is_core dm eps n m i then (labels, cid)
     else
       (let (q, v) = push_new (neighbours dm eps n i) ([], [i])
        in (expand dm eps n m (int cid) (labels[i := int cid]) q v, cid + 1)))"

definition dbscan_labels :: "(nat \<Rightarrow> nat \<Rightarrow> real) \<Rightarrow> real \<Rightarrow> nat \<Rightarrow> int \<Rightarrow> int list \<times> nat" where
  "dbscan_labels dm eps n m = fold (dbscan_step dm eps n m) [0..<n] (replicate n (- 1), 0)"

definition dbscan :: "(nat \<Rightarrow> nat \<Rightarrow> real) \<Rightarrow> real \<Rightarrow> int \<Rightarrow> string list \<Rightarrow> string list list" where
  "dbscan dm eps m ids =
     (let n = length ids; (labels, k) = dbscan_labels dm eps n m
      in filter (\<lambda>c. c \<noteq> [])
           (map (\<lambda>cid. map ((!) ids) (filter (\<lambda>i. labels ! i = int cid) [0..<n])) [0..<k]))"


declare expand.simps [simp del]

subsection \<open>Density-connected points\<close>

text \<open>Core points, one step between neighbouring core points, and its closure.\<close>

definition core :: "(nat \<Rightarrow> nat \<Rightarrow> real) \<Rightarrow> real \<Rightarrow> nat \<Rightarrow> int \<Rightarrow> nat \<Rightarrow> bool" where
  "core dm eps n m i \<longleftrightarrow> i < n \<and> is_core dm eps n m i"

definition near :: "(nat \<Rightarrow> nat \<Rightarrow> real) \<Rightarrow> real \<Rightarrow> nat \<Rightarrow> nat \<Rightarrow> nat set" where
  "near dm eps n i = {j. j < n \<and> j \<noteq> i \<and> dm i j \<le> eps}"

definition core_edges :: "(nat \<Rightarrow> nat \<Rightarrow> real) \<Rightarrow> real \<Rightarrow> nat \<Rightarrow> int \<Rightarrow> (nat \<times> nat) set" where
  "core_edges dm eps n m = {(i, j). core dm eps n m i \<and> core dm eps n m j \<and> j \<in> near dm eps n i}"

locale distances =
  fixes dm :: "nat \<Rightarrow> nat \<Rightarrow> real" and eps :: real and n :: nat and m :: int
  assumes symmetric: "dm i j = dm j i"
begin

abbreviation "C \<equiv> core dm eps n m"
abbreviation "N \<equiv> near dm eps n"
abbreviation "R \<equiv> (core_edges dm eps n m)\<^sup>*"

lemma near_sym: "C x \<Longrightarrow> y \<in> N x \<Longrightarrow> x \<in> N y"
  by (simp add: near_def core_def symmetric)

lemma R_sym: "(x, y) \<in> R \<Longrightarrow> (y, x) \<in> R"
proof -
  have "sym (core_edges dm eps n m)"
    by (rule symI) (auto simp: core_edges_def near_def core_def symmetric)
  then show "(x, y) \<in> R \<Longrightarrow> (y, x) \<in> R" by (meson sym_rtrancl symE)
qed

lemma R_core: "(x, y) \<in> R \<Longrightarrow> C x \<Longrightarrow> C y"
  by (induction rule: rtrancl_induct) (auto simp: core_edges_def)

lemma R_step: "\<lbrakk>(x, w) \<in> R; C w; C y; y \<in> N w\<rbrakk> \<Longrightarrow> (x, y) \<in> R"
  by (rule rtrancl_into_rtrancl) (auto simp: core_edges_def)

text \<open>One search from the core point \<open>i\<close>, over the labels \<open>l0\<close> of the clusters before.\<close>

definition searching :: "int list \<Rightarrow> nat \<Rightarrow> int \<Rightarrow> int list \<Rightarrow> nat list \<Rightarrow> nat list \<Rightarrow> bool" where
  "searching l0 i cid l q v \<longleftrightarrow>
     length l = n \<and> distinct q \<and> set q \<subseteq> set v \<and> set v \<subseteq> {..<n} \<and> i \<in> set v \<and> l ! i = cid \<and> 0 \<le> cid \<and>
     (\<forall>x<n. l ! x = l0 ! x \<or> (l0 ! x = - 1 \<and> l ! x = cid \<and> x \<in> set v)) \<and>
     (\<forall>x\<in>set v. x = i \<or> (\<exists>w. C w \<and> (i, w) \<in> R \<and> x \<in> N w)) \<and>
     (\<forall>x\<in>set v - set q. l ! x \<noteq> - 1 \<and> (l ! x = cid \<and> C x \<longrightarrow> N x \<subseteq> set v))"

definition searched :: "int list \<Rightarrow> nat \<Rightarrow> int \<Rightarrow> int list \<Rightarrow> bool" where
  "searched l0 i cid l \<longleftrightarrow>
     length l = n \<and>
     (\<forall>x<n. l ! x = l0 ! x \<or> (l0 ! x = - 1 \<and> l ! x = cid)) \<and>
     (\<forall>x. C x \<longrightarrow> (l ! x = cid \<longleftrightarrow> (i, x) \<in> R)) \<and>
     (\<forall>x<n. l ! x = cid \<longrightarrow> x = i \<or> (\<exists>w. C w \<and> (i, w) \<in> R \<and> x \<in> N w)) \<and>
     (\<forall>x y. C x \<and> l ! x = cid \<and> y \<in> N x \<longrightarrow> l ! y \<noteq> - 1)"

lemma push_near:
  "push_new (neighbours dm eps n x) (q, v) = (q2, v2) \<Longrightarrow>
     \<exists>xs. q2 = q @ xs \<and> v2 = v @ xs \<and> distinct xs \<and> set xs = N x - set v"
  by (auto simp: push_new_eq near_def)

lemma searching_end:
  assumes s: "searching l0 i cid l [] v" and fresh: "\<And>x. x < n \<Longrightarrow> l0 ! x < cid"
    and free: "\<And>x. (i, x) \<in> R \<Longrightarrow> l0 ! x = - 1" and i: "C i"
  shows "searched l0 i cid l"
proof -
  note S = s [unfolded searching_def]
  have old: "l ! x = l0 ! x \<or> (l0 ! x = - 1 \<and> l ! x = cid \<and> x \<in> set v)" if "x < n" for x using S that by blast
  have in_v: "x \<in> set v" if "l ! x = cid" "x < n" for x using old [OF that(2)] fresh [OF that(2)] that(1) by auto
  have reach: "x = i \<or> (\<exists>w. C w \<and> (i, w) \<in> R \<and> x \<in> N w)" if "x \<in> set v" for x using S that by blast
  have visited: "l ! x \<noteq> - 1 \<and> (l ! x = cid \<and> C x \<longrightarrow> N x \<subseteq> set v)" if "x \<in> set v" for x using S that by simp
  have closed: "l ! y \<noteq> - 1" if "C x" "l ! x = cid" "y \<in> N x" for x y
  proof -
    have "x \<in> set v" using in_v that(1,2) by (simp add: core_def)
    then have "y \<in> set v" using visited that by blast
    then show ?thesis using visited by blast
  qed
  have all: "l ! x = cid" if "(i, x) \<in> R" for x
    using that
  proof (induction rule: rtrancl_induct)
    case base
    then show ?case using S by blast
  next
    case (step y z)
    then have "C z" "C y" "z \<in> N y" by (auto simp: core_edges_def)
    then have "l ! z \<noteq> - 1" using closed step.IH by blast
    moreover have "l0 ! z = - 1" using free step.hyps by (meson rtrancl_into_rtrancl)
    ultimately show ?case using old [of z] \<open>C z\<close> unfolding core_def by auto
  qed
  have only: "(i, x) \<in> R" if "C x" "l ! x = cid" for x
  proof -
    have "x \<in> set v" using in_v that by (simp add: core_def)
    from reach [OF this] show ?thesis
    proof
      assume "\<exists>w. C w \<and> (i, w) \<in> R \<and> x \<in> N w"
      then show ?thesis using R_step that(1) by blast
    qed simp
  qed
  show ?thesis
    unfolding searched_def
  proof (intro conjI allI impI)
    show "length l = n" using S by blast
    show "l ! x = l0 ! x \<or> (l0 ! x = - 1 \<and> l ! x = cid)" if "x < n" for x using old [OF that] by blast
    show "(l ! x = cid) = ((i, x) \<in> R)" if "C x" for x using all only [OF that] by blast
    show "x = i \<or> (\<exists>w. C w \<and> (i, w) \<in> R \<and> x \<in> N w)" if "x < n" "l ! x = cid" for x
      using reach [OF in_v [OF that(2,1)]] .
    show "l ! y \<noteq> - 1" if "C x \<and> l ! x = cid \<and> y \<in> N x" for x y using closed that by blast
  qed
qed

lemma search_step:
  assumes s: "searching l0 i cid l (x # q) v" and fresh: "\<And>y. y < n \<Longrightarrow> l0 ! y < cid"
    and l1: "l1 = (if l ! x = - 1 then l[x := cid] else l)"
  shows "l1 ! x \<noteq> cid \<Longrightarrow> searching l0 i cid l1 q v"
    and "\<lbrakk>l1 ! x = cid; C x; push_new (neighbours dm eps n x) (q, v) = (q2, v2)\<rbrakk> \<Longrightarrow> searching l0 i cid l1 q2 v2"
    and "\<lbrakk>l1 ! x = cid; \<not> C x\<rbrakk> \<Longrightarrow> searching l0 i cid l1 q v"
proof -
  note S = s [unfolded searching_def]
  have x: "x < n" "x \<in> set v" "x \<notin> set q" using S by auto
  have l: "length l = n" using S by blast
  have i: "i \<in> set v" "l ! i = cid" "0 \<le> cid" "i < n" using S by auto
  have old: "l ! y = l0 ! y \<or> (l0 ! y = - 1 \<and> l ! y = cid \<and> y \<in> set v)" if "y < n" for y using S that by blast
  have visited: "l ! y \<noteq> - 1 \<and> (l ! y = cid \<and> C y \<longrightarrow> N y \<subseteq> set v)" if "y \<in> set v" "y \<notin> set (x # q)" for y
    using S that by blast
  have same: "l1 ! y = l ! y" if "y \<noteq> x" for y using that l1 by simp
  have x1: "l1 ! x \<noteq> - 1" using l1 x l i(3) by simp
  have len: "length l1 = n" using l1 l by simp
  have ci: "l1 ! i = cid" using l1 i x l by (cases "x = i") auto
  have old1: "l1 ! y = l0 ! y \<or> (l0 ! y = - 1 \<and> l1 ! y = cid \<and> y \<in> set v)" if "y < n" for y
    using old [OF that] l1 l x that i(3) by (cases "y = x") auto
  have reach: "\<forall>y\<in>set v. y = i \<or> (\<exists>w. C w \<and> (i, w) \<in> R \<and> y \<in> N w)" using S by blast
  have base: "distinct q" "set q \<subseteq> set v" "set v \<subseteq> {..<n}" using S by auto
  have done1: "l1 ! y \<noteq> - 1 \<and> (l1 ! y = cid \<and> C y \<longrightarrow> N y \<subseteq> set v)" if "y \<in> set v" "y \<notin> set q" "y \<noteq> x" for y
    using visited [of y] that same [of y] by simp
  show "searching l0 i cid l1 q v" if "l1 ! x \<noteq> cid"
    unfolding searching_def using len base i(1,3) ci old1 reach done1 x1 that by (intro conjI ballI) (blast+)
  show "searching l0 i cid l1 q v" if "l1 ! x = cid" "\<not> C x"
    unfolding searching_def using len base i(1,3) ci old1 reach done1 x1 that by (intro conjI ballI) (blast+)
  assume c: "l1 ! x = cid" "C x" and p: "push_new (neighbours dm eps n x) (q, v) = (q2, v2)"
  obtain xs where xs: "q2 = q @ xs" "v2 = v @ xs" "distinct xs" "set xs = N x - set v" using push_near [OF p] by blast
  have ix: "(i, x) \<in> R" using reach x(2) c(2) by (cases "x = i") (auto intro: R_step)
  have "searching l0 i cid l1 (q @ xs) (v @ xs)"
    unfolding searching_def
  proof (intro conjI ballI allI impI)
    show "distinct (q @ xs)" using base xs by auto
    show "set (q @ xs) \<subseteq> set (v @ xs)" using base by auto
    show "set (v @ xs) \<subseteq> {..<n}" using base xs by (auto simp: near_def)
    show "l1 ! y = l0 ! y \<or> (l0 ! y = - 1 \<and> l1 ! y = cid \<and> y \<in> set (v @ xs))" if "y < n" for y
      using old1 [OF that] by auto
    show "y = i \<or> (\<exists>w. C w \<and> (i, w) \<in> R \<and> y \<in> N w)" if "y \<in> set (v @ xs)" for y
      using reach that xs(4) c(2) ix by auto
    fix y assume y: "y \<in> set (v @ xs) - set (q @ xs)"
    then have yv: "y \<in> set v" "y \<notin> set q" by auto
    show "l1 ! y \<noteq> - 1" using done1 [OF yv] x1 by (cases "y = x") auto
    assume yc: "l1 ! y = cid \<and> C y"
    show "N y \<subseteq> set (v @ xs)"
    proof (cases "y = x")
      case True
      then show ?thesis using xs(4) by auto
    next
      case False
      then show ?thesis using done1 [OF yv False] yc by auto
    qed
  qed (use len i ci in auto)
  then show "searching l0 i cid l1 q2 v2" using xs by simp
qed

lemma expand_searched:
  assumes "searching l0 i cid l q v" and fresh: "\<And>y. y < n \<Longrightarrow> l0 ! y < cid"
    and free: "\<And>x. (i, x) \<in> R \<Longrightarrow> l0 ! x = - 1" and i: "C i"
  shows "searched l0 i cid (expand dm eps n m cid l q v)"
  using assms(1)
proof (induction "card ({..<n} - set v) + length q" arbitrary: l q v rule: less_induct)
  case less
  show ?case
  proof (cases q)
    case Nil
    then show ?thesis using searching_end [OF _ fresh free i] less.prems by (simp add: expand.simps)
  next
    case (Cons x q')
    define l1 where "l1 = (if l ! x = - 1 then l[x := cid] else l)"
    note step = search_step [OF less.prems [unfolded Cons] fresh l1_def]
    have x: "x < n" using less.prems by (auto simp: searching_def Cons)
    have e: "expand dm eps n m cid l q v =
      (if l1 ! x \<noteq> cid then expand dm eps n m cid l1 q' v
       else let (q2, v2) = (if is_core dm eps n m x then push_new (neighbours dm eps n x) (q', v) else (q', v))
            in expand dm eps n m cid l1 q2 v2)"
      by (simp add: Cons expand.simps l1_def Let_def)
    show ?thesis
    proof (cases "l1 ! x = cid \<and> C x")
      case True
      obtain q2 v2 where p: "push_new (neighbours dm eps n x) (q', v) = (q2, v2)" by fastforce
      have "card ({..<n} - set v2) + length q2 = card ({..<n} - set v) + length q'"
        using push_measure [of q2 v2 True dm eps n x q' v] p by simp
      then have "searched l0 i cid (expand dm eps n m cid l1 q2 v2)"
        using step(2) [OF _ _ _ p] True by (intro less.hyps) (auto simp: Cons)
      then show ?thesis using True p by (simp add: e core_def)
    next
      case False
      have "searched l0 i cid (expand dm eps n m cid l1 q' v)"
        using step(1,3) False by (intro less.hyps) (auto simp: Cons)
      then show ?thesis using False x by (auto simp: e core_def)
    qed
  qed
qed

text \<open>The labels after some clusters: closed under steps from core points, each cluster one class.\<close>

definition clustered :: "int list \<Rightarrow> nat \<Rightarrow> bool" where
  "clustered l k \<longleftrightarrow>
     length l = n \<and> (\<forall>x<n. - 1 \<le> l ! x \<and> l ! x < int k) \<and>
     (\<forall>x y. C x \<and> C y \<and> l ! x \<noteq> - 1 \<longrightarrow> (l ! x = l ! y \<longleftrightarrow> (x, y) \<in> R)) \<and>
     (\<forall>x y. C x \<and> l ! x \<noteq> - 1 \<and> y \<in> N x \<longrightarrow> l ! y \<noteq> - 1) \<and>
     (\<forall>y<n. \<not> C y \<and> l ! y \<noteq> - 1 \<longrightarrow> (\<exists>x. C x \<and> y \<in> N x \<and> l ! x = l ! y))"

lemma searched_clustered:
  assumes c: "clustered l0 k" and s: "searched l0 i (int k) l" and i: "C i" "l0 ! i = - 1"
  shows "clustered l (k + 1)"
proof -
  note K = c [unfolded clustered_def] and S = s [unfolded searched_def]
  have bound: "- 1 \<le> l0 ! x" "l0 ! x < int k" if "x < n" for x using K that by auto
  have old: "l ! x = l0 ! x \<or> (l0 ! x = - 1 \<and> l ! x = int k)" if "x < n" for x using S that by blast
  have one: "l ! x = int k \<longleftrightarrow> (i, x) \<in> R" if "C x" for x using S that by blast
  have classes: "l0 ! x = l0 ! y \<longleftrightarrow> (x, y) \<in> R" if "C x" "C y" "l0 ! x \<noteq> - 1" for x y using K that by blast
  have lt: "x < n" if "C x" for x using that by (simp add: core_def)
  have keep: "l ! x = l0 ! x" if "x < n" "l0 ! x \<noteq> - 1" for x using old that by blast
  have new: "l0 ! x = - 1" if "x < n" "l ! x = int k" for x using old [OF that(1)] bound [OF that(1)] that(2) by auto
  show ?thesis
    unfolding clustered_def
  proof (intro conjI allI impI)
    show "length l = n" using S by blast
    show "- 1 \<le> l ! x" "l ! x < int (k + 1)" if "x < n" for x using old [OF that] bound [OF that] by auto
    fix x y
    assume a: "C x \<and> C y \<and> l ! x \<noteq> - 1"
    show "(l ! x = l ! y) = ((x, y) \<in> R)"
    proof (cases "l ! x = int k")
      case True
      then have "(i, x) \<in> R" using one a by blast
      then have "(i, y) \<in> R \<longleftrightarrow> (x, y) \<in> R" using R_sym by (meson rtrancl_trans)
      then show ?thesis using one a True by metis
    next
      case False
      then have x0: "l0 ! x = l ! x" "l0 ! x \<noteq> - 1" using old [OF lt [of x]] a by auto
      show ?thesis
      proof (cases "l ! y = l0 ! y")
        case True
        then show ?thesis using classes a x0 by metis
      next
        case y: False
        then have "l0 ! y = - 1" "l ! y = int k" using old [OF lt [of y]] a by auto
        then show ?thesis using classes a x0 False by metis
      qed
    qed
  next
    fix x y
    assume a: "C x \<and> l ! x \<noteq> - 1 \<and> y \<in> N x"
    then have y: "y < n" by (simp add: near_def)
    show "l ! y \<noteq> - 1"
    proof (cases "l ! x = int k")
      case True
      then show ?thesis using S a by blast
    next
      case False
      then have "l0 ! x \<noteq> - 1" using old [OF lt [of x]] a by auto
      then have "l0 ! y \<noteq> - 1" using K a by blast
      then show ?thesis using keep y by simp
    qed
  next
    fix y
    assume y: "y < n" and a: "\<not> C y \<and> l ! y \<noteq> - 1"
    show "\<exists>x. C x \<and> y \<in> N x \<and> l ! x = l ! y"
    proof (cases "l ! y = int k")
      case True
      then obtain w where "C w" "(i, w) \<in> R" "y \<in> N w" using S y a i(1) by metis
      then show ?thesis using one True by metis
    next
      case False
      then have "l0 ! y = l ! y" "l0 ! y \<noteq> - 1" using old [OF y] a by auto
      then obtain x where "C x" "y \<in> N x" "l0 ! x = l ! y" using K y a by metis
      then show ?thesis using keep [OF lt] \<open>l0 ! y = l ! y\<close> \<open>l0 ! y \<noteq> - 1\<close> by metis
    qed
  qed
qed

lemma search_start:
  assumes "clustered l k" and "C i" and "l ! i = - 1"
    and p: "push_new (neighbours dm eps n i) ([], [i]) = (q, v)"
  shows "searched l i (int k) (expand dm eps n m (int k) (l[i := int k]) q v)"
proof (rule expand_searched)
  note K = assms(1) [unfolded clustered_def]
  have i: "i < n" using assms(2) by (simp add: core_def)
  obtain xs where xs: "q = xs" "v = i # xs" "distinct xs" "set xs = N i - {i}" using push_near [OF p] by auto
  show "searching l i (int k) (l[i := int k]) q v"
    unfolding searching_def
  proof (intro conjI ballI allI impI)
    show "set v \<subseteq> {..<n}" using xs i by (auto simp: near_def)
    show "l[i := int k] ! x = l ! x \<or> (l ! x = - 1 \<and> l[i := int k] ! x = int k \<and> x \<in> set v)" if "x < n" for x
      using that K assms(3) xs by (cases "x = i") auto
    show "x = i \<or> (\<exists>w. C w \<and> (i, w) \<in> R \<and> x \<in> N w)" if "x \<in> set v" for x
      using that xs assms(2) by auto
    fix x assume "x \<in> set v - set q"
    then have "x = i" using xs by auto
    then show "l[i := int k] ! x \<noteq> - 1" "l[i := int k] ! x = int k \<and> C x \<Longrightarrow> N x \<subseteq> set v"
      using i K xs by (auto simp: near_def)
  qed (use xs i K in auto)
  show "l ! y < int k" if "y < n" for y using K that by auto
  show "l ! x = - 1" if "(i, x) \<in> R" for x
    using K R_core [OF that assms(2)] R_sym [OF that] assms(2,3) by metis
qed (rule assms(2))

lemma step_clustered:
  assumes "clustered l k" and "i < n" and "dbscan_step dm eps n m i (l, k) = (l', k')"
  shows "clustered l' k' \<and> (C i \<longrightarrow> l' ! i \<noteq> - 1) \<and> (\<forall>x<n. l ! x \<noteq> - 1 \<longrightarrow> l' ! x \<noteq> - 1)"
proof (cases "l ! i = - 1 \<and> C i")
  case True
  obtain q v where p: "push_new (neighbours dm eps n i) ([], [i]) = (q, v)" by fastforce
  have r: "l' = expand dm eps n m (int k) (l[i := int k]) q v" "k' = k + 1"
    using assms(3) True p by (auto simp: dbscan_step_def core_def)
  have s: "searched l i (int k) l'" using search_start [OF assms(1) _ _ p] True r by simp
  have "l' ! i = int k" using s True unfolding searched_def by blast
  moreover have "\<forall>x<n. l ! x \<noteq> - 1 \<longrightarrow> l' ! x \<noteq> - 1" using s unfolding searched_def by metis
  ultimately show ?thesis using searched_clustered [OF assms(1) s] True r by simp
next
  case False
  then have "l' = l" "k' = k" using assms(2,3) by (auto simp: dbscan_step_def core_def split: if_splits)
  then show ?thesis using assms(1) False by auto
qed

lemma fold_clustered:
  assumes "j \<le> n" and "fold (dbscan_step dm eps n m) [0..<j] (replicate n (- 1), 0) = (l, k)"
  shows "clustered l k \<and> (\<forall>i<j. C i \<longrightarrow> l ! i \<noteq> - 1)"
  using assms
proof (induction j arbitrary: l k)
  case 0
  then show ?case by (auto simp: clustered_def core_def near_def)
next
  case (Suc j)
  obtain l1 k1 where f: "fold (dbscan_step dm eps n m) [0..<j] (replicate n (- 1), 0) = (l1, k1)" by fastforce
  have IH: "clustered l1 k1" "\<forall>i<j. C i \<longrightarrow> l1 ! i \<noteq> - 1" using Suc.IH [OF _ f] Suc.prems(1) by auto
  have "dbscan_step dm eps n m j (l1, k1) = (l, k)" using Suc.prems(2) f by simp
  from step_clustered [OF IH(1) _ this] Suc.prems(1)
  have "clustered l k" "C j \<longrightarrow> l ! j \<noteq> - 1" "\<forall>x<n. l1 ! x \<noteq> - 1 \<longrightarrow> l ! x \<noteq> - 1" by auto
  then show ?case using IH(2) Suc.prems(1) by (auto simp: less_Suc_eq)
qed

lemma labels_connected:
  assumes "dbscan_labels dm eps n m = (l, k)"
  shows "\<lbrakk>C i; C j\<rbrakk> \<Longrightarrow> l ! i \<noteq> - 1 \<and> (l ! i = l ! j \<longleftrightarrow> (i, j) \<in> R)"
    and "\<lbrakk>i < n; \<not> C i\<rbrakk> \<Longrightarrow>
      if l ! i = - 1 then \<forall>j. C j \<longrightarrow> i \<notin> N j else \<exists>j. C j \<and> i \<in> N j \<and> l ! i = l ! j"
proof -
  have c: "clustered l k" and all: "C i \<longrightarrow> l ! i \<noteq> - 1" for i
    using fold_clustered [OF order.refl, of l k] assms by (auto simp: dbscan_labels_def core_def)
  note K = c [unfolded clustered_def]
  show "l ! i \<noteq> - 1 \<and> (l ! i = l ! j \<longleftrightarrow> (i, j) \<in> R)" if "C i" "C j" using K all that by blast
  show "if l ! i = - 1 then \<forall>j. C j \<longrightarrow> i \<notin> N j else \<exists>j. C j \<and> i \<in> N j \<and> l ! i = l ! j" if "i < n" "\<not> C i"
    using K all that by metis
qed

end

interpretation dmat: distances "dist_matrix compute eps ids" eps n m for compute eps ids n m
  by unfold_locales (simp add: dist_matrix_def min.commute max.commute)

text \<open>
  C20: The search clusters by density: core devices (those with enough neighbours) bear the same label
  exactly when a chain of neighbouring core devices joins them; every core device has a label; another
  device is noise exactly when it is near no core device, and otherwise bears the label of one it is
  near. The search ends for every input.
\<close>

theorem clusters_are_density_connected:
  assumes "dbscan_labels (dist_matrix compute eps ids) eps (length ids) m = (l, k)"
  shows "(\<forall>i j. core (dist_matrix compute eps ids) eps (length ids) m i \<and>
              core (dist_matrix compute eps ids) eps (length ids) m j \<longrightarrow>
            l ! i \<noteq> - 1 \<and> (l ! i = l ! j \<longleftrightarrow> (i, j) \<in> (core_edges (dist_matrix compute eps ids) eps (length ids) m)\<^sup>*)) \<and>
         (\<forall>i<length ids. \<not> core (dist_matrix compute eps ids) eps (length ids) m i \<longrightarrow>
            (if l ! i = - 1
             then \<forall>j. core (dist_matrix compute eps ids) eps (length ids) m j \<longrightarrow>
                      i \<notin> near (dist_matrix compute eps ids) eps (length ids) j
             else \<exists>j. core (dist_matrix compute eps ids) eps (length ids) m j \<and>
                      i \<in> near (dist_matrix compute eps ids) eps (length ids) j \<and> l ! i = l ! j))"
  using dmat.labels_connected [OF assms] by blast

definition demo_distance :: "string \<Rightarrow> string \<Rightarrow> real option res" where
  "demo_distance a b =
     (if a = ''b'' \<or> b = ''b'' then Inr (Some (if a = ''d'' \<or> b = ''d'' then 9 else 1)) else Inr None)"

lemma demo_labels:
  "dbscan_labels (dist_matrix demo_distance 1 [''a'', ''b'', ''c'', ''d'']) 1 4 3 = ([0, 0, 0, - 1], 1)"
  by code_simp

theorem clusters_are_density_connected_witness:
  "dbscan_labels (dist_matrix demo_distance 1 [''a'', ''b'', ''c'', ''d'']) 1 4 3 = ([0, 0, 0, - 1], 1) \<and>
   core (dist_matrix demo_distance 1 [''a'', ''b'', ''c'', ''d'']) 1 4 3 1 \<and>
   3 \<notin> near (dist_matrix demo_distance 1 [''a'', ''b'', ''c'', ''d'']) 1 4 1"
proof -
  have c: "core (dist_matrix demo_distance 1 [''a'', ''b'', ''c'', ''d'']) 1 4 3 1"
    "\<not> core (dist_matrix demo_distance 1 [''a'', ''b'', ''c'', ''d'']) 1 4 3 3" by code_simp+
  have four: "length [''a'', ''b'', ''c'', ''d''] = (4::nat)" by simp
  show ?thesis
    using clusters_are_density_connected [of demo_distance 1 "[''a'', ''b'', ''c'', ''d'']" 3, unfolded four, OF demo_labels]
      demo_labels c by auto
qed


subsection \<open>The clusters reported\<close>

record device_cluster =
  dc_cluster_id :: nat
  dc_device_ids :: "string list"
  dc_avg_intra_distance :: real
  dc_farm_suspicion_score :: real
  dc_is_flagged :: bool

fun index_of :: "'a \<Rightarrow> 'a list \<Rightarrow> nat" where
  "index_of x [] = 0"
| "index_of x (y # ys) = (if x = y then 0 else Suc (index_of x ys))"

definition intra_distances :: "(nat \<Rightarrow> nat \<Rightarrow> real) \<Rightarrow> nat list \<Rightarrow> real list" where
  "intra_distances dm ixs =
     concat (map (\<lambda>i. map (\<lambda>j. dm (ixs ! i) (ixs ! j)) [i + 1..<length ixs]) [0..<length ixs])"

definition farm_score :: "real \<Rightarrow> nat \<Rightarrow> real \<Rightarrow> real" where
  "farm_score eps size' avg = max 0 (min 1 ((real size' - 2) / 5 + (eps - avg) / eps))"

definition describe_cluster ::
  "(nat \<Rightarrow> nat \<Rightarrow> real) \<Rightarrow> real \<Rightarrow> int \<Rightarrow> string list \<Rightarrow> nat \<Rightarrow> string list \<Rightarrow> device_cluster" where
  "describe_cluster dm eps m ids cid members =
     (let ds = intra_distances dm (map (\<lambda>d. index_of d ids) members);
          avg = (if ds = [] then 0 else sum_list ds / real (length ds))
      in \<lparr>dc_cluster_id = cid, dc_device_ids = members, dc_avg_intra_distance = py_round 4 avg,
          dc_farm_suspicion_score = py_round 4 (farm_score eps (length members) avg),
          dc_is_flagged = (m \<le> int (length members) \<and> avg < eps * (1 / 2))\<rparr>)"

definition detect_clusters ::
  "(string \<Rightarrow> string \<Rightarrow> real option res) \<Rightarrow> real \<Rightarrow> int \<Rightarrow> string list \<Rightarrow> device_cluster list" where
  "detect_clusters compute eps m ids =
     (if int (length ids) < m then []
      else
        (let dm = dist_matrix compute eps ids
         in map (\<lambda>(cid, members). describe_cluster dm eps m ids cid members)
              (enumerate 0 (dbscan dm eps m ids))))"

definition get_farm_suspicion_score :: "device_cluster list \<Rightarrow> string \<Rightarrow> real" where
  "get_farm_suspicion_score cs d =
     (case find (\<lambda>c. d \<in> set (dc_device_ids c)) cs of None \<Rightarrow> 0 | Some c \<Rightarrow> dc_farm_suspicion_score c)"

definition get_flagged_clusters :: "device_cluster list \<Rightarrow> device_cluster list" where
  "get_flagged_clusters cs = filter dc_is_flagged cs"

lemma detected_members:
  "map dc_device_ids (detect_clusters compute eps m ids) =
     (if int (length ids) < m then [] else dbscan (dist_matrix compute eps ids) eps m ids)"
  by (auto simp: detect_clusters_def describe_cluster_def Let_def comp_def case_prod_beta
      simp flip: map_map [unfolded comp_def])

lemma distinct_classes:
  assumes "distinct ids"
  shows "distinct (concat (map (\<lambda>c. map ((!) ids) (filter (\<lambda>i. l ! i = int c) [0..<length ids])) [0..<k]))"
proof (induction k)
  case (Suc k)
  have inj: "inj_on ((!) ids) {..<length ids}" using assms by (auto simp: inj_on_def nth_eq_iff_index_eq)
  have "distinct (map ((!) ids) (filter (\<lambda>i. l ! i = int k) [0..<length ids]))"
    using inj by (auto simp: distinct_map elim!: inj_on_subset)
  then show ?case using Suc assms by (auto simp: nth_eq_iff_index_eq)
qed simp

lemma dbscan_members:
  assumes "dbscan_labels (dist_matrix compute eps ids) eps (length ids) m = (l, k)"
  shows "concat (dbscan (dist_matrix compute eps ids) eps m ids) =
     concat (map (\<lambda>c. map ((!) ids) (filter (\<lambda>i. l ! i = int c) [0..<length ids])) [0..<k])"
proof -
  have "concat (filter (\<lambda>c. c \<noteq> []) xss) = concat xss" for xss :: "string list list" by (induction xss) auto
  then show ?thesis by (simp add: dbscan_def assms)
qed

lemma labelled_range:
  assumes "dbscan_labels (dist_matrix compute eps ids) eps (length ids) m = (l, k)" and "i < length ids"
  shows "(\<exists>c<k. l ! i = int c) \<longleftrightarrow> l ! i \<noteq> - 1"
proof -
  have "dmat.clustered compute eps ids (length ids) m l k"
    using dmat.fold_clustered [OF order.refl] assms(1) by (simp add: dbscan_labels_def)
  then have "- 1 \<le> l ! i \<and> l ! i < int k" using assms(2) by (simp add: dmat.clustered_def)
  then show ?thesis by (auto intro!: exI [of _ "nat (l ! i)"])
qed

text \<open>
  C21: What is reported, for distinct devices and enough of them: no device is in two clusters, and the
  members of all clusters together are the core devices and the devices near one.
\<close>

theorem clusters_partition_dense_devices:
  assumes "distinct ids" and "m \<le> int (length ids)"
  shows "distinct (concat (map dc_device_ids (detect_clusters compute eps m ids))) \<and>
     set (concat (map dc_device_ids (detect_clusters compute eps m ids))) =
       {ids ! i | i. i < length ids \<and>
          (core (dist_matrix compute eps ids) eps (length ids) m i \<or>
           (\<exists>j. core (dist_matrix compute eps ids) eps (length ids) m j \<and>
                i \<in> near (dist_matrix compute eps ids) eps (length ids) j))}"
proof -
  obtain l k where lk: "dbscan_labels (dist_matrix compute eps ids) eps (length ids) m = (l, k)" by fastforce
  have members: "concat (map dc_device_ids (detect_clusters compute eps m ids)) =
      concat (map (\<lambda>c. map ((!) ids) (filter (\<lambda>i. l ! i = int c) [0..<length ids])) [0..<k])"
    using assms(2) dbscan_members [OF lk] by (simp add: detected_members)
  have "set (concat (map (\<lambda>c. map ((!) ids) (filter (\<lambda>i. l ! i = int c) [0..<length ids])) [0..<k])) =
      {ids ! i | i. i < length ids \<and> (\<exists>c<k. l ! i = int c)}"
    by auto
  also have "\<dots> = {ids ! i | i. i < length ids \<and> l ! i \<noteq> - 1}"
    using labelled_range [OF lk] by auto
  also have "\<dots> = {ids ! i | i. i < length ids \<and>
          (core (dist_matrix compute eps ids) eps (length ids) m i \<or>
           (\<exists>j. core (dist_matrix compute eps ids) eps (length ids) m j \<and>
                i \<in> near (dist_matrix compute eps ids) eps (length ids) j))}"
  proof -
    have "l ! i \<noteq> - 1 \<longleftrightarrow> core (dist_matrix compute eps ids) eps (length ids) m i \<or>
           (\<exists>j. core (dist_matrix compute eps ids) eps (length ids) m j \<and>
                i \<in> near (dist_matrix compute eps ids) eps (length ids) j)" if "i < length ids" for i
      using dmat.labels_connected [OF lk] that by metis
    then show ?thesis by auto
  qed
  finally show ?thesis using distinct_classes [OF assms(1), of l k] members by simp
qed

theorem clusters_partition_dense_devices_witness:
  "distinct [''a'', ''b'', ''c'', ''d''] \<and> (3::int) \<le> int (length [''a'', ''b'', ''c'', ''d'']) \<and>
   distinct (concat (map dc_device_ids (detect_clusters demo_distance 1 3 [''a'', ''b'', ''c'', ''d''])))"
  using clusters_partition_dense_devices [of "[''a'', ''b'', ''c'', ''d'']" 3 demo_distance 1] by simp

end
