(* ===== verification/Federation.thy ===== *)
theory Federation
  imports Dbscan ChainLog Json Sha256 "HOL-Library.Char_ord" "HOL-Library.List_Lexorder"
begin

section \<open>Clusters shared between bridges\<close>

text \<open>
  \<open>federation_bus.py\<close> with its table \<open>federation_registry\<close> in \<open>store/_core.py\<close>: the owners of event
  prefixes, the fingerprint of a cluster, and the exchange with peers. What a peer answers is an
  argument; a received cluster has the fields the code reads, those the peer left out as \<open>None\<close>. An
  escalation (insight, broadcast and anchor) is one entry of \<open>fb_escalated\<close>.
\<close>

subsection \<open>Owners of event prefixes\<close>

type_synonym namespaces = "(string, string) dict"

definition register_namespace :: "string \<Rightarrow> string \<Rightarrow> namespaces \<Rightarrow> namespaces res" where
  "register_namespace prefix owner ns =
     (if prefix = [] then Inl (PyExc ''ValueError'' ''Namespace prefix must be non-empty.'')
      else if owner = [] then Inl (PyExc ''ValueError'' ''Namespace owner must be non-empty.'')
      else (case dget ns prefix of
              Some existing \<Rightarrow> if existing \<noteq> owner then Inl (PyExc ''NamespaceConflictError'' prefix) else Inr ns
            | None \<Rightarrow> Inr (dput prefix owner ns)))"

fun validate_namespace :: "string \<Rightarrow> string \<Rightarrow> namespaces \<Rightarrow> unit res" where
  "validate_namespace event_type expected [] = Inr ()"
| "validate_namespace event_type expected ((prefix, owner) # ns) =
     (if startswith event_type prefix
      then (if owner \<noteq> expected then Inl (PyExc ''NamespaceViolationError'' event_type) else Inr ())
      else validate_namespace event_type expected ns)"

subsection \<open>Fingerprints\<close>

definition compute_cluster_hash :: "string list \<Rightarrow> string" where
  "compute_cluster_hash ids =
     take 16 (hex (sha256 (encode (join_char (CHR ''|'') (sort ids)))))"

definition compute_bridge_id :: "string \<Rightarrow> string" where
  "compute_bridge_id api_key = take 16 (hex (sha256 (encode (''bridge:'' @ api_key))))"

text \<open>The pattern ends in \<open>$\<close>, which also matches before a final newline.\<close>

definition is_valid_cluster_hash :: "string \<Rightarrow> bool" where
  "is_valid_cluster_hash h \<longleftrightarrow>
     (length h = 16 \<or> (length h = 17 \<and> h ! 16 = CHR 0x0A)) \<and> list_all (\<lambda>c. c \<in> set ''0123456789abcdef'') (take 16 h)"

subsection \<open>The registry\<close>

record fed_row =
  fr_cluster_hash :: string
  fr_peer_url :: string
  fr_device_count :: int
  fr_suspicion_bucket :: string
  fr_bridge_id :: string
  fr_detected_at :: real
  fr_is_local :: bool

definition store_federation_cluster ::
  "string \<Rightarrow> string \<Rightarrow> int \<Rightarrow> string \<Rightarrow> string \<Rightarrow> bool \<Rightarrow> real \<Rightarrow> fed_row list \<Rightarrow> fed_row list" where
  "store_federation_cluster h peer count bucket bridge is_local now rows =
     rows @ [\<lparr>fr_cluster_hash = h, fr_peer_url = peer, fr_device_count = count, fr_suspicion_bucket = bucket,
              fr_bridge_id = bridge, fr_detected_at = now, fr_is_local = is_local\<rparr>]"

definition get_federation_clusters :: "fed_row list \<Rightarrow> int \<Rightarrow> bool option \<Rightarrow> fed_row list" where
  "get_federation_clusters rows limit is_local =
     sql_limit limit (order_desc fr_detected_at
       (case is_local of None \<Rightarrow> rows | Some b \<Rightarrow> filter (\<lambda>r. fr_is_local r = b) rows))"

text \<open>The groups come in the order of the index, which is that of the hashes.\<close>

definition get_cross_confirmed_hashes :: "fed_row list \<Rightarrow> nat \<Rightarrow> string list" where
  "get_cross_confirmed_hashes rows min_peers =
     (let remote = filter (\<lambda>r. \<not> fr_is_local r) rows
      in filter (\<lambda>h. min_peers \<le> length (remdups (map fr_bridge_id (filter (\<lambda>r. fr_cluster_hash r = h) remote))))
           (sort (remdups (map fr_cluster_hash remote))))"

subsection \<open>The exchange\<close>

record peer_cluster =
  pe_cluster_hash :: "string option"
  pe_bridge_id :: "string option"
  pe_device_count :: "int option"
  pe_suspicion_bucket :: "string option"

record federation =
  fb_bridge_id :: string
  fb_known :: "(string, string list) dict"
  fb_registry :: "fed_row list"
  fb_escalated :: "string list"

definition known_hashes :: "federation \<Rightarrow> string \<Rightarrow> string list" where
  "known_hashes fb peer = dget_or (fb_known fb) peer []"

definition add_known :: "string \<Rightarrow> string \<Rightarrow> federation \<Rightarrow> federation" where
  "add_known peer h fb = fb\<lparr>fb_known := dput peer (List.insert h (known_hashes fb peer)) (fb_known fb)\<rparr>"

definition get_peers :: "string \<Rightarrow> string list" where
  "get_peers raw = (if raw = [] then [] else filter (\<lambda>p. p \<noteq> []) (map strip (split_on (CHR '','') raw)))"

text \<open>\<open>fails\<close> says that the query of the registry raises, which is logged only.\<close>

definition seed_known_hashes :: "bool \<Rightarrow> federation \<Rightarrow> federation" where
  "seed_known_hashes fails fb =
     (if fails then fb else
     fold (\<lambda>r fb. if fr_peer_url r \<noteq> [] \<and> is_valid_cluster_hash (fr_cluster_hash r)
                  then add_known (fr_peer_url r) (fr_cluster_hash r) fb else fb)
       (get_federation_clusters (fb_registry fb) 10000 (Some False)) fb)"

definition publish_local_clusters :: "device_cluster list res \<Rightarrow> real \<Rightarrow> federation \<Rightarrow> federation" where
  "publish_local_clusters detected now fb =
     (case detected of
        Inl e \<Rightarrow> fb
      | Inr cs \<Rightarrow>
          fold (\<lambda>c fb. fb\<lparr>fb_registry := store_federation_cluster (compute_cluster_hash (dc_device_ids c)) []
                   (int (length (dc_device_ids c)))
                   (if 85 / 100 < dc_farm_suspicion_score c then ''critical'' else ''medium'')
                   (fb_bridge_id fb) True now (fb_registry fb)\<rparr>)
            (filter dc_is_flagged cs) fb)"

definition receive_cluster :: "string \<Rightarrow> real \<Rightarrow> peer_cluster \<Rightarrow> federation \<Rightarrow> federation" where
  "receive_cluster peer now c fb =
     (case pe_cluster_hash c of
        None \<Rightarrow> fb
      | Some h \<Rightarrow>
          if \<not> is_valid_cluster_hash h then fb
          else if h \<in> set (known_hashes fb peer) then fb
          else
            (let fb1 = add_known peer h fb
             in fb1\<lparr>fb_registry := store_federation_cluster h peer (case pe_device_count c of None \<Rightarrow> 0 | Some n \<Rightarrow> n)
                      (case pe_suspicion_bucket c of None \<Rightarrow> ''medium'' | Some b \<Rightarrow> b)
                      (case pe_bridge_id c of None \<Rightarrow> take 16 peer | Some b \<Rightarrow> b) False now (fb_registry fb1)\<rparr>))"

definition process_peer_clusters :: "string \<Rightarrow> peer_cluster list \<Rightarrow> real \<Rightarrow> federation \<Rightarrow> federation" where
  "process_peer_clusters peer cs now fb =
     (let fb1 = fb\<lparr>fb_known := dput peer (known_hashes fb peer) (fb_known fb)\<rparr>;
          fb2 = fold (receive_cluster peer now) cs fb1
      in fb2\<lparr>fb_escalated := fb_escalated fb2 @ get_cross_confirmed_hashes (fb_registry fb2) 2\<rparr>)"

text \<open>One cycle: what was detected here, what each peer answers.\<close>

definition sync_cycle ::
  "string list \<Rightarrow> device_cluster list res \<Rightarrow> (string \<Rightarrow> peer_cluster list res) \<Rightarrow> real \<Rightarrow> federation \<Rightarrow> federation" where
  "sync_cycle peers detected fetch now fb =
     fold (\<lambda>p fb. case fetch p of Inl e \<Rightarrow> fb | Inr cs \<Rightarrow> process_peer_clusters p cs now fb) peers
       (publish_local_clusters detected now fb)"

text \<open>The start: the registry is kept, everything else is new.\<close>

definition federation_start :: "bool \<Rightarrow> string \<Rightarrow> device_cluster list res \<Rightarrow> real \<Rightarrow> federation \<Rightarrow> federation" where
  "federation_start fails api_key detected now fb =
     publish_local_clusters detected now
       (seed_known_hashes fails (fb\<lparr>fb_bridge_id := compute_bridge_id (if api_key = [] then ''default'' else api_key),
                              fb_known := []\<rparr>))"

subsection \<open>Who has reported a hash\<close>

definition remote_rows :: "fed_row list \<Rightarrow> fed_row list" where
  "remote_rows rows = filter (\<lambda>r. \<not> fr_is_local r) rows"

definition reporters :: "string \<Rightarrow> fed_row list \<Rightarrow> string set" where
  "reporters h rows = fr_peer_url ` set (filter (\<lambda>r. fr_cluster_hash r = h) (remote_rows rows))"

definition report_pairs :: "fed_row list \<Rightarrow> (string \<times> string) list" where
  "report_pairs rows = map (\<lambda>r. (fr_peer_url r, fr_cluster_hash r)) (remote_rows rows)"

lemma confirmed_reporters:
  assumes "distinct (report_pairs rows)" and "h \<in> set (get_cross_confirmed_hashes rows n)"
  shows "n \<le> card (reporters h rows)"
proof -
  let ?rs = "filter (\<lambda>r. fr_cluster_hash r = h) (remote_rows rows)"
  have "distinct (map (\<lambda>r. (fr_peer_url r, fr_cluster_hash r)) ?rs)"
    using distinct_filter [OF assms(1), of "\<lambda>(u, x). x = h"]
    by (simp add: report_pairs_def filter_map comp_def)
  moreover have "map (\<lambda>r. (fr_peer_url r, fr_cluster_hash r)) ?rs = map (\<lambda>u. (u, h)) (map fr_peer_url ?rs)"
    by (auto intro!: map_cong)
  ultimately have "distinct (map fr_peer_url ?rs)" by (metis distinct_map)
  then have "card (reporters h rows) = length ?rs"
    unfolding reporters_def by (metis distinct_card length_map set_map)
  moreover have "length (remdups (map fr_bridge_id ?rs)) \<le> length ?rs"
    by (metis length_map length_remdups_leq)
  moreover have "n \<le> length (remdups (map fr_bridge_id ?rs))"
    using assms(2) by (simp add: get_cross_confirmed_hashes_def Let_def remote_rows_def)
  ultimately show ?thesis by simp
qed

lemma reporters_grow: "set rows \<subseteq> set rows' \<Longrightarrow> card (reporters h rows) \<le> card (reporters h rows')"
  unfolding reporters_def remote_rows_def by (intro card_mono) auto

text \<open>What holds between steps, while the registry is within the limit of the seeding query.\<close>

definition known_pairs :: "federation \<Rightarrow> (string \<times> string) set" where
  "known_pairs fb = {(p, h). h \<in> set (known_hashes fb p)}"

definition registry_ok :: "federation \<Rightarrow> bool" where
  "registry_ok fb \<longleftrightarrow>
     distinct (report_pairs (fb_registry fb)) \<and>
     (\<forall>(p, h)\<in>set (report_pairs (fb_registry fb)). p \<noteq> [] \<and> is_valid_cluster_hash h) \<and>
     (\<forall>h\<in>set (fb_escalated fb). 2 \<le> card (reporters h (fb_registry fb)))"

definition fed_ok :: "federation \<Rightarrow> bool" where
  "fed_ok fb \<longleftrightarrow> registry_ok fb \<and> set (report_pairs (fb_registry fb)) \<subseteq> known_pairs fb"

lemma known_hashes_add [simp]:
  "known_hashes (add_known p h fb) p' = (if p' = p then List.insert h (known_hashes fb p) else known_hashes fb p')"
  by (simp add: add_known_def known_hashes_def dget_or_def)

lemma known_hashes_other [simp]:
  "known_hashes (fb\<lparr>fb_registry := rows\<rparr>) p = known_hashes fb p"
  "known_hashes (fb\<lparr>fb_escalated := es\<rparr>) p = known_hashes fb p"
  "known_hashes (fb\<lparr>fb_known := dput q (known_hashes fb q) (fb_known fb)\<rparr>) p = known_hashes fb p"
  by (simp_all add: known_hashes_def dget_or_def)

lemma known_pairs_simps [simp]:
  "known_pairs (add_known p h fb) = insert (p, h) (known_pairs fb)"
  "known_pairs (fb\<lparr>fb_registry := rows\<rparr>) = known_pairs fb"
  "known_pairs (fb\<lparr>fb_escalated := es\<rparr>) = known_pairs fb"
  "known_pairs (fb\<lparr>fb_known := dput q (known_hashes fb q) (fb_known fb)\<rparr>) = known_pairs fb"
  by (auto simp: known_pairs_def split: if_splits)

lemma add_known_keeps [simp]:
  "fb_registry (add_known p h fb) = fb_registry fb" "fb_escalated (add_known p h fb) = fb_escalated fb"
  by (simp_all add: add_known_def)

lemma pairs_store [simp]:
  "report_pairs (store_federation_cluster h p c b br is_local now rows) =
     report_pairs rows @ (if is_local then [] else [(p, h)])"
  "set rows \<subseteq> set (store_federation_cluster h p c b br is_local now rows)"
  by (auto simp: report_pairs_def remote_rows_def store_federation_cluster_def)

lemma registry_ok_store:
  assumes "registry_ok fb" and "is_local \<or> ((p, h) \<notin> set (report_pairs (fb_registry fb)) \<and> p \<noteq> [] \<and> is_valid_cluster_hash h)"
  shows "registry_ok (fb\<lparr>fb_registry := store_federation_cluster h p c b br is_local now (fb_registry fb)\<rparr>)"
proof -
  let ?rows = "store_federation_cluster h p c b br is_local now (fb_registry fb)"
  have "2 \<le> card (reporters x ?rows)" if "x \<in> set (fb_escalated fb)" for x
    using assms(1) that reporters_grow [OF pairs_store(2), of x "fb_registry fb" h p c b br is_local now]
    unfolding registry_ok_def by (meson order_trans)
  then show ?thesis using assms by (auto simp: registry_ok_def)
qed

lemma publish_ok:
  assumes "fed_ok fb"
  shows "fed_ok (publish_local_clusters detected now fb)"
proof -
  have one: "fed_ok (fb\<lparr>fb_registry := store_federation_cluster h [] n b br True now (fb_registry fb)\<rparr>)"
    if "fed_ok fb" for fb h n b br
    using that by (auto simp: fed_ok_def intro!: registry_ok_store)
  have "fed_ok (fold (\<lambda>c fb. fb\<lparr>fb_registry := store_federation_cluster (f c) [] (g c) (b c) (fb_bridge_id fb) True now
      (fb_registry fb)\<rparr>) cs fb)" for f g b and cs :: "device_cluster list"
    using assms by (induction cs arbitrary: fb) (auto intro: one)
  then show ?thesis by (simp add: publish_local_clusters_def assms split: sum.split)
qed

lemma receive_ok:
  assumes "fed_ok fb" and "p \<noteq> []"
  shows "fed_ok (receive_cluster p now c fb)"
proof (cases "pe_cluster_hash c")
  case None
  then show ?thesis using assms by (simp add: receive_cluster_def)
next
  case (Some h)
  show ?thesis
  proof (cases "is_valid_cluster_hash h \<and> h \<notin> set (known_hashes fb p)")
    case True
    then have new: "(p, h) \<notin> set (report_pairs (fb_registry fb))"
      using assms(1) by (auto simp: fed_ok_def known_pairs_def)
    have "registry_ok (add_known p h fb)" using assms(1) by (simp add: fed_ok_def registry_ok_def)
    from registry_ok_store [OF this, of False p h] new True assms(2)
    have ok: "registry_ok (receive_cluster p now c fb)" by (simp add: receive_cluster_def Some Let_def)
    have "set (report_pairs (fb_registry fb)) \<subseteq> known_pairs fb" using assms(1) by (simp add: fed_ok_def)
    then show ?thesis
      using ok True by (auto simp: fed_ok_def receive_cluster_def Some Let_def)
  next
    case False
    then show ?thesis using assms by (auto simp: receive_cluster_def Some)
  qed
qed

lemma receive_all_ok:
  "\<lbrakk>fed_ok fb; p \<noteq> []\<rbrakk> \<Longrightarrow> fed_ok (fold (receive_cluster p now) cs fb)"
  by (induction cs arbitrary: fb) (auto intro: receive_ok)

lemma process_ok:
  assumes "fed_ok fb" and "p \<noteq> []"
  shows "fed_ok (process_peer_clusters p cs now fb)"
proof -
  let ?fb1 = "fb\<lparr>fb_known := dput p (known_hashes fb p) (fb_known fb)\<rparr>"
  have "fed_ok ?fb1" using assms(1) by (simp add: fed_ok_def registry_ok_def)
  then have ok: "fed_ok (fold (receive_cluster p now) cs ?fb1)" using assms(2) by (rule receive_all_ok)
  then have "2 \<le> card (reporters h (fb_registry (fold (receive_cluster p now) cs ?fb1)))"
    if "h \<in> set (get_cross_confirmed_hashes (fb_registry (fold (receive_cluster p now) cs ?fb1)) 2)" for h
    using that confirmed_reporters by (simp add: fed_ok_def registry_ok_def)
  then show ?thesis
    using ok by (auto simp: process_peer_clusters_def Let_def fed_ok_def registry_ok_def)
qed

lemma sync_ok:
  assumes "fed_ok fb" and "[] \<notin> set peers"
  shows "fed_ok (sync_cycle peers detected fetch now fb)"
proof -
  have "fed_ok (fold (\<lambda>p fb. case fetch p of Inl e \<Rightarrow> fb | Inr cs \<Rightarrow> process_peer_clusters p cs now fb) peers fb)"
    if "fed_ok fb" for fb
    using that assms(2)
  proof (induction peers arbitrary: fb)
    case (Cons p ps)
    have "fed_ok (case fetch p of Inl e \<Rightarrow> fb | Inr cs \<Rightarrow> process_peer_clusters p cs now fb)"
      using Cons.prems by (auto intro!: process_ok split: sum.split)
    then show ?case using Cons by simp
  qed simp
  then show ?thesis using publish_ok [OF assms(1)] by (simp add: sync_cycle_def)
qed

lemma get_peers_nonempty [simp]: "[] \<notin> set (get_peers raw)"
  by (simp add: get_peers_def)

lemma seeded:
  assumes "registry_ok fb" and "length (fb_registry fb) \<le> 10000"
  shows "fed_ok (seed_known_hashes False fb)"
proof -
  let ?rows = "get_federation_clusters (fb_registry fb) 10000 (Some False)"
  let ?step = "\<lambda>r fb. if fr_peer_url r \<noteq> [] \<and> is_valid_cluster_hash (fr_cluster_hash r)
                  then add_known (fr_peer_url r) (fr_cluster_hash r) fb else fb"
  have "length (filter (\<lambda>r. fr_is_local r = False) (fb_registry fb)) \<le> 10000"
    using assms(2) length_filter_le order_trans by blast
  then have rows: "set ?rows = set (remote_rows (fb_registry fb))"
    by (simp add: get_federation_clusters_def sql_limit_def order_desc_def remote_rows_def)
  have known: "fb_registry (fold ?step rows fb) = fb_registry fb \<and> fb_escalated (fold ?step rows fb) = fb_escalated fb \<and>
      known_pairs (fold ?step rows fb) = known_pairs fb \<union>
        {(fr_peer_url r, fr_cluster_hash r) | r. r \<in> set rows \<and> fr_peer_url r \<noteq> [] \<and> is_valid_cluster_hash (fr_cluster_hash r)}"
    for rows fb
    by (induction rows arbitrary: fb) auto
  have "set (report_pairs (fb_registry fb)) \<subseteq> known_pairs (seed_known_hashes False fb)"
    using assms(1) rows known [of ?rows fb]
    by (auto simp: seed_known_hashes_def registry_ok_def report_pairs_def)
  then show ?thesis
    using assms(1) known [of ?rows fb] by (simp add: fed_ok_def seed_known_hashes_def registry_ok_def)
qed

lemma start_ok:
  assumes "registry_ok fb" and "length (fb_registry fb) \<le> 10000"
  shows "fed_ok (federation_start False api_key detected now fb)"
  unfolding federation_start_def by (intro publish_ok seeded) (use assms in \<open>simp_all add: registry_ok_def\<close>)

subsection \<open>Runs\<close>

datatype fed_event =
    FedStart bool "device_cluster list res" real
  | FedSync "device_cluster list res" "string \<Rightarrow> peer_cluster list res" real

fun fed_step :: "string \<Rightarrow> string \<Rightarrow> fed_event \<Rightarrow> federation \<Rightarrow> federation" where
  "fed_step api_key raw (FedStart fails detected now) fb = federation_start fails api_key detected now fb"
| "fed_step api_key raw (FedSync detected fetch now) fb = sync_cycle (get_peers raw) detected fetch now fb"

definition fed_run :: "string \<Rightarrow> string \<Rightarrow> fed_event list \<Rightarrow> federation" where
  "fed_run api_key raw events =
     fold (fed_step api_key raw) events \<lparr>fb_bridge_id = [], fb_known = [], fb_registry = [], fb_escalated = []\<rparr>"

text \<open>Every start has read its table.\<close>

fun seeded_event :: "fed_event \<Rightarrow> bool" where
  "seeded_event (FedStart fails detected now) \<longleftrightarrow> \<not> fails"
| "seeded_event (FedSync detected fetch now) \<longleftrightarrow> True"

lemma fed_run_snoc: "fed_run api_key raw (events @ [e]) = fed_step api_key raw e (fed_run api_key raw events)"
  by (simp add: fed_run_def)

text \<open>Rows are only ever added.\<close>

definition extends :: "federation \<Rightarrow> federation \<Rightarrow> bool" where
  "extends fb fb' \<longleftrightarrow> (\<exists>es. fb_registry fb' = fb_registry fb @ es)"

lemma extends_refl [simp]: "extends fb fb" by (simp add: extends_def)

lemma extends_trans: "extends a b \<Longrightarrow> extends b c \<Longrightarrow> extends a c" by (auto simp: extends_def)

lemma fold_extends:
  assumes "\<And>x fb. extends fb (f x fb)"
  shows "extends fb (fold f xs fb)"
proof (induction xs arbitrary: fb)
  case (Cons x xs)
  show ?case using extends_trans [OF assms [of fb x] Cons.IH] by simp
qed simp

lemma publish_extends: "extends fb (publish_local_clusters detected now fb)"
  unfolding publish_local_clusters_def
  by (auto intro!: fold_extends split: sum.split) (auto simp: extends_def store_federation_cluster_def)

lemma receive_extends: "extends fb (receive_cluster p now c fb)"
  by (auto simp: receive_cluster_def extends_def store_federation_cluster_def Let_def split: option.split)

lemma receive_all_extends: "extends fb (fold (receive_cluster p now) cs fb)"
  by (rule fold_extends) (rule receive_extends)

lemma process_extends: "extends fb (process_peer_clusters p cs now fb)"
  using receive_all_extends [of "fb\<lparr>fb_known := dput p (known_hashes fb p) (fb_known fb)\<rparr>" p now cs]
  by (simp add: process_peer_clusters_def Let_def extends_def)

lemma sync_extends: "extends fb (sync_cycle peers detected fetch now fb)"
  unfolding sync_cycle_def
  by (rule extends_trans [OF publish_extends], rule fold_extends) (simp add: process_extends split: sum.split)

lemma seed_extends: "extends fb (seed_known_hashes fails fb)"
proof (cases fails)
  case False
  then show ?thesis unfolding seed_known_hashes_def if_not_P [OF False] by (intro fold_extends) (simp add: extends_def)
qed (simp add: seed_known_hashes_def)

lemma start_extends: "extends fb (federation_start fails api_key detected now fb)"
  unfolding federation_start_def
  by (rule extends_trans [OF _ publish_extends], rule extends_trans [OF _ seed_extends]) (simp add: extends_def)

lemma step_extends: "extends fb (fed_step api_key raw e fb)"
  by (cases e) (simp_all add: start_extends sync_extends)

lemma run_ok:
  "length (fb_registry (fed_run api_key raw events)) \<le> 10000 \<Longrightarrow> list_all seeded_event events \<Longrightarrow> fed_ok (fed_run api_key raw events)"
proof (induction events rule: rev_induct)
  case Nil
  then show ?case
    by (simp add: fed_run_def fed_ok_def registry_ok_def report_pairs_def remote_rows_def)
next
  case (snoc e events)
  have "length (fb_registry (fed_run api_key raw events)) \<le> length (fb_registry (fed_run api_key raw (events @ [e])))"
    using step_extends [of "fed_run api_key raw events" api_key raw e] by (auto simp: extends_def fed_run_snoc)
  then have len: "length (fb_registry (fed_run api_key raw events)) \<le> 10000" using snoc.prems by simp
  then have "fed_ok (fed_run api_key raw events)" using snoc by simp
  with len show ?case
    using snoc.prems(2) by (cases e) (simp_all add: fed_run_snoc sync_ok start_ok fed_ok_def [of "fed_run api_key raw events"])
qed

text \<open>
  C22: No peer can raise an escalation alone: whatever the peers send and claim, over any starts and
  cycles, an escalated cluster has been reported by at least two of the configured peers, as long as
  every start has read its registry and the registry is within the 10,000 rows a start reads back.
\<close>

theorem escalation_needs_two_peers:
  assumes "length (fb_registry (fed_run api_key raw events)) \<le> 10000" and "list_all seeded_event events"
    and "h \<in> set (fb_escalated (fed_run api_key raw events))"
  shows "2 \<le> card {fr_peer_url r | r. r \<in> set (fb_registry (fed_run api_key raw events)) \<and> \<not> fr_is_local r \<and>
                    fr_cluster_hash r = h}"
proof -
  have "2 \<le> card (reporters h (fb_registry (fed_run api_key raw events)))"
    using run_ok [OF assms(1,2)] assms(3) by (simp add: fed_ok_def registry_ok_def)
  moreover have "reporters h (fb_registry (fed_run api_key raw events)) =
      {fr_peer_url r | r. r \<in> set (fb_registry (fed_run api_key raw events)) \<and> \<not> fr_is_local r \<and> fr_cluster_hash r = h}"
    by (auto simp: reporters_def remote_rows_def)
  ultimately show ?thesis by simp
qed

definition demo_peer_cluster :: "string \<Rightarrow> peer_cluster" where
  "demo_peer_cluster b = \<lparr>pe_cluster_hash = Some ''0123456789abcdef'', pe_bridge_id = Some b, pe_device_count = None,
     pe_suspicion_bucket = None\<rparr>"

definition demo_exchange :: fed_event where
  "demo_exchange = FedSync (Inr []) (\<lambda>p. Inr [demo_peer_cluster p]) 1"

lemma demo_exchange_steps:
  "get_peers ''a,b'' = [''a'', ''b'']" "is_valid_cluster_hash ''0123456789abcdef''"
  by code_simp+

definition demo_confirmed :: federation where
  "demo_confirmed = \<lparr>fb_bridge_id = [],
     fb_known = [(''a'', [''0123456789abcdef'']), (''b'', [''0123456789abcdef''])],
     fb_registry = store_federation_cluster ''0123456789abcdef'' ''b'' 0 ''medium'' ''b'' False 1
       (store_federation_cluster ''0123456789abcdef'' ''a'' 0 ''medium'' ''a'' False 1 []),
     fb_escalated = [''0123456789abcdef'']\<rparr>"

lemma demo_confirmed_hash:
  "get_cross_confirmed_hashes (store_federation_cluster ''0123456789abcdef'' ''a'' 0 ''medium'' ''a'' False 1 []) 2 = []"
  "get_cross_confirmed_hashes (fb_registry demo_confirmed) 2 = [''0123456789abcdef'']"
  by code_simp+

lemma demo_exchange_run: "fed_run [] ''a,b'' [demo_exchange] = demo_confirmed"
  using demo_confirmed_hash
  by (simp add: fed_run_def demo_exchange_def sync_cycle_def demo_exchange_steps publish_local_clusters_def
      process_peer_clusters_def receive_cluster_def demo_peer_cluster_def known_hashes_def add_known_def dget_or_def
      demo_confirmed_def)

lemma demo_confirmed_facts:
  "fb_escalated demo_confirmed = [''0123456789abcdef'']" "length (fb_registry demo_confirmed) = 2"
  by (simp_all add: demo_confirmed_def store_federation_cluster_def)

theorem escalation_needs_two_peers_witness:
  "fb_escalated (fed_run [] ''a,b'' [demo_exchange]) = [''0123456789abcdef''] \<and>
   2 \<le> card {fr_peer_url r | r. r \<in> set (fb_registry (fed_run [] ''a,b'' [demo_exchange])) \<and> \<not> fr_is_local r \<and>
             fr_cluster_hash r = ''0123456789abcdef''}"
  using escalation_needs_two_peers [of "[]" "''a,b''" "[demo_exchange]" "''0123456789abcdef''"] demo_confirmed_facts
  unfolding demo_exchange_run by (simp add: demo_exchange_def)

text \<open>
  A start whose query failed forgets what each peer has sent: a single peer that sends its cluster again
  under another bridge id is counted as two bridges.
\<close>

lemma unseeded_peer_escalates_alone:
  "fb_escalated (fed_run [] ''a'' [FedSync (Inr []) (\<lambda>p. Inr [demo_peer_cluster ''x'']) 1, FedStart True (Inr []) 2,
     FedSync (Inr []) (\<lambda>p. Inr [demo_peer_cluster ''y'']) 3]) = [''0123456789abcdef'']"
proof -
  let ?r1 = "store_federation_cluster ''0123456789abcdef'' ''a'' 0 ''medium'' ''x'' False 1 []"
  have "get_peers ''a'' = [''a'']" "get_cross_confirmed_hashes ?r1 2 = []"
    "get_cross_confirmed_hashes (store_federation_cluster ''0123456789abcdef'' ''a'' 0 ''medium'' ''y'' False 3 ?r1) 2
       = [''0123456789abcdef'']"
    by code_simp+
  then show ?thesis
    by (simp add: fed_run_def sync_cycle_def demo_exchange_steps publish_local_clusters_def federation_start_def
        seed_known_hashes_def process_peer_clusters_def receive_cluster_def demo_peer_cluster_def known_hashes_def
        add_known_def dget_or_def)
qed

subsection \<open>Escalations again and again\<close>

lemma remote_rows_append [simp]: "remote_rows (rows @ es) = remote_rows rows @ remote_rows es"
  by (simp add: remote_rows_def)

lemma confirmed_iff:
  "h \<in> set (get_cross_confirmed_hashes rows n) \<longleftrightarrow>
     h \<in> fr_cluster_hash ` set (remote_rows rows) \<and>
     n \<le> card (fr_bridge_id ` set (filter (\<lambda>r. fr_cluster_hash r = h) (remote_rows rows)))"
  by (auto simp: get_cross_confirmed_hashes_def Let_def remote_rows_def length_remdups_card_conv)

lemma confirmed_grows:
  assumes "h \<in> set (get_cross_confirmed_hashes rows n)"
  shows "h \<in> set (get_cross_confirmed_hashes (rows @ es) n)"
proof -
  let ?bridges = "\<lambda>rs. fr_bridge_id ` set (filter (\<lambda>r. fr_cluster_hash r = h) rs)"
  have "card (?bridges (remote_rows rows)) \<le> card (?bridges (remote_rows rows @ remote_rows es))"
    by (intro card_mono) auto
  then have "n \<le> card (?bridges (remote_rows rows @ remote_rows es))"
    using assms unfolding confirmed_iff by (meson order_trans)
  then show ?thesis using assms unfolding confirmed_iff remote_rows_append by (simp only: set_append image_Un) blast
qed

lemma confirmed_distinct [simp]: "distinct (get_cross_confirmed_hashes rows n)"
  by (simp add: get_cross_confirmed_hashes_def Let_def)

lemma count_one: "\<lbrakk>distinct xs; x \<in> set xs\<rbrakk> \<Longrightarrow> count_list xs x = 1"
  by (induction xs) (auto simp: count_list_0_iff)

lemma receive_all_escalated [simp]:
  "fb_escalated (fold (receive_cluster p now) cs fb) = fb_escalated fb"
proof (induction cs arbitrary: fb)
  case (Cons c cs)
  then show ?case by (simp add: receive_cluster_def Let_def split: option.split)
qed simp

lemma process_escalates:
  assumes "h \<in> set (get_cross_confirmed_hashes (fb_registry fb) 2)"
  shows "count_list (fb_escalated (process_peer_clusters p cs now fb)) h = count_list (fb_escalated fb) h + 1"
proof -
  let ?fb2 = "fold (receive_cluster p now) cs (fb\<lparr>fb_known := dput p (known_hashes fb p) (fb_known fb)\<rparr>)"
  obtain es where "fb_registry ?fb2 = fb_registry fb @ es"
    using receive_all_extends [of "fb\<lparr>fb_known := dput p (known_hashes fb p) (fb_known fb)\<rparr>" p now cs]
    by (auto simp: extends_def)
  then have "h \<in> set (get_cross_confirmed_hashes (fb_registry ?fb2) 2)" using confirmed_grows [OF assms] by simp
  then show ?thesis by (simp add: process_peer_clusters_def Let_def count_one)
qed

text \<open>
  A confirmed cluster is escalated again, with its broadcast and its transaction, by every peer that
  answers in every cycle, whether or not anything new was received: known hashes are skipped when they
  are stored, not when they are escalated.
\<close>

theorem confirmed_clusters_escalate_again:
  assumes "h \<in> set (get_cross_confirmed_hashes (fb_registry fb) 2)"
  shows "count_list (fb_escalated (sync_cycle peers detected fetch now fb)) h =
     count_list (fb_escalated fb) h + length (filter (\<lambda>p. \<not> raised (fetch p)) peers)"
proof -
  let ?step = "\<lambda>p fb. case fetch p of Inl e \<Rightarrow> fb | Inr cs \<Rightarrow> process_peer_clusters p cs now fb"
  have fold: "count_list (fb_escalated (fold ?step peers fb)) h =
      count_list (fb_escalated fb) h + length (filter (\<lambda>p. \<not> raised (fetch p)) peers)"
    if "h \<in> set (get_cross_confirmed_hashes (fb_registry fb) 2)" for fb
    using that
  proof (induction peers arbitrary: fb)
    case (Cons p ps)
    obtain es where "fb_registry (?step p fb) = fb_registry fb @ es"
      using process_extends [of fb p _ now] by (cases "fetch p") (auto simp: extends_def)
    then have "h \<in> set (get_cross_confirmed_hashes (fb_registry (?step p fb)) 2)"
      using confirmed_grows [OF Cons.prems] by simp
    from Cons.IH [OF this] show ?case
      using process_escalates [OF Cons.prems] by (cases "fetch p") (simp_all add: raised_def)
  qed simp
  let ?fb1 = "publish_local_clusters detected now fb"
  obtain es where "fb_registry ?fb1 = fb_registry fb @ es" using publish_extends [of fb detected now] by (auto simp: extends_def)
  then have "h \<in> set (get_cross_confirmed_hashes (fb_registry ?fb1) 2)" using confirmed_grows [OF assms] by simp
  moreover have "fb_escalated (fold (\<lambda>c fb. fb\<lparr>fb_registry := g c fb\<rparr>) cs fb) = fb_escalated fb"
    for g and cs :: "device_cluster list" and fb :: federation
    by (induction cs arbitrary: fb) simp_all
  then have "fb_escalated ?fb1 = fb_escalated fb"
    by (simp add: publish_local_clusters_def split: sum.split)
  ultimately show ?thesis using fold by (simp add: sync_cycle_def)
qed

theorem confirmed_clusters_escalate_again_witness:
  "count_list (fb_escalated (sync_cycle [''a'', ''b''] (Inr []) (\<lambda>p. Inr []) 2 demo_confirmed)) ''0123456789abcdef'' =
     count_list (fb_escalated demo_confirmed) ''0123456789abcdef'' + 2"
  using confirmed_clusters_escalate_again [of "''0123456789abcdef''" demo_confirmed "[''a'', ''b'']" "Inr []" "\<lambda>p. Inr []" 2]
    demo_confirmed_hash by (simp add: raised_def)

end
