(* ===== verification/Swarm.thy ===== *)
theory Swarm
  imports ChainLog Sha256
begin

section \<open>Decisions by several nodes\<close>

text \<open>
  \<open>ioswarm_consensus_aggregator.py\<close>, the three coordinators that use a quorum and the emulated nodes
  they ask. The pseudo-random draws of a node are an argument \<open>rnd seed k\<close> (draw \<open>k\<close> of the generator
  with that seed), as is the text of a float with six digits; ratios are reals.
\<close>

record node_verdict =
  nv_node_id :: string
  nv_verdict :: string
  nv_confidence :: real

subsection \<open>The quorum\<close>

definition GENERAL_QUORUM :: real where "GENERAL_QUORUM = 60 / 100"

definition BLOCK_QUORUM :: real where "BLOCK_QUORUM = 67 / 100"

definition HOLD_ESCALATION_THRESHOLD :: nat where "HOLD_ESCALATION_THRESHOLD = 3"

definition VERDICT_SCORE :: "(string, real) dict" where
  "VERDICT_SCORE = [(''BLOCK'', 1), (''FLAG'', 1 / 2), (''HOLD'', 1 / 2), (''CLEAR'', 0), (''CERTIFY'', 0)]"

text \<open>\<open>Counter\<close>: keys in the order of their first occurrence; the most common one is the first with the
  largest count.\<close>

definition counter :: "string list \<Rightarrow> (string, nat) dict" where
  "counter vs = fold (\<lambda>v d. dput v (dget_or d v 0 + 1) d) vs []"

fun most_common :: "(string, nat) dict \<Rightarrow> (string \<times> nat) option" where
  "most_common [] = None"
| "most_common ((v, n) # d) =
     (case most_common d of None \<Rightarrow> Some (v, n) | Some (w, k) \<Rightarrow> if n < k then Some (w, k) else Some (v, n))"

text \<open>Whether the two most common verdicts share the largest count.\<close>

definition is_tie :: "(string, nat) dict \<Rightarrow> nat \<Rightarrow> bool" where
  "is_tie d m \<longleftrightarrow> 2 \<le> length (filter (\<lambda>(v, n). n = m) d)"

record aggregate_result =
  ag_quorum_verdict :: string
  ag_quorum_reached :: bool
  ag_agreement_ratio :: real
  ag_node_count :: nat
  ag_block_quorum_met :: bool
  ag_swarm_verdict_score :: real
  ag_hold_escalation_flag :: bool
  ag_verdict_distribution :: "(string, nat) dict"

definition empty_result :: aggregate_result where
  "empty_result = \<lparr>ag_quorum_verdict = ''HOLD'', ag_quorum_reached = False, ag_agreement_ratio = 0, ag_node_count = 0,
     ag_block_quorum_met = False, ag_swarm_verdict_score = 1 / 2, ag_hold_escalation_flag = False,
     ag_verdict_distribution = []\<rparr>"

text \<open>The consensus log, newest first, gives the device, the verdict and the score of its rows.\<close>

record consensus_row =
  cl_device_id :: string
  cl_quorum_verdict :: string
  cl_swarm_verdict_score :: real
  cl_created_at :: real

definition get_ioswarm_consensus_log :: "consensus_row list \<Rightarrow> string option \<Rightarrow> int \<Rightarrow> consensus_row list" where
  "get_ioswarm_consensus_log rows device limit =
     sql_limit limit (order_desc cl_created_at
       (case device of None \<Rightarrow> rows | Some d \<Rightarrow> filter (\<lambda>r. cl_device_id r = d) rows))"

definition check_hold_escalation :: "consensus_row list \<Rightarrow> node_verdict list \<Rightarrow> bool" where
  "check_hold_escalation rows nvs =
     (case nvs of
        [] \<Rightarrow> False
      | nv # _ \<Rightarrow>
          if nv_node_id nv = [] then False
          else
            (let rs = get_ioswarm_consensus_log rows (Some (nv_node_id nv)) (int HOLD_ESCALATION_THRESHOLD) in
             if length rs < HOLD_ESCALATION_THRESHOLD then False
             else list_all (\<lambda>r. cl_quorum_verdict r = ''HOLD'') (take HOLD_ESCALATION_THRESHOLD rs)))"

text \<open>\<open>log\<close> is absent when the aggregator has no store.\<close>

definition aggregate :: "consensus_row list option \<Rightarrow> node_verdict list \<Rightarrow> aggregate_result" where
  "aggregate rows nvs =
     (let dist' = counter (map nv_verdict nvs); n = length nvs in
      case most_common dist' of
        None \<Rightarrow> empty_result
      | Some (leader, k) \<Rightarrow>
          (let ratio = real k / real n;
               majority = (if is_tie dist' k then ''HOLD'' else leader);
               met = (majority = ''BLOCK'' \<and> BLOCK_QUORUM \<le> ratio);
               reached = (if majority = ''BLOCK'' then met else GENERAL_QUORUM \<le> ratio);
               verdict = (if majority = ''BLOCK'' then (if met then ''BLOCK'' else ''HOLD'')
                          else if reached then majority else ''HOLD'')
           in \<lparr>ag_quorum_verdict = verdict, ag_quorum_reached = reached, ag_agreement_ratio = py_round 4 ratio,
               ag_node_count = n, ag_block_quorum_met = met,
               ag_swarm_verdict_score = dget_or VERDICT_SCORE verdict (1 / 2),
               ag_hold_escalation_flag =
                 (verdict = ''HOLD'' \<and> (case rows of None \<Rightarrow> False | Some rs \<Rightarrow> check_hold_escalation rs nvs)),
               ag_verdict_distribution = dist'\<rparr>))"

subsection \<open>What a quorum means\<close>

lemma counter_snoc: "counter (vs @ [v]) = dput v (dget_or (counter vs) v 0 + 1) (counter vs)"
  by (simp add: counter_def)

lemma counter_facts:
  "distinct (map fst (counter vs))"
  "dget (counter vs) v = (if v \<in> set vs then Some (count_list vs v) else None)"
proof -
  have "distinct (map fst (counter vs)) \<and>
    (\<forall>v. dget (counter vs) v = (if v \<in> set vs then Some (count_list vs v) else None))"
  proof (induction vs rule: rev_induct)
    case Nil
    then show ?case by (simp add: counter_def)
  next
    case (snoc x vs)
    then show ?case by (auto simp: counter_snoc distinct_update dget_or_def count_list_append)
  qed
  then show "distinct (map fst (counter vs))"
    "dget (counter vs) v = (if v \<in> set vs then Some (count_list vs v) else None)" by blast+
qed

lemma counter_set: "(v, n) \<in> set (counter vs) \<longleftrightarrow> v \<in> set vs \<and> n = count_list vs v"
  using counter_facts(2) [of vs v] map_of_eq_Some_iff [OF counter_facts(1), of vs v n] by (auto split: if_splits)

lemma most_common_Some:
  "most_common d = Some (v, k) \<Longrightarrow> (v, k) \<in> set d \<and> (\<forall>(w, n)\<in>set d. n \<le> k)"
proof (induction d arbitrary: v k)
  case (Cons p d)
  obtain w n where p: "p = (w, n)" by (cases p)
  show ?case
  proof (cases "most_common d")
    case None
    then have "d = []" by (cases d rule: most_common.cases) (auto split: option.splits if_splits)
    then show ?thesis using Cons.prems p by simp
  next
    case (Some q)
    obtain x j where q: "q = (x, j)" by (cases q)
    have "(x, j) \<in> set d" "\<forall>(w, n)\<in>set d. n \<le> j" using Cons.IH Some q by auto
    then show ?thesis using Cons.prems p Some q by (cases "n < j") auto
  qed
qed simp

lemma most_common_None: "most_common d = None \<longleftrightarrow> d = []"
  by (cases d rule: most_common.cases) (auto split: option.splits)

lemma two_counts: "v \<noteq> w \<Longrightarrow> count_list vs v + count_list vs w \<le> length vs"
  by (induction vs) auto

lemma count_list_le: "count_list vs v \<le> length vs"
  by (induction vs) auto

text \<open>A verdict with more than half of the votes leads, alone.\<close>

lemma majority_leads:
  assumes "length vs < 2 * count_list vs v"
  shows "most_common (counter vs) = Some (v, count_list vs v) \<and> \<not> is_tie (counter vs) (count_list vs v)"
proof -
  have lt: "count_list vs w < count_list vs v" if "w \<noteq> v" for w
    using assms two_counts [of v w vs] that by auto
  have v: "v \<in> set vs" using assms by (metis count_list_0_iff mult_0_right not_less_zero)
  then have in_d: "(v, count_list vs v) \<in> set (counter vs)" by (simp add: counter_set)
  then obtain w k where mc: "most_common (counter vs) = Some (w, k)"
    using most_common_None [of "counter vs"] by (cases "most_common (counter vs)") auto
  have "(w, k) \<in> set (counter vs)" "count_list vs v \<le> k" using most_common_Some [OF mc] in_d by auto
  then have wk: "w = v \<and> k = count_list vs v" using lt [of w] by (cases "w = v") (auto simp: counter_set)
  have one: "set (filter (\<lambda>(x, n). n = count_list vs v) (counter vs)) \<subseteq> {(v, count_list vs v)}"
  proof
    fix p
    assume "p \<in> set (filter (\<lambda>(x, n). n = count_list vs v) (counter vs))"
    then obtain x where x: "p = (x, count_list vs v)" "(x, count_list vs v) \<in> set (counter vs)" by auto
    then have "count_list vs x = count_list vs v" by (simp add: counter_set)
    then have "x = v" using lt [of x] by auto
    then show "p \<in> {(v, count_list vs v)}" using x by simp
  qed
  have "distinct (filter (\<lambda>(x, n). n = count_list vs v) (counter vs))"
    using counter_facts(1) [of vs] by (simp add: distinct_map)
  then have "length (filter (\<lambda>(x, n). n = count_list vs v) (counter vs)) \<le> 1"
    using card_mono [OF _ one] by (metis card.empty card_insert_disjoint distinct_card empty_iff finite.emptyI finite.insertI One_nat_def)
  then show ?thesis using mc wk by (simp add: is_tie_def)
qed

lemma aggregate_verdict:
  assumes "v \<noteq> ''HOLD''" and "q = (if v = ''BLOCK'' then 67 else 60)"
  shows "ag_quorum_verdict (aggregate rows nvs) = v \<longleftrightarrow>
     nvs \<noteq> [] \<and> q * length nvs \<le> 100 * count_list (map nv_verdict nvs) v"
proof (cases "nvs = []")
  case True
  then show ?thesis using assms(1) by (simp add: aggregate_def counter_def empty_result_def)
next
  case False
  let ?vs = "map nv_verdict nvs" and ?n = "length nvs"
  have n: "0 < ?n" using False by simp
  have ratio: "67 / 100 \<le> real k / real ?n \<longleftrightarrow> 67 * ?n \<le> 100 * k" "60 / 100 \<le> real k / real ?n \<longleftrightarrow> 60 * ?n \<le> 100 * k" for k
  proof -
    have "67 / 100 \<le> real k / real ?n \<longleftrightarrow> real (67 * ?n) \<le> real (100 * k)"
      "60 / 100 \<le> real k / real ?n \<longleftrightarrow> real (60 * ?n) \<le> real (100 * k)"
      using n by (simp_all add: le_divide_eq field_simps)
    then show "67 / 100 \<le> real k / real ?n \<longleftrightarrow> 67 * ?n \<le> 100 * k" "60 / 100 \<le> real k / real ?n \<longleftrightarrow> 60 * ?n \<le> 100 * k"
      unfolding of_nat_le_iff by blast+
  qed
  obtain leader k where mc: "most_common (counter ?vs) = Some (leader, k)"
  proof -
    have "(nv_verdict (hd nvs), count_list ?vs (nv_verdict (hd nvs))) \<in> set (counter ?vs)"
      using False by (simp add: counter_set)
    then have "counter ?vs \<noteq> []" by auto
    then show ?thesis using that most_common_None [of "counter ?vs"] by (cases "most_common (counter ?vs)") auto
  qed
  have k: "k = count_list ?vs leader" using most_common_Some [OF mc] by (simp add: counter_set)
  let ?majority = "if is_tie (counter ?vs) k then ''HOLD'' else leader"
  have verdict: "ag_quorum_verdict (aggregate rows nvs) =
      (if ?majority = ''BLOCK'' then (if 67 * ?n \<le> 100 * k then ''BLOCK'' else ''HOLD'')
       else if 60 * ?n \<le> 100 * k then ?majority else ''HOLD'')"
    using ratio by (simp add: aggregate_def Let_def mc BLOCK_QUORUM_def GENERAL_QUORUM_def)
  show ?thesis
  proof
    assume "ag_quorum_verdict (aggregate rows nvs) = v"
    then have "v = leader" "q * ?n \<le> 100 * k" using assms unfolding verdict by (auto split: if_splits)
    then show "nvs \<noteq> [] \<and> q * ?n \<le> 100 * count_list ?vs v" using False k by simp
  next
    assume a: "nvs \<noteq> [] \<and> q * ?n \<le> 100 * count_list ?vs v"
    then have "60 * ?n \<le> 100 * count_list ?vs v" using assms(2) by (auto split: if_splits)
    then have "?n < 2 * count_list ?vs v" using n by linarith
    then have "length ?vs < 2 * count_list ?vs v" by simp
    from majority_leads [OF this] have "leader = v" "k = count_list ?vs v" "\<not> is_tie (counter ?vs) k"
      using mc by auto
    then show "ag_quorum_verdict (aggregate rows nvs) = v" 
      using a assms unfolding verdict by (cases "v = ''BLOCK''") auto
  qed
qed


text \<open>
  C29: What the quorum decides: it blocks exactly when there are votes and at least 67 of 100 of them
  block; any other verdict but a hold is reached exactly with 60 of 100 of the votes; so nothing but a
  hold comes of fewer, and the order in which the nodes answer plays no part.
\<close>

theorem quorum_decides:
  "(ag_quorum_verdict (aggregate rows nvs) = ''BLOCK'' \<longleftrightarrow>
      nvs \<noteq> [] \<and> 67 * length nvs \<le> 100 * count_list (map nv_verdict nvs) ''BLOCK'') \<and>
   (if v \<in> {''BLOCK'', ''HOLD''} then True
    else ag_quorum_verdict (aggregate rows nvs) = v \<longleftrightarrow>
      nvs \<noteq> [] \<and> 60 * length nvs \<le> 100 * count_list (map nv_verdict nvs) v)"
  using aggregate_verdict [of "''BLOCK''" 67 rows nvs] aggregate_verdict [of v 60 rows nvs] by auto

subsection \<open>Emulated nodes\<close>

type_synonym generator = "int \<Rightarrow> nat \<Rightarrow> real"

definition hex_value :: "string \<Rightarrow> int" where
  "hex_value s = foldl (\<lambda>n c. 16 * n + (case hexval c of None \<Rightarrow> 0 | Some d \<Rightarrow> int d)) 0 s"

definition node_seed :: "string list \<Rightarrow> int" where
  "node_seed ws = hex_value (hex (sha256 (encode (join_char (CHR '':'') ws)))) mod 2 ^ 31"

definition emulate :: "generator \<Rightarrow> string \<Rightarrow> int \<Rightarrow> nat \<Rightarrow> ((nat \<Rightarrow> real) \<Rightarrow> string \<times> real) \<Rightarrow> node_verdict list" where
  "emulate rnd prefix base n decide =
     map (\<lambda>i. let (v, c) = decide (rnd (base + int i * 997))
              in \<lparr>nv_node_id = prefix @ dec_nat i, nv_verdict = v, nv_confidence = py_round 4 c\<rparr>) [0..<n]"

definition evaluate_classj ::
  "generator \<Rightarrow> (real \<Rightarrow> string) \<Rightarrow> nat \<Rightarrow> int \<Rightarrow> string \<Rightarrow> string \<Rightarrow> real \<Rightarrow> node_verdict list" where
  "evaluate_classj rnd six n seed d sid ev =
     emulate rnd ''ioswarm_emulator_node_'' (node_seed [dec_int seed, d, sid, six ev]) n (\<lambda>r.
       if ev \<le> 3 / 100 then (''BLOCK'', 88 / 100 + r 0 * (10 / 100))
       else if ev \<le> 5 / 100 then ((if 5 / 100 < r 0 then ''BLOCK'' else ''FLAG''), 78 / 100 + r 1 * (12 / 100))
       else if ev \<le> 10 / 100 then ((if 30 / 100 < r 0 then ''BLOCK'' else ''FLAG''), 60 / 100 + r 1 * (18 / 100))
       else if ev \<le> 15 / 100 then ((if 45 / 100 < r 0 then ''FLAG'' else ''BLOCK''), 50 / 100 + r 1 * (20 / 100))
       else (''CLEAR'', 87 / 100 + r 0 * (10 / 100)))"

definition evaluate_triage ::
  "generator \<Rightarrow> nat \<Rightarrow> int \<Rightarrow> string \<Rightarrow> string \<Rightarrow> bool \<Rightarrow> string option \<Rightarrow> node_verdict list" where
  "evaluate_triage rnd n seed d sid escalated patterns' =
     (let patterns = (case patterns' of None \<Rightarrow> [] | Some p \<Rightarrow> p) in
      emulate rnd ''ioswarm_emulator_node_''
        (node_seed [dec_int seed, d, sid, (if escalated then ''1'' else ''0''), patterns]) n (\<lambda>r.
          if \<not> escalated then (''CLEAR'', 88 / 100 + r 0 * (10 / 100))
          else if contains patterns ''ml_bot_cluster'' then (''BLOCK'', 82 / 100 + r 0 * (12 / 100))
          else if contains patterns ''cheat_cluster'' then
            ((if 20 / 100 < r 0 then ''BLOCK'' else ''FLAG''), 70 / 100 + r 1 * (18 / 100))
          else ((if 40 / 100 < r 0 then ''FLAG'' else ''CLEAR''), 52 / 100 + r 1 * (22 / 100))))"

definition evaluate_renewal_nodes ::
  "generator \<Rightarrow> nat \<Rightarrow> int \<Rightarrow> string \<Rightarrow> int \<Rightarrow> int \<Rightarrow> int \<Rightarrow> node_verdict list" where
  "evaluate_renewal_nodes rnd n seed d token clean blocks =
     emulate rnd ''ioswarm_emulator_node_''
       (node_seed [dec_int seed, d, dec_int token, dec_int clean, dec_int blocks]) n (\<lambda>r.
         if 5 \<le> clean \<and> blocks = 0 then (''CERTIFY_RENEW'', 85 / 100 + r 0 * (10 / 100))
         else if 3 \<le> clean \<and> blocks \<le> 1 then (''CERTIFY_RENEW'', 65 / 100 + r 0 * (10 / 100))
         else if 1 \<le> clean \<and> blocks \<le> 2 then
           ((if 40 / 100 < r 0 then ''CERTIFY_RENEW'' else ''SKIP_RENEW''), 50 / 100 + r 1 * (20 / 100))
         else (''SKIP_RENEW'', 80 / 100 + r 0 * (15 / 100)))"

text \<open>Here the seed is the first 64 bits of the digest.\<close>

definition evaluate_vhp_mint ::
  "generator \<Rightarrow> nat \<Rightarrow> int \<Rightarrow> string \<Rightarrow> int \<Rightarrow> int \<Rightarrow> node_verdict list" where
  "evaluate_vhp_mint rnd n seed d clean blocks =
     emulate rnd ''vhp_mint_node_''
       (hex_value (take 16 (hex (sha256 (encode (join_char (CHR '':'') [dec_int seed, d, dec_int clean, dec_int blocks])))))) n (\<lambda>r.
         if 2 \<le> blocks then (''DENY'', 85 / 100 + r 0 * (10 / 100))
         else if 5 \<le> clean \<and> blocks = 0 then (''AUTHORIZE'', 87 / 100 + r 0 * (10 / 100))
         else if 3 \<le> clean \<and> blocks = 0 then
           ((if 20 / 100 < r 0 then ''AUTHORIZE'' else ''DENY''), 70 / 100 + r 1 * (18 / 100))
         else ((if 30 / 100 < r 0 then ''DENY'' else ''AUTHORIZE''), 60 / 100 + r 1 * (18 / 100)))"

subsection \<open>The coordinators\<close>

text \<open>What the nodes answer may be an exception. Each coordinator gives its result and the audit row it
  stores; \<open>fingerprint\<close> is the digest of the JSON text of the verdicts.\<close>

record adjudication =
  aj_classj_verdict :: string
  aj_classj_agreement :: real
  aj_triage_verdict :: string
  aj_triage_agreement :: real
  aj_dual_veto :: bool
  aj_dual_veto_score :: real
  aj_node_count :: nat
  aj_error :: "string option"

definition DUAL_VETO_SCORE :: real where "DUAL_VETO_SCORE = 80 / 100"

definition clear_adjudication :: "py_exc \<Rightarrow> adjudication" where
  "clear_adjudication e = \<lparr>aj_classj_verdict = ''CLEAR'', aj_classj_agreement = 0, aj_triage_verdict = ''CLEAR'',
     aj_triage_agreement = 0, aj_dual_veto = False, aj_dual_veto_score = 0, aj_node_count = 0,
     aj_error = Some (exc_msg e)\<rparr>"

definition evaluate_adjudication :: "node_verdict list res \<Rightarrow> node_verdict list res \<Rightarrow> adjudication" where
  "evaluate_adjudication classj triage =
     (case bindE classj (\<lambda>cn. bindE triage (\<lambda>tn. Inr (cn, tn))) of
        Inl e \<Rightarrow> clear_adjudication e
      | Inr (cn, tn) \<Rightarrow>
          (let cj = aggregate None cn; tr = aggregate None tn;
               veto = (ag_quorum_verdict cj = ''BLOCK'' \<and> ag_quorum_verdict tr = ''BLOCK'')
           in \<lparr>aj_classj_verdict = ag_quorum_verdict cj, aj_classj_agreement = ag_agreement_ratio cj,
               aj_triage_verdict = ag_quorum_verdict tr, aj_triage_agreement = ag_agreement_ratio tr,
               aj_dual_veto = veto, aj_dual_veto_score = (if veto then DUAL_VETO_SCORE else 0),
               aj_node_count = length cn, aj_error = None\<rparr>))"

record mint_row =
  mi_device_id :: string
  mi_authorized :: bool
  mi_quorum_verdict :: string
  mi_agreement_ratio :: real
  mi_node_count :: nat
  mi_fingerprint :: "string option"

definition denied :: "string \<Rightarrow> mint_row" where
  "denied d = \<lparr>mi_device_id = d, mi_authorized = False, mi_quorum_verdict = ''DENY'', mi_agreement_ratio = 0,
     mi_node_count = 0, mi_fingerprint = None\<rparr>"

definition authorize_mint ::
  "(node_verdict list \<Rightarrow> string) \<Rightarrow> real \<Rightarrow> string \<Rightarrow> node_verdict list res \<Rightarrow> mint_row list \<Rightarrow> mint_row \<times> mint_row list" where
  "authorize_mint fingerprint quorum d answer rows =
     (case answer of
        Inl e \<Rightarrow> (denied d, rows)
      | Inr nvs \<Rightarrow>
          if nvs = [] then (denied d, rows)
          else
            (let n = length nvs;
                 yes = length (filter (\<lambda>v. nv_verdict v = ''AUTHORIZE'') nvs);
                 ratio = py_round 4 (real yes / real n);
                 r = \<lparr>mi_device_id = d, mi_authorized = (quorum \<le> ratio),
                      mi_quorum_verdict = (if n - yes < yes then ''AUTHORIZE'' else ''DENY''),
                      mi_agreement_ratio = ratio, mi_node_count = n, mi_fingerprint = Some (fingerprint nvs)\<rparr>
             in (r, rows @ [r])))"

record renewal_row =
  rw_device_id :: string
  rw_token_id :: int
  rw_quorum_verdict :: string
  rw_agreement_ratio :: real
  rw_node_count :: nat
  rw_approved :: bool

definition evaluate_renewal ::
  "(string \<Rightarrow> int \<Rightarrow> int \<Rightarrow> int \<Rightarrow> node_verdict list res) \<Rightarrow> consensus_row list \<Rightarrow> string \<Rightarrow> int \<Rightarrow> int \<Rightarrow> renewal_row list
     \<Rightarrow> renewal_row \<times> renewal_row list" where
  "evaluate_renewal nodes consensus d token clean rows =
     (let blocks = length (filter (\<lambda>r. cl_quorum_verdict r = ''BLOCK'') (get_ioswarm_consensus_log consensus (Some d) 5))
      in case nodes d token clean (int blocks) of
           Inl e \<Rightarrow>
             (\<lparr>rw_device_id = d, rw_token_id = token, rw_quorum_verdict = ''ERROR'', rw_agreement_ratio = 0,
               rw_node_count = 0, rw_approved = True\<rparr>, rows)
         | Inr nvs \<Rightarrow>
             (let ag = aggregate None nvs;
                  r = \<lparr>rw_device_id = d, rw_token_id = token, rw_quorum_verdict = ag_quorum_verdict ag,
                       rw_agreement_ratio = ag_agreement_ratio ag, rw_node_count = ag_node_count ag,
                       rw_approved = (ag_quorum_verdict ag = ''CERTIFY_RENEW'')\<rparr>
              in (r, rows @ [r])))"

subsection \<open>The directions in which they fail\<close>

lemma count_list_filter: "count_list (map nv_verdict nvs) v = length (filter (\<lambda>x. nv_verdict x = v) nvs)"
  by (induction nvs) auto

lemma veto_iff:
  "aj_dual_veto (evaluate_adjudication (Inr cn) (Inr tn)) \<longleftrightarrow>
     cn \<noteq> [] \<and> tn \<noteq> [] \<and> 67 * length cn \<le> 100 * length (filter (\<lambda>x. nv_verdict x = ''BLOCK'') cn) \<and>
     67 * length tn \<le> 100 * length (filter (\<lambda>x. nv_verdict x = ''BLOCK'') tn)"
  using aggregate_verdict [of "''BLOCK''" 67 None cn] aggregate_verdict [of "''BLOCK''" 67 None tn]
  by (auto simp: evaluate_adjudication_def bindE_def Let_def count_list_filter)

text \<open>
  An error of the nodes never bans and never mints, but it renews: the double veto needs two
  complete answers with 67 of 100 blocking votes in each; a mint needs an answer with at least one vote
  whose share of approvals, rounded to four digits, is the quorum; a renewal is refused only by nodes
  that have answered.
\<close>

theorem coordinators_fail_as_documented:
  "(aj_dual_veto (evaluate_adjudication cn tn) \<longleftrightarrow>
      (case (cn, tn) of
         (Inr c, Inr t) \<Rightarrow>
           c \<noteq> [] \<and> t \<noteq> [] \<and> 67 * length c \<le> 100 * length (filter (\<lambda>x. nv_verdict x = ''BLOCK'') c) \<and>
           67 * length t \<le> 100 * length (filter (\<lambda>x. nv_verdict x = ''BLOCK'') t)
       | _ \<Rightarrow> False)) \<and>
   (mi_authorized (fst (authorize_mint fp q d m rows)) \<longleftrightarrow>
      (case m of
         Inr vs \<Rightarrow> vs \<noteq> [] \<and> q \<le> py_round 4 (real (length (filter (\<lambda>x. nv_verdict x = ''AUTHORIZE'') vs)) / real (length vs))
       | Inl e \<Rightarrow> False)) \<and>
   (rw_approved (fst (evaluate_renewal nodes log' d tok n rrows)) \<longleftrightarrow>
      (case nodes d tok n (int (length (filter (\<lambda>r. cl_quorum_verdict r = ''BLOCK'')
              (get_ioswarm_consensus_log log' (Some d) 5)))) of
         Inr vs \<Rightarrow> vs \<noteq> [] \<and> 60 * length vs \<le> 100 * length (filter (\<lambda>x. nv_verdict x = ''CERTIFY_RENEW'') vs)
       | Inl e \<Rightarrow> True))"
proof (intro conjI)
  show "aj_dual_veto (evaluate_adjudication cn tn) \<longleftrightarrow>
      (case (cn, tn) of
         (Inr c, Inr t) \<Rightarrow>
           c \<noteq> [] \<and> t \<noteq> [] \<and> 67 * length c \<le> 100 * length (filter (\<lambda>x. nv_verdict x = ''BLOCK'') c) \<and>
           67 * length t \<le> 100 * length (filter (\<lambda>x. nv_verdict x = ''BLOCK'') t)
       | _ \<Rightarrow> False)"
    by (cases cn; cases tn) (simp_all add: veto_iff, simp_all add: evaluate_adjudication_def bindE_def clear_adjudication_def)
  show "mi_authorized (fst (authorize_mint fp q d m rows)) \<longleftrightarrow>
      (case m of
         Inr vs \<Rightarrow> vs \<noteq> [] \<and> q \<le> py_round 4 (real (length (filter (\<lambda>x. nv_verdict x = ''AUTHORIZE'') vs)) / real (length vs))
       | Inl e \<Rightarrow> False)"
    by (simp add: authorize_mint_def denied_def Let_def split: sum.split)
  show "rw_approved (fst (evaluate_renewal nodes log' d tok n rrows)) \<longleftrightarrow>
      (case nodes d tok n (int (length (filter (\<lambda>r. cl_quorum_verdict r = ''BLOCK'')
              (get_ioswarm_consensus_log log' (Some d) 5)))) of
         Inr vs \<Rightarrow> vs \<noteq> [] \<and> 60 * length vs \<le> 100 * length (filter (\<lambda>x. nv_verdict x = ''CERTIFY_RENEW'') vs)
       | Inl e \<Rightarrow> True)"
    using aggregate_verdict [of "''CERTIFY_RENEW''" 60 None]
    by (simp add: evaluate_renewal_def Let_def count_list_filter split: sum.split)
qed

text \<open>The anchors of the emulated nodes hold for every generator.\<close>

lemma emulate_all:
  assumes "\<And>r. fst (decide r) = v"
  shows "map nv_verdict (emulate rnd prefix base n decide) = replicate n v"
  using assms by (auto simp: emulate_def Let_def case_prod_beta map_replicate_const intro!: nth_equalityI)

lemma all_agree: "map nv_verdict nvs = replicate n v \<Longrightarrow> length (filter (\<lambda>x. nv_verdict x = v) nvs) = length nvs"
proof -
  assume a: "map nv_verdict nvs = replicate n v"
  then have "nv_verdict x = v" if "x \<in> set nvs" for x using that by (metis in_set_replicate image_eqI list.set_map)
  then have "filter (\<lambda>x. nv_verdict x = v) nvs = nvs" by (simp add: filter_id_conv)
  then show ?thesis by simp
qed

lemma low_entropy_and_bot_cluster_veto:
  assumes "0 < n" and "ev \<le> 3 / 100" and "contains p ''ml_bot_cluster''"
  shows "aj_dual_veto (evaluate_adjudication (Inr (evaluate_classj rnd six n seed d sid ev))
            (Inr (evaluate_triage rnd n seed d sid True (Some p))))"
proof -
  have c: "map nv_verdict (evaluate_classj rnd six n seed d sid ev) = replicate n ''BLOCK''"
    unfolding evaluate_classj_def by (rule emulate_all) (simp only: if_P [OF assms(2)] fst_conv)
  have t: "map nv_verdict (evaluate_triage rnd n seed d sid True (Some p)) = replicate n ''BLOCK''"
    unfolding evaluate_triage_def Let_def by (rule emulate_all) (simp add: assms(3))
  have "evaluate_classj rnd six n seed d sid ev \<noteq> []" "evaluate_triage rnd n seed d sid True (Some p) \<noteq> []"
    using c t assms(1) by (metis length_greater_0_conv length_map length_replicate)+
  then show ?thesis using all_agree [OF c] all_agree [OF t] by (simp add: veto_iff)
qed

end
