(* ===== verification/Epistemic.thy ===== *)
theory Epistemic
  imports Swarm
begin

section \<open>The consensus before a block\<close>

text \<open>
  \<open>session_adjudicator.py\<close>: the gate a proposed block passes, with the store queries it makes, and the
  two token buckets that limit reactive rulings. The maturity index may raise and is an argument, as is
  what the coordinator of the nodes finds. The registry of adjudication digests written on the way is
  left out; it does not enter the decision.
\<close>

subsection \<open>What the gate reads\<close>

record class_j_row =
  jr_device_id :: string
  jr_risk_level :: string
  jr_entropy_variance :: real
  jr_assessed_at :: real

definition get_class_j_assessment :: "class_j_row list \<Rightarrow> string \<Rightarrow> class_j_row option" where
  "get_class_j_assessment rows d =
     first_row (order_desc jr_assessed_at (filter (\<lambda>r. jr_device_id r = d) rows))"

record triage_row =
  tr_device_id :: string
  tr_patterns :: "string option"
  tr_escalated :: bool
  tr_assessed_at :: real

text \<open>The newest report of each device, escalated ones first.\<close>

definition get_divergence_triage_report :: "triage_row list \<Rightarrow> int \<Rightarrow> triage_row list" where
  "get_divergence_triage_report rows limit =
     sql_limit limit (sort_key (\<lambda>r. if tr_escalated r then 0 else 1 :: nat) (order_desc tr_assessed_at
       (filter (\<lambda>r. list_all (\<lambda>r'. tr_device_id r' = tr_device_id r \<longrightarrow> tr_assessed_at r' \<le> tr_assessed_at r) rows) rows)))"

record supervisor_row =
  sv_agent_name :: string
  sv_fleet_health :: string
  sv_checked_at :: real

definition get_latest_supervisor_health :: "supervisor_row list \<Rightarrow> supervisor_row list" where
  "get_latest_supervisor_health rows =
     filter (\<lambda>r. list_all (\<lambda>r'. sv_agent_name r' = sv_agent_name r \<longrightarrow> sv_checked_at r' \<le> sv_checked_at r) rows) rows"

text \<open>The gate asks the result for \<open>fleet_health\<close> as if it were one row; a list has no \<open>get\<close>.\<close>

definition fleet_health :: "supervisor_row list \<Rightarrow> string option res" where
  "fleet_health latest =
     (if latest = [] then Inr None else Inl (PyExc ''AttributeError'' ''list object has no attribute get''))"

definition supervisor_score :: "supervisor_row list \<Rightarrow> real" where
  "supervisor_score rows =
     (case fleet_health (get_latest_supervisor_health rows) of
        Inl e \<Rightarrow> 1
      | Inr None \<Rightarrow> 1
      | Inr (Some fh) \<Rightarrow> if fh = ''ALL_HEALTHY'' then 1 else if fh = ''DEGRADED'' then 1 / 2 else 0)"

definition risk_score :: "string \<Rightarrow> real" where
  "risk_score risk = (if risk = ''HIGH'' then 1 else if risk = ''MEDIUM'' then 1 / 2 else 0)"

definition quorum_score :: "string \<Rightarrow> real" where
  "quorum_score v = (if v = ''BLOCK'' then 1 else if v = ''FLAG'' then 1 / 2 else 0)"

subsection \<open>The gate\<close>

record ep_cfg =
  ec_enabled :: bool
  ec_threshold :: real
  ec_recommended :: real
  ec_triage_prereq :: bool
  ec_adjudication :: bool
  ec_ioswarm :: bool

definition default_ep_cfg :: ep_cfg where
  "default_ep_cfg = \<lparr>ec_enabled = True, ec_threshold = 65 / 100, ec_recommended = 65 / 100, ec_triage_prereq = True,
     ec_adjudication = False, ec_ioswarm = False\<rparr>"

record ep_store =
  es_class_j :: "class_j_row list"
  es_triage :: "triage_row list"
  es_supervisor :: "supervisor_row list"
  es_consensus :: "consensus_row list"
  es_pmi :: "int res"

record ep_log_row =
  ep_device_id :: string
  ep_class_j_score :: real
  ep_triage_score :: real
  ep_supervisor_score :: real
  ep_swarm_score :: real
  ep_consensus_score :: real
  ep_threshold :: real
  ep_consensus_reached :: bool
  ep_final_verdict :: string

definition effective_threshold :: "ep_cfg \<Rightarrow> ep_store \<Rightarrow> real" where
  "effective_threshold cfg st =
     (let pmi = (case es_pmi st of Inl e \<Rightarrow> 0 | Inr n \<Rightarrow> n)
      in if 1 \<le> pmi \<and> ec_threshold cfg < ec_recommended cfg then ec_recommended cfg else ec_threshold cfg)"

definition escalated_report :: "ep_store \<Rightarrow> string \<Rightarrow> triage_row option" where
  "escalated_report st d =
     find (\<lambda>r. tr_device_id r = d \<and> tr_escalated r) (get_divergence_triage_report (es_triage st) 50)"

definition swarm_score :: "ep_cfg \<Rightarrow> ep_store \<Rightarrow> string \<Rightarrow> real" where
  "swarm_score cfg st d =
     (if ec_ioswarm cfg
      then (case first_row (get_ioswarm_consensus_log (es_consensus st) (Some d) 1) of
              None \<Rightarrow> 0 | Some r \<Rightarrow> cl_swarm_verdict_score r)
      else 0)"

definition consensus_score :: "bool \<Rightarrow> real \<Rightarrow> real \<Rightarrow> real \<Rightarrow> real \<Rightarrow> real" where
  "consensus_score ioswarm cj tri sv sw =
     (if ioswarm \<and> 0 < sw then 35 / 100 * cj + 35 / 100 * tri + 15 / 100 * sv + 15 / 100 * sw
      else 40 / 100 * cj + 40 / 100 * tri + 20 / 100 * sv)"

text \<open>The scores of the two agents, or of the nodes that stand in for them, and whether both veto.\<close>

definition agent_scores ::
  "ep_cfg \<Rightarrow> (real \<Rightarrow> bool \<Rightarrow> string option \<Rightarrow> adjudication) \<Rightarrow> ep_store \<Rightarrow> string \<Rightarrow> real \<times> real \<times> bool" where
  "agent_scores cfg coordinator st d =
     (let cj = get_class_j_assessment (es_class_j st) d; rep = escalated_report st d in
      if ec_adjudication cfg
      then
        (let aj = coordinator (case cj of None \<Rightarrow> 16 / 100 | Some r \<Rightarrow> jr_entropy_variance r) (rep \<noteq> None)
                    (case rep of None \<Rightarrow> None | Some r \<Rightarrow> tr_patterns r)
         in (quorum_score (aj_classj_verdict aj), quorum_score (aj_triage_verdict aj), aj_dual_veto aj))
      else ((case cj of None \<Rightarrow> 0 | Some r \<Rightarrow> risk_score (jr_risk_level r)), (if rep \<noteq> None then 1 else 0), False))"

definition epistemic_consensus ::
  "ep_cfg \<Rightarrow> (real \<Rightarrow> bool \<Rightarrow> string option \<Rightarrow> adjudication) \<Rightarrow> ep_store \<Rightarrow> string \<Rightarrow> string \<Rightarrow> ep_log_row list
     \<Rightarrow> string \<times> ep_log_row list" where
  "epistemic_consensus cfg coordinator st d proposed log' =
     (if proposed \<noteq> ''BLOCK'' \<or> \<not> ec_enabled cfg then (proposed, log')
      else
        (let (cj, tri, veto) = agent_scores cfg coordinator st d in
         if ec_triage_prereq cfg \<and> tri \<le> 0 then (proposed, log')
         else
           (let sv = supervisor_score (es_supervisor st);
                sw = swarm_score cfg st d;
                s = consensus_score (ec_ioswarm cfg) cj tri sv sw;
                score = (if ec_adjudication cfg \<and> veto then max s DUAL_VETO_SCORE else s);
                reached = (effective_threshold cfg st \<le> score);
                final = (if reached then ''BLOCK'' else ''HOLD'')
            in (final, log' @ [\<lparr>ep_device_id = d, ep_class_j_score = cj, ep_triage_score = tri, ep_supervisor_score = sv,
                               ep_swarm_score = sw, ep_consensus_score = score, ep_threshold = effective_threshold cfg st,
                               ep_consensus_reached = reached, ep_final_verdict = final\<rparr>]))))"

text \<open>The health of the fleet is never taken into account.\<close>

lemma supervisor_score_1 [simp]: "supervisor_score rows = 1"
  by (simp add: supervisor_score_def fleet_health_def)

lemma consensus_BLOCK:
  assumes "ec_enabled cfg" and "\<not> ec_adjudication cfg" and "\<not> ec_ioswarm cfg"
  shows "fst (epistemic_consensus cfg coordinator st d ''BLOCK'' log') =
     (let cj = (case get_class_j_assessment (es_class_j st) d of None \<Rightarrow> 0 | Some r \<Rightarrow> risk_score (jr_risk_level r));
          tri = (if escalated_report st d \<noteq> None then 1 else 0)
      in if ec_triage_prereq cfg \<and> tri \<le> 0 \<or> effective_threshold cfg st \<le> 40 / 100 * cj + 40 / 100 * tri + 20 / 100
         then ''BLOCK'' else ''HOLD'')"
  using assms
  by (simp add: epistemic_consensus_def agent_scores_def consensus_score_def swarm_score_def Let_def)

text \<open>
  With the default settings the gate works against the evidence: a proposed block stands when no
  agent has anything on the device, and is lowered to a hold exactly when the triage agent has escalated
  the device and the risk assessment is low or missing. The health of the fleet plays no part.
\<close>

theorem escalation_weakens_block:
  "fst (epistemic_consensus default_ep_cfg coordinator st d ''BLOCK'' log') =
     (if escalated_report st d \<noteq> None \<and>
         (case get_class_j_assessment (es_class_j st) d of
            None \<Rightarrow> True | Some r \<Rightarrow> jr_risk_level r \<noteq> ''HIGH'' \<and> jr_risk_level r \<noteq> ''MEDIUM'')
      then ''HOLD'' else ''BLOCK'')"
proof -
  have "effective_threshold default_ep_cfg st = 65 / 100"
    by (simp add: effective_threshold_def default_ep_cfg_def)
  then show ?thesis
    by (subst consensus_BLOCK) (auto simp: default_ep_cfg_def risk_score_def Let_def split: option.split)
qed

lemma scores_01: "0 \<le> risk_score v \<and> risk_score v \<le> 1" "0 \<le> quorum_score v \<and> quorum_score v \<le> 1"
  by (simp_all add: risk_score_def quorum_score_def)

text \<open>
  No agent blocks alone: when the vote is taken (the prerequisite off), without the nodes and with a
  threshold above 0.6, a block comes only of a proposed block, a triage escalation and a risk that is at
  least medium.
\<close>

theorem vote_needs_both_agents:
  assumes "ec_enabled cfg" and "\<not> ec_adjudication cfg" and "\<not> ec_ioswarm cfg" and "\<not> ec_triage_prereq cfg"
    and "60 / 100 < ec_threshold cfg"
    and "fst (epistemic_consensus cfg coordinator st d proposed log') = ''BLOCK''"
  shows "proposed = ''BLOCK'' \<and> escalated_report st d \<noteq> None \<and>
     (\<exists>r. get_class_j_assessment (es_class_j st) d = Some r \<and> jr_risk_level r \<in> {''HIGH'', ''MEDIUM''})"
proof -
  have p: "proposed = ''BLOCK''"
    using assms(6) by (auto simp: epistemic_consensus_def split: if_splits)
  have thr: "60 / 100 < effective_threshold cfg st" using assms(5) by (auto simp: effective_threshold_def Let_def)
  let ?cj = "case get_class_j_assessment (es_class_j st) d of None \<Rightarrow> 0 | Some r \<Rightarrow> risk_score (jr_risk_level r)"
  let ?tri = "if escalated_report st d \<noteq> None then 1 else 0 :: real"
  have score: "effective_threshold cfg st \<le> 40 / 100 * ?cj + 40 / 100 * ?tri + 20 / 100"
    using assms(6) assms(4) unfolding p consensus_BLOCK [OF assms(1-3)] Let_def by (simp split: if_splits)
  have cj1: "?cj \<le> 1" using scores_01(1) by (simp split: option.split)
  have "?tri = 1" using score thr cj1 by (auto split: if_splits)
  moreover have "?cj \<noteq> 0" using score thr by (auto split: if_splits)
  ultimately show ?thesis using p by (auto simp: risk_score_def split: option.splits if_splits)
qed

definition demo_ep_store :: ep_store where
  "demo_ep_store = \<lparr>es_class_j = [\<lparr>jr_device_id = ''ab'', jr_risk_level = ''HIGH'', jr_entropy_variance = 0, jr_assessed_at = 1\<rparr>],
     es_triage = [\<lparr>tr_device_id = ''ab'', tr_patterns = None, tr_escalated = True, tr_assessed_at = 1\<rparr>],
     es_supervisor = [], es_consensus = [], es_pmi = Inr 0\<rparr>"

definition demo_ep_cfg :: ep_cfg where
  "demo_ep_cfg = default_ep_cfg\<lparr>ec_triage_prereq := False\<rparr>"

lemma demo_ep_reports:
  "get_class_j_assessment (es_class_j demo_ep_store) ''ab'' = Some (hd (es_class_j demo_ep_store))"
  "escalated_report demo_ep_store ''ab'' = Some (hd (es_triage demo_ep_store))"
  by (simp_all add: get_class_j_assessment_def escalated_report_def get_divergence_triage_report_def demo_ep_store_def
      first_row_def order_desc_def sql_limit_def)

lemma demo_ep_block:
  "fst (epistemic_consensus demo_ep_cfg (\<lambda>ev esc p. clear_adjudication (ValueError [])) demo_ep_store ''ab'' ''BLOCK'' []) = ''BLOCK''"
  by (subst consensus_BLOCK)
    (simp_all add: demo_ep_cfg_def default_ep_cfg_def demo_ep_reports, simp add: demo_ep_store_def risk_score_def effective_threshold_def)

theorem vote_needs_both_agents_witness:
  "fst (epistemic_consensus demo_ep_cfg (\<lambda>ev esc p. clear_adjudication (ValueError [])) demo_ep_store ''ab'' ''BLOCK'' []) = ''BLOCK'' \<and>
   escalated_report demo_ep_store ''ab'' \<noteq> None"
  using vote_needs_both_agents [OF _ _ _ _ _ demo_ep_block] demo_ep_block
  by (simp add: demo_ep_cfg_def default_ep_cfg_def)

subsection \<open>Limits on reactive rulings\<close>

record reactive_bucket =
  rb_max :: nat
  rb_win :: real
  rb_calls :: nat
  rb_window_start :: real

definition reactive_init :: "nat \<Rightarrow> real \<Rightarrow> reactive_bucket" where
  "reactive_init limit win = \<lparr>rb_max = limit, rb_win = win, rb_calls = 0, rb_window_start = 0\<rparr>"

definition reactive_consume :: "real \<Rightarrow> reactive_bucket \<Rightarrow> reactive_bucket \<times> bool" where
  "reactive_consume now b =
     (let b1 = (if rb_win b < now - rb_window_start b then b\<lparr>rb_calls := 0, rb_window_start := now\<rparr> else b)
      in if rb_calls b1 < rb_max b1 then (b1\<lparr>rb_calls := rb_calls b1 + 1\<rparr>, True) else (b1, False))"

fun reactive_granted :: "real list \<Rightarrow> reactive_bucket \<Rightarrow> nat" where
  "reactive_granted [] b = 0"
| "reactive_granted (t # ts) b =
     (let (b1, ok) = reactive_consume t b in (if ok then 1 else 0) + reactive_granted ts b1)"

record triage_bucket =
  tb_max :: nat
  tb_window :: real
  tb_tokens :: nat
  tb_last_reset :: real

definition triage_init :: "nat \<Rightarrow> real \<Rightarrow> real \<Rightarrow> triage_bucket" where
  "triage_init limit win now = \<lparr>tb_max = limit, tb_window = win, tb_tokens = limit, tb_last_reset = now\<rparr>"

definition triage_consume :: "real \<Rightarrow> triage_bucket \<Rightarrow> triage_bucket \<times> bool" where
  "triage_consume now b =
     (let b1 = (if tb_window b \<le> now - tb_last_reset b then b\<lparr>tb_tokens := tb_max b, tb_last_reset := now\<rparr> else b)
      in if 0 < tb_tokens b1 then (b1\<lparr>tb_tokens := tb_tokens b1 - 1\<rparr>, True) else (b1, False))"

definition triage_buckets_maxlen :: nat where "triage_buckets_maxlen = 1000"

text \<open>The bucket of a device; a full table drops its oldest entry for a new one.\<close>

definition get_triage_bucket ::
  "nat \<Rightarrow> real \<Rightarrow> real \<Rightarrow> string \<Rightarrow> (string, triage_bucket) dict \<Rightarrow> (string, triage_bucket) dict" where
  "get_triage_bucket limit win now d bs =
     (case dget bs d of
        Some b \<Rightarrow> bs
      | None \<Rightarrow>
          dput d (triage_init limit win now) (if triage_buckets_maxlen \<le> length bs then tl bs else bs))"

definition triage_event ::
  "nat \<Rightarrow> real \<Rightarrow> real \<Rightarrow> string \<Rightarrow> (string, triage_bucket) dict \<Rightarrow> (string, triage_bucket) dict \<times> bool" where
  "triage_event limit win now d bs =
     (let bs1 = get_triage_bucket limit win now d bs in
      case dget bs1 d of
        None \<Rightarrow> (bs1, False)
      | Some b \<Rightarrow> (let (b1, ok) = triage_consume now b in (dput d b1 bs1, ok)))"

lemma same_window_granted:
  assumes "list_all (\<lambda>t. t - rb_window_start b \<le> rb_win b) ts"
  shows "reactive_granted ts b \<le> rb_max b - rb_calls b"
  using assms
proof (induction ts arbitrary: b)
  case (Cons t ts)
  then have c: "reactive_consume t b = (if rb_calls b < rb_max b then (b\<lparr>rb_calls := rb_calls b + 1\<rparr>, True) else (b, False))"
    by (simp add: reactive_consume_def)
  show ?case
  proof (cases "rb_calls b < rb_max b")
    case True
    have "reactive_granted ts (b\<lparr>rb_calls := rb_calls b + 1\<rparr>) \<le> rb_max b - (rb_calls b + 1)"
      using Cons.IH [of "b\<lparr>rb_calls := rb_calls b + 1\<rparr>"] Cons.prems by simp
    then show ?thesis using True by (simp add: c)
  next
    case False
    then show ?thesis using Cons.IH [of b] Cons.prems by (simp add: c)
  qed
qed simp

lemma one_window_granted:
  assumes "list_all (\<lambda>t. a \<le> t \<and> t \<le> a + rb_win b) ts" and "0 \<le> rb_win b"
  shows "reactive_granted ts b \<le> (rb_max b - rb_calls b) + rb_max b"
  using assms
proof (induction ts arbitrary: b)
  case (Cons t ts)
  show ?case
  proof (cases "rb_win b < t - rb_window_start b")
    case True
    let ?b = "b\<lparr>rb_calls := 0, rb_window_start := t\<rparr>"
    have "reactive_granted (t # ts) b = reactive_granted (t # ts) ?b"
      using True Cons.prems(2) by (simp add: reactive_consume_def)
    also have "\<dots> \<le> rb_max ?b - rb_calls ?b"
    proof (rule same_window_granted)
      have "x \<le> t + rb_win b" if "x \<in> set (t # ts)" for x
      proof -
        have "x \<le> a + rb_win b" "a \<le> t" using Cons.prems(1) that by (auto simp: list_all_iff)
        then show ?thesis by linarith
      qed
      then show "list_all (\<lambda>x. x - rb_window_start ?b \<le> rb_win ?b) (t # ts)"
        by (simp add: list_all_iff algebra_simps)
    qed
    finally show ?thesis by simp
  next
    case False
    show ?thesis
    proof (cases "rb_calls b < rb_max b")
      case True
      have "reactive_granted ts (b\<lparr>rb_calls := rb_calls b + 1\<rparr>) \<le> (rb_max b - (rb_calls b + 1)) + rb_max b"
        using Cons.IH [of "b\<lparr>rb_calls := rb_calls b + 1\<rparr>"] Cons.prems by simp
      then show ?thesis using True False by (simp add: reactive_consume_def)
    next
      case full: False
      then show ?thesis using Cons.IH [of b] Cons.prems False by (simp add: reactive_consume_def)
    qed
  qed
qed simp

text \<open>
  The bucket counts by fixed windows, so in any stretch of time as long as a window it lets through
  at most twice its limit of reactive rulings, whatever came before; the limit itself is not a bound.
\<close>

theorem reactive_rulings_bounded:
  assumes "list_all (\<lambda>t. a \<le> t \<and> t \<le> a + rb_win b) ts" and "0 \<le> rb_win b"
  shows "reactive_granted ts b \<le> 2 * rb_max b"
  using one_window_granted [OF assms] by simp

definition demo_bucket :: reactive_bucket where
  "demo_bucket = \<lparr>rb_max = 2, rb_win = 60, rb_calls = 0, rb_window_start = 40\<rparr>"

theorem reactive_rulings_bounded_witness:
  "reactive_granted [99, 100, 101, 102, 103] demo_bucket = 4 \<and>
   reactive_granted [99, 100, 101, 102, 103] demo_bucket \<le> 2 * 2"
proof
  show "reactive_granted [99, 100, 101, 102, 103] demo_bucket = 4"
    by (simp add: reactive_consume_def demo_bucket_def)
  show "reactive_granted [99, 100, 101, 102, 103] demo_bucket \<le> 2 * 2"
    using reactive_rulings_bounded [of 99 demo_bucket "[99, 100, 101, 102, 103]"] by (simp add: demo_bucket_def)
qed

end
