(* ===== verification/AgentAuth.thy ===== *)
theory AgentAuth
  imports Json Sha256
begin

unbundle bit_operations_syntax

section \<open>Requests of operator agents\<close>

text \<open>
  \<open>oauth_issuer.py\<close>, \<open>hmac_middleware.py\<close> and \<open>agent_auth.py\<close>: tokens, signatures, nonces and the
  dependency that checks all three. A string stands for its bytes, so it is ASCII when all its
  characters are below 128. The token library (PyJWT) is an argument: \<open>enc\<close> signs a payload, \<open>dec\<close> gives
  the subject and the scope claim of a token it accepts at a time, or one of its two kinds of
  exceptions. Each reading of the clock is an argument.
\<close>

subsection \<open>Signatures\<close>

definition xor_pad :: "byte \<Rightarrow> bytes \<Rightarrow> bytes" where
  "xor_pad b key = map (\<lambda>k. k XOR b) (key @ replicate (64 - length key) 0)"

definition hmac_sha256 :: "bytes \<Rightarrow> bytes \<Rightarrow> bytes" where
  "hmac_sha256 key msg =
     (let k = (if 64 < length key then sha256 key else key)
      in sha256 (xor_pad 0x5C k @ sha256 (xor_pad 0x36 k @ msg)))"

definition b64_char :: "nat \<Rightarrow> char" where
  "b64_char n = ''ABCDEFGHIJKLMNOPQRSTUVWXYZabcdefghijklmnopqrstuvwxyz0123456789+/'' ! n"

fun b64encode :: "bytes \<Rightarrow> string" where
  "b64encode [] = []"
| "b64encode [a] = [b64_char (unat a div 4), b64_char (unat a mod 4 * 16), CHR ''='', CHR ''='']"
| "b64encode [a, b] =
     [b64_char (unat a div 4), b64_char (unat a mod 4 * 16 + unat b div 16), b64_char (unat b mod 16 * 4), CHR ''='']"
| "b64encode (a # b # c # r) =
     [b64_char (unat a div 4), b64_char (unat a mod 4 * 16 + unat b div 16),
      b64_char (unat b mod 16 * 4 + unat c div 64), b64_char (unat c mod 64)] @ b64encode r"

definition newline :: char where "newline = CHR 0x0A"

definition compute_canonical_request :: "string \<Rightarrow> string \<Rightarrow> int \<Rightarrow> string \<Rightarrow> bytes \<Rightarrow> string" where
  "compute_canonical_request method path ts nonce body =
     upper method @ newline # path @ newline # dec_int ts @ newline # nonce @ newline # hex (sha256 body)"

definition compute_hmac :: "string \<Rightarrow> string \<Rightarrow> string" where
  "compute_hmac canonical secret = b64encode (hmac_sha256 (encode secret) (encode canonical))"

definition is_ascii :: "string \<Rightarrow> bool" where
  "is_ascii s = list_all (\<lambda>c. (of_char c :: nat) < 128) s"

text \<open>\<open>hmac.compare_digest\<close> takes ASCII text only.\<close>

definition compare_digest :: "string \<Rightarrow> string \<Rightarrow> bool res" where
  "compare_digest a b =
     (if is_ascii a \<and> is_ascii b then Inr (a = b)
      else Inl (TypeError ''comparing strings with non-ASCII characters is not supported''))"

definition verify_hmac :: "string \<Rightarrow> string \<Rightarrow> string \<Rightarrow> unit res" where
  "verify_hmac provided canonical secret =
     bindE (compare_digest (compute_hmac canonical secret) provided) (\<lambda>same.
       guardE same (PyExc ''HmacInvalidSignature'' ''HMAC signature mismatch''))"

definition check_timestamp_freshness :: "int \<Rightarrow> int \<Rightarrow> real \<Rightarrow> unit res" where
  "check_timestamp_freshness ts tolerance now =
     guardE (\<bar>\<lfloor>now\<rfloor> - ts\<bar> \<le> tolerance) (PyExc ''HmacStaleTimestamp'' (dec_int \<bar>\<lfloor>now\<rfloor> - ts\<bar>))"

subsection \<open>Nonces\<close>

record nonce_tracker =
  nt_ttl :: int
  nt_seen :: "(string, int) dict"

definition nonce_tracker_init :: "int \<Rightarrow> nonce_tracker res" where
  "nonce_tracker_init ttl =
     (if ttl \<le> 0 then Inl (ValueError ''ttl_seconds must be positive'') else Inr \<lparr>nt_ttl = ttl, nt_seen = []\<rparr>)"

definition evict_nonces :: "int \<Rightarrow> nonce_tracker \<Rightarrow> nonce_tracker" where
  "evict_nonces now tr = tr\<lparr>nt_seen := filter (\<lambda>(n, ts). \<not> ts < now - nt_ttl tr) (nt_seen tr)\<rparr>"

definition check_and_register :: "string \<Rightarrow> real \<Rightarrow> nonce_tracker \<Rightarrow> nonce_tracker \<times> unit res" where
  "check_and_register nonce now tr =
     (if nonce = [] then (tr, Inl (ValueError ''nonce must be non-empty''))
      else
        (let tr1 = evict_nonces \<lfloor>now\<rfloor> tr in
         if dget (nt_seen tr1) nonce \<noteq> None
         then (tr1, Inl (PyExc ''HmacReplayDetected'' (''nonce already seen: '' @ nonce)))
         else (tr1\<lparr>nt_seen := dput nonce \<lfloor>now\<rfloor> (nt_seen tr1)\<rparr>, Inr ())))"

subsection \<open>Tokens\<close>

record token_payload =
  tp_sub :: string
  tp_iss :: string
  tp_aud :: string
  tp_exp :: int
  tp_iat :: int
  tp_scope :: string

datatype jwt_failure = ExpiredSignature string | InvalidToken string

record token_claims =
  tc_sub :: "string option"
  tc_scope :: "json option"

record oauth_issuer =
  oi_secret :: string
  oi_clients :: "(string, string \<times> string list) dict"
  oi_issuer :: string
  oi_audience :: string
  oi_ttl :: int

definition oauth_issuer_init ::
  "string \<Rightarrow> (string, string \<times> string list) dict \<Rightarrow> string \<Rightarrow> string \<Rightarrow> int \<Rightarrow> oauth_issuer res" where
  "oauth_issuer_init secret clients iss aud ttl =
     bindE (guardE (secret \<noteq> []) (ValueError ''OAuthIssuer requires a non-empty signing secret'')) (\<lambda>_.
     bindE (guardE (60 \<le> ttl \<and> ttl \<le> 300) (ValueError ''ttl_seconds must be in 60..300'')) (\<lambda>_.
       Inr \<lparr>oi_secret = secret, oi_clients = clients, oi_issuer = iss, oi_audience = aud, oi_ttl = ttl\<rparr>))"

text \<open>\<open>s.split()\<close>: the maximal runs without blanks\<close>

fun split_blanks :: "string \<Rightarrow> string list" where
  "split_blanks [] = [[]]"
| "split_blanks (c # s) =
     (if is_blank c then [] # split_blanks s
      else (case split_blanks s of [] \<Rightarrow> [[c]] | w # ws \<Rightarrow> (c # w) # ws))"

definition py_split :: "string \<Rightarrow> string list" where
  "py_split s = filter (\<lambda>w. w \<noteq> []) (split_blanks s)"

definition new_payload :: "oauth_issuer \<Rightarrow> string \<Rightarrow> string list \<Rightarrow> real \<Rightarrow> token_payload" where
  "new_payload oi client scopes now =
     \<lparr>tp_sub = client, tp_iss = oi_issuer oi, tp_aud = oi_audience oi, tp_exp = \<lfloor>now\<rfloor> + oi_ttl oi, tp_iat = \<lfloor>now\<rfloor>,
      tp_scope = join_char (CHR '' '') scopes\<rparr>"

definition issue_token ::
  "(token_payload \<Rightarrow> string \<Rightarrow> string) \<Rightarrow> oauth_issuer \<Rightarrow> real \<Rightarrow> string \<Rightarrow> string \<Rightarrow> string list
     \<Rightarrow> (string \<times> string \<times> int \<times> string) res" where
  "issue_token enc oi now client secret scopes =
     (case dget (oi_clients oi) client of
        None \<Rightarrow> Inl (PyExc ''OAuthClientNotFound'' (''unknown client_id: '' @ client))
      | Some (registered, allowed) \<Rightarrow>
          bindE (compare_digest secret registered) (\<lambda>same.
          bindE (guardE same (PyExc ''OAuthValidationError'' ''client_secret mismatch'')) (\<lambda>_.
          bindE (guardE (scopes \<noteq> []) (PyExc ''OAuthInvalidScope'' ''requested_scopes must be non-empty'')) (\<lambda>_.
          bindE (guardE (set scopes \<subseteq> set allowed) (PyExc ''OAuthInvalidScope'' client)) (\<lambda>_.
            Inr (enc (new_payload oi client scopes now) (oi_secret oi), ''Bearer'', oi_ttl oi, join_char (CHR '' '') scopes))))))"

type_synonym jwt_decoder = "string \<Rightarrow> string \<Rightarrow> string \<Rightarrow> string \<Rightarrow> real \<Rightarrow> jwt_failure + token_claims"

definition granted_scopes :: "json option \<Rightarrow> string list res" where
  "granted_scopes claim =
     (case claim of
        None \<Rightarrow> Inr []
      | Some v \<Rightarrow>
          if \<not> truthy v then Inr []
          else (case v of JStr s \<Rightarrow> Inr (py_split s) | _ \<Rightarrow> Inl (PyExc ''AttributeError'' ''split'')))"

definition validate_token ::
  "jwt_decoder \<Rightarrow> oauth_issuer \<Rightarrow> real \<Rightarrow> string \<Rightarrow> string list \<Rightarrow> (string \<times> string list) res" where
  "validate_token dec oi now token required =
     (case dec token (oi_secret oi) (oi_audience oi) (oi_issuer oi) now of
        Inl (ExpiredSignature m) \<Rightarrow> Inl (PyExc ''OAuthTokenExpired'' m)
      | Inl (InvalidToken m) \<Rightarrow> Inl (PyExc ''OAuthValidationError'' m)
      | Inr claims \<Rightarrow>
          (case tc_sub claims of
             None \<Rightarrow> Inl (PyExc ''OAuthValidationError'' ''token missing sub claim'')
           | Some client \<Rightarrow>
               if client = [] then Inl (PyExc ''OAuthValidationError'' ''token missing sub claim'')
               else
                 bindE (granted_scopes (tc_scope claims)) (\<lambda>granted.
                 bindE (guardE (set required \<subseteq> set granted) (PyExc ''OAuthInvalidScope'' client)) (\<lambda>_.
                   Inr (client, granted)))))"

subsection \<open>The check of a request\<close>

record agent_request =
  rq_authorization :: string
  rq_keyid :: string
  rq_timestamp :: string
  rq_nonce :: string
  rq_signature :: string
  rq_method :: string
  rq_path :: string
  rq_query :: string
  rq_body :: bytes

record agent_identity =
  ai_client_id :: string
  ai_agent_kid :: string
  ai_granted_scopes :: "string list"

definition REQUIRED_SCOPE :: string where "REQUIRED_SCOPE = ''bridge:agent:phases:read''"

definition http_error :: "string \<Rightarrow> string \<Rightarrow> py_exc" where
  "http_error status detail = PyExc ''HTTPException'' (status @ CHR '' '' # detail)"

text \<open>\<open>except\<close> clauses that turn the listed classes into a 401; others pass.\<close>

definition refuse :: "(string \<times> string) list \<Rightarrow> 'a res \<Rightarrow> 'a res" where
  "refuse table m =
     (case m of
        Inr x \<Rightarrow> Inr x
      | Inl e \<Rightarrow> (case map_of table (exc_class e) of
                   None \<Rightarrow> Inl e | Some what \<Rightarrow> Inl (http_error ''401'' (what @ exc_msg e))))"

text \<open>\<open>int(s)\<close> of a text: blanks around it, a sign, groups of digits between single underscores, and
  the interpreter's limit of 4300 digits.\<close>

definition int_text :: "string \<Rightarrow> int option" where
  "int_text t =
     (let s = strip t;
          (neg, s1) = (case s of
              c # r \<Rightarrow> if c = CHR ''-'' then (True, r) else if c = CHR ''+'' then (False, r) else (False, s)
            | [] \<Rightarrow> (False, s));
          groups = split_on (CHR ''_'') s1
      in if list_all (\<lambda>g. g \<noteq> [] \<and> list_all is_digit g) groups \<and> length (concat groups) \<le> 4300
         then Some ((if neg then -1 else 1) * int (digits_val (concat groups)))
         else None)"

definition signed_path :: "agent_request \<Rightarrow> string" where
  "signed_path r = (if rq_query r = [] then rq_path r else rq_path r @ CHR ''?'' # rq_query r)"

definition bearer_token :: "agent_request \<Rightarrow> string res" where
  "bearer_token r =
     bindE (guardE (startswith (rq_authorization r) ''Bearer '') (http_error ''401'' ''missing or malformed Authorization header'')) (\<lambda>_.
       let token = strip (drop 7 (rq_authorization r))
       in if token = [] then Inl (http_error ''401'' ''empty Bearer token'') else Inr token)"

definition signed_by :: "string \<Rightarrow> int \<Rightarrow> agent_request \<Rightarrow> unit res" where
  "signed_by secret ts r =
     refuse [(''HmacInvalidSignature'', ''HMAC signature invalid: '')]
       (verify_hmac (rq_signature r)
          (compute_canonical_request (rq_method r) (signed_path r) ts (rq_nonce r) (rq_body r)) secret)"

text \<open>Steps 0 to 7, with the readings of the clock by the token library and by the freshness check.\<close>

definition check_credentials ::
  "jwt_decoder \<Rightarrow> oauth_issuer option \<Rightarrow> (string, string \<times> string list) dict \<Rightarrow> int \<Rightarrow> real \<Rightarrow> real \<Rightarrow> agent_request
     \<Rightarrow> agent_identity res" where
  "check_credentials dec issuer clients tolerance t0 t1 r =
     (case issuer of
        None \<Rightarrow> Inl (http_error ''503'' ''OAuth not configured'')
      | Some oi \<Rightarrow>
          bindE (bearer_token r) (\<lambda>token.
          bindE (refuse [(''OAuthTokenExpired'', ''token expired: ''), (''OAuthInvalidScope'', ''insufficient scope: ''),
                         (''OAuthValidationError'', ''invalid token: '')]
                   (validate_token dec oi t0 token [REQUIRED_SCOPE])) (\<lambda>(client, granted).
          bindE (guardE ([] \<notin> {rq_keyid r, rq_timestamp r, rq_nonce r, rq_signature r})
                   (http_error ''401'' ''missing HMAC headers'')) (\<lambda>_.
          bindE (guardE (rq_keyid r = client) (http_error ''401'' ''X-Agent-KeyId does not match OAuth token sub claim'')) (\<lambda>_.
          case int_text (rq_timestamp r) of
            None \<Rightarrow> Inl (http_error ''401'' ''X-Timestamp must be integer Unix seconds'')
          | Some ts \<Rightarrow>
              (case dget clients client of
                 None \<Rightarrow> Inl (http_error ''401'' (''client_id not in clients registry: '' @ client))
               | Some (secret, _) \<Rightarrow>
                   bindE (signed_by secret ts r) (\<lambda>_.
                   bindE (refuse [(''HmacStaleTimestamp'', ''stale timestamp: '')]
                            (check_timestamp_freshness ts tolerance t1)) (\<lambda>_.
                     Inr \<lparr>ai_client_id = client, ai_agent_kid = rq_keyid r, ai_granted_scopes = granted\<rparr>))))))))"

text \<open>Step 8 at the time \<open>t2\<close>.\<close>

definition check_agent_token ::
  "jwt_decoder \<Rightarrow> oauth_issuer option \<Rightarrow> (string, string \<times> string list) dict \<Rightarrow> int \<Rightarrow> real \<times> real \<times> real \<Rightarrow> agent_request
     \<Rightarrow> nonce_tracker \<Rightarrow> nonce_tracker \<times> agent_identity res" where
  "check_agent_token dec issuer clients tolerance readings r tr =
     (let (t0, t1, t2) = readings in
      case check_credentials dec issuer clients tolerance t0 t1 r of
        Inl e \<Rightarrow> (tr, Inl e)
      | Inr who \<Rightarrow>
          (let (tr1, m) = check_and_register (rq_nonce r) t2 tr
           in (tr1, bindE (refuse [(''HmacReplayDetected'', ''replay detected: '')] m) (\<lambda>_. Inr who))))"

subsection \<open>What an accepted request has shown\<close>

definition token_names :: "jwt_decoder \<Rightarrow> oauth_issuer \<Rightarrow> real \<Rightarrow> agent_request \<Rightarrow> string \<Rightarrow> string list \<Rightarrow> bool" where
  "token_names dec oi t0 r client granted \<longleftrightarrow>
     startswith (rq_authorization r) ''Bearer '' \<and> strip (drop 7 (rq_authorization r)) \<noteq> [] \<and> client \<noteq> []
     \<and> (\<exists>claims. dec (strip (drop 7 (rq_authorization r))) (oi_secret oi) (oi_audience oi) (oi_issuer oi) t0 = Inr claims
          \<and> tc_sub claims = Some client \<and> granted_scopes (tc_scope claims) = Inr granted)
     \<and> REQUIRED_SCOPE \<in> set granted"

definition signature_valid :: "(string, string \<times> string list) dict \<Rightarrow> string \<Rightarrow> int \<Rightarrow> agent_request \<Rightarrow> bool" where
  "signature_valid clients client ts r \<longleftrightarrow>
     (\<exists>secret scopes. dget clients client = Some (secret, scopes)
        \<and> rq_signature r = compute_hmac
            (compute_canonical_request (rq_method r) (signed_path r) ts (rq_nonce r) (rq_body r)) secret)"

lemma refuse_Inr [simp]: "refuse table m = Inr x \<longleftrightarrow> m = Inr x"
  by (auto simp: refuse_def split: sum.splits option.splits)

lemma validate_token_Inr:
  "validate_token dec oi now token required = Inr (client, granted) \<longleftrightarrow>
     client \<noteq> [] \<and> (\<exists>claims. dec token (oi_secret oi) (oi_audience oi) (oi_issuer oi) now = Inr claims
       \<and> tc_sub claims = Some client \<and> granted_scopes (tc_scope claims) = Inr granted) \<and> set required \<subseteq> set granted"
  by (auto simp: validate_token_def res_iff split: sum.splits jwt_failure.splits option.splits if_splits)

lemma b64_letter:
  assumes "n < 64"
  shows "(of_char (b64_char n) :: nat) < 128"
proof -
  have all: "list_all (\<lambda>c. (of_char c :: nat) < 128)
      ''ABCDEFGHIJKLMNOPQRSTUVWXYZabcdefghijklmnopqrstuvwxyz0123456789+/''"
    by code_simp
  have len: "length ''ABCDEFGHIJKLMNOPQRSTUVWXYZabcdefghijklmnopqrstuvwxyz0123456789+/'' = 64" by code_simp
  show ?thesis using all assms unfolding list_all_length len b64_char_def by blast
qed

lemma mod_le_divisor_pred: "0 < m \<Longrightarrow> Suc k = m \<Longrightarrow> n mod m \<le> k" for n m k :: nat
  using mod_less_divisor [of m n] by linarith

lemma b64_first: "x < 256 \<Longrightarrow> x div 4 < 64" for x :: nat
  by (simp add: less_mult_imp_div_less)

lemma b64_index:
  fixes x y :: nat
  assumes "x < 256" and "y < 256"
  shows "x mod 4 * 16 < 64" and "x mod 16 * 4 < 64" and "x mod 64 < 64"
    and "x mod 4 * 16 + y div 16 < 64" and "x mod 16 * 4 + y div 64 < 64"
proof -
  have "x mod 4 \<le> 3" "x mod 16 \<le> 15" "x mod 64 \<le> 63" "y div 16 < 16" "y div 64 < 4" "x div 4 < 64"
    using assms by (simp_all add: less_mult_imp_div_less mod_le_divisor_pred)
  then show "x mod 4 * 16 < 64" "x mod 16 * 4 < 64" "x mod 64 < 64"
    "x mod 4 * 16 + y div 16 < 64" "x mod 16 * 4 + y div 64 < 64" by linarith+
qed

lemma b64_ascii: "is_ascii (b64encode bs)"
proof -
  show ?thesis
    by (induction bs rule: b64encode.induct) (simp_all add: is_ascii_def b64_letter b64_first b64_index unat_byte_lt)
qed

lemma verify_hmac_Inr: "verify_hmac sig canonical secret = Inr u \<longleftrightarrow> sig = compute_hmac canonical secret"
  by (auto simp: verify_hmac_def compare_digest_def res_iff compute_hmac_def b64_ascii split: if_splits)

lemma option_case_Inr [res_iff]:
  "(case m of None \<Rightarrow> Inl e | Some x \<Rightarrow> f x) = Inr y \<longleftrightarrow> (\<exists>x. m = Some x \<and> f x = Inr y)"
  by (cases m) auto

lemma prod_case_Inr [res_iff]: "(case p of (a, b) \<Rightarrow> f a b) = Inr y \<longleftrightarrow> (\<exists>a b. p = (a, b) \<and> f a b = Inr y)"
  by (cases p) auto

lemma bearer_token_Inr:
  "bearer_token r = Inr tok \<longleftrightarrow>
     startswith (rq_authorization r) ''Bearer '' \<and> tok = strip (drop 7 (rq_authorization r)) \<and> tok \<noteq> []"
  by (auto simp: bearer_token_def res_iff Let_def split: if_splits)

lemma credentials_iff:
  "check_credentials dec (Some oi) clients tolerance t0 t1 r = Inr who \<longleftrightarrow>
     (\<exists>client granted ts. who = \<lparr>ai_client_id = client, ai_agent_kid = client, ai_granted_scopes = granted\<rparr>
        \<and> token_names dec oi t0 r client granted \<and> rq_keyid r = client \<and> [] \<notin> {rq_timestamp r, rq_nonce r, rq_signature r}
        \<and> int_text (rq_timestamp r) = Some ts \<and> signature_valid clients client ts r \<and> \<bar>\<lfloor>t1\<rfloor> - ts\<bar> \<le> tolerance)"
  (is "?accepted \<longleftrightarrow> ?shown")
proof
  assume ?accepted
  then show ?shown
    unfolding check_credentials_def option.case
    by (elim exE conjE bindE_Inr [THEN iffD1, elim_format] option_case_Inr [THEN iffD1, elim_format]
        prod_case_Inr [THEN iffD1, elim_format])
      (simp add: res_iff bearer_token_Inr validate_token_Inr signed_by_def verify_hmac_Inr check_timestamp_freshness_def
      token_names_def signature_valid_def, blast)
next
  assume ?shown
  then obtain client granted ts where
    "who = \<lparr>ai_client_id = client, ai_agent_kid = client, ai_granted_scopes = granted\<rparr>"
    "token_names dec oi t0 r client granted" "rq_keyid r = client" "[] \<notin> {rq_timestamp r, rq_nonce r, rq_signature r}"
    "int_text (rq_timestamp r) = Some ts" "signature_valid clients client ts r" "\<bar>\<lfloor>t1\<rfloor> - ts\<bar> \<le> tolerance"
    by blast
  moreover obtain token where "bearer_token r = Inr token"
    using calculation(2) by (auto simp: token_names_def bearer_token_Inr)
  moreover have "validate_token dec oi t0 token [REQUIRED_SCOPE] = Inr (client, granted)"
    using calculation by (auto simp: validate_token_Inr token_names_def bearer_token_Inr)
  moreover obtain secret scopes where "dget clients client = Some (secret, scopes)" "signed_by secret ts r = Inr ()"
    using calculation(6) by (auto simp: signature_valid_def signed_by_def verify_hmac_Inr)
  moreover have "client \<noteq> []" using calculation(2) by (simp add: token_names_def)
  ultimately show ?accepted
    by (simp add: check_credentials_def refuse_def guardE_def check_timestamp_freshness_def)
qed

lemma registered_iff:
  "snd (check_and_register n now tr) = Inr () \<longleftrightarrow>
     n \<noteq> [] \<and> (\<forall>(m, seen) \<in> set (nt_seen tr). m = n \<longrightarrow> seen < \<lfloor>now\<rfloor> - nt_ttl tr)"
  by (auto simp: check_and_register_def Let_def evict_nonces_def map_of_eq_None_iff image_iff split: if_splits)

lemma accepted_iff:
  "snd (check_agent_token dec issuer clients tolerance (t0, t1, t2) r tr) = Inr who \<longleftrightarrow>
     check_credentials dec issuer clients tolerance t0 t1 r = Inr who \<and> snd (check_and_register (rq_nonce r) t2 tr) = Inr ()"
  by (cases "check_credentials dec issuer clients tolerance t0 t1 r";
      cases "check_and_register (rq_nonce r) t2 tr") (auto simp: check_agent_token_def res_iff)

text \<open>
  C16: A request is accepted exactly when its token, valid at that time for the required scope, names the
  client of the key id header, its signature is that client's over method, path with query, timestamp,
  nonce and body, the timestamp is within the tolerance, and the nonce has not been seen in the window.
\<close>

theorem accepted_iff_shown:
  "snd (check_agent_token dec (Some oi) clients tolerance (t0, t1, t2) r tr) = Inr who \<longleftrightarrow>
     (\<exists>client granted ts. who = \<lparr>ai_client_id = client, ai_agent_kid = client, ai_granted_scopes = granted\<rparr>
        \<and> token_names dec oi t0 r client granted \<and> rq_keyid r = client \<and> [] \<notin> {rq_timestamp r, rq_nonce r, rq_signature r}
        \<and> int_text (rq_timestamp r) = Some ts \<and> signature_valid clients client ts r \<and> \<bar>\<lfloor>t1\<rfloor> - ts\<bar> \<le> tolerance)
     \<and> (\<forall>(n, seen) \<in> set (nt_seen tr). n = rq_nonce r \<longrightarrow> seen < \<lfloor>t2\<rfloor> - nt_ttl tr)"
  unfolding accepted_iff credentials_iff registered_iff by auto

subsection \<open>No request is accepted twice\<close>

text \<open>Requests with the readings of the clock, the last two of which matter here.\<close>

type_synonym timed_request = "(real \<times> real \<times> real) \<times> agent_request"

definition auth_step ::
  "jwt_decoder \<Rightarrow> oauth_issuer option \<Rightarrow> (string, string \<times> string list) dict \<Rightarrow> int \<Rightarrow> timed_request \<Rightarrow> nonce_tracker
     \<Rightarrow> nonce_tracker" where
  "auth_step dec issuer clients tolerance q tr = fst (check_agent_token dec issuer clients tolerance (fst q) (snd q) tr)"

definition auth_run ::
  "jwt_decoder \<Rightarrow> oauth_issuer option \<Rightarrow> (string, string \<times> string list) dict \<Rightarrow> int \<Rightarrow> timed_request list \<Rightarrow> nonce_tracker
     \<Rightarrow> nonce_tracker" where
  "auth_run dec issuer clients tolerance = fold (auth_step dec issuer clients tolerance)"

definition clock_runs :: "timed_request list \<Rightarrow> bool" where
  "clock_runs qs \<longleftrightarrow> sorted (concat (map (\<lambda>((t0, t1, t2), r). [t1, t2]) qs))"

lemma refused_keeps:
  assumes "\<nexists>who. check_credentials dec issuer clients tolerance t0 t1 r = Inr who"
  shows "fst (check_agent_token dec issuer clients tolerance (t0, t1, t2) r tr) = tr"
  using assms by (cases "check_credentials dec issuer clients tolerance t0 t1 r") (auto simp: check_agent_token_def)

lemma step_ttl [simp]: "nt_ttl (auth_step dec issuer clients tolerance q tr) = nt_ttl tr"
  by (cases q; cases "fst q")
    (auto simp: auth_step_def check_agent_token_def check_and_register_def evict_nonces_def Let_def split: sum.split prod.split)

lemma run_ttl [simp]: "nt_ttl (auth_run dec issuer clients tolerance qs tr) = nt_ttl tr"
  unfolding auth_run_def by (induction qs arbitrary: tr) simp_all

text \<open>A nonce stays known for the lifetime of its entry.\<close>

lemma step_remembers:
  assumes "(n, s) \<in> set (nt_seen tr)" and "q = ((t0, t1, t2), r)" and "\<lfloor>t2\<rfloor> - nt_ttl tr \<le> s"
  shows "(n, s) \<in> set (nt_seen (auth_step dec issuer clients tolerance q tr))"
proof -
  have kept: "(n, s) \<in> set (nt_seen (evict_nonces \<lfloor>t2\<rfloor> tr))"
    using assms(1,3) by (auto simp: evict_nonces_def)
  have put: "(n, s) \<in> set (dput m v d)" if "(n, s) \<in> set d" "dget d m = None" for m v d
    using that
  proof (induction d)
    case (Cons kv d)
    then show ?case by (cases kv) (auto split: if_splits)
  qed simp
  have "(n, s) \<in> set (nt_seen (fst (check_and_register (rq_nonce r) t2 tr)))"
    using kept put assms(1) by (auto simp: check_and_register_def Let_def)
  then show ?thesis
    using assms(1,2) by (auto simp: auth_step_def check_agent_token_def split: sum.split prod.split)
qed

lemma run_remembers:
  assumes "(n, s) \<in> set (nt_seen tr)"
    and "\<forall>((t0, t1, t2), r) \<in> set qs. \<lfloor>t2\<rfloor> - nt_ttl tr \<le> s"
  shows "(n, s) \<in> set (nt_seen (auth_run dec issuer clients tolerance qs tr))"
  using assms
proof (induction qs arbitrary: tr)
  case Nil
  then show ?case by (simp add: auth_run_def)
next
  case (Cons q qs)
  obtain t0 t1 t2 r where q: "q = ((t0, t1, t2), r)" by (cases q, cases "fst q") auto
  have "(n, s) \<in> set (nt_seen (auth_step dec issuer clients tolerance q tr))"
    using Cons.prems q by (intro step_remembers [OF _ q]) auto
  then show ?case using Cons.IH Cons.prems(2) by (simp add: auth_run_def)
qed

lemma accepted_is_remembered:
  assumes "snd (check_agent_token dec issuer clients tolerance (t0, t1, t2) r tr) = Inr who"
  shows "(rq_nonce r, \<lfloor>t2\<rfloor>) \<in> set (nt_seen (auth_step dec issuer clients tolerance ((t0, t1, t2), r) tr))"
proof -
  have put: "(m, v) \<in> set (dput m v d)" for m v and d :: "(string, int) dict" by (induction d) auto
  have "check_credentials dec issuer clients tolerance t0 t1 r = Inr who"
    "snd (check_and_register (rq_nonce r) t2 tr) = Inr ()"
    using assms by (simp_all add: accepted_iff)
  then show ?thesis
    using put by (auto simp: auth_step_def check_agent_token_def check_and_register_def Let_def split: if_splits)
qed

lemma credentials_fresh:
  assumes "check_credentials dec issuer clients tolerance t0 t1 r = Inr who"
  shows "\<exists>ts. int_text (rq_timestamp r) = Some ts \<and> \<bar>\<lfloor>t1\<rfloor> - ts\<bar> \<le> tolerance"
proof (cases issuer)
  case None
  then show ?thesis using assms by (simp add: check_credentials_def)
next
  case (Some oi)
  then show ?thesis using assms credentials_iff by blast
qed

lemma replay_not_accepted:
  assumes clock: "clock_runs (xs @ ((s0, s1, s2), r) # ys @ [((t0, t1, t2), r')])"
    and window: "2 * tolerance \<le> nt_ttl tr"
    and first: "snd (check_agent_token dec issuer clients tolerance (s0, s1, s2) r (auth_run dec issuer clients tolerance xs tr)) = Inr who"
    and same: "rq_nonce r' = rq_nonce r" "int_text (rq_timestamp r') = int_text (rq_timestamp r)"
    and second: "\<lfloor>t2\<rfloor> = \<lfloor>t1\<rfloor>"
  shows "snd (check_agent_token dec issuer clients tolerance (t0, t1, t2) r'
      (auth_run dec issuer clients tolerance (xs @ ((s0, s1, s2), r) # ys) tr)) \<noteq> Inr who'"
proof
  let ?run = "auth_run dec issuer clients tolerance"
  assume "snd (check_agent_token dec issuer clients tolerance (t0, t1, t2) r' (?run (xs @ ((s0, s1, s2), r) # ys) tr)) = Inr who'"
  then have cred: "check_credentials dec issuer clients tolerance t0 t1 r' = Inr who'"
    and reg: "snd (check_and_register (rq_nonce r') t2 (?run (xs @ ((s0, s1, s2), r) # ys) tr)) = Inr ()"
    by (simp_all add: accepted_iff)
  have first_cred: "check_credentials dec issuer clients tolerance s0 s1 r = Inr who"
    using first by (simp add: accepted_iff)
  have order: "s1 \<le> s2" "\<forall>((u0, u1, u2), q) \<in> set ys. u2 \<le> t1"
    using clock by (auto simp: clock_runs_def sorted_append)
  have "\<lfloor>t1\<rfloor> \<le> \<lfloor>s1\<rfloor> + 2 * tolerance"
    using credentials_fresh [OF cred] credentials_fresh [OF first_cred] same(2) by force
  then have late: "\<lfloor>t1\<rfloor> - nt_ttl tr \<le> \<lfloor>s2\<rfloor>"
    using window floor_mono [OF order(1)] by linarith
  let ?tr1 = "auth_step dec issuer clients tolerance ((s0, s1, s2), r) (?run xs tr)"
  have "(rq_nonce r, \<lfloor>s2\<rfloor>) \<in> set (nt_seen (?run ys ?tr1))"
  proof (rule run_remembers [OF accepted_is_remembered [OF first]])
    show "\<forall>((u0, u1, u2), q) \<in> set ys. \<lfloor>u2\<rfloor> - nt_ttl ?tr1 \<le> \<lfloor>s2\<rfloor>"
      using order(2) late floor_mono by fastforce
  qed
  moreover have "?run (xs @ ((s0, s1, s2), r) # ys) tr = ?run ys ?tr1" by (simp add: auth_run_def)
  ultimately show False
    using reg late second same(1) by (auto simp: registered_iff)
qed

text \<open>
  C15: No request is accepted twice: once a request has been accepted, no later one with the same nonce and
  timestamp is, whatever came between, as long as the clock does not go back, the lifetime of a nonce is
  at least twice the tolerance, and the second is checked for freshness and for its nonce within one
  second of the clock.
\<close>

theorem no_request_accepted_twice:
  assumes "clock_runs (xs @ ((s0, s1, s2), r) # ys @ [((t0, t1, t2), r')])"
    and "2 * tolerance \<le> nt_ttl tr"
    and "snd (check_agent_token dec issuer clients tolerance (s0, s1, s2) r (auth_run dec issuer clients tolerance xs tr)) = Inr who"
    and "rq_nonce r' = rq_nonce r" and "int_text (rq_timestamp r') = int_text (rq_timestamp r)"
    and "\<lfloor>t2\<rfloor> = \<lfloor>t1\<rfloor>"
  shows "snd (check_agent_token dec issuer clients tolerance (t0, t1, t2) r'
      (auth_run dec issuer clients tolerance (xs @ ((s0, s1, s2), r) # ys) tr)) \<noteq> Inr who'"
  by (rule replay_not_accepted [OF assms])

definition demo_issuer :: oauth_issuer where
  "demo_issuer = \<lparr>oi_secret = ''s'', oi_clients = [(''sentry'', (''key'', [REQUIRED_SCOPE]))], oi_issuer = ''i'',
     oi_audience = ''a'', oi_ttl = 300\<rparr>"

definition demo_decoder :: jwt_decoder where
  "demo_decoder token secret aud iss now = Inr \<lparr>tc_sub = Some ''sentry'', tc_scope = Some (JStr REQUIRED_SCOPE)\<rparr>"

text \<open>A request of the client, correctly signed, with a timestamp 300 seconds after its first arrival.\<close>

definition unsigned_request :: agent_request where
  "unsigned_request = \<lparr>rq_authorization = ''Bearer t'', rq_keyid = ''sentry'', rq_timestamp = ''1300'', rq_nonce = ''n'',
     rq_signature = [], rq_method = ''GET'', rq_path = ''/agent/commit'', rq_query = [], rq_body = []\<rparr>"

definition demo_request :: agent_request where
  "demo_request = unsigned_request\<lparr>rq_signature :=
     compute_hmac (compute_canonical_request ''GET'' ''/agent/commit'' 1300 ''n'' []) ''key''\<rparr>"

definition demo_tracker :: nonce_tracker where
  "demo_tracker = \<lparr>nt_ttl = 600, nt_seen = []\<rparr>"

abbreviation "demo_check \<equiv> check_agent_token demo_decoder (Some demo_issuer) (oi_clients demo_issuer) 300"

lemma compute_hmac_nonempty: "compute_hmac canonical secret \<noteq> []"
proof -
  have "b64encode bs \<noteq> []" if "bs \<noteq> []" for bs using that by (cases bs rule: b64encode.cases) auto
  moreover have "hmac_sha256 k m \<noteq> []" for k m
    using length_sha256 by (metis hmac_sha256_def list.size(3) zero_neq_numeral)
  ultimately show ?thesis by (simp add: compute_hmac_def)
qed

lemma demo_claims:
  "int_text ''1300'' = Some 1300" "startswith ''Bearer t'' ''Bearer ''" "strip (drop 7 ''Bearer t'') = ''t''"
  "py_split REQUIRED_SCOPE = [REQUIRED_SCOPE]"
  by code_simp+

lemma demo_credentials:
  assumes "\<bar>\<lfloor>t1\<rfloor> - 1300\<bar> \<le> 300"
  shows "check_credentials demo_decoder (Some demo_issuer) (oi_clients demo_issuer) 300 t0 t1 demo_request =
    Inr \<lparr>ai_client_id = ''sentry'', ai_agent_kid = ''sentry'', ai_granted_scopes = [REQUIRED_SCOPE]\<rparr>"
  unfolding credentials_iff
  using assms compute_hmac_nonempty [symmetric] demo_claims
  by (auto simp: token_names_def signature_valid_def demo_request_def unsigned_request_def demo_decoder_def demo_issuer_def
      granted_scopes_def signed_path_def REQUIRED_SCOPE_def)

lemma demo_accepted:
  "demo_check (0, 1000, 1000) demo_request demo_tracker =
     (demo_tracker\<lparr>nt_seen := [(''n'', 1000)]\<rparr>,
      Inr \<lparr>ai_client_id = ''sentry'', ai_agent_kid = ''sentry'', ai_granted_scopes = [REQUIRED_SCOPE]\<rparr>)"
  using demo_credentials [of 1000 0]
  by (simp add: check_agent_token_def check_and_register_def evict_nonces_def demo_tracker_def demo_request_def
      unsigned_request_def refuse_def)

theorem accepted_iff_shown_witness:
  "\<exists>ts. int_text (rq_timestamp demo_request) = Some ts \<and> signature_valid (oi_clients demo_issuer) ''sentry'' ts demo_request"
  using accepted_iff_shown [of demo_decoder demo_issuer "oi_clients demo_issuer" 300 0 1000 1000 demo_request demo_tracker
      "\<lparr>ai_client_id = ''sentry'', ai_agent_kid = ''sentry'', ai_granted_scopes = [REQUIRED_SCOPE]\<rparr>"] demo_accepted
  by auto

theorem no_request_accepted_twice_witness:
  "\<forall>who. snd (demo_check (0, 1600, 1600) demo_request
      (auth_run demo_decoder (Some demo_issuer) (oi_clients demo_issuer) 300 [((0, 1000, 1000), demo_request)] demo_tracker)) \<noteq> Inr who"
  using no_request_accepted_twice [of "[]" 0 1000 1000 demo_request "[]" 0 1600 1600 demo_request 300 demo_tracker
      demo_decoder "Some demo_issuer" "oi_clients demo_issuer"] demo_accepted
  by (simp add: clock_runs_def demo_tracker_def auth_run_def)

text \<open>When the second check straddles a second, the entry may just have been evicted.\<close>

lemma replay_in_next_second:
  "snd (demo_check (0, 1600 + 9 / 10, 1601) demo_request (fst (demo_check (0, 1000, 1000) demo_request demo_tracker))) =
     Inr \<lparr>ai_client_id = ''sentry'', ai_agent_kid = ''sentry'', ai_granted_scopes = [REQUIRED_SCOPE]\<rparr>"
proof -
  have "\<lfloor>1600 + 9 / 10 :: real\<rfloor> = 1600" by (simp add: floor_eq_iff)
  then show ?thesis
    unfolding demo_accepted using demo_credentials [of "1600 + 9 / 10" 0]
    by (simp add: accepted_iff registered_iff demo_tracker_def demo_request_def unsigned_request_def)
qed

subsection \<open>What a signature covers\<close>

lemma split_at_first:
  assumes "xs @ c # ys = xs' @ c # ys'" and "c \<notin> set xs" and "c \<notin> set xs'"
  shows "xs = xs' \<and> ys = ys'"
proof -
  have "takeWhile (\<lambda>x. x \<noteq> c) (zs @ c # r) = zs" if "c \<notin> set zs" for zs r
    using that by (induction zs) auto
  then have "xs = xs'" using assms by metis
  then show ?thesis using assms(1) by simp
qed

lemma split_at_last:
  assumes "xs @ c # ys = xs' @ c # ys'" and "c \<notin> set ys" and "c \<notin> set ys'"
  shows "xs = xs' \<and> ys = ys'"
proof -
  have "rev ys @ c # rev xs = rev ys' @ c # rev xs'" using arg_cong [OF assms(1), of rev] by simp
  then have "rev ys = rev ys' \<and> rev xs = rev xs'" by (rule split_at_first) (use assms(2,3) in simp_all)
  then show ?thesis by simp
qed

text \<open>
  A signature covers the whole request: two requests whose methods and nonces have no line breaks and
  whose canonical texts agree have the same method (up to case), path, timestamp, nonce and body, or
  their bodies are a collision of SHA-256; line breaks in the path do not help.
\<close>

theorem canonical_request_binds:
  assumes "compute_canonical_request m p ts n b = compute_canonical_request m' p' ts' n' b'"
    and "newline \<notin> set m \<union> set m' \<union> set n \<union> set n'"
  shows "upper m = upper m' \<and> p = p' \<and> ts = ts' \<and> n = n' \<and> (b = b' \<or> sha256_collision b b')"
proof -
  have fixed: "upper_char c = newline \<longleftrightarrow> c = newline" for c
    by (cases c) (auto simp: upper_char_def newline_def Let_def char_of_eq_iff)
  have up: "newline \<notin> set (upper m)" "newline \<notin> set (upper m')" using assms(2) fixed [THEN iffD1, OF sym] by (auto simp: upper_def)
  have hexs: "newline \<notin> set (hex bs)" for bs
  proof -
    have "hexdigit d \<noteq> newline" if "d < 16" for d
      using hexdigit_not_space [OF that] by (auto simp: newline_def is_space_def)
    then show ?thesis using hex_chars [of newline bs] by metis
  qed
  have decs: "newline \<notin> set (dec_int i)" for i
    using dec_int_chars [of i] by (auto simp: newline_def is_digit_def)
  have len: "length (hex (sha256 x)) = 64" for x by simp
  have eq: "upper m @ newline # (p @ newline # dec_int ts @ newline # n @ newline # hex (sha256 b)) =
      upper m' @ newline # (p' @ newline # dec_int ts' @ newline # n' @ newline # hex (sha256 b'))"
    using assms(1) by (simp add: compute_canonical_request_def)
  have first: "upper m = upper m'"
    "p @ newline # dec_int ts @ newline # n @ newline # hex (sha256 b) =
     p' @ newline # dec_int ts' @ newline # n' @ newline # hex (sha256 b')"
    using split_at_first [OF eq up] by auto
  have body: "(p @ newline # dec_int ts @ newline # n) @ newline # hex (sha256 b) =
      (p' @ newline # dec_int ts' @ newline # n') @ newline # hex (sha256 b')" using first(2) by simp
  note last1 = split_at_last [OF body hexs hexs]
  have nonce: "(p @ newline # dec_int ts) @ newline # n = (p' @ newline # dec_int ts') @ newline # n'"
    using last1 by simp
  have ns: "newline \<notin> set n" "newline \<notin> set n'" using assms(2) by auto
  note last2 = split_at_last [OF nonce ns]
  have stamp: "p @ newline # dec_int ts = p' @ newline # dec_int ts'" using last2 by simp
  note last3 = split_at_last [OF stamp decs decs]
  have "sha256 b = sha256 b'" using last1 hex_inj by blast
  then show ?thesis using first(1) last2 last3 sha256_eq_cases dec_int_inj by blast
qed

theorem canonical_request_binds_witness:
  "compute_canonical_request ''post'' ''/a'' 5 ''n'' [] = compute_canonical_request ''POST'' ''/a'' 5 ''n'' [] \<and>
   upper ''post'' = upper ''POST''"
proof -
  have u: "upper ''post'' = upper ''POST''" by code_simp
  then have eq: "compute_canonical_request ''post'' ''/a'' 5 ''n'' [] = compute_canonical_request ''POST'' ''/a'' 5 ''n'' []"
    by (simp add: compute_canonical_request_def)
  show ?thesis using canonical_request_binds [OF eq] eq by (simp add: newline_def)
qed

subsection \<open>Tokens that were issued\<close>

lemma split_blanks_word: "\<not> list_ex is_blank w \<Longrightarrow> split_blanks (w @ CHR '' '' # s) = w # split_blanks s"
  by (induction w) (simp_all add: is_blank_def)

lemma split_blanks_last: "\<not> list_ex is_blank w \<Longrightarrow> split_blanks w = [w]"
  by (induction w) simp_all

lemma split_joined:
  assumes "list_all (\<lambda>w. w \<noteq> [] \<and> \<not> list_ex is_blank w) ws"
  shows "py_split (join_char (CHR '' '') ws) = ws"
proof (cases ws)
  case Nil
  then show ?thesis by (simp add: py_split_def join_char_def)
next
  case (Cons w ws')
  have "split_blanks (v @ concat (map ((#) (CHR '' '')) vs)) = v # vs"
    if "list_all (\<lambda>w. \<not> list_ex is_blank w) (v # vs)" for v vs
    using that by (induction vs arbitrary: v) (simp_all add: split_blanks_word split_blanks_last)
  moreover have "list_all (\<lambda>w. \<not> list_ex is_blank w) ws" "filter (\<lambda>w. w \<noteq> []) ws = ws"
    using assms by (auto simp: list_all_iff intro!: filter_True)
  ultimately show ?thesis using Cons by (simp add: py_split_def join_char_def)
qed

lemma issue_token_Inr:
  "issue_token enc oi now client secret scopes = Inr res \<longleftrightarrow>
     (\<exists>allowed. dget (oi_clients oi) client = Some (secret, allowed) \<and> is_ascii secret \<and> scopes \<noteq> []
        \<and> set scopes \<subseteq> set allowed
        \<and> res = (enc (new_payload oi client scopes now) (oi_secret oi), ''Bearer'', oi_ttl oi, join_char (CHR '' '') scopes))"
  by (auto simp: issue_token_def res_iff compare_digest_def split: if_splits option.splits)

text \<open>
  What the issuer grants the validator honours, until it expires: a token is issued only to a client
  with the right secret and for scopes it is allowed; validated later it gives the client and exactly
  these scopes, is refused for any other scope, and is refused as expired from its lifetime on. (Asked of
  the token library: before its expiry a token it signed gives back its claims, afterwards it raises.)
\<close>

theorem issued_tokens_validate:
  assumes "issue_token enc oi now client secret scopes = Inr (token, kind, life, granted)"
    and "client \<noteq> []" and "list_all (\<lambda>w. w \<noteq> [] \<and> \<not> list_ex is_blank w) scopes"
    and "dec token (oi_secret oi) (oi_audience oi) (oi_issuer oi) t =
      (if t < of_int (\<lfloor>now\<rfloor> + life)
       then Inr \<lparr>tc_sub = Some client, tc_scope = Some (JStr granted)\<rparr> else Inl (ExpiredSignature m))"
  shows "validate_token dec oi t token required =
      (if \<not> t < of_int (\<lfloor>now\<rfloor> + oi_ttl oi) then Inl (PyExc ''OAuthTokenExpired'' m)
       else if set required \<subseteq> set scopes then Inr (client, scopes) else Inl (PyExc ''OAuthInvalidScope'' client))
    \<and> (\<exists>allowed. dget (oi_clients oi) client = Some (secret, allowed) \<and> set scopes \<subseteq> set allowed)"
proof -
  have r: "life = oi_ttl oi" "granted = join_char (CHR '' '') scopes" "scopes \<noteq> []"
    "\<exists>allowed. dget (oi_clients oi) client = Some (secret, allowed) \<and> set scopes \<subseteq> set allowed"
    using assms(1) by (auto simp: issue_token_Inr)
  have "join_char (CHR '' '') scopes \<noteq> []" using r(3) assms(3) by (cases scopes) (auto simp: join_char_def)
  then have "granted_scopes (Some (JStr granted)) = Inr scopes"
    using r(2) split_joined [OF assms(3)] by (simp add: granted_scopes_def)
  then show ?thesis
    using r assms(2,4) by (auto simp: validate_token_def guardE_def)
qed

theorem issued_tokens_validate_witness:
  "validate_token (\<lambda>tok s a i t. if t < 400
      then Inr \<lparr>tc_sub = Some ''sentry'', tc_scope = Some (JStr REQUIRED_SCOPE)\<rparr> else Inl (ExpiredSignature []))
     demo_issuer 250 ''tok'' [REQUIRED_SCOPE] = Inr (''sentry'', [REQUIRED_SCOPE])"
proof -
  have "issue_token (\<lambda>p s. ''tok'') demo_issuer 100 ''sentry'' ''key'' [REQUIRED_SCOPE] =
      Inr (''tok'', ''Bearer'', 300, REQUIRED_SCOPE)"
    by (simp add: issue_token_Inr) (simp add: demo_issuer_def is_ascii_def join_char_def)
  moreover have "list_all (\<lambda>w. w \<noteq> [] \<and> \<not> list_ex is_blank w) [REQUIRED_SCOPE]" by code_simp
  ultimately show ?thesis
    using issued_tokens_validate [of "\<lambda>p s. ''tok''" demo_issuer 100 "''sentry''" "''key''" "[REQUIRED_SCOPE]" "''tok''"
        "''Bearer''" 300 REQUIRED_SCOPE
        "\<lambda>tok s a i t. if t < 400 then Inr \<lparr>tc_sub = Some ''sentry'', tc_scope = Some (JStr REQUIRED_SCOPE)\<rparr>
           else Inl (ExpiredSignature [])" 250 "[]" "[REQUIRED_SCOPE]"]
    by (simp add: demo_issuer_def)
qed

end
