(* ===== verification/Manifest.thy ===== *)
theory Manifest
  imports HashChain
begin

section \<open>Manifests of captured frames\<close>

text \<open>
  \<open>retina_capture_manifest.py\<close>: the chain over the frames of one capture session, built in one pass at
  its end. Every exception of the computation makes the verifier answer no. A frame is the hash of its
  bytes with the time it was archived.
\<close>

definition manifest_genesis_tag :: bytes where
  "manifest_genesis_tag = encode ''VAPI-RWM-MANIFEST-GENESIS-v1''"

definition manifest_genesis_input :: "string \<Rightarrow> string \<Rightarrow> int \<Rightarrow> bytes res" where
  "manifest_genesis_input session_id device_id_hex ts_ns =
     bindE (fromhex device_id_hex) (\<lambda>device.
     bindE (guardE (length device = 32) (ValueError ''device_id_hex must decode to 32 bytes'')) (\<lambda>_.
     bindE (pack_u 8 ts_ns) (\<lambda>ts.
       Inr (manifest_genesis_tag @ encode session_id @ device @ ts))))"

definition genesis_manifest_hash :: "string \<Rightarrow> string \<Rightarrow> int \<Rightarrow> bytes res" where
  "genesis_manifest_hash session_id device_id_hex ts_ns =
     bindE (manifest_genesis_input session_id device_id_hex ts_ns) (\<lambda>m. Inr (sha256 m))"

definition compute_manifest_entry :: "bytes \<Rightarrow> bytes \<Rightarrow> int \<Rightarrow> int \<Rightarrow> bytes res" where
  "compute_manifest_entry prev_hash frame_hash frame_index ts_ns =
     bindE (guardE (length prev_hash = 32) (ValueError ''prev_hash must be 32 bytes'')) (\<lambda>_.
     bindE (guardE (length frame_hash = 32) (ValueError ''frame_hash must be 32 bytes'')) (\<lambda>_.
     bindE (guardE (0 \<le> frame_index \<and> frame_index \<le> 0xFFFFFFFF) (ValueError ''frame_index out of range'')) (\<lambda>_.
     bindE (pack_u 4 frame_index) (\<lambda>i.
     bindE (pack_u 8 ts_ns) (\<lambda>ts.
       Inr (sha256 (prev_hash @ frame_hash @ i @ ts)))))))"

type_synonym frame = "bytes \<times> int"

fun extend_chain :: "bytes \<Rightarrow> int \<Rightarrow> frame list \<Rightarrow> bytes list res" where
  "extend_chain prev i [] = Inr []"
| "extend_chain prev i ((fh, ts) # fs) =
     bindE (compute_manifest_entry prev fh i ts) (\<lambda>h. bindE (extend_chain h (i + 1) fs) (\<lambda>hs. Inr (h # hs)))"

definition build_session_chain :: "string \<Rightarrow> string \<Rightarrow> int \<Rightarrow> frame list \<Rightarrow> bytes list res" where
  "build_session_chain session_id device_id_hex genesis_ts_ns frames =
     bindE (genesis_manifest_hash session_id device_id_hex genesis_ts_ns) (\<lambda>g.
     bindE (extend_chain g 0 frames) (\<lambda>hs. Inr (g # hs)))"

definition verify_session_chain :: "string \<Rightarrow> string \<Rightarrow> int \<Rightarrow> frame list \<Rightarrow> bytes list \<Rightarrow> bool" where
  "verify_session_chain session_id device_id_hex genesis_ts_ns frames claimed =
     (case build_session_chain session_id device_id_hex genesis_ts_ns frames of
        Inl e \<Rightarrow> False | Inr recomputed \<Rightarrow> recomputed = claimed)"

subsection \<open>What the tip of a chain fixes\<close>

type_synonym manifest_link = "bytes \<times> int \<times> int"

definition manifest_link_ok :: "manifest_link \<Rightarrow> bool" where
  "manifest_link_ok = (\<lambda>(fh, i, ts). length fh = 32 \<and> 0 \<le> i \<and> i < 256 ^ 4 \<and> 0 \<le> ts \<and> ts < 256 ^ 8)"

definition manifest_preimage :: "bytes \<Rightarrow> manifest_link \<Rightarrow> bytes" where
  "manifest_preimage h = (\<lambda>(fh, i, ts). h @ fh @ be_bytes 4 (nat i) @ be_bytes 8 (nat ts))"

fun manifest_links :: "int \<Rightarrow> frame list \<Rightarrow> manifest_link list" where
  "manifest_links i [] = []"
| "manifest_links i ((fh, ts) # fs) = (fh, i, ts) # manifest_links (i + 1) fs"

lemma entry_Inr:
  "compute_manifest_entry h fh i ts = Inr d \<longleftrightarrow>
     length h = 32 \<and> manifest_link_ok (fh, i, ts) \<and> d = sha256 (manifest_preimage h (fh, i, ts))"
  by (auto simp: compute_manifest_entry_def res_iff pack_u_Inr manifest_link_ok_def manifest_preimage_def)

interpretation mf: hash_chain manifest_preimage manifest_link_ok "\<lambda>l. l"
proof
  fix h h' :: bytes and p q :: manifest_link
  assume len: "length h = 32" "length h' = 32" and ok: "manifest_link_ok p" "manifest_link_ok q"
    and eq: "manifest_preimage h p = manifest_preimage h' q"
  obtain fh i ts fh' i' ts' where p: "p = (fh, i, ts)" and q: "q = (fh', i', ts')" by (cases p, cases q) auto
  have parts: "h = h'" "fh = fh'" "be_bytes 4 (nat i) = be_bytes 4 (nat i')" "be_bytes 8 (nat ts) = be_bytes 8 (nat ts')"
    using eq len ok by (auto simp: p q manifest_preimage_def manifest_link_ok_def)
  have "nat i = nat i'" "nat ts = nat ts'"
    using be_bytes_inj [OF parts(3)] be_bytes_inj [OF parts(4)] ok
    by (auto simp: p q manifest_link_ok_def nat_less_power)
  then show "h = h' \<and> p = q" using parts ok by (auto simp: p q manifest_link_ok_def)
qed

lemma extend_chain_Inr:
  "length h = 32 \<Longrightarrow> extend_chain h i fs = Inr hs \<Longrightarrow>
     list_all manifest_link_ok (manifest_links i fs) \<and> last (h # hs) = chain_head manifest_preimage h (manifest_links i fs)
     \<and> length hs = length fs"
proof (induction fs arbitrary: h i hs)
  case (Cons f fs)
  obtain fh ts where f: "f = (fh, ts)" by (cases f)
  obtain hs' where hs: "compute_manifest_entry h fh i ts = Inr (sha256 (manifest_preimage h (fh, i, ts)))"
    "extend_chain (sha256 (manifest_preimage h (fh, i, ts))) (i + 1) fs = Inr hs'"
    "hs = sha256 (manifest_preimage h (fh, i, ts)) # hs'"
    using Cons.prems(2) by (auto simp: f res_iff entry_Inr)
  then show ?case using Cons.IH [OF _ hs(2)] by (auto simp: f entry_Inr)
qed simp

lemma length_links [simp]: "length (manifest_links i fs) = length fs"
  by (induction i fs rule: manifest_links.induct) auto

lemma links_inj: "manifest_links i fs = manifest_links i fs' \<Longrightarrow> fs = fs'"
proof (induction fs arbitrary: i fs')
  case Nil
  then show ?case by (cases fs') auto
next
  case (Cons f fs)
  then show ?case by (cases f; cases fs') auto
qed

definition manifest_preimages :: "string \<Rightarrow> string \<Rightarrow> int \<Rightarrow> frame list \<Rightarrow> bytes list" where
  "manifest_preimages session_id device_id_hex ts_ns fs =
     (case manifest_genesis_input session_id device_id_hex ts_ns of
        Inl e \<Rightarrow> [] | Inr m \<Rightarrow> m # chain_preimages manifest_preimage (sha256 m) (manifest_links 0 fs))"

lemma verified_chain:
  assumes "verify_session_chain sid dev ts fs chain"
  obtains m where "manifest_genesis_input sid dev ts = Inr m"
    and "last chain = chain_head manifest_preimage (sha256 m) (manifest_links 0 fs)"
    and "list_all manifest_link_ok (manifest_links 0 fs)"
    and "manifest_preimages sid dev ts fs = m # chain_preimages manifest_preimage (sha256 m) (manifest_links 0 fs)"
proof -
  obtain m hs where m: "manifest_genesis_input sid dev ts = Inr m" "extend_chain (sha256 m) 0 fs = Inr hs"
    "chain = sha256 m # hs"
    using assms
    by (auto simp: verify_session_chain_def build_session_chain_def genesis_manifest_hash_def res_iff split: sum.splits)
  then show ?thesis using extend_chain_Inr [OF _ m(2)] by (intro that [of m]) (auto simp: manifest_preimages_def)
qed

lemma genesis_input_inj:
  assumes "manifest_genesis_input sid dev ts = Inr m" and "manifest_genesis_input sid' dev' ts' = Inr m"
  shows "sid = sid' \<and> fromhex dev = fromhex dev' \<and> ts = ts'"
proof -
  obtain d t where a: "fromhex dev = Inr d" "length d = 32" "pack_u 8 ts = Inr t"
    "m = manifest_genesis_tag @ encode sid @ d @ t"
    using assms(1) by (auto simp: manifest_genesis_input_def res_iff)
  obtain d' t' where b: "fromhex dev' = Inr d'" "length d' = 32" "pack_u 8 ts' = Inr t'"
    "m = manifest_genesis_tag @ encode sid' @ d' @ t'"
    using assms(2) by (auto simp: manifest_genesis_input_def res_iff)
  note lens = pack_u_length [OF a(3)] pack_u_length [OF b(3)]
  have "encode sid @ d @ t = encode sid' @ d' @ t'" using a(4) b(4) by simp
  moreover from this have "length (encode sid) = length (encode sid')" using a(2) b(2) lens
    by (metis (no_types) add_right_cancel length_append)
  ultimately have "encode sid = encode sid'" "d = d'" "t = t'" using a(2) b(2) lens by auto
  then show ?thesis using a b pack_u_inj by (auto simp: encode_inj)
qed

lemma equally_long_footage:
  assumes "verify_session_chain sid dev ts fs chain" and "verify_session_chain sid' dev' ts' fs' chain'"
    and "length fs = length fs'" and "last chain = last chain'"
  shows "(sid = sid' \<and> fromhex dev = fromhex dev' \<and> ts = ts' \<and> fs = fs')
    \<or> collision_between (manifest_preimages sid dev ts fs) (manifest_preimages sid' dev' ts' fs')"
proof -
  obtain m where m: "manifest_genesis_input sid dev ts = Inr m"
    "last chain = chain_head manifest_preimage (sha256 m) (manifest_links 0 fs)"
    "list_all manifest_link_ok (manifest_links 0 fs)"
    "manifest_preimages sid dev ts fs = m # chain_preimages manifest_preimage (sha256 m) (manifest_links 0 fs)"
    using verified_chain [OF assms(1)] .
  obtain m' where m': "manifest_genesis_input sid' dev' ts' = Inr m'"
    "last chain' = chain_head manifest_preimage (sha256 m') (manifest_links 0 fs')"
    "list_all manifest_link_ok (manifest_links 0 fs')"
    "manifest_preimages sid' dev' ts' fs' = m' # chain_preimages manifest_preimage (sha256 m') (manifest_links 0 fs')"
    using verified_chain [OF assms(2)] .
  have "(sha256 m = sha256 m' \<and> manifest_links 0 fs = manifest_links 0 fs')
      \<or> collision_between (chain_preimages manifest_preimage (sha256 m) (manifest_links 0 fs))
          (chain_preimages manifest_preimage (sha256 m') (manifest_links 0 fs'))"
    using mf.head_fixes_history [of "manifest_links 0 fs" "manifest_links 0 fs'" "sha256 m" "sha256 m'"]
      m m' assms(3,4) by simp
  then consider "sha256 m = sha256 m'" "fs = fs'"
    | "collision_between (chain_preimages manifest_preimage (sha256 m) (manifest_links 0 fs))
          (chain_preimages manifest_preimage (sha256 m') (manifest_links 0 fs'))"
    using links_inj by blast
  then show ?thesis
  proof cases
    case 1
    then consider "m = m'" | "sha256_collision m m'" using sha256_eq_cases by blast
    then show ?thesis
    proof cases
      case 1
      with m'(1) have "manifest_genesis_input sid' dev' ts' = Inr m" by simp
      from genesis_input_inj [OF m(1) this] \<open>fs = fs'\<close> show ?thesis by simp
    next
      case 2
      then show ?thesis unfolding m(4) m'(4) collision_between_Cons by simp
    qed
  next
    case 2
    then show ?thesis unfolding m(4) m'(4) collision_between_Cons by simp
  qed
qed

text \<open>The index of the last frame is hashed into the tip, so chains of different length have different tips.\<close>

lemma manifest_links_snoc:
  "manifest_links i (fs @ [(fh, ts)]) = manifest_links i fs @ [(fh, i + int (length fs), ts)]"
  by (induction i fs rule: manifest_links.induct) auto

lemma last_preimage:
  assumes "verify_session_chain sid dev ts fs chain" and "fs \<noteq> []"
  obtains h fh t where "length h = 32" and "manifest_link_ok (fh, int (length fs) - 1, t)"
    and "last (manifest_preimages sid dev ts fs) = manifest_preimage h (fh, int (length fs) - 1, t)"
    and "last chain = sha256 (last (manifest_preimages sid dev ts fs))"
proof -
  obtain m where m: "last chain = chain_head manifest_preimage (sha256 m) (manifest_links 0 fs)"
    "list_all manifest_link_ok (manifest_links 0 fs)"
    "manifest_preimages sid dev ts fs = m # chain_preimages manifest_preimage (sha256 m) (manifest_links 0 fs)"
    using verified_chain [OF assms(1)] .
  obtain gs fh t where fs: "fs = gs @ [(fh, t)]" using assms(2) by (metis rev_exhaust surj_pair)
  let ?ls = "manifest_links 0 gs" and ?l = "(fh, int (length fs) - 1, t)"
  have ls: "manifest_links 0 fs = ?ls @ [?l]" unfolding fs manifest_links_snoc by simp
  have pre: "chain_preimages manifest_preimage h (ps @ [p]) \<noteq> [] \<and>
      last (chain_preimages manifest_preimage h (ps @ [p])) = manifest_preimage (chain_head manifest_preimage h ps) p" for h ps p
    by (induction ps arbitrary: h) simp_all
  have len: "length (chain_head manifest_preimage (sha256 m) ps) = 32" for ps
    by (cases ps rule: rev_cases) (simp_all add: chain_head_append)
  have "manifest_link_ok ?l" "last (manifest_preimages sid dev ts fs) = manifest_preimage (chain_head manifest_preimage (sha256 m) ?ls) ?l"
    "last chain = sha256 (last (manifest_preimages sid dev ts fs))"
    using m pre [of "sha256 m" ?ls ?l] unfolding ls by (simp_all add: chain_head_append)
  from that [OF len this] show ?thesis .
qed

text \<open>
  C26: The tip of a capture manifest fixes the footage: two verified chains, each over at least one frame,
  that end in the same hash have the same session, device, start and frames, as many and in order and
  with their times, or two of the bytes that were hashed for them collide (the two last ones when the
  chains are of different length, two at the same place otherwise).
\<close>

theorem manifest_tip_fixes_footage:
  assumes "verify_session_chain sid dev ts fs chain" and "verify_session_chain sid' dev' ts' fs' chain'"
    and "fs \<noteq> []" and "fs' \<noteq> []" and "last chain = last chain'"
  shows "(sid = sid' \<and> fromhex dev = fromhex dev' \<and> ts = ts' \<and> fs = fs')
    \<or> collision_between (manifest_preimages sid dev ts fs) (manifest_preimages sid' dev' ts' fs')
    \<or> sha256_collision (last (manifest_preimages sid dev ts fs)) (last (manifest_preimages sid' dev' ts' fs'))"
proof (cases "length fs = length fs'")
  case True
  from equally_long_footage [OF assms(1,2) this assms(5)] show ?thesis by blast
next
  case False
  obtain h fh t where 1: "length h = 32" "manifest_link_ok (fh, int (length fs) - 1, t)"
    "last (manifest_preimages sid dev ts fs) = manifest_preimage h (fh, int (length fs) - 1, t)"
    "last chain = sha256 (last (manifest_preimages sid dev ts fs))"
    using last_preimage [OF assms(1,3)] .
  obtain h' fh' t' where 2: "length h' = 32" "manifest_link_ok (fh', int (length fs') - 1, t')"
    "last (manifest_preimages sid' dev' ts' fs') = manifest_preimage h' (fh', int (length fs') - 1, t')"
    "last chain' = sha256 (last (manifest_preimages sid' dev' ts' fs'))"
    using last_preimage [OF assms(2,4)] .
  have "manifest_preimage h (fh, int (length fs) - 1, t) \<noteq> manifest_preimage h' (fh', int (length fs') - 1, t')"
    using mf.pre_inj [OF 1(1) 2(1) 1(2) 2(2)] False by auto
  then show ?thesis using 1 2 assms(5) by (simp add: sha256_collision_def)
qed

definition demo_frames :: "frame list" where
  "demo_frames = [(replicate 32 1, 5), (replicate 32 2, 6)]"

lemma built_chain_verifies:
  "build_session_chain sid dev ts fs = Inr chain \<Longrightarrow> verify_session_chain sid dev ts fs chain"
  by (simp add: verify_session_chain_def)

lemma extend_chain_ok:
  "length h = 32 \<Longrightarrow> list_all manifest_link_ok (manifest_links i fs) \<Longrightarrow> \<exists>hs. extend_chain h i fs = Inr hs"
proof (induction fs arbitrary: h i)
  case (Cons f fs)
  obtain fh ts where f: "f = (fh, ts)" by (cases f)
  have e: "compute_manifest_entry h fh i ts = Inr (sha256 (manifest_preimage h (fh, i, ts)))"
    using Cons.prems by (simp add: entry_Inr f)
  then show ?case using Cons.IH [of "sha256 (manifest_preimage h (fh, i, ts))" "i + 1"] Cons.prems(2) by (auto simp: f)
qed simp

lemma demo_session_chain: "\<exists>chain. build_session_chain ''s'' (hex (replicate 32 7)) 4 demo_frames = Inr chain"
proof -
  obtain m where m: "manifest_genesis_input ''s'' (hex (replicate 32 7)) 4 = Inr m"
    by (simp add: manifest_genesis_input_def fromhex_hex pack_u_def)
  have "list_all manifest_link_ok (manifest_links 0 demo_frames)" by (simp add: demo_frames_def manifest_link_ok_def)
  from extend_chain_ok [OF length_sha256 this] obtain hs where "extend_chain (sha256 m) 0 demo_frames = Inr hs" by blast
  then show ?thesis using m by (simp add: build_session_chain_def genesis_manifest_hash_def)
qed

theorem manifest_tip_fixes_footage_witness:
  "\<exists>chain. verify_session_chain ''s'' (hex (replicate 32 7)) 4 demo_frames chain
     \<and> (demo_frames = demo_frames \<or> collision_between (manifest_preimages ''s'' (hex (replicate 32 7)) 4 demo_frames)
          (manifest_preimages ''s'' (hex (replicate 32 7)) 4 demo_frames)
        \<or> sha256_collision (last (manifest_preimages ''s'' (hex (replicate 32 7)) 4 demo_frames))
          (last (manifest_preimages ''s'' (hex (replicate 32 7)) 4 demo_frames)))"
proof -
  obtain chain where "build_session_chain ''s'' (hex (replicate 32 7)) 4 demo_frames = Inr chain" using demo_session_chain ..
  note v = built_chain_verifies [OF this]
  from manifest_tip_fixes_footage [OF v v _ _ refl] show ?thesis using v by (auto simp: demo_frames_def)
qed

end
