(* ===== verification/Escrow.thy ===== *)
theory Escrow
  imports Manifest Json "HOL-Library.Char_ord" "HOL-Library.List_Lexorder"
begin

section \<open>Escrow of disputed footage\<close>

text \<open>
  \<open>rwm_dispute_escrow.py\<close> and \<open>rwm_session_bind.py\<close>: packages that commit to all frames of an archived
  session and reveal some of them, and packages that bind the session to the tips of other chains. An
  archive is its files with the manifest read from it (absent when the file is missing); manifests and
  packages have the fields and types their writers give them. Text is ASCII. The report of a check is
  kept as its verdict.
\<close>

definition EscrowError :: "string \<Rightarrow> py_exc" where "EscrowError m = PyExc ''EscrowError'' m"

definition BindError :: "string \<Rightarrow> py_exc" where "BindError m = PyExc ''BindError'' m"

fun mapE :: "('a \<Rightarrow> 'b res) \<Rightarrow> 'a list \<Rightarrow> 'b list res" where
  "mapE f [] = Inr []"
| "mapE f (x # xs) = bindE (f x) (\<lambda>y. bindE (mapE f xs) (\<lambda>ys. Inr (y # ys)))"

subsection \<open>Archives\<close>

record l0_frame =
  lf_frame_index :: int
  lf_file :: string
  lf_frame_hash_hex :: string
  lf_ts_ns :: int
  lf_source :: string

record l0_chain =
  lc_session_id :: string
  lc_device_id_hex :: string
  lc_genesis_ts_ns :: int
  lc_frames :: "l0_frame list"
  lc_chain_hex :: "string list"

record archive =
  ar_chain :: "l0_chain option"
  ar_files :: "(string, bytes) dict"

definition load_l0_chain :: "archive \<Rightarrow> l0_chain res" where
  "load_l0_chain ar =
     (case ar_chain ar of
        None \<Rightarrow> Inl (EscrowError ''missing rwm_manifest_chain.json'')
      | Some l0 \<Rightarrow>
          bindE (guardE (lc_frames l0 \<noteq> []) (EscrowError ''L0 chain has no frames'')) (\<lambda>_.
          bindE (guardE (lc_chain_hex l0 \<noteq> []) (EscrowError ''L0 chain has no chain_hex'')) (\<lambda>_.
            Inr l0)))"

text \<open>The frames as they are on disk; \<open>None\<close> when a file is missing or differs.\<close>

fun frames_on_disk :: "archive \<Rightarrow> l0_frame list \<Rightarrow> frame list option" where
  "frames_on_disk ar [] = Some []"
| "frames_on_disk ar (f # fs) =
     (case dget (ar_files ar) (lf_file f) of
        None \<Rightarrow> None
      | Some data \<Rightarrow>
          if hex (sha256 data) \<noteq> lf_frame_hash_hex f then None
          else map_option (\<lambda>rest. (sha256 data, lf_ts_ns f) # rest) (frames_on_disk ar fs))"

definition verify_l0_archive :: "archive \<Rightarrow> l0_chain \<Rightarrow> bool res" where
  "verify_l0_archive ar l0 =
     (case frames_on_disk ar (lc_frames l0) of
        None \<Rightarrow> Inr False
      | Some frames \<Rightarrow>
          bindE (mapE fromhex (lc_chain_hex l0)) (\<lambda>chain.
            Inr (verify_session_chain (lc_session_id l0) (lc_device_id_hex l0) (lc_genesis_ts_ns l0) frames chain)))"

subsection \<open>Leaves and root\<close>

definition DOMAIN_ROOT :: bytes where "DOMAIN_ROOT = encode ''VAPI-RWM-DISPUTE-ESCROW-v0''"

definition DOMAIN_LEAF :: bytes where "DOMAIN_LEAF = encode ''VAPI-RWM-DISPUTE-LEAF-v0''"

definition leaf_input :: "string \<Rightarrow> string \<Rightarrow> int \<Rightarrow> string \<Rightarrow> bytes res" where
  "leaf_input session_id device_id_hex i frame_hash_hex =
     bindE (fromhex device_id_hex) (\<lambda>device.
     bindE (guardE (length device = 32) (EscrowError ''device_id_hex must decode to 32 bytes'')) (\<lambda>_.
     bindE (fromhex frame_hash_hex) (\<lambda>fh.
     bindE (guardE (length fh = 32) (EscrowError ''frame_hash_hex must decode to 32 bytes'')) (\<lambda>_.
     bindE (guardE (0 \<le> i \<and> i \<le> 0xFFFFFFFF) (EscrowError ''frame_index out of range'')) (\<lambda>_.
       Inr (DOMAIN_LEAF @ encode session_id @ device @ be_bytes 4 (nat i) @ fh))))))"

definition compute_leaf :: "string \<Rightarrow> string \<Rightarrow> int \<Rightarrow> string \<Rightarrow> string res" where
  "compute_leaf session_id device_id_hex i frame_hash_hex =
     bindE (leaf_input session_id device_id_hex i frame_hash_hex) (\<lambda>m. Inr (hex (sha256 m)))"

definition comma :: char where "comma = CHR '',''"

definition root_input :: "string \<Rightarrow> string \<Rightarrow> string list \<Rightarrow> string list \<Rightarrow> bytes res" where
  "root_input session_id tip_hex leaves inventory =
     bindE (fromhex tip_hex) (\<lambda>tip.
     bindE (guardE (length tip = 32) (EscrowError ''l0_chain_tip_hex must decode to 32 bytes'')) (\<lambda>_.
     bindE (guardE (length leaves < 256 ^ 4) (PyExc ''OverflowError'' ''int too big to convert'')) (\<lambda>_.
       Inr (DOMAIN_ROOT @ encode session_id @ tip @ be_bytes 4 (length leaves)
            @ encode (join_char comma (sort leaves)) @ encode (join_char comma (sort inventory))))))"

definition compute_commitment_root :: "string \<Rightarrow> string \<Rightarrow> string list \<Rightarrow> string list \<Rightarrow> string res" where
  "compute_commitment_root session_id tip_hex leaves inventory =
     bindE (root_input session_id tip_hex leaves inventory) (\<lambda>m. Inr (hex (sha256 m)))"

definition rows_by_index :: "l0_frame list \<Rightarrow> (int, l0_frame) dict" where
  "rows_by_index rows = fold (\<lambda>f d. dput (lf_frame_index f) f d) rows []"

subsection \<open>Packages that bind a session\<close>

record session_bind =
  sb_schema :: string
  sb_session_id :: string
  sb_l0_chain_tip_hex :: string
  sb_bind_kind :: string
  sb_poac_tip_hex :: string
  sb_gic_tip_hex :: string
  sb_poac_source :: string
  sb_gic_source :: string
  sb_algorithm :: string
  sb_bind_ok :: bool
  sb_created_ts_ns :: int

definition BIND_SCHEMA :: string where "BIND_SCHEMA = ''qortroller-rwm-session-bind-v0''"

definition BIND_KINDS :: "string list" where "BIND_KINDS = [''none'', ''poac_segment'', ''gic_tip'', ''dual'']"

definition BIND_ALGORITHM :: string where "BIND_ALGORITHM = ''sha256-hex-eq-v0''"

definition norm_hex32 :: "string \<Rightarrow> string \<Rightarrow> string res" where
  "norm_hex32 value label =
     (let s0 = lower (strip value); s = (if startswith s0 ''0x'' then drop 2 s0 else s0) in
      if s = [] then Inr []
      else (case fromhex s of
              Inl e \<Rightarrow> Inl (BindError (label @ '': not valid hex''))
            | Inr raw \<Rightarrow> if length raw \<noteq> 32 then Inl (BindError (label @ '': must decode to 32 bytes'')) else Inr (hex raw)))"

definition TIP_FIELDS :: "string list" where
  "TIP_FIELDS = [''tip_hex'', ''gic_tip_hex'', ''poac_tip_hex'', ''chain_tip_hex'', ''hash'', ''commitment'']"

text \<open>\<open>str(v)\<close>, as far as it can be hex text of 32 bytes; other values have none.\<close>

definition tip_text :: "json \<Rightarrow> string" where
  "tip_text v = (case v of JStr s \<Rightarrow> s | JInt i \<Rightarrow> dec_int i | _ \<Rightarrow> ''?'')"

definition is_line_break :: "char \<Rightarrow> bool" where
  "is_line_break c = (let n = (of_char c :: nat) in (10 \<le> n \<and> n \<le> 13) \<or> (28 \<le> n \<and> n \<le> 30))"

text \<open>The tip as text or as a file, read by \<open>files\<close>; a stripped text starts with its first line.\<close>

definition load_tip_hex :: "(string \<Rightarrow> string option) \<Rightarrow> string option \<Rightarrow> (string \<times> string) res" where
  "load_tip_hex files source =
     (let s = strip (case source of None \<Rightarrow> [] | Some x \<Rightarrow> x) in
      if s = [] then Inr ([], [])
      else
        (case files s of
           None \<Rightarrow> bindE (norm_hex32 s ''inline tip'') (\<lambda>t. Inr (t, ''inline''))
         | Some content \<Rightarrow>
             (let body = strip content in
              if startswith body ''{'' then
                (case json_loads body of
                   Some (JObj kvs) \<Rightarrow>
                     (case find (\<lambda>k. get_truthy kvs k) TIP_FIELDS of
                        None \<Rightarrow> Inl (BindError ''JSON tip file has no known tip field'')
                      | Some k \<Rightarrow> bindE (norm_hex32 (tip_text (jget kvs k)) k) (\<lambda>t. Inr (t, s)))
                 | _ \<Rightarrow> Inl (ValueError ''JSONDecodeError''))
              else bindE (norm_hex32 (strip (takeWhile (\<lambda>c. \<not> is_line_break c) body)) s) (\<lambda>t. Inr (t, s)))))"

definition needs_poac :: "string \<Rightarrow> bool" where "needs_poac kind \<longleftrightarrow> kind = ''poac_segment'' \<or> kind = ''dual''"

definition needs_gic :: "string \<Rightarrow> bool" where "needs_gic kind \<longleftrightarrow> kind = ''gic_tip'' \<or> kind = ''dual''"

definition bind_succeeds :: "string \<Rightarrow> bool \<Rightarrow> bool \<Rightarrow> bool" where
  "bind_succeeds kind poac gic \<longleftrightarrow> (needs_poac kind \<longrightarrow> poac) \<and> (needs_gic kind \<longrightarrow> gic)"

definition bind_checks :: "session_bind \<Rightarrow> archive option \<Rightarrow> bool list res" where
  "bind_checks sb ar =
     (let kind = (if sb_bind_kind sb = [] then ''none'' else sb_bind_kind sb);
          poac = (length (lower (sb_poac_tip_hex sb)) = 64);
          gic = (length (lower (sb_gic_tip_hex sb)) = 64);
          declared = sb_bind_ok sb
      in bindE (case ar of
                  None \<Rightarrow> Inr [True]
                | Some a \<Rightarrow>
                    bindE (load_l0_chain a) (\<lambda>l0.
                    bindE (verify_l0_archive a l0) (\<lambda>ok.
                      Inr (ok # (if ok then [lower (sb_l0_chain_tip_hex sb) = lower (last (lc_chain_hex l0)),
                                             sb_session_id sb = lc_session_id l0] else [])))))
           (\<lambda>disk.
             Inr ([kind \<in> set BIND_KINDS] @ disk @
                  [needs_poac kind \<and> declared \<longrightarrow> poac, needs_gic kind \<and> declared \<longrightarrow> gic,
                   declared = (kind \<in> set BIND_KINDS \<and> bind_succeeds kind poac gic),
                   sb_algorithm sb = BIND_ALGORITHM])))"

definition verify_bind :: "session_bind \<Rightarrow> archive option \<Rightarrow> bool" where
  "verify_bind sb ar =
     (sb_schema sb = BIND_SCHEMA \<and> (case bind_checks sb ar of Inl e \<Rightarrow> False | Inr cs \<Rightarrow> list_all id cs))"

definition build_bind ::
  "archive \<Rightarrow> (string \<Rightarrow> string option) \<Rightarrow> string \<Rightarrow> string option \<Rightarrow> string option \<Rightarrow> bool \<Rightarrow> int \<Rightarrow> session_bind res" where
  "build_bind ar files bind_kind poac_source gic_source require now_ns =
     (let kind = lower (strip (if bind_kind = [] then ''none'' else bind_kind)) in
      bindE (guardE (kind \<in> set BIND_KINDS) (BindError ''bind_kind must be one of the kinds'')) (\<lambda>_.
      bindE (load_l0_chain ar) (\<lambda>l0.
      bindE (verify_l0_archive ar l0) (\<lambda>ok.
      bindE (guardE ok (BindError ''L0 chain does not re-verify'')) (\<lambda>_.
      bindE (load_tip_hex files poac_source) (\<lambda>(poac, poac_src).
      bindE (load_tip_hex files gic_source) (\<lambda>(gic, gic_src).
      bindE (guardE (\<not> (needs_poac kind \<and> poac = [] \<and> require)) (BindError ''poac tip required'')) (\<lambda>_.
      bindE (guardE (\<not> (needs_gic kind \<and> gic = [] \<and> require)) (BindError ''gic tip required'')) (\<lambda>_.
      let bind_ok = bind_succeeds kind (poac \<noteq> []) (gic \<noteq> []) in
      bindE (guardE (\<not> (require \<and> \<not> bind_ok)) (BindError ''require_bind=True but bind_ok would be false'')) (\<lambda>_.
        Inr \<lparr>sb_schema = BIND_SCHEMA, sb_session_id = lc_session_id l0,
             sb_l0_chain_tip_hex = lower (last (lc_chain_hex l0)), sb_bind_kind = kind, sb_poac_tip_hex = poac,
             sb_gic_tip_hex = gic, sb_poac_source = poac_src, sb_gic_source = gic_src,
             sb_algorithm = BIND_ALGORITHM, sb_bind_ok = bind_ok, sb_created_ts_ns = now_ns\<rparr>))))))))))"

subsection \<open>Escrow packages\<close>

record revealed_row =
  rv_frame_index :: int
  rv_frame_hash_hex :: string
  rv_source :: string
  rv_marked_relpath :: string
  rv_leaf_hash :: string

record escrow =
  ew_schema :: string
  ew_session_id :: string
  ew_device_id_hex :: string
  ew_l0_genesis_ts_ns :: int
  ew_l0_chain_tip_hex :: string
  ew_l0_frame_count :: nat
  ew_set_size :: int
  ew_inventory :: "string list"
  ew_leaf_hashes :: "string list"
  ew_commitment_root :: string
  ew_revealed_frame_indices :: "int list"
  ew_revealed :: "revealed_row list"
  ew_reason :: string
  ew_case_id :: string
  ew_external_ref :: string
  ew_include_media :: bool
  ew_created_ts_ns :: int
  ew_session_bind :: "session_bind option"

definition SCHEMA :: string where "SCHEMA = ''qortroller-rwm-dispute-escrow-v0''"

definition indexed_leaf :: "l0_chain \<Rightarrow> (int, l0_frame) dict \<Rightarrow> int \<Rightarrow> string res" where
  "indexed_leaf l0 rows i =
     (case dget rows i of
        None \<Rightarrow> Inl (EscrowError ''reveal frame_index not present in L0 frames'')
      | Some f \<Rightarrow> compute_leaf (lc_session_id l0) (lc_device_id_hex l0) i (lf_frame_hash_hex f))"

definition reveal_row :: "l0_chain \<Rightarrow> (int, l0_frame) dict \<Rightarrow> int \<Rightarrow> revealed_row res" where
  "reveal_row l0 rows i =
     (case dget rows i of
        None \<Rightarrow> Inl (EscrowError ''reveal frame_index not present in L0 frames'')
      | Some f \<Rightarrow>
          bindE (compute_leaf (lc_session_id l0) (lc_device_id_hex l0) i (lf_frame_hash_hex f)) (\<lambda>leaf.
            Inr \<lparr>rv_frame_index = i, rv_frame_hash_hex = lf_frame_hash_hex f, rv_source = lf_source f,
                 rv_marked_relpath = lf_file f, rv_leaf_hash = leaf\<rparr>))"

definition frame_label :: "int \<Rightarrow> string" where "frame_label i = ''frame_'' @ dec_int i"

definition build_escrow ::
  "archive \<Rightarrow> int list \<Rightarrow> string \<Rightarrow> string \<Rightarrow> string \<Rightarrow> bool \<Rightarrow> int \<Rightarrow> escrow res" where
  "build_escrow ar reveal reason case_id external_ref include_media ts =
     bindE (guardE (10 \<le> length (strip reason)) (EscrowError ''reason must have at least 10 characters'')) (\<lambda>_.
     bindE (guardE (reveal \<noteq> []) (EscrowError ''reveal_indices must be non-empty'')) (\<lambda>_.
     bindE (load_l0_chain ar) (\<lambda>l0.
     bindE (verify_l0_archive ar l0) (\<lambda>ok.
     bindE (guardE ok (EscrowError ''L0 chain does not re-verify'')) (\<lambda>_.
     let rows = rows_by_index (lc_frames l0);
         chosen = sorted_list_of_set (set reveal);
         all = sort (dkeys rows);
         tip = last (lc_chain_hex l0)
     in bindE (guardE (set chosen \<subseteq> set (dkeys rows)) (EscrowError ''reveal frame_index not present in L0 frames'')) (\<lambda>_.
        bindE (mapE (indexed_leaf l0 rows) all) (\<lambda>leaves.
        bindE (compute_commitment_root (lc_session_id l0) tip leaves (map frame_label all)) (\<lambda>root.
        bindE (mapE (reveal_row l0 rows) chosen) (\<lambda>revealed.
          Inr \<lparr>ew_schema = SCHEMA, ew_session_id = lc_session_id l0, ew_device_id_hex = lc_device_id_hex l0,
               ew_l0_genesis_ts_ns = lc_genesis_ts_ns l0, ew_l0_chain_tip_hex = tip, ew_l0_frame_count = length rows,
               ew_set_size = int (length leaves), ew_inventory = sort (map frame_label all), ew_leaf_hashes = sort leaves,
               ew_commitment_root = root, ew_revealed_frame_indices = chosen, ew_revealed = revealed,
               ew_reason = strip reason, ew_case_id = case_id, ew_external_ref = external_ref,
               ew_include_media = include_media, ew_created_ts_ns = ts, ew_session_bind = None\<rparr>)))))))))"

definition disk_checks :: "escrow \<Rightarrow> archive option \<Rightarrow> bool list res" where
  "disk_checks e ar =
     (case ar of
        None \<Rightarrow> Inr [True]
      | Some a \<Rightarrow>
          bindE (load_l0_chain a) (\<lambda>l0.
          bindE (verify_l0_archive a l0) (\<lambda>ok.
            Inr (ok # (if ok then map (\<lambda>r. case dget (ar_files a) (rv_marked_relpath r) of
                                              None \<Rightarrow> False
                                            | Some data \<Rightarrow> hex (sha256 data) = rv_frame_hash_hex r) (ew_revealed e)
                       else [])))))"

definition leaf_check :: "escrow \<Rightarrow> revealed_row \<Rightarrow> bool res" where
  "leaf_check e r =
     bindE (compute_leaf (ew_session_id e) (ew_device_id_hex e) (rv_frame_index r) (rv_frame_hash_hex r)) (\<lambda>leaf.
       Inr (leaf = rv_leaf_hash r \<and> leaf \<in> set (ew_leaf_hashes e)))"

definition escrow_checks :: "escrow \<Rightarrow> archive option \<Rightarrow> bool list res" where
  "escrow_checks e ar =
     bindE (compute_commitment_root (ew_session_id e) (ew_l0_chain_tip_hex e) (ew_leaf_hashes e) (ew_inventory e)) (\<lambda>root.
     bindE (mapE (leaf_check e) (ew_revealed e)) (\<lambda>leaves.
     bindE (disk_checks e ar) (\<lambda>disk.
       Inr ([ew_set_size e = int (length (ew_leaf_hashes e)) \<and> length (ew_leaf_hashes e) = length (ew_inventory e),
             root = ew_commitment_root e,
             10 \<le> length (ew_reason e),
             ew_revealed e \<noteq> [] \<and> ew_revealed_frame_indices e \<noteq> [],
             set (ew_revealed_frame_indices e) = rv_frame_index ` set (ew_revealed e)]
            @ leaves @ disk @ (case ew_session_bind e of None \<Rightarrow> [] | Some sb \<Rightarrow> [verify_bind sb ar])))))"

definition verify_escrow :: "escrow \<Rightarrow> archive option \<Rightarrow> bool" where
  "verify_escrow e ar =
     (ew_schema e = SCHEMA \<and> (case escrow_checks e ar of Inl x \<Rightarrow> False | Inr cs \<Rightarrow> list_all id cs))"

definition attach_bind :: "escrow \<Rightarrow> session_bind \<Rightarrow> escrow res" where
  "attach_bind e sb =
     bindE (guardE (ew_session_id e = [] \<or> sb_session_id sb = [] \<or> ew_session_id e = sb_session_id sb)
       (BindError ''escrow session_id != bind session_id'')) (\<lambda>_.
     bindE (guardE (ew_l0_chain_tip_hex e = [] \<or> sb_l0_chain_tip_hex sb = []
         \<or> lower (ew_l0_chain_tip_hex e) = lower (sb_l0_chain_tip_hex sb))
       (BindError ''escrow l0_chain_tip_hex != bind l0_chain_tip_hex'')) (\<lambda>_.
       Inr (e\<lparr>ew_session_bind := Some sb\<rparr>)))"

subsection \<open>What is built verifies\<close>

lemma sort_Nil_iff [simp]: "sort xs = [] \<longleftrightarrow> xs = []"
  by (metis length_0_conv length_sort)

lemma mapE_Inr: "mapE f xs = Inr ys \<longleftrightarrow> list_all2 (\<lambda>x y. f x = Inr y) xs ys"
  by (induction xs arbitrary: ys) (auto simp: res_iff list_all2_Cons1)

lemma disk_frames:
  "frames_on_disk ar fs = Some frames \<Longrightarrow> f \<in> set fs \<Longrightarrow>
     \<exists>data. dget (ar_files ar) (lf_file f) = Some data \<and> hex (sha256 data) = lf_frame_hash_hex f"
  by (induction fs arbitrary: frames) (auto split: option.splits if_splits)

lemma verified_archive:
  assumes "verify_l0_archive ar l0 = Inr True"
  obtains frames chain where "frames_on_disk ar (lc_frames l0) = Some frames"
    and "mapE fromhex (lc_chain_hex l0) = Inr chain"
    and "verify_session_chain (lc_session_id l0) (lc_device_id_hex l0) (lc_genesis_ts_ns l0) frames chain"
  using assms by (auto simp: verify_l0_archive_def res_iff split: option.splits)

lemma rows_by_index_Some:
  "dget (rows_by_index rows) i = Some f \<Longrightarrow> f \<in> set rows \<and> lf_frame_index f = i"
proof -
  have "dget (fold (\<lambda>f d. dput (lf_frame_index f) f d) rows d) i = Some f \<Longrightarrow>
      (f \<in> set rows \<and> lf_frame_index f = i) \<or> dget d i = Some f" for d
    by (induction rows arbitrary: d) (fastforce split: if_splits)+
  from this [of "[]"] show "dget (rows_by_index rows) i = Some f \<Longrightarrow> f \<in> set rows \<and> lf_frame_index f = i"
    by (simp add: rows_by_index_def)
qed

lemma sorted_root: "compute_commitment_root sid tip (sort leaves) (sort names) = compute_commitment_root sid tip leaves names"
  by (simp add: compute_commitment_root_def root_input_def sorted_sort_id)

lemma build_escrow_Inr:
  assumes "build_escrow ar reveal reason case_id external_ref include_media ts = Inr e"
  obtains l0 leaves where "load_l0_chain ar = Inr l0" and "verify_l0_archive ar l0 = Inr True"
    and "mapE (indexed_leaf l0 (rows_by_index (lc_frames l0))) (sort (dkeys (rows_by_index (lc_frames l0)))) = Inr leaves"
    and "compute_commitment_root (ew_session_id e) (ew_l0_chain_tip_hex e) leaves
        (map frame_label (sort (dkeys (rows_by_index (lc_frames l0))))) = Inr (ew_commitment_root e)"
    and "mapE (reveal_row l0 (rows_by_index (lc_frames l0))) (sorted_list_of_set (set reveal)) = Inr (ew_revealed e)"
    and "ew_session_id e = lc_session_id l0" and "ew_device_id_hex e = lc_device_id_hex l0"
    and "ew_l0_chain_tip_hex e = last (lc_chain_hex l0)"
    and "ew_leaf_hashes e = sort leaves" and "ew_inventory e = sort (map frame_label (sort (dkeys (rows_by_index (lc_frames l0)))))"
    and "ew_set_size e = int (length leaves)" and "ew_schema e = SCHEMA" and "reveal \<noteq> []"
    and "ew_revealed_frame_indices e = sorted_list_of_set (set reveal)" and "10 \<le> length (ew_reason e)"
    and "ew_session_bind e = None" and "set reveal \<subseteq> set (dkeys (rows_by_index (lc_frames l0)))"
proof -
  obtain l0 leaves root revealed where "10 \<le> length (strip reason)" "reveal \<noteq> []" "load_l0_chain ar = Inr l0"
    "verify_l0_archive ar l0 = Inr True" "set reveal \<subseteq> set (dkeys (rows_by_index (lc_frames l0)))"
    "mapE (indexed_leaf l0 (rows_by_index (lc_frames l0))) (sort (dkeys (rows_by_index (lc_frames l0)))) = Inr leaves"
    "compute_commitment_root (lc_session_id l0) (last (lc_chain_hex l0)) leaves
        (map frame_label (sort (dkeys (rows_by_index (lc_frames l0))))) = Inr root"
    "mapE (reveal_row l0 (rows_by_index (lc_frames l0))) (sorted_list_of_set (set reveal)) = Inr revealed"
    "e = \<lparr>ew_schema = SCHEMA, ew_session_id = lc_session_id l0, ew_device_id_hex = lc_device_id_hex l0,
          ew_l0_genesis_ts_ns = lc_genesis_ts_ns l0, ew_l0_chain_tip_hex = last (lc_chain_hex l0),
          ew_l0_frame_count = length (rows_by_index (lc_frames l0)),
          ew_set_size = int (length leaves), ew_inventory = sort (map frame_label (sort (dkeys (rows_by_index (lc_frames l0))))),
          ew_leaf_hashes = sort leaves, ew_commitment_root = root,
          ew_revealed_frame_indices = sorted_list_of_set (set reveal), ew_revealed = revealed,
          ew_reason = strip reason, ew_case_id = case_id, ew_external_ref = external_ref,
          ew_include_media = include_media, ew_created_ts_ns = ts, ew_session_bind = None\<rparr>"
    using assms unfolding build_escrow_def Let_def
    by (auto simp: res_iff)
  then show ?thesis by (intro that) simp_all
qed

lemma revealed_facts:
  assumes "mapE (reveal_row l0 rows) is' = Inr revealed"
  shows "map rv_frame_index revealed = is'"
    and "r \<in> set revealed \<Longrightarrow> \<exists>f. dget rows (rv_frame_index r) = Some f \<and> rv_frame_hash_hex r = lf_frame_hash_hex f
      \<and> rv_marked_relpath r = lf_file f
      \<and> indexed_leaf l0 rows (rv_frame_index r) = Inr (rv_leaf_hash r)"
proof -
  have all: "list_all2 (\<lambda>i r. reveal_row l0 rows i = Inr r) is' revealed" using assms by (simp add: mapE_Inr)
  then show "map rv_frame_index revealed = is'"
    by (induction rule: list_all2_induct) (auto simp: reveal_row_def res_iff split: option.splits)
  show "\<exists>f. dget rows (rv_frame_index r) = Some f \<and> rv_frame_hash_hex r = lf_frame_hash_hex f
      \<and> rv_marked_relpath r = lf_file f \<and> indexed_leaf l0 rows (rv_frame_index r) = Inr (rv_leaf_hash r)"
    if "r \<in> set revealed"
  proof -
    obtain i where "reveal_row l0 rows i = Inr r" using all \<open>r \<in> set revealed\<close>
      by (metis (mono_tags) in_set_conv_nth list_all2_conv_all_nth)
    then show ?thesis by (auto simp: reveal_row_def indexed_leaf_def res_iff split: option.splits)
  qed
qed

lemma leaf_of_index:
  assumes "mapE (indexed_leaf l0 rows) is' = Inr leaves"
  shows "i \<in> set is' \<Longrightarrow> indexed_leaf l0 rows i = Inr leaf \<Longrightarrow> leaf \<in> set leaves"
    and "leaf \<in> set leaves \<Longrightarrow> \<exists>i \<in> set is'. indexed_leaf l0 rows i = Inr leaf"
    and "length leaves = length is'"
  using assms unfolding mapE_Inr
  by (fastforce simp: list_all2_conv_all_nth in_set_conv_nth)+

lemma mapE_all:
  "(\<And>x. x \<in> set xs \<Longrightarrow> f x = Inr True) \<Longrightarrow> mapE f xs = Inr (replicate (length xs) True)"
  by (induction xs) simp_all

lemma built_package:
  assumes "build_escrow ar reveal reason case_id external_ref include_media ts = Inr e"
  shows "verify_escrow e None \<and> verify_escrow e (Some ar)"
proof -
  obtain l0 leaves where b: "load_l0_chain ar = Inr l0" "verify_l0_archive ar l0 = Inr True"
    "mapE (indexed_leaf l0 (rows_by_index (lc_frames l0))) (sort (dkeys (rows_by_index (lc_frames l0)))) = Inr leaves"
    "compute_commitment_root (ew_session_id e) (ew_l0_chain_tip_hex e) leaves
        (map frame_label (sort (dkeys (rows_by_index (lc_frames l0))))) = Inr (ew_commitment_root e)"
    "mapE (reveal_row l0 (rows_by_index (lc_frames l0))) (sorted_list_of_set (set reveal)) = Inr (ew_revealed e)"
    "ew_session_id e = lc_session_id l0" "ew_device_id_hex e = lc_device_id_hex l0"
    "ew_leaf_hashes e = sort leaves" "ew_inventory e = sort (map frame_label (sort (dkeys (rows_by_index (lc_frames l0)))))"
    "ew_set_size e = int (length leaves)" "ew_schema e = SCHEMA" "reveal \<noteq> []"
    "ew_revealed_frame_indices e = sorted_list_of_set (set reveal)" "10 \<le> length (ew_reason e)"
    "ew_session_bind e = None" "set reveal \<subseteq> set (dkeys (rows_by_index (lc_frames l0)))"
    using build_escrow_Inr [OF assms] by blast
  let ?rows = "rows_by_index (lc_frames l0)"
  note idx = revealed_facts(1) [OF b(5)]
  have root: "compute_commitment_root (ew_session_id e) (ew_l0_chain_tip_hex e) (ew_leaf_hashes e) (ew_inventory e)
      = Inr (ew_commitment_root e)"
    using b(4) by (simp add: b(8,9) sorted_root)
  have shown: "leaf_check e r = Inr True" if r: "r \<in> set (ew_revealed e)" for r
  proof -
    obtain f where f: "dget ?rows (rv_frame_index r) = Some f" "rv_frame_hash_hex r = lf_frame_hash_hex f"
      "indexed_leaf l0 ?rows (rv_frame_index r) = Inr (rv_leaf_hash r)"
      using revealed_facts(2) [OF b(5) r] by blast
    have "rv_frame_index r \<in> set (sort (dkeys ?rows))" using f(1) dget_None_iff [of ?rows "rv_frame_index r"] by simp
    from leaf_of_index(1) [OF b(3) this f(3)] show ?thesis
      using f by (simp add: leaf_check_def indexed_leaf_def b(6,7,8))
  qed
  obtain frames where frames: "frames_on_disk ar (lc_frames l0) = Some frames" using verified_archive [OF b(2)] by blast
  have media: "(case dget (ar_files ar) (rv_marked_relpath r) of None \<Rightarrow> False
      | Some data \<Rightarrow> hex (sha256 data) = rv_frame_hash_hex r)" if r: "r \<in> set (ew_revealed e)" for r
  proof -
    obtain f where f: "dget ?rows (rv_frame_index r) = Some f" "rv_frame_hash_hex r = lf_frame_hash_hex f"
      "rv_marked_relpath r = lf_file f"
      using revealed_facts(2) [OF b(5) r] by blast
    have "f \<in> set (lc_frames l0)" using rows_by_index_Some [OF f(1)] by simp
    from disk_frames [OF frames this] show ?thesis using f by auto
  qed
  have chosen: "set (sorted_list_of_set (set reveal)) = set reveal" by simp
  have nonempty: "ew_revealed e \<noteq> []" "sorted_list_of_set (set reveal) \<noteq> []"
    using idx chosen b(12) by (metis list.map_disc_iff set_empty)+
  have sets: "set (ew_revealed_frame_indices e) = rv_frame_index ` set (ew_revealed e)"
    using idx by (metis b(13) list.set_map)
  have common: "verify_escrow e ar' = (case disk_checks e ar' of Inl x \<Rightarrow> False | Inr cs \<Rightarrow> list_all id cs)" for ar'
    using mapE_all [of "ew_revealed e" "leaf_check e", OF shown] root nonempty sets b leaf_of_index(3) [OF b(3)]
    by (simp add: verify_escrow_def escrow_checks_def list_all_iff split: sum.split)
  have "disk_checks e (Some ar) = Inr (True # map (\<lambda>r. case dget (ar_files ar) (rv_marked_relpath r) of
      None \<Rightarrow> False | Some data \<Rightarrow> hex (sha256 data) = rv_frame_hash_hex r) (ew_revealed e))"
    by (simp add: disk_checks_def b(1,2))
  then show ?thesis using media by (simp add: common list_all_iff) (simp add: disk_checks_def)
qed

subsection \<open>What a root commits to\<close>

lemma in_join:
  assumes "w \<in> set ws"
  shows "\<exists>pre post. join_char c ws = pre @ w @ post \<and> (pre = [] \<or> last pre = c)"
  using assms
proof (induction ws)
  case (Cons v vs)
  show ?case
  proof (cases "w = v")
    case True
    then show ?thesis
      by (intro exI [of _ "[]"] exI [of _ "concat (map ((#) c) vs)"]) (simp add: join_char_def)
  next
    case False
    then obtain u us where vs: "vs = u # us" using Cons.prems by (cases vs) auto
    obtain pre post where p: "join_char c vs = pre @ w @ post" "pre = [] \<or> last pre = c"
      using Cons.IH Cons.prems False by auto
    have "join_char c (v # vs) = (v @ c # pre) @ w @ post" using p(1) by (simp add: vs join_char_Cons)
    then show ?thesis using p(2) by (intro exI [of _ "v @ c # pre"] exI [of _ post]) auto
  qed
qed simp

lemma word_in_join:
  assumes "join_char c ws = pre @ w @ post" and "pre = [] \<or> last pre = c" and "c \<notin> set w" and "w \<noteq> []"
    and "\<forall>v \<in> set ws. c \<notin> set v"
  shows "\<exists>v \<in> set ws. \<exists>s. v = w @ s"
  using assms
proof (induction ws arbitrary: pre)
  case (Cons v vs)
  show ?case
  proof (cases vs)
    case Nil
    then have v: "v = pre @ w @ post" using Cons.prems(1) by simp
    then have "pre = []" using Cons.prems(2,5) by (metis last_in_set list.set_intros(1) set_append Un_iff)
    then show ?thesis using v by auto
  next
    case (Cons u us)
    then have eq: "v @ c # join_char c vs = pre @ (w @ post)" using Cons.prems(1) by (simp add: join_char_Cons)
    have cv: "c \<notin> set v" using Cons.prems(5) by simp
    from eq consider rest where "v = pre @ rest" "rest @ c # join_char c vs = w @ post"
      | rest where "v @ rest = pre" "c # join_char c vs = rest @ (w @ post)"
      by (auto simp: append_eq_append_conv2)
    then show ?thesis
    proof cases
      case 1
      have "pre = []" using Cons.prems(2) cv 1(1) by (metis Un_iff last_in_set set_append)
      then have "v @ c # join_char c vs = w @ post" using 1 by simp
      then obtain s where "v = w @ s" using Cons.prems(3)
        by (auto simp: append_eq_append_conv2 Cons_eq_append_conv)
      then show ?thesis by auto
    next
      case 2
      show ?thesis
      proof (cases rest)
        case Nil
        then have "pre = []" using Cons.prems(2) cv 2(1) by (metis append_Nil2 last_in_set)
        then show ?thesis using 2 Nil Cons.prems(3,4) by (cases w) auto
      next
        case (Cons d rest')
        then have "join_char c vs = rest' @ w @ post" using 2(2) by auto
        moreover have "rest' = [] \<or> last rest' = c" using 2 Cons Cons.prems(2) by (auto split: if_splits)
        ultimately show ?thesis using Cons.IH Cons.prems(3-5) by auto
      qed
    qed
  qed
qed simp

lemma join_join:
  "ws \<noteq> [] \<Longrightarrow> vs \<noteq> [] \<Longrightarrow> join_char c ws @ join_char c vs = join_char c (butlast ws @ (last ws @ hd vs) # tl vs)"
proof (induction ws)
  case (Cons w ws)
  show ?case
  proof (cases ws)
    case Nil
    then show ?thesis using Cons.prems(2) by (cases vs) (simp_all add: join_char_def)
  next
    case (Cons u us)
    have "butlast ws @ (last ws @ hd vs) # tl vs = x # xs \<Longrightarrow>
        join_char c (w # x # xs) = w @ c # join_char c (x # xs)" for x xs
      by (simp add: join_char_Cons)
    then show ?thesis using Cons.IH Cons.prems Cons
      by (cases "butlast ws @ (last ws @ hd vs) # tl vs") (auto simp: join_char_Cons)
  qed
qed simp


lemma hex_no_char:
  assumes "hexval c = None"
  shows "c \<notin> set (hex bs)"
  using hex_chars [of c bs] hexval_hexdigit assms by force

text \<open>A digest among the leaves of a joined text is a leaf of any other with the same text whose leaves
  are digests and whose inventory has frame labels.\<close>

lemma same_text_same_leaves:
  assumes eq: "join_char comma ls @ join_char comma ns = join_char comma ls' @ join_char comma (map frame_label is')"
    and w: "w \<in> set ls" "w = hex (sha256 x)"
    and honest: "ls' \<noteq> []" "is' \<noteq> []" "\<forall>l \<in> set ls'. \<exists>y. l = hex (sha256 y)"
  shows "w \<in> set ls'"
proof -
  have nc: "comma \<notin> set (hex bs)" for bs by (rule hex_no_char) (simp add: comma_def hexval_def)
  have len: "length (hex (sha256 y)) = 64" for y by simp
  have labels: "set (tl (map frame_label is')) \<subseteq> frame_label ` set is'" by (cases is') auto
  obtain pre post where p: "join_char comma ls = pre @ w @ post" "pre = [] \<or> last pre = comma"
    using in_join [OF w(1)] by blast
  let ?cs = "butlast ls' @ (last ls' @ hd (map frame_label is')) # tl (map frame_label is')"
  have "join_char comma ?cs = pre @ w @ (post @ join_char comma ns)"
    using eq p(1) join_join [of ls' "map frame_label is'" comma] honest(1,2) by simp
  moreover have "\<forall>v \<in> set ?cs. comma \<notin> set v"
  proof -
    have "comma \<notin> set (frame_label i)" for i
      using dec_int_chars [of i] by (auto simp: frame_label_def comma_def is_digit_def)
    moreover have "comma \<notin> set l" if "l \<in> set ls'" for l using honest(3) that nc by auto
    ultimately show ?thesis using honest(1,2)
      using labels by (auto simp: hd_map in_set_butlastD)
  qed
  moreover have "w \<noteq> []" using w(2) len [of x] by (metis list.size(3) zero_neq_numeral)
  moreover have "comma \<notin> set w" unfolding w(2) by (rule nc)
  ultimately obtain v s where v: "v \<in> set ?cs" "v = w @ s" using word_in_join p(2) by metis
  from v(1) consider "v \<in> set (butlast ls')" | "v = last ls' @ hd (map frame_label is')" | "v \<in> set (tl (map frame_label is'))"
    by auto
  then show ?thesis
  proof cases
    case 1
    then have "v \<in> set ls'" by (rule in_set_butlastD)
    then have "length v = 64" using honest(3) len by auto
    then have "s = []" using v(2) w(2) len by simp
    then show ?thesis using \<open>v \<in> set ls'\<close> v(2) by simp
  next
    case 2
    have "last ls' \<in> set ls'" using honest(1) by simp
    moreover from this have "length (last ls') = 64" using honest(3) len by auto
    ultimately show ?thesis using 2 v(2) w(2) len by (metis append_eq_append_conv)
  next
    case 3
    then obtain i where "v = frame_label i" using labels by auto
    then have "(w @ s) ! 1 = CHR ''r''" using v(2) by (simp add: frame_label_def)
    then have "w ! 1 = CHR ''r''" using w(2) len by (simp add: nth_append)
    then have "CHR ''r'' \<in> set w" using w(2) len by (metis nth_mem one_less_numeral_iff order_less_trans semiring_norm(76) zero_less_one)
    moreover have "CHR ''r'' \<notin> set w" unfolding w(2) by (rule hex_no_char) (simp add: hexval_def)
    ultimately show ?thesis by simp
  qed
qed

definition opt_list :: "'a res \<Rightarrow> 'a list" where "opt_list m = (case m of Inl e \<Rightarrow> [] | Inr x \<Rightarrow> [x])"

text \<open>The bytes that were hashed for a package: of its root and of the leaves of the given rows.\<close>

definition escrow_preimages :: "escrow \<Rightarrow> (int \<times> string) list \<Rightarrow> bytes list" where
  "escrow_preimages e rows =
     opt_list (root_input (ew_session_id e) (ew_l0_chain_tip_hex e) (ew_leaf_hashes e) (ew_inventory e))
     @ concat (map (\<lambda>(i, fh). opt_list (leaf_input (ew_session_id e) (ew_device_id_hex e) i fh)) rows)"

definition archive_rows :: "archive \<Rightarrow> (int \<times> string) list" where
  "archive_rows ar =
     (case ar_chain ar of None \<Rightarrow> [] | Some l0 \<Rightarrow> map (\<lambda>f. (lf_frame_index f, lf_frame_hash_hex f)) (lc_frames l0))"

lemma leaf_input_inj:
  assumes "leaf_input sid dev i fh = Inr m" and "leaf_input sid' dev' i' fh' = Inr m"
  shows "sid = sid' \<and> fromhex dev = fromhex dev' \<and> i = i' \<and> fromhex fh = fromhex fh'"
proof -
  obtain d h where a: "fromhex dev = Inr d" "length d = 32" "fromhex fh = Inr h" "length h = 32" "0 \<le> i" "i < 256 ^ 4"
    "m = DOMAIN_LEAF @ encode sid @ d @ be_bytes 4 (nat i) @ h"
    using assms(1) by (auto simp: leaf_input_def res_iff)
  obtain d' h' where b: "fromhex dev' = Inr d'" "length d' = 32" "fromhex fh' = Inr h'" "length h' = 32" "0 \<le> i'" "i' < 256 ^ 4"
    "m = DOMAIN_LEAF @ encode sid' @ d' @ be_bytes 4 (nat i') @ h'"
    using assms(2) by (auto simp: leaf_input_def res_iff)
  have eq: "encode sid @ (d @ be_bytes 4 (nat i) @ h) = encode sid' @ (d' @ be_bytes 4 (nat i') @ h')"
    using a(7) b(7) by simp
  have "length (d @ be_bytes 4 (nat i) @ h) = length (d' @ be_bytes 4 (nat i') @ h')" using a b by simp
  with eq have parts: "encode sid = encode sid'" "d @ be_bytes 4 (nat i) @ h = d' @ be_bytes 4 (nat i') @ h'"
    by (simp_all add: append_eq_append_conv)
  then have "d = d'" "be_bytes 4 (nat i) = be_bytes 4 (nat i')" "h = h'" using a b by auto
  moreover have "nat i < 256 ^ 4" "nat i' < 256 ^ 4" using a(5,6) b(5,6) by (simp_all add: nat_less_iff)
  ultimately have "nat i = nat i'" using be_bytes_inj by blast
  then show ?thesis using parts(1) \<open>d = d'\<close> \<open>h = h'\<close> a b by (simp add: encode_inj)
qed

lemma verified_escrow:
  assumes "verify_escrow e None"
  obtains root where "root_input (ew_session_id e) (ew_l0_chain_tip_hex e) (ew_leaf_hashes e) (ew_inventory e) = Inr root"
    and "ew_commitment_root e = hex (sha256 root)"
    and "\<And>r. r \<in> set (ew_revealed e) \<Longrightarrow> leaf_check e r = Inr True"
proof -
  obtain root leaves where r: "root_input (ew_session_id e) (ew_l0_chain_tip_hex e) (ew_leaf_hashes e) (ew_inventory e) = Inr root"
    "ew_commitment_root e = hex (sha256 root)" "mapE (leaf_check e) (ew_revealed e) = Inr leaves" "list_all id leaves"
    using assms by (auto simp: verify_escrow_def escrow_checks_def compute_commitment_root_def res_iff split: sum.splits)
  have "leaf_check e r = Inr True" if "r \<in> set (ew_revealed e)" for r
    using r(3,4) that unfolding mapE_Inr by (fastforce simp: list_all2_conv_all_nth in_set_conv_nth list_all_length)
  then show ?thesis using that r(1,2) by blast
qed

lemma leaf_check_True:
  assumes "leaf_check e r = Inr True"
  obtains m where "leaf_input (ew_session_id e) (ew_device_id_hex e) (rv_frame_index r) (rv_frame_hash_hex r) = Inr m"
    and "hex (sha256 m) \<in> set (ew_leaf_hashes e)"
  using assms by (auto simp: leaf_check_def compute_leaf_def res_iff)

lemma honest_leaf:
  assumes "indexed_leaf l0 (rows_by_index (lc_frames l0)) i = Inr leaf"
  obtains f m where "f \<in> set (lc_frames l0)" and "lf_frame_index f = i" and "leaf = hex (sha256 m)"
    and "leaf_input (lc_session_id l0) (lc_device_id_hex l0) i (lf_frame_hash_hex f) = Inr m"
proof -
  obtain f m where "dget (rows_by_index (lc_frames l0)) i = Some f" "leaf = hex (sha256 m)"
    "leaf_input (lc_session_id l0) (lc_device_id_hex l0) i (lf_frame_hash_hex f) = Inr m"
    using assms by (auto simp: indexed_leaf_def compute_leaf_def res_iff split: option.splits)
  then show ?thesis using rows_by_index_Some that by blast
qed

lemma root_inputs_agree:
  assumes "root_input sid tip ls ns = Inr m" and "root_input sid tip ls' ns' = Inr m"
  shows "join_char comma (sort ls) @ join_char comma (sort ns) = join_char comma (sort ls') @ join_char comma (sort ns')"
proof -
  have enc: "encode a @ encode b = encode (a @ b)" for a b by (simp add: encode_def)
  show ?thesis using assms by (auto simp: root_input_def res_iff enc encode_inj)
qed

lemma committed:
  assumes built: "build_escrow ar reveal reason case_id external_ref include_media ts = Inr e0"
    and ok: "verify_escrow e None"
    and same: "ew_session_id e = ew_session_id e0" "ew_l0_chain_tip_hex e = ew_l0_chain_tip_hex e0"
      "ew_commitment_root e = ew_commitment_root e0"
    and r: "r \<in> set (ew_revealed e)"
  shows "(\<exists>l0 f data. ar_chain ar = Some l0 \<and> f \<in> set (lc_frames l0) \<and> lf_frame_index f = rv_frame_index r
        \<and> dget (ar_files ar) (lf_file f) = Some data \<and> fromhex (rv_frame_hash_hex r) = Inr (sha256 data))
    \<or> (\<exists>x \<in> set (escrow_preimages e (map (\<lambda>r. (rv_frame_index r, rv_frame_hash_hex r)) (ew_revealed e))).
        \<exists>y \<in> set (escrow_preimages e0 (archive_rows ar)). sha256_collision x y)" (is "?shown \<or> ?collision")
proof -
  obtain l0 leaves where b: "load_l0_chain ar = Inr l0" "verify_l0_archive ar l0 = Inr True"
    "mapE (indexed_leaf l0 (rows_by_index (lc_frames l0))) (sort (dkeys (rows_by_index (lc_frames l0)))) = Inr leaves"
    "compute_commitment_root (ew_session_id e0) (ew_l0_chain_tip_hex e0) leaves
        (map frame_label (sort (dkeys (rows_by_index (lc_frames l0))))) = Inr (ew_commitment_root e0)"
    "ew_session_id e0 = lc_session_id l0" "ew_device_id_hex e0 = lc_device_id_hex l0"
    "ew_leaf_hashes e0 = sort leaves" "ew_inventory e0 = sort (map frame_label (sort (dkeys (rows_by_index (lc_frames l0)))))"
    using build_escrow_Inr [OF built] by metis
  have chain: "ar_chain ar = Some l0" "lc_frames l0 \<noteq> []"
    using b(1) by (auto simp: load_l0_chain_def res_iff split: option.splits)
  obtain m where m: "root_input (ew_session_id e) (ew_l0_chain_tip_hex e) (ew_leaf_hashes e) (ew_inventory e) = Inr m"
    "ew_commitment_root e = hex (sha256 m)" "leaf_check e r = Inr True"
    using verified_escrow [OF ok] r by metis
  obtain m0 where m0: "root_input (ew_session_id e0) (ew_l0_chain_tip_hex e0) (ew_leaf_hashes e0) (ew_inventory e0) = Inr m0"
    "ew_commitment_root e0 = hex (sha256 m0)"
    using b(4) unfolding b(7,8) sorted_root [symmetric, of _ _ leaves]
    by (auto simp: compute_commitment_root_def res_iff)
  obtain x where x: "leaf_input (ew_session_id e) (ew_device_id_hex e) (rv_frame_index r) (rv_frame_hash_hex r) = Inr x"
    "hex (sha256 x) \<in> set (ew_leaf_hashes e)"
    using leaf_check_True [OF m(3)] .
  have pre: "m \<in> set (escrow_preimages e (map (\<lambda>r. (rv_frame_index r, rv_frame_hash_hex r)) (ew_revealed e)))"
    "x \<in> set (escrow_preimages e (map (\<lambda>r. (rv_frame_index r, rv_frame_hash_hex r)) (ew_revealed e)))"
    "m0 \<in> set (escrow_preimages e0 (archive_rows ar))"
    using m(1) m0(1) x(1) r by (force simp: escrow_preimages_def opt_list_def)+
  have "sha256 m = sha256 m0" using m(2) m0(2) same(3) by (simp add: hex_inj)
  then consider "m = m0" | "sha256_collision m m0" using sha256_eq_cases by blast
  then show ?thesis
  proof cases
    case 1
    let ?ids = "sort (dkeys (rows_by_index (lc_frames l0)))"
    have joined: "join_char comma (sort (ew_leaf_hashes e)) @ join_char comma (sort (ew_inventory e))
        = join_char comma (sort leaves) @ join_char comma (sort (map frame_label ?ids))"
      using root_inputs_agree [OF m(1)] m0(1) 1 unfolding same(1,2) b(7,8) by (simp add: sorted_sort_id)
    have "\<forall>v \<in> set (sort (map frame_label ?ids)). \<exists>i. v = frame_label i" by auto
    then obtain is' where ids: "sort (map frame_label ?ids) = map frame_label is'"
      unfolding ex_map_conv [symmetric] by blast
    have "rows_by_index (lc_frames l0) \<noteq> []"
    proof -
      obtain f fs where fs: "lc_frames l0 = fs @ [f]" using chain(2) by (metis rev_exhaust)
      have "dget (rows_by_index (fs @ [f])) (lf_frame_index f) = Some f" by (simp add: rows_by_index_def)
      then show ?thesis using fs by auto
    qed
    then have "?ids \<noteq> []" by (simp add: dkeys_def)
    then have "is' \<noteq> []" using ids by auto
    moreover have "sort leaves \<noteq> []" using leaf_of_index(3) [OF b(3)] \<open>?ids \<noteq> []\<close> by auto
    moreover have "\<forall>l \<in> set (sort leaves). \<exists>y. l = hex (sha256 y)"
      using leaf_of_index(2) [OF b(3)] honest_leaf by (metis set_sort)
    ultimately have "hex (sha256 x) \<in> set (sort leaves)"
      using same_text_same_leaves [of "sort (ew_leaf_hashes e)" "sort (ew_inventory e)" "sort leaves" is' "hex (sha256 x)" x]
        joined ids x(2) by simp
    then obtain i where "indexed_leaf l0 (rows_by_index (lc_frames l0)) i = Inr (hex (sha256 x))"
      using leaf_of_index(2) [OF b(3)] by auto
    then obtain f y where f: "f \<in> set (lc_frames l0)" "lf_frame_index f = i" "hex (sha256 x) = hex (sha256 y)"
      "leaf_input (lc_session_id l0) (lc_device_id_hex l0) i (lf_frame_hash_hex f) = Inr y"
      using honest_leaf by blast
    then consider "x = y" | "sha256_collision x y" using sha256_eq_cases by (auto simp: hex_inj)
    then show ?thesis
    proof cases
      case 1
      then have "i = rv_frame_index r" "fromhex (rv_frame_hash_hex r) = fromhex (lf_frame_hash_hex f)"
        using leaf_input_inj [OF x(1)] f(4) by auto
      moreover obtain data where "dget (ar_files ar) (lf_file f) = Some data" "hex (sha256 data) = lf_frame_hash_hex f"
        using verified_archive [OF b(2)] disk_frames f(1) by metis
      ultimately have ?shown using chain(1) f(1,2) fromhex_hex by metis
      then show ?thesis ..
    next
      case 2
      have "(i, lf_frame_hash_hex f) \<in> set (archive_rows ar)" using chain(1) f(1,2) by (force simp: archive_rows_def)
      then have "y \<in> set (escrow_preimages e0 (archive_rows ar))"
        using f(4) b(5,6) by (force simp: escrow_preimages_def opt_list_def)
      then show ?thesis using 2 pre(2) by blast
    qed
  next
    case 2
    then show ?thesis using pre(1,3) by blast
  qed
qed

text \<open>
  C24: A revealed frame was committed: when a package that someone presents verifies and has the session,
  tip and root of a package that the builder made from an archive, every frame it reveals is a frame of that archive, under the same index and
  with the hash of the file on disk, or two of the bytes hashed for the two packages collide. (Leaves and
  inventory are joined into the root without lengths, yet this leaves no second reading.)
\<close>

theorem revealed_frames_were_committed:
  assumes "build_escrow ar reveal reason case_id external_ref include_media ts = Inr e0"
    and "verify_escrow e None"
    and "ew_session_id e = ew_session_id e0" and "ew_l0_chain_tip_hex e = ew_l0_chain_tip_hex e0"
    and "ew_commitment_root e = ew_commitment_root e0" and "r \<in> set (ew_revealed e)"
  shows "(\<exists>l0 f data. ar_chain ar = Some l0 \<and> f \<in> set (lc_frames l0) \<and> lf_frame_index f = rv_frame_index r
        \<and> dget (ar_files ar) (lf_file f) = Some data \<and> fromhex (rv_frame_hash_hex r) = Inr (sha256 data))
    \<or> (\<exists>x \<in> set (escrow_preimages e (map (\<lambda>r. (rv_frame_index r, rv_frame_hash_hex r)) (ew_revealed e))).
        \<exists>y \<in> set (escrow_preimages e0 (archive_rows ar)). sha256_collision x y)"
  by (rule committed [OF assms])

subsection \<open>A package of an archive\<close>

definition demo_l0 :: "bytes list \<Rightarrow> l0_chain" where
  "demo_l0 chain = \<lparr>lc_session_id = ''s'', lc_device_id_hex = hex (replicate 32 7), lc_genesis_ts_ns = 4,
     lc_frames = [\<lparr>lf_frame_index = 0, lf_file = ''f0'', lf_frame_hash_hex = hex (sha256 [1, 2]), lf_ts_ns = 5, lf_source = []\<rparr>],
     lc_chain_hex = map hex chain\<rparr>"

definition demo_archive :: "bytes list \<Rightarrow> archive" where
  "demo_archive chain = \<lparr>ar_chain = Some (demo_l0 chain), ar_files = [(''f0'', [1, 2])]\<rparr>"

lemma mapE_fromhex: "mapE fromhex (map hex bss) = Inr bss"
  by (induction bss) (simp_all add: fromhex_hex)

lemma demo_archive_verifies:
  "\<exists>g h. length h = 32 \<and> verify_l0_archive (demo_archive [g, h]) (demo_l0 [g, h]) = Inr True"
proof -
  obtain m where m: "manifest_genesis_input ''s'' (hex (replicate 32 7)) 4 = Inr m"
    by (simp add: manifest_genesis_input_def fromhex_hex pack_u_def)
  let ?h = "sha256 (manifest_preimage (sha256 m) (sha256 [1, 2], 0, 5))"
  have "compute_manifest_entry (sha256 m) (sha256 [1, 2]) 0 5 = Inr ?h" by (simp add: entry_Inr manifest_link_ok_def)
  then have "verify_session_chain ''s'' (hex (replicate 32 7)) 4 [(sha256 [1, 2], 5)] [sha256 m, ?h]"
    using m by (simp add: verify_session_chain_def build_session_chain_def genesis_manifest_hash_def)
  then have "verify_l0_archive (demo_archive [sha256 m, ?h]) (demo_l0 [sha256 m, ?h]) = Inr True"
    by (simp add: verify_l0_archive_def demo_archive_def demo_l0_def fromhex_hex)
  then show ?thesis by (meson length_sha256)
qed

lemma demo_escrow:
  "\<exists>chain e. build_escrow (demo_archive chain) [0] ''disputed kill'' [] [] False 9 = Inr e \<and> ew_revealed e \<noteq> []"
proof -
  obtain g h where gh: "length h = 32" "verify_l0_archive (demo_archive [g, h]) (demo_l0 [g, h]) = Inr True"
    using demo_archive_verifies by blast
  have load: "load_l0_chain (demo_archive [g, h]) = Inr (demo_l0 [g, h])"
    by (simp add: load_l0_chain_def demo_archive_def demo_l0_def)
  have reason: "strip ''disputed kill'' = ''disputed kill''" by code_simp
  show ?thesis
    by (intro exI [of _ "[g, h]"])
      (simp add: build_escrow_def reason load gh, simp add: demo_l0_def rows_by_index_def dkeys_def indexed_leaf_def
        reveal_row_def compute_leaf_def leaf_input_def compute_commitment_root_def root_input_def fromhex_hex gh(1))
qed

theorem revealed_frames_were_committed_witness:
  "\<exists>chain e r. verify_escrow e None \<and> r \<in> set (ew_revealed e)
     \<and> ((\<exists>l0 f data. ar_chain (demo_archive chain) = Some l0 \<and> f \<in> set (lc_frames l0) \<and> lf_frame_index f = rv_frame_index r
          \<and> dget (ar_files (demo_archive chain)) (lf_file f) = Some data \<and> fromhex (rv_frame_hash_hex r) = Inr (sha256 data))
        \<or> (\<exists>x \<in> set (escrow_preimages e (map (\<lambda>r. (rv_frame_index r, rv_frame_hash_hex r)) (ew_revealed e))).
             \<exists>y \<in> set (escrow_preimages e (archive_rows (demo_archive chain))). sha256_collision x y))"
proof -
  obtain chain e where e: "build_escrow (demo_archive chain) [0] ''disputed kill'' [] [] False 9 = Inr e" "ew_revealed e \<noteq> []"
    using demo_escrow by blast
  then obtain r where r: "r \<in> set (ew_revealed e)" by (cases "ew_revealed e") auto
  have ok: "verify_escrow e None" using built_package [OF e(1)] by simp
  from revealed_frames_were_committed [OF e(1) ok refl refl refl r] show ?thesis using ok r by blast
qed

subsection \<open>What is not bound\<close>

text \<open>The index in a row of the manifest is no part of its chain.\<close>

lemma frame_labels_are_not_bound:
  "verify_l0_archive ar (l0\<lparr>lc_frames := map (\<lambda>f. f\<lparr>lf_frame_index := g f\<rparr>) (lc_frames l0)\<rparr>) = verify_l0_archive ar l0"
proof -
  have "frames_on_disk ar (map (\<lambda>f. f\<lparr>lf_frame_index := g f\<rparr>) fs) = frames_on_disk ar fs" for fs
    by (induction fs) (auto split: option.split)
  then show ?thesis by (simp add: verify_l0_archive_def cong: option.case_cong)
qed

subsection \<open>Bindings\<close>

lemma norm_hex32_Inr: "norm_hex32 v label = Inr s \<Longrightarrow> s = [] \<or> length s = 64"
  by (auto simp: norm_hex32_def Let_def split: sum.splits if_splits)

lemma load_tip_Inr: "load_tip_hex files src = Inr (s, label) \<Longrightarrow> s = [] \<or> length s = 64"
  using norm_hex32_Inr
  by (auto simp: load_tip_hex_def Let_def res_iff split: option.splits if_splits json.splits)

lemma lower_lower [simp]: "lower (lower s) = lower s"
  by (simp add: lower_def lower_char_def Let_def of_char_of)

lemma built_bind:
  assumes "build_bind ar files kind poac gic require ts = Inr sb"
  shows "verify_bind sb None" and "verify_bind sb (Some ar)"
    and "ar_chain ar = Some l0 \<Longrightarrow> sb_session_id sb = lc_session_id l0 \<and> sb_l0_chain_tip_hex sb = lower (last (lc_chain_hex l0))"
    and "require \<Longrightarrow> sb_bind_ok sb
    \<and> (needs_poac (sb_bind_kind sb) \<longrightarrow> length (sb_poac_tip_hex sb) = 64)
    \<and> (needs_gic (sb_bind_kind sb) \<longrightarrow> length (sb_gic_tip_hex sb) = 64)"
proof -
  obtain k m0 p ps g gs where b: "k \<in> set BIND_KINDS" "load_l0_chain ar = Inr m0" "verify_l0_archive ar m0 = Inr True"
    "load_tip_hex files poac = Inr (p, ps)" "load_tip_hex files gic = Inr (g, gs)"
    "require \<longrightarrow> bind_succeeds k (p \<noteq> []) (g \<noteq> [])"
    "sb = \<lparr>sb_schema = BIND_SCHEMA, sb_session_id = lc_session_id m0, sb_l0_chain_tip_hex = lower (last (lc_chain_hex m0)),
       sb_bind_kind = k, sb_poac_tip_hex = p, sb_gic_tip_hex = g, sb_poac_source = ps, sb_gic_source = gs,
       sb_algorithm = BIND_ALGORITHM, sb_bind_ok = bind_succeeds k (p \<noteq> []) (g \<noteq> []), sb_created_ts_ns = ts\<rparr>"
    using assms unfolding build_bind_def Let_def by (auto simp: res_iff)
  have k: "k \<noteq> []" using b(1) by (auto simp: BIND_KINDS_def)
  have tips: "length p = 64 \<longleftrightarrow> p \<noteq> []" "length g = 64 \<longleftrightarrow> g \<noteq> []"
    using load_tip_Inr [OF b(4)] load_tip_Inr [OF b(5)] by auto
  have "verify_bind sb ar'" if "ar' = None \<or> ar' = Some ar" for ar'
    using that k b(1-3) by (auto simp: b(7) verify_bind_def bind_checks_def Let_def tips bind_succeeds_def)
  then show "verify_bind sb None" "verify_bind sb (Some ar)" by simp_all
  have chain: "ar_chain ar = Some m0" using b(2) by (auto simp: load_l0_chain_def res_iff split: option.splits)
  show "sb_session_id sb = lc_session_id l0 \<and> sb_l0_chain_tip_hex sb = lower (last (lc_chain_hex l0))"
    if "ar_chain ar = Some l0" using that chain by (simp add: b(7))
  show "sb_bind_ok sb \<and> (needs_poac (sb_bind_kind sb) \<longrightarrow> length (sb_poac_tip_hex sb) = 64)
      \<and> (needs_gic (sb_bind_kind sb) \<longrightarrow> length (sb_gic_tip_hex sb) = 64)" if require
    using that b(6) tips by (auto simp: b(7) bind_succeeds_def)
qed

text \<open>
  C25: What is built from an archive verifies, on its own and against the archive: the escrow package with
  its root, leaves, revealed frames and files; the binding, whatever tips it found; and the two attached
  to each other, which the attachment accepts.
\<close>

theorem packages_of_an_archive_verify:
  assumes "build_escrow ar reveal reason case_id external_ref include_media ts = Inr e"
    and "build_bind ar files kind poac gic require ts' = Inr sb"
  shows "verify_escrow e None \<and> verify_escrow e (Some ar) \<and> verify_bind sb None \<and> verify_bind sb (Some ar)
    \<and> (\<exists>e'. attach_bind e sb = Inr e' \<and> verify_escrow e' None \<and> verify_escrow e' (Some ar))"
proof -
  note e = built_package [OF assms(1)] and sb = built_bind [OF assms(2)]
  obtain l0 where l0: "load_l0_chain ar = Inr l0" "ew_session_id e = lc_session_id l0" "ew_l0_chain_tip_hex e = last (lc_chain_hex l0)"
    using build_escrow_Inr [OF assms(1)] by metis
  have plain: "ew_session_bind e = None" using build_escrow_Inr [OF assms(1)] by metis
  have "ar_chain ar = Some l0" using l0(1) by (auto simp: load_l0_chain_def res_iff split: option.splits)
  then have "attach_bind e sb = Inr (e\<lparr>ew_session_bind := Some sb\<rparr>)"
    using sb(3) l0 by (simp add: attach_bind_def)
  moreover have "verify_escrow (e\<lparr>ew_session_bind := Some sb\<rparr>) ar'"
    if "verify_escrow e ar'" "verify_bind sb ar'" for ar'
  proof -
    have rows: "ew_revealed (e\<lparr>ew_session_bind := Some sb\<rparr>) = ew_revealed e" by simp
    have "leaf_check (e\<lparr>ew_session_bind := Some sb\<rparr>) = leaf_check e" by (simp add: leaf_check_def fun_eq_iff)
    moreover have "disk_checks (e\<lparr>ew_session_bind := Some sb\<rparr>) x = disk_checks e x" for x
      unfolding disk_checks_def rows by (rule refl)
    ultimately have "escrow_checks (e\<lparr>ew_session_bind := Some sb\<rparr>) ar'
        = bindE (escrow_checks e ar') (\<lambda>cs. Inr (cs @ [verify_bind sb ar']))"
      using plain by (simp add: escrow_checks_def bindE_def split: sum.split)
    then show ?thesis using that by (auto simp: verify_escrow_def split: sum.splits)
  qed
  ultimately show ?thesis using e sb(1,2) by blast
qed

lemma demo_bind:
  "verify_l0_archive (demo_archive chain) (demo_l0 chain) = Inr True \<Longrightarrow> chain \<noteq> [] \<Longrightarrow>
     \<exists>sb. build_bind (demo_archive chain) (\<lambda>s. None) ''none'' None None True 9 = Inr sb"
proof -
  assume ok: "verify_l0_archive (demo_archive chain) (demo_l0 chain) = Inr True" "chain \<noteq> []"
  then have load: "load_l0_chain (demo_archive chain) = Inr (demo_l0 chain)"
    by (simp add: load_l0_chain_def demo_archive_def demo_l0_def)
  have kind: "lower (strip ''none'') = ''none''" "strip [] = []" by code_simp+
  show ?thesis
    by (simp add: build_bind_def kind load ok load_tip_hex_def BIND_KINDS_def needs_poac_def needs_gic_def bind_succeeds_def)
qed

theorem packages_of_an_archive_verify_witness:
  "\<exists>chain e sb. verify_escrow e (Some (demo_archive chain)) \<and> verify_bind sb (Some (demo_archive chain)) \<and> ew_revealed e \<noteq> []"
proof -
  obtain chain e where e: "build_escrow (demo_archive chain) [0] ''disputed kill'' [] [] False 9 = Inr e" "ew_revealed e \<noteq> []"
    using demo_escrow by blast
  obtain l0 where l0: "load_l0_chain (demo_archive chain) = Inr l0" "verify_l0_archive (demo_archive chain) l0 = Inr True"
    using build_escrow_Inr [OF e(1)] by metis
  then have "l0 = demo_l0 chain" "chain \<noteq> []"
    by (auto simp: load_l0_chain_def demo_archive_def demo_l0_def res_iff)
  then obtain sb where "build_bind (demo_archive chain) (\<lambda>s. None) ''none'' None None True 9 = Inr sb"
    using demo_bind l0(2) by blast
  from packages_of_an_archive_verify [OF e(1) this] show ?thesis using e(2) by blast
qed

end
