(* ===== verification/LogScan.thy ===== *)
theory LogScan
  imports Bytes
begin

section \<open>Scanning the chain for events\<close>

text \<open>
  \<open>eth_logs_chunked.py\<close>, and of \<open>chain.py\<close> the lookup of a device's registration that scans with it.
  What a call of the node answers is an argument: \<open>fetch n a b\<close> is the answer to the call made after \<open>n\<close>
  others, for the blocks \<open>a\<close> to \<open>b\<close>. The loop may run forever, so it is an option: \<open>None\<close> when it does not
  return. The waits between attempts are not modelled.
\<close>

datatype log_scan_outcome = SCAN_COMPLETE_FOUND | SCAN_COMPLETE_EMPTY | SCAN_FAILED

record 'l log_scan =
  ls_outcome :: log_scan_outcome
  ls_logs :: "'l list"
  ls_error :: "string option"

type_synonym 'l fetcher = "nat \<Rightarrow> int \<Rightarrow> int \<Rightarrow> 'l list res"

function fetch_with_retries :: "'l fetcher \<Rightarrow> int \<Rightarrow> int \<Rightarrow> int \<Rightarrow> int \<Rightarrow> nat \<Rightarrow> nat \<times> 'l list res" where
  "fetch_with_retries fetch max_retries a b attempt n =
     (case fetch n a b of
        Inr logs \<Rightarrow> (Suc n, Inr logs)
      | Inl e \<Rightarrow> if max_retries < attempt + 1 then (Suc n, Inl e)
                else fetch_with_retries fetch max_retries a b (attempt + 1) (Suc n))"
  by pat_completeness auto

termination
  by (relation "measure (\<lambda>(_, retries, _, _, attempt, _). nat (retries - attempt))") auto

declare fetch_with_retries.simps [simp del]

definition scan_result :: "'l list \<Rightarrow> 'l log_scan" where
  "scan_result logs =
     \<lparr>ls_outcome = (if logs = [] then SCAN_COMPLETE_EMPTY else SCAN_COMPLETE_FOUND), ls_logs = logs, ls_error = None\<rparr>"

definition scan_failed :: "py_exc \<Rightarrow> 'l log_scan" where
  "scan_failed e = \<lparr>ls_outcome = SCAN_FAILED, ls_logs = [], ls_error = Some (exc_msg e)\<rparr>"

partial_function (option) scan_from ::
  "'l fetcher \<Rightarrow> int \<Rightarrow> int \<Rightarrow> int \<Rightarrow> int \<Rightarrow> 'l list \<Rightarrow> nat \<Rightarrow> (nat \<times> 'l log_scan) option" where
  "scan_from fetch chunk_size max_retries end_limit start all_logs n =
     (if end_limit < start then Some (n, scan_result all_logs)
      else
        (let chunk_end = min (start + chunk_size - 1) end_limit in
         case fetch_with_retries fetch max_retries start chunk_end 0 n of
           (n', Inl e) \<Rightarrow> Some (n', scan_failed e)
         | (n', Inr logs) \<Rightarrow> scan_from fetch chunk_size max_retries end_limit (chunk_end + 1) (all_logs @ logs) n'))"

text \<open>The number of calls made, and the result.\<close>

definition scan_event_logs_chunked :: "'l fetcher \<Rightarrow> int \<Rightarrow> int \<Rightarrow> int \<Rightarrow> int \<Rightarrow> (nat \<times> 'l log_scan) option" where
  "scan_event_logs_chunked fetch from_block to_block chunk_size max_retries =
     (if to_block < from_block then Some (0, scan_result [])
      else scan_from fetch chunk_size max_retries to_block from_block [] 0)"

subsection \<open>The registration of a device\<close>

record poep_event =
  pv_gamer :: string
  pv_commitment :: bytes

text \<open>What the lookup reads: whether the registry is configured and the node there, the first block, the
  head, the events of a device, and whether a registration is valid.\<close>

record poep_registry =
  pr_configured :: bool
  pr_deploy_block :: int
  pr_block_number :: "int res"
  pr_fetch :: "poep_event fetcher"
  pr_valid :: "string \<Rightarrow> bool res"

definition scan_poep_device_registered_events :: "poep_registry \<Rightarrow> (nat \<times> poep_event log_scan) res option" where
  "scan_poep_device_registered_events pr =
     (if \<not> pr_configured pr then Some (Inr (0, scan_failed (PyExc [] ''registry unavailable'')))
      else (case pr_block_number pr of
              Inl e \<Rightarrow> Some (Inl e)
            | Inr head \<Rightarrow> map_option Inr (scan_event_logs_chunked (pr_fetch pr) (pr_deploy_block pr) head 1000 2)))"

definition zero_commitment :: bytes where "zero_commitment = replicate 32 0"

text \<open>The commitment the returned reader holds, the outcome of the scan and its error.\<close>

definition read_commitment ::
  "poep_registry \<Rightarrow> poep_event log_scan \<Rightarrow> (bytes option \<times> log_scan_outcome option \<times> string option) res" where
  "read_commitment pr scan =
     (case ls_outcome scan of
        SCAN_FAILED \<Rightarrow> Inr (None, Some SCAN_FAILED, ls_error scan)
      | SCAN_COMPLETE_EMPTY \<Rightarrow> Inr (None, Some SCAN_COMPLETE_EMPTY, None)
      | SCAN_COMPLETE_FOUND \<Rightarrow>
          (let ev = last (ls_logs scan); c = pv_commitment ev in
           if c = [] \<or> c = zero_commitment then Inr (None, Some SCAN_COMPLETE_FOUND, None)
           else bindE (pr_valid pr (pv_gamer ev)) (\<lambda>ok.
             Inr (if ok then Some c else None, Some SCAN_COMPLETE_FOUND, None))))"

definition lookup_poep_device_for_composability ::
  "poep_registry \<Rightarrow> (bytes option \<times> log_scan_outcome option \<times> string option) option" where
  "lookup_poep_device_for_composability pr =
     (if \<not> pr_configured pr then Some (None, None, None)
      else map_option (\<lambda>m.
             case bindE m (\<lambda>(n, scan). read_commitment pr scan) of
               Inl e \<Rightarrow> (None, Some SCAN_FAILED, Some (exc_msg e))
             | Inr r \<Rightarrow> r)
           (scan_poep_device_registered_events pr))"

subsection \<open>One chunk\<close>

text \<open>A chunk fails only after all its attempts have, one after the other.\<close>

lemma fetch_with_retries_cases:
  "0 \<le> attempt \<Longrightarrow> fetch_with_retries fetch max_retries a b attempt n = (n', m) \<Longrightarrow>
     n < n' \<and> (\<forall>i. n \<le> i \<and> Suc i < n' \<longrightarrow> raised (fetch i a b)) \<and> m = fetch (n' - 1) a b
     \<and> int (n' - n) \<le> max 1 (max_retries + 1 - attempt) \<and> (raised m \<longrightarrow> int (n' - n) = max 1 (max_retries + 1 - attempt))"
proof (induction fetch max_retries a b attempt n rule: fetch_with_retries.induct)
  case (1 fetch max_retries a b attempt n)
  show ?case
  proof (cases "fetch n a b")
    case (Inr logs)
    have "fetch_with_retries fetch max_retries a b attempt n = (Suc n, Inr logs)"
      by (subst fetch_with_retries.simps) (simp add: Inr)
    then show ?thesis using 1(3) Inr by auto
  next
    case (Inl e)
    show ?thesis
    proof (cases "max_retries < attempt + 1")
      case True
      then show ?thesis using 1(3) Inl by (auto simp: fetch_with_retries.simps)
    next
      case False
      then have rest: "fetch_with_retries fetch max_retries a b (attempt + 1) (Suc n) = (n', m)"
        using 1(3) Inl by (simp add: fetch_with_retries.simps)
      have IH: "Suc n < n' \<and> (\<forall>i. Suc n \<le> i \<and> Suc i < n' \<longrightarrow> raised (fetch i a b)) \<and> m = fetch (n' - 1) a b
        \<and> int (n' - Suc n) \<le> max 1 (max_retries + 1 - (attempt + 1))
        \<and> (raised m \<longrightarrow> int (n' - Suc n) = max 1 (max_retries + 1 - (attempt + 1)))"
        by (rule 1(1) [OF Inl False _ rest]) (use 1(2) in simp)
      have first: "raised (fetch n a b)" using Inl by simp
      have "raised (fetch i a b)" if "n \<le> i \<and> Suc i < n'" for i
        using that first IH by (cases "i = n") auto
      then show ?thesis using IH False by (auto simp: of_nat_diff max_def split: if_splits)
    qed
  qed
qed

subsection \<open>The whole scan\<close>

definition attempts :: "int \<Rightarrow> nat" where "attempts max_retries = nat (max 1 (max_retries + 1))"

definition chunks :: "int \<Rightarrow> int \<Rightarrow> int \<Rightarrow> nat" where
  "chunks step start limit = (if limit < start then 0 else Suc (nat ((limit - start) div step)))"

text \<open>The answers that succeed hold the logs of their blocks.\<close>

definition serves :: "'l fetcher \<Rightarrow> (int \<Rightarrow> 'l list) \<Rightarrow> bool" where
  "serves fetch block_logs \<longleftrightarrow> (\<forall>n a b logs. fetch n a b = Inr logs \<longrightarrow> logs = concat (map block_logs [a..b]))"

definition exhausted :: "'l fetcher \<Rightarrow> int \<Rightarrow> bool" where
  "exhausted fetch max_retries \<longleftrightarrow> (\<exists>m a b. \<forall>i < attempts max_retries. raised (fetch (m + i) a b))"

lemma chunks_step:
  assumes "1 \<le> step" and "start \<le> limit"
  shows "chunks step start limit = Suc (chunks step (min (start + step - 1) limit + 1) limit)"
proof (cases "start + step \<le> limit")
  case True
  have "(limit - start) div step = ((limit - (start + step)) + step) div step" by (simp add: algebra_simps)
  also have "\<dots> = (limit - (start + step)) div step + 1" using assms(1) by (simp only: div_add_self2)
  finally have "(limit - start) div step = (limit - (start + step)) div step + 1" .
  moreover have "0 \<le> (limit - (start + step)) div step" using True assms(1) by (simp add: pos_imp_zdiv_nonneg_iff)
  ultimately show ?thesis using True assms by (simp add: chunks_def min_def nat_add_distrib)
next
  case False
  then have "(limit - start) div step = 0" using assms by simp
  then show ?thesis using False assms by (simp add: chunks_def min_def)
qed

lemma failed_chunk:
  assumes "fetch_with_retries fetch max_retries a b 0 n = (n', Inl e)"
  shows "exhausted fetch max_retries"
proof -
  note c = fetch_with_retries_cases [OF order_refl assms, unfolded diff_0_right]
  have "int (n' - n) = max 1 (max_retries + 1)" using c by simp
  then have len: "n' - n = attempts max_retries" unfolding attempts_def by (metis nat_int)
  have "raised (fetch (n + i) a b)" if "i < attempts max_retries" for i
  proof (cases "Suc (n + i) < n'")
    case False
    then have "n + i = n' - 1" using that len c by simp
    then show ?thesis using c by (metis raised_simps(1))
  qed (use c in simp)
  then show ?thesis unfolding exhausted_def by blast
qed

lemma scan_from_returns:
  assumes "1 \<le> step"
  shows "\<exists>n' r. scan_from fetch step max_retries limit start acc n = Some (n', r)
    \<and> n' \<le> n + chunks step start limit * attempts max_retries
    \<and> (ls_outcome r = SCAN_FAILED \<longrightarrow> ls_logs r = [] \<and> exhausted fetch max_retries)
    \<and> (ls_outcome r \<noteq> SCAN_FAILED \<and> serves fetch block_logs
        \<longrightarrow> r = scan_result (acc @ concat (map block_logs [start..limit])))"
proof (induction "chunks step start limit" arbitrary: start acc n)
  case 0
  then have over: "limit < start" by (simp add: chunks_def split: if_splits)
  show ?case using over by (subst scan_from.simps) (simp add: scan_result_def)
next
  case (Suc k)
  then have on: "start \<le> limit" by (auto simp: chunks_def split: if_splits)
  define stop where "stop = min (start + step - 1) limit"
  have k: "k = chunks step (stop + 1) limit" using chunks_step [OF assms on] Suc(2) by (simp add: stop_def)
  have stop: "start \<le> stop" "stop \<le> limit" using on assms by (auto simp: stop_def)
  obtain m res where f: "fetch_with_retries fetch max_retries start stop 0 n = (m, res)" by fastforce
  note c = fetch_with_retries_cases [OF order_refl f, unfolded diff_0_right]
  have "int (m - n) \<le> max 1 (max_retries + 1)" using c by (elim conjE)
  then have calls: "m \<le> n + attempts max_retries" unfolding attempts_def by linarith
  have unfold: "scan_from fetch step max_retries limit start acc n =
      (case res of Inl e \<Rightarrow> Some (m, scan_failed e)
       | Inr logs \<Rightarrow> scan_from fetch step max_retries limit (stop + 1) (acc @ logs) m)"
    using on f by (subst scan_from.simps) (auto simp: stop_def Let_def split: sum.split)
  show ?case
  proof (cases res)
    case (Inl e)
    have "m \<le> n + chunks step start limit * attempts max_retries" using calls by (simp flip: Suc(2))
    then show ?thesis using unfold Inl failed_chunk [OF f [unfolded Inl]] by (simp add: scan_failed_def)
  next
    case (Inr logs)
    have part: "concat (map block_logs [start..limit]) = logs @ concat (map block_logs [stop + 1..limit])"
      if "serves fetch block_logs"
    proof -
      have "fetch (m - 1) start stop = Inr logs" using c Inr by simp
      then have "logs = concat (map block_logs [start..stop])" using that unfolding serves_def by blast
      moreover have "[start..limit] = [start..stop] @ [stop + 1..limit]"
        using upto_split2 [of start stop limit] stop by simp
      ultimately show ?thesis by simp
    qed
    obtain n' r where IH: "scan_from fetch step max_retries limit (stop + 1) (acc @ logs) m = Some (n', r)"
      "n' \<le> m + k * attempts max_retries"
      "ls_outcome r = SCAN_FAILED \<longrightarrow> ls_logs r = [] \<and> exhausted fetch max_retries"
      "ls_outcome r \<noteq> SCAN_FAILED \<and> serves fetch block_logs
        \<longrightarrow> r = scan_result ((acc @ logs) @ concat (map block_logs [stop + 1..limit]))"
      using Suc(1) [OF k, of "acc @ logs" m] k by metis
    have "n' \<le> n + Suc k * attempts max_retries" using IH(2) calls by simp
    then show ?thesis using unfold Inr IH part Suc(2) by auto
  qed
qed

lemma chunked_scan:
  assumes "1 \<le> chunk_size"
  obtains n r where "scan_event_logs_chunked fetch from_block to_block chunk_size max_retries = Some (n, r)"
    and "n \<le> chunks chunk_size from_block to_block * attempts max_retries"
    and "ls_outcome r = SCAN_FAILED \<longrightarrow> ls_logs r = [] \<and> exhausted fetch max_retries"
    and "ls_outcome r \<noteq> SCAN_FAILED \<and> serves fetch block_logs
      \<longrightarrow> r = scan_result (concat (map block_logs [from_block..to_block]))"
proof (cases "to_block < from_block")
  case True
  show ?thesis by (rule that [of 0 "scan_result []"]) (use True in \<open>simp_all add: scan_event_logs_chunked_def scan_result_def\<close>)
next
  case False
  then show ?thesis
    using scan_from_returns [OF assms, of fetch max_retries to_block from_block "[]" 0 block_logs] that
    by (auto simp: scan_event_logs_chunked_def)
qed

text \<open>
  C36: With a positive chunk size the scan returns, after at most the number of chunks times the attempts
  each may take.
\<close>

theorem chunked_scan_returns:
  assumes "1 \<le> chunk_size"
  shows "\<exists>n r. scan_event_logs_chunked fetch from_block to_block chunk_size max_retries = Some (n, r)
    \<and> n \<le> chunks chunk_size from_block to_block * attempts max_retries"
  by (rule chunked_scan [OF assms]) blast

theorem chunked_scan_returns_witness:
  "\<exists>n r. scan_event_logs_chunked (\<lambda>n a b. if even n then Inl (ValueError ''timeout'') else Inr [a, b]) 1 2500 1000 2
     = Some (n, r :: int log_scan) \<and> n \<le> 9"
  using chunked_scan_returns [of 1000 "\<lambda>n a b. if even n then Inl (ValueError ''timeout'') else Inr [a, b]" 1 2500 2]
  by (simp add: chunks_def attempts_def)

lemma chunked_scan_all:
  assumes "1 \<le> chunk_size" and "serves fetch block_logs"
    and "scan_event_logs_chunked fetch from_block to_block chunk_size max_retries = Some (n, r)"
  shows "r = scan_result (concat (map block_logs [from_block..to_block]))
    \<or> (ls_outcome r = SCAN_FAILED \<and> ls_logs r = [] \<and> exhausted fetch max_retries)"
  using chunked_scan [OF assms(1), of fetch from_block to_block max_retries block_logs] assms(2,3)
  by (metis option.inject prod.inject)

text \<open>
  C17: Reading in chunks is reading at once: when the answers that succeed hold the logs of their blocks,
  whatever fails in between, a scan that does not report failure has exactly the logs of all blocks, in
  order, each once, and is empty exactly when there are none; it reports failure, with no logs, only when
  as many calls in a row as it has attempts have failed.
\<close>

theorem chunked_scan_reads_all:
  assumes "1 \<le> chunk_size" and "serves fetch block_logs"
    and "scan_event_logs_chunked fetch from_block to_block chunk_size max_retries = Some (n, r)"
  shows "r = scan_result (concat (map block_logs [from_block..to_block]))
    \<or> (ls_outcome r = SCAN_FAILED \<and> ls_logs r = [] \<and> exhausted fetch max_retries)"
  by (rule chunked_scan_all [OF assms])

definition flaky_fetch :: "int fetcher" where
  "flaky_fetch n a b = (if even n then Inl (ValueError ''timeout'') else Inr (concat (map (\<lambda>i. [i]) [a..b])))"

theorem chunked_scan_reads_all_witness:
  "\<exists>n r. scan_event_logs_chunked flaky_fetch 1 2500 1000 2 = Some (n, r)
     \<and> ls_outcome r = SCAN_COMPLETE_FOUND \<and> ls_logs r = [1..2500]"
proof -
  obtain n r where ret: "scan_event_logs_chunked flaky_fetch 1 2500 1000 2 = Some (n, r)"
    by (rule chunked_scan [of 1000 flaky_fetch 1 2500 2]) simp
  have good: "serves flaky_fetch (\<lambda>i. [i])" by (auto simp: serves_def flaky_fetch_def split: if_splits)
  have "\<not> exhausted flaky_fetch 2"
  proof
    assume "exhausted flaky_fetch 2"
    then obtain m a b where all: "\<forall>i < 3. raised (flaky_fetch (m + i) a b)" by (auto simp: exhausted_def attempts_def)
    have "raised (flaky_fetch m a b)" "raised (flaky_fetch (m + 1) a b)" using all [rule_format, of 0] all [rule_format, of 1] by simp_all
    then show False by (simp add: flaky_fetch_def raised_def split: if_splits)
  qed
  then have "r = scan_result (concat (map (\<lambda>i. [i]) [1..2500]))"
    using chunked_scan_reads_all [OF _ good ret] by auto
  moreover have "concat (map (\<lambda>i. [i]) xs) = xs" for xs :: "int list" by (induction xs) auto
  moreover have "[1..2500 :: int] \<noteq> []" by simp
  ultimately show ?thesis using ret by (auto simp: scan_result_def simp del: upto.simps)
qed

subsection \<open>A chunk size that is not positive\<close>

lemma scan_from_stuck:
  assumes ret: "scan_from fetch chunk_size max_retries limit start acc n = Some res"
    and "chunk_size \<le> 0" and "start \<le> limit"
  shows "\<exists>n a b. raised (fetch n a b)"
proof -
  have "chunk_size \<le> 0 \<longrightarrow> start \<le> limit \<longrightarrow> (\<exists>n a b. raised (fetch n a b))"
  proof (rule scan_from.raw_induct [where P = "\<lambda>fetch chunk_size max_retries limit start acc n res.
        chunk_size \<le> 0 \<longrightarrow> start \<le> limit \<longrightarrow> (\<exists>n a b. raised (fetch n a b))", OF _ ret], intro impI)
    fix f and fetch :: "'a fetcher" and chunk_size max_retries limit start and acc :: "'a list" and n y
    assume IH: "\<And>fetch chunk_size max_retries limit start acc n y.
        f fetch chunk_size max_retries limit start acc n = Some y \<Longrightarrow>
        chunk_size \<le> 0 \<longrightarrow> start \<le> limit \<longrightarrow> (\<exists>n a b. raised (fetch n a b))"
      and eq: "(if limit < start then Some (n, scan_result acc)
         else let chunk_end = min (start + chunk_size - 1) limit in
           case fetch_with_retries fetch max_retries start chunk_end 0 n of
             (n', Inl e) \<Rightarrow> Some (n', scan_failed e)
           | (n', Inr logs) \<Rightarrow> f fetch chunk_size max_retries limit (chunk_end + 1) (acc @ logs) n') = Some y"
      and bad: "chunk_size \<le> 0" "start \<le> limit"
    define stop where "stop = min (start + chunk_size - 1) limit"
    obtain m res where got: "fetch_with_retries fetch max_retries start stop 0 n = (m, res)" by fastforce
    show "\<exists>n a b. raised (fetch n a b)"
    proof (cases res)
      case (Inl e)
      then show ?thesis using fetch_with_retries_cases [OF order_refl got] by (metis raised_simps(1))
    next
      case (Inr logs)
      then have "f fetch chunk_size max_retries limit (stop + 1) (acc @ logs) m = Some y"
        using eq got bad by (simp add: stop_def [symmetric] Let_def)
      moreover have "stop + 1 \<le> limit" using bad by (auto simp: stop_def)
      ultimately show ?thesis using IH bad(1) by blast
    qed
  qed
  then show ?thesis using assms(2,3) by blast
qed

text \<open>
  With a chunk size of zero or less the scan of a range that is not empty never returns as long as
  the node answers: the next chunk starts no later than the one before.
\<close>

theorem chunk_size_zero_never_returns:
  assumes "chunk_size \<le> 0" and "from_block \<le> to_block" and "\<forall>n a b. \<not> raised (fetch n a b)"
  shows "scan_event_logs_chunked fetch from_block to_block chunk_size max_retries = None"
proof (rule ccontr)
  assume "scan_event_logs_chunked fetch from_block to_block chunk_size max_retries \<noteq> None"
  then obtain res where "scan_from fetch chunk_size max_retries to_block from_block [] 0 = Some res"
    using assms(2) by (auto simp: scan_event_logs_chunked_def)
  from scan_from_stuck [OF this assms(1,2)] show False using assms(3) by blast
qed

theorem chunk_size_zero_never_returns_witness:
  "scan_event_logs_chunked (\<lambda>n a b. Inr [n]) 1 5 0 2 = None"
  by (rule chunk_size_zero_never_returns) simp_all

subsection \<open>The lookup\<close>

text \<open>
  The lookup always returns, and a reader it returns holds the commitment of the device's latest
  registration on the chain up to the head it read, which is 32 bytes not all zero and valid when asked;
  an empty scan means there are no events, and a failure that the node kept failing.
\<close>

theorem lookup_reads_latest_registration:
  assumes "serves (pr_fetch pr) events" and "pr_configured pr" and "pr_block_number pr = Inr head"
  shows "\<exists>logs who outcome err. logs = concat (map events [pr_deploy_block pr..head])
    \<and> lookup_poep_device_for_composability pr = Some (who, outcome, err)
    \<and> (\<forall>c. who = Some c \<longrightarrow> outcome = Some SCAN_COMPLETE_FOUND \<and> logs \<noteq> [] \<and> c = pv_commitment (last logs)
         \<and> c \<noteq> [] \<and> c \<noteq> zero_commitment \<and> pr_valid pr (pv_gamer (last logs)) = Inr True)
    \<and> (outcome = Some SCAN_COMPLETE_EMPTY \<longrightarrow> logs = [])
    \<and> (outcome = Some SCAN_FAILED \<longrightarrow>
         exhausted (pr_fetch pr) 2 \<or> (logs \<noteq> [] \<and> raised (pr_valid pr (pv_gamer (last logs)))))"
proof -
  define logs where "logs = concat (map events [pr_deploy_block pr..head])"
  obtain n r where ret: "scan_event_logs_chunked (pr_fetch pr) (pr_deploy_block pr) head 1000 2 = Some (n, r)"
    by (rule chunked_scan [of 1000 "pr_fetch pr" "pr_deploy_block pr" head 2]) simp
  have "r = scan_result logs \<or> (ls_outcome r = SCAN_FAILED \<and> ls_logs r = [] \<and> exhausted (pr_fetch pr) 2)"
    unfolding logs_def by (rule chunked_scan_all [OF _ assms(1) ret]) simp
  moreover have "lookup_poep_device_for_composability pr =
      Some (case read_commitment pr r of Inl e \<Rightarrow> (None, Some SCAN_FAILED, Some (exc_msg e)) | Inr x \<Rightarrow> x)"
    using ret assms(2,3) by (simp add: lookup_poep_device_for_composability_def scan_poep_device_registered_events_def)
  ultimately show ?thesis
    unfolding logs_def [symmetric]
    by (cases "pr_valid pr (pv_gamer (last logs))")
      (auto simp: read_commitment_def scan_result_def Let_def)
qed

definition demo_registry :: poep_registry where
  "demo_registry = \<lparr>pr_configured = True, pr_deploy_block = 0, pr_block_number = Inr 5000,
     pr_fetch = (\<lambda>n a b. if n = 1 then Inl (ValueError ''timeout'')
        else Inr (concat (map (\<lambda>i. if i = 4000 then [\<lparr>pv_gamer = ''g'', pv_commitment = [7]\<rparr>] else []) [a..b]))),
     pr_valid = (\<lambda>g. Inr True)\<rparr>"

theorem lookup_reads_latest_registration_witness:
  "\<exists>who outcome err. lookup_poep_device_for_composability demo_registry = Some (who, outcome, err)
     \<and> outcome \<noteq> Some SCAN_FAILED"
proof -
  let ?ev = "\<lambda>i. if i = 4000 then [\<lparr>pv_gamer = ''g'', pv_commitment = [7]\<rparr>] else []"
  have "serves (pr_fetch demo_registry) ?ev" by (auto simp: serves_def demo_registry_def split: if_splits)
  moreover have "\<not> exhausted (pr_fetch demo_registry) 2"
  proof
    assume "exhausted (pr_fetch demo_registry) 2"
    then obtain m a b where all: "\<forall>i < 3. raised (pr_fetch demo_registry (m + i) a b)"
      by (auto simp: exhausted_def attempts_def)
    have "raised (pr_fetch demo_registry m a b)" "raised (pr_fetch demo_registry (m + 1) a b)"
      using all [rule_format, of 0] all [rule_format, of 1] by simp_all
    then show False by (simp add: demo_registry_def raised_def split: if_splits)
  qed
  moreover have "\<not> raised (pr_valid demo_registry g)" for g by (simp add: demo_registry_def)
  ultimately show ?thesis
    using lookup_reads_latest_registration [of demo_registry ?ev 5000] by (auto simp: demo_registry_def)
qed

end
