(* ===== verification/SessionBoundary.thy ===== *)
theory SessionBoundary
  imports Enforcement Capture ActivePlay
begin

section \<open>Detecting the end of a session\<close>

text \<open>
  \<open>session_boundary_detector_agent.py\<close> with the two queries of the store it adds: one tick of the agent
  that asks for a ruling when a session has ended, its recovery after a restart, and runs of both. A row
  of the records is a dictionary with the time it was stored; the frame checkpoints of a device are read
  by an argument, which may raise. The reasons of a refusal keep their fixed text. The monotonic clock of
  a process is the time of day less an offset that a restart changes.
\<close>

record sb_cfg =
  sb_enabled :: bool
  sb_min_interval_s :: int
  sb_quiescence_window :: int
  sb_activity_window :: int
  sb_grind_session_id :: string
  sb_grind_target :: int
  sb_apop_enabled :: bool
  sb_apop_gate_mode :: "string option"

record detector =
  dt_last_fire_at :: real
  dt_fires_this_run :: nat
  dt_stopped :: bool

text \<open>What a tick reads: the grind tables, the live monitor, the health log, the records, the checkpoints.\<close>

record sb_world =
  wo_grind :: grind_db
  wo_monitor :: "(pcc_cfg \<times> monitor) option"
  wo_health :: "health_row list"
  wo_records :: "(real \<times> jdict) list"
  wo_checkpoints :: "string \<Rightarrow> jdict list res"

definition DETECTOR :: string where "DETECTOR = ''session_boundary_detector_agent''"

definition get_last_sbd_fire_ts :: "event_row list \<Rightarrow> real option" where
  "get_last_sbd_fire_ts evs =
     map_option ev_created_at (first_row (order_desc ev_created_at
       (filter (\<lambda>e. ev_type e = ''ruling_request'' \<and> ev_source e = DETECTOR) evs)))"

text \<open>
  \<open>wall\<close> and \<open>mt\<close> are the two readings of the recovery; \<open>fails\<close> says that its query raises, which is
  logged and leaves the time of the last fire at nought.
\<close>

definition detector_init :: "bool \<Rightarrow> event_row list \<Rightarrow> real \<Rightarrow> real \<Rightarrow> detector" where
  "detector_init fails evs wall mt =
     \<lparr>dt_last_fire_at = (if fails then 0
        else case get_last_sbd_fire_ts evs of None \<Rightarrow> 0 | Some t \<Rightarrow> mt - (wall - t)),
      dt_fires_this_run = 0, dt_stopped = False\<rparr>"

definition get_recent_records :: "(real \<times> jdict) list \<Rightarrow> int \<Rightarrow> jdict list" where
  "get_recent_records rows limit = map snd (sql_limit limit (order_desc fst rows))"

text \<open>\<open>xs[:n]\<close> and \<open>xs[n:]\<close>\<close>

definition slice_to :: "int \<Rightarrow> 'a list \<Rightarrow> 'a list" where
  "slice_to n xs = take (if n < 0 then nat (int (length xs) + n) else nat n) xs"

definition slice_from :: "int \<Rightarrow> 'a list \<Rightarrow> 'a list" where
  "slice_from n xs = drop (if n < 0 then nat (int (length xs) + n) else nat n) xs"

subsection \<open>One decision\<close>

datatype sb_verdict = Fire | Skip string

fun any_trigger :: "jdict list \<Rightarrow> bool res" where
  "any_trigger [] = Inr False"
| "any_trigger (r # rs) = bindE (trigger_active r) (\<lambda>b. if b then Inr True else any_trigger rs)"

definition row_device :: "jdict \<Rightarrow> string" where
  "row_device r = (case jget r ''device_id'' of JStr s \<Rightarrow> s | _ \<Rightarrow> [])"

definition apop_activity :: "sb_world \<Rightarrow> jdict list \<Rightarrow> bool res" where
  "apop_activity w look =
     (let dev = (case look of [] \<Rightarrow> [] | r # _ \<Rightarrow> row_device r) in
      bindE (if dev = [] then Inr [] else wo_checkpoints w dev) (\<lambda>checkpoints.
      bindE (classify_active_play_occupancy look checkpoints) (\<lambda>apop.
        Inr (ap_state apop \<in> set APOP_COMPETITIVE_STATES \<or> ap_state apop = ''MATCH_TRANSITION''))))"

definition apop_gated :: "sb_cfg \<Rightarrow> bool" where
  "apop_gated cfg \<longleftrightarrow> sb_apop_enabled cfg \<and> normalize_active_play_gate_mode (sb_apop_gate_mode cfg) \<noteq> ''shadow''"

definition session_ended :: "sb_cfg \<Rightarrow> sb_world \<Rightarrow> sb_verdict res" where
  "session_ended cfg w =
     (let q = sb_quiescence_window cfg;
          recent = get_recent_records (wo_records w) (q + sb_activity_window cfg);
          look = slice_from q recent
      in if int (length recent) < q then Inr (Skip ''bridge starting up'')
         else
           bindE (count_triggers (slice_to q recent)) (\<lambda>k.
           if 0 < k then Inr (Skip ''quiescence not yet'')
           else
             bindE (any_trigger look) (\<lambda>played.
             if played then Inr Fire
             else if apop_gated cfg then
               (case apop_activity w look of
                  Inl e \<Rightarrow> Inr (Skip ''APOP activity check failed'')
                | Inr b \<Rightarrow> Inr (if b then Fire else Skip ''no gameplay activity in lookback''))
             else Inr (Skip ''no gameplay activity in lookback''))))"

text \<open>The capture and host state, from the live monitor when there is one.\<close>

definition pcc_reading :: "sb_world \<Rightarrow> real \<Rightarrow> real \<Rightarrow> string \<times> string" where
  "pcc_reading w mt wall =
     (case wo_monitor w of
        Some (pcfg, m) \<Rightarrow>
          (let st = snd (get_status pcfg m mt wall) in (capture_name (st_capture st), host_name (st_host st)))
      | None \<Rightarrow> (let st = get_capture_health_status (wo_health w) 10 wall in (he_capture st, he_host st)))"

definition elapsed :: "detector \<Rightarrow> real \<Rightarrow> real" where
  "elapsed d mt = (if dt_last_fire_at d \<noteq> 0 then mt - dt_last_fire_at d else 9999)"

definition evaluate_boundary :: "sb_cfg \<Rightarrow> sb_world \<Rightarrow> real \<Rightarrow> real \<Rightarrow> detector \<Rightarrow> detector \<times> sb_verdict res" where
  "evaluate_boundary cfg w mt wall d =
     (if \<not> sb_enabled cfg then (d, Inr (Skip ''auto_trigger_enabled=False''))
      else
        (case get_grind_chain_status (wo_grind w) (sb_grind_session_id cfg) of
           Inl e \<Rightarrow> (d, Inr (Skip ''grind_chain_status query failed''))
         | Inr st \<Rightarrow>
             if sb_grind_target cfg \<le> int (gs_chain_length st)
             then (d\<lparr>dt_stopped := True\<rparr>, Inr (Skip ''GIC target reached; self-stop''))
             else
               (let (capture, host) = pcc_reading w mt wall in
                if capture \<noteq> ''NOMINAL'' then (d, Inr (Skip ''PCC capture_state''))
                else if host \<notin> {''EXCLUSIVE_USB'', ''UNKNOWN''} then (d, Inr (Skip ''PCC host_state''))
                else if elapsed d mt < of_int (sb_min_interval_s cfg) then (d, Inr (Skip ''throttled''))
                else (d, session_ended cfg w))))"

subsection \<open>One tick\<close>

definition current_device_id :: "sb_world \<Rightarrow> string" where
  "current_device_id w = (case get_recent_records (wo_records w) 1 of [] \<Rightarrow> [] | r # _ \<Rightarrow> row_device r)"

text \<open>The event is written at the time \<open>wall\<close>, unless that raises, and the fire noted at \<open>mt\<close>.\<close>

definition fire_trigger :: "bool \<Rightarrow> string \<Rightarrow> real \<Rightarrow> real \<Rightarrow> detector \<Rightarrow> enf_db \<Rightarrow> detector \<times> enf_db" where
  "fire_trigger write_fails dev wall mt d db =
     (if dev = [] \<or> write_fails then (d, db)
      else (d\<lparr>dt_last_fire_at := mt, dt_fires_this_run := dt_fires_this_run d + 1\<rparr>,
            write_event ''ruling_request'' (Payload dev None None None) DETECTOR dev ''session_adjudicator'' wall db))"

text \<open>A tick at the time \<open>t1\<close>, which writes at \<open>t2\<close> and reads the clock again at \<open>t3\<close>; a stopped detector
  sleeps, an exception ends the cycle.\<close>

definition boundary_tick ::
  "sb_cfg \<Rightarrow> sb_world \<Rightarrow> bool \<Rightarrow> real \<times> real \<times> real \<Rightarrow> real \<Rightarrow> detector \<times> enf_db \<Rightarrow> detector \<times> enf_db" where
  "boundary_tick cfg w write_fails readings offset s =
     (let (d, db) = s; (t1, t2, t3) = readings in
      if dt_stopped d then (d, db)
      else
        (case evaluate_boundary cfg w (t1 - offset) t1 d of
           (d1, Inr Fire) \<Rightarrow> fire_trigger write_fails (current_device_id w) t2 (t3 - offset) d1 db
         | (d1, _) \<Rightarrow> (d1, db)))"

subsection \<open>When it fires\<close>

text \<open>The documented conditions, over the rows from the newest on.\<close>

definition idle :: "jdict \<Rightarrow> bool" where "idle r \<longleftrightarrow> trigger_active r = Inr False"

definition readable :: "jdict \<Rightarrow> bool" where "readable r \<longleftrightarrow> \<not> raised (trigger_active r)"

lemma count_triggers_idle:
  "list_all readable rs \<Longrightarrow> \<exists>k. count_triggers rs = Inr k \<and> (k = 0 \<longleftrightarrow> list_all idle rs)"
proof (induction rs)
  case Nil
  then show ?case by simp
next
  case (Cons r rs)
  then obtain k b where "count_triggers rs = Inr k" "k = 0 \<longleftrightarrow> list_all idle rs" "trigger_active r = Inr b"
    by (auto simp: readable_def not_raised_iff)
  then show ?case by (cases b) (auto simp: idle_def [of r])
qed

lemma any_trigger_readable:
  "list_all readable rs \<Longrightarrow> any_trigger rs = Inr (\<not> list_all idle rs)"
proof (induction rs)
  case (Cons r rs)
  then obtain b where "trigger_active r = Inr b" by (auto simp: readable_def not_raised_iff)
  then show ?case using Cons by (cases b) (auto simp: idle_def [of r])
qed simp

definition newest :: "sb_world \<Rightarrow> jdict list" where "newest w = map snd (order_desc fst (wo_records w))"

definition windows_ok :: "sb_cfg \<Rightarrow> bool" where
  "windows_ok cfg \<longleftrightarrow> 0 \<le> sb_quiescence_window cfg \<and> 0 \<le> sb_activity_window cfg"

lemma recent_newest:
  "windows_ok cfg \<Longrightarrow> get_recent_records (wo_records w) (sb_quiescence_window cfg + sb_activity_window cfg)
     = take (nat (sb_quiescence_window cfg) + nat (sb_activity_window cfg)) (newest w)"
  by (simp add: get_recent_records_def newest_def sql_limit_def windows_ok_def take_map nat_add_distrib)

definition tail_rows :: "sb_cfg \<Rightarrow> sb_world \<Rightarrow> jdict list" where
  "tail_rows cfg w = take (nat (sb_quiescence_window cfg)) (newest w)"

definition lookback_rows :: "sb_cfg \<Rightarrow> sb_world \<Rightarrow> jdict list" where
  "lookback_rows cfg w = take (nat (sb_activity_window cfg)) (drop (nat (sb_quiescence_window cfg)) (newest w))"

lemma session_ended_iff:
  assumes "windows_ok cfg" and "list_all readable (newest w)"
  shows "session_ended cfg w = Inr Fire \<longleftrightarrow>
     sb_quiescence_window cfg \<le> int (length (newest w)) \<and> list_all idle (tail_rows cfg w)
     \<and> (\<not> list_all idle (lookback_rows cfg w) \<or> (apop_gated cfg \<and> apop_activity w (lookback_rows cfg w) = Inr True))"
proof -
  obtain q a where q: "sb_quiescence_window cfg = int q" "sb_activity_window cfg = int a"
    using assms(1) unfolding windows_ok_def by (metis nonneg_int_cases)
  let ?recent = "take (q + a) (newest w)"
  have recent: "get_recent_records (wo_records w) (int q + int a) = ?recent"
    using recent_newest [OF assms(1), of w] q by simp
  have tail: "slice_to (int q) ?recent = tail_rows cfg w"
    by (simp add: slice_to_def tail_rows_def q take_take)
  have look: "slice_from (int q) ?recent = lookback_rows cfg w"
    by (simp add: slice_from_def lookback_rows_def q drop_take)
  have read: "list_all readable (tail_rows cfg w)" "list_all readable (lookback_rows cfg w)"
    using assms(2) by (auto simp: tail_rows_def lookback_rows_def list_all_iff dest!: in_set_takeD in_set_dropD)
  obtain k where k: "count_triggers (tail_rows cfg w) = Inr k" "k = 0 \<longleftrightarrow> list_all idle (tail_rows cfg w)"
    using count_triggers_idle [OF read(1)] by blast
  have enough: "int (length ?recent) < int q \<longleftrightarrow> \<not> q \<le> length (newest w)" by auto
  show ?thesis
    unfolding session_ended_def Let_def q recent tail look enough k(1) any_trigger_readable [OF read(2)] of_nat_le_iff
    using k(2) by (auto split: sum.splits if_splits)
qed

definition may_fire :: "sb_cfg \<Rightarrow> sb_world \<Rightarrow> real \<Rightarrow> real \<Rightarrow> detector \<Rightarrow> bool" where
  "may_fire cfg w mt wall d \<longleftrightarrow>
     sb_enabled cfg
     \<and> (\<exists>st. get_grind_chain_status (wo_grind w) (sb_grind_session_id cfg) = Inr st \<and> int (gs_chain_length st) < sb_grind_target cfg)
     \<and> fst (pcc_reading w mt wall) = ''NOMINAL'' \<and> snd (pcc_reading w mt wall) \<in> {''EXCLUSIVE_USB'', ''UNKNOWN''}
     \<and> of_int (sb_min_interval_s cfg) \<le> elapsed d mt"

lemma evaluate_Fire:
  "snd (evaluate_boundary cfg w mt wall d) = Inr Fire \<longleftrightarrow> may_fire cfg w mt wall d \<and> session_ended cfg w = Inr Fire"
  by (auto simp: evaluate_boundary_def may_fire_def Let_def not_less split: sum.splits prod.splits if_splits)

lemma evaluate_detector:
  "fst (evaluate_boundary cfg w mt wall d) = d \<or>
   fst (evaluate_boundary cfg w mt wall d) = d\<lparr>dt_stopped := True\<rparr> \<and> snd (evaluate_boundary cfg w mt wall d) \<noteq> Inr Fire"
  by (auto simp: evaluate_boundary_def Let_def split: sum.splits prod.splits if_splits)

text \<open>A tick either leaves the table and the time of the last fire, or fires.\<close>

lemma tick_cases:
  obtains (quiet) "snd (boundary_tick cfg w f (t1, t2, t3) off (d, db)) = db"
      "dt_last_fire_at (fst (boundary_tick cfg w f (t1, t2, t3) off (d, db))) = dt_last_fire_at d"
      "\<not> (may_fire cfg w (t1 - off) t1 d \<and> session_ended cfg w = Inr Fire
         \<and> \<not> dt_stopped d \<and> \<not> f \<and> current_device_id w \<noteq> [])"
    | (fires) "boundary_tick cfg w f (t1, t2, t3) off (d, db) =
        (d\<lparr>dt_last_fire_at := t3 - off, dt_fires_this_run := dt_fires_this_run d + 1\<rparr>,
         write_event ''ruling_request'' (Payload (current_device_id w) None None None) DETECTOR
           (current_device_id w) ''session_adjudicator'' t2 db)"
      "may_fire cfg w (t1 - off) t1 d" "session_ended cfg w = Inr Fire"
      "\<not> dt_stopped d" "\<not> f" "current_device_id w \<noteq> []"
proof (cases "dt_stopped d \<or> snd (evaluate_boundary cfg w (t1 - off) t1 d) \<noteq> Inr Fire")
  case True
  obtain d1 v where e: "evaluate_boundary cfg w (t1 - off) t1 d = (d1, v)" by fastforce
  have "boundary_tick cfg w f (t1, t2, t3) off (d, db) = (if dt_stopped d then d else d1, db)"
    using True e by (auto simp: boundary_tick_def split: sum.splits sb_verdict.splits)
  moreover have "dt_last_fire_at d1 = dt_last_fire_at d"
    using evaluate_detector [of cfg w "t1 - off" t1 d] e by auto
  ultimately show ?thesis using True evaluate_Fire [of cfg w "t1 - off" t1 d] by (intro quiet) auto
next
  case False
  then have ev: "evaluate_boundary cfg w (t1 - off) t1 d = (d, Inr Fire)"
    using evaluate_detector [of cfg w "t1 - off" t1 d] by (metis prod.collapse)
  have ok: "may_fire cfg w (t1 - off) t1 d" "session_ended cfg w = Inr Fire"
    using False evaluate_Fire by blast+
  show ?thesis
  proof (cases "current_device_id w = [] \<or> f")
    case True
    then show ?thesis using quiet ev False by (auto simp: boundary_tick_def fire_trigger_def)
  next
    case no: False
    then show ?thesis using fires ev False ok by (auto simp: boundary_tick_def fire_trigger_def)
  qed
qed

lemma request_iff:
  assumes "windows_ok cfg" and "list_all readable (newest w)"
  shows "en_events (snd (boundary_tick cfg w False (t1, t2, t3) off (d, db))) \<noteq> en_events db \<longleftrightarrow>
     \<not> dt_stopped d \<and> current_device_id w \<noteq> [] \<and> may_fire cfg w (t1 - off) t1 d
     \<and> sb_quiescence_window cfg \<le> int (length (newest w)) \<and> list_all idle (tail_rows cfg w)
     \<and> (\<not> list_all idle (lookback_rows cfg w) \<or> (apop_gated cfg \<and> apop_activity w (lookback_rows cfg w) = Inr True))"
  using session_ended_iff [OF assms]
  by (cases rule: tick_cases [of cfg w False t1 t2 t3 off d db]) (auto simp: write_event_def)

text \<open>
  C19: A tick asks for a ruling exactly when the conditions of the code hold, the reads of the store
  succeeding: automatic triggering is on, the chain is readable and short of its target, capture is
  nominal on an exclusive or unknown host, the interval has passed, the quiescence window is filled and
  idle, and among the rows before it at least one shows a trigger, or play as the occupancy classifier
  sees it where its gate is not in shadow mode, with a device to name and the detector not stopped. One
  active row is enough: the share of 20 per cent that the module's text asks for is not checked.
\<close>

theorem requests_at_session_end:
  assumes "windows_ok cfg" and "list_all readable (newest w)"
  shows "en_events (snd (boundary_tick cfg w False (t1, t2, t3) off (d, db))) \<noteq> en_events db \<longleftrightarrow>
     \<not> dt_stopped d \<and> current_device_id w \<noteq> [] \<and> may_fire cfg w (t1 - off) t1 d
     \<and> sb_quiescence_window cfg \<le> int (length (newest w)) \<and> list_all idle (tail_rows cfg w)
     \<and> (\<not> list_all idle (lookback_rows cfg w) \<or> (apop_gated cfg \<and> apop_activity w (lookback_rows cfg w) = Inr True))"
  by (rule request_iff [OF assms])

subsection \<open>One session end, several requests\<close>

lemma still_in_lookback:
  assumes "\<not> idle (newest w ! i)" and "i < length (newest w)" and "sb_quiescence_window cfg \<le> int i"
    and "newest w' = later @ newest w" and "int (i + length later) < sb_quiescence_window cfg + sb_activity_window cfg"
    and "windows_ok cfg"
  shows "\<not> list_all idle (lookback_rows cfg w')"
proof -
  obtain q a where q: "sb_quiescence_window cfg = int q" "sb_activity_window cfg = int a"
    using assms(6) unfolding windows_ok_def by (metis nonneg_int_cases)
  have nums: "q \<le> i" "i + length later < q + a" using assms(3,5) q by linarith+
  obtain j where j: "i + length later = q + j" using nums(1) le_Suc_ex by (metis add.assoc)
  have here: "j < length (lookback_rows cfg w')" using assms(2,4) q nums j by (auto simp: lookback_rows_def)
  then have "lookback_rows cfg w' ! j = (later @ newest w) ! (q + j)"
    using assms(2,4) nums(1) q by (simp add: lookback_rows_def nth_drop del: drop_append take_append)
  then have "lookback_rows cfg w' ! j = newest w ! i" unfolding j [symmetric] by (simp add: nth_append)
  then show ?thesis using assms(1) here by (metis list_all_length)
qed

lemma still_quiet:
  assumes "list_all idle (tail_rows cfg w)" and "newest w' = later @ newest w" and "list_all idle later"
  shows "list_all idle (tail_rows cfg w')"
proof -
  have "set (tail_rows cfg w') \<subseteq> set later \<union> set (tail_rows cfg w)"
    using assms(2) set_take_subset_set_take [of "nat (sb_quiescence_window cfg) - length later" "nat (sb_quiescence_window cfg)" "newest w"]
    by (auto simp: tail_rows_def dest: in_set_takeD)
  then show ?thesis using assms(1,3) by (auto simp: list_all_iff)
qed

text \<open>
  C37: The end of one session is reported again: when a tick has asked for a ruling and afterwards only idle
  rows come, the next tick after the interval asks again, as long as the last activity is still within
  the lookback window. (With the default settings of 600 rows, about ten minutes, and 300 seconds, a
  session end is reported three times.)
\<close>

theorem same_session_end_fires_again:
  assumes "windows_ok cfg" and "list_all readable (newest w')"
    and "boundary_tick cfg w False (t1, t2, t3) off (d, db) = (d1, db1)" and "en_events db1 \<noteq> en_events db"
    and "newest w' = later @ newest w" and "list_all idle later"
    and "\<not> idle (newest w ! i)" and "i < length (newest w)"
    and "sb_quiescence_window cfg \<le> int i" and "int (i + length later) < sb_quiescence_window cfg + sb_activity_window cfg"
    and "wo_grind w' = wo_grind w" and "pcc_reading w' (t1' - off) t1' = pcc_reading w (t1 - off) t1"
    and "current_device_id w' \<noteq> []" and "t3 + of_int (sb_min_interval_s cfg) \<le> t1'" and "t3 \<noteq> off"
  shows "en_events (snd (boundary_tick cfg w' False (t1', t2', t3') off (d1, db1))) \<noteq> en_events db1"
proof (cases rule: tick_cases [of cfg w False t1 t2 t3 off d db])
  case quiet
  then show ?thesis using assms(3,4) by simp
next
  case fires
  have "list_all readable (newest w)" using assms(2,5) by simp
  then have before: "sb_quiescence_window cfg \<le> int (length (newest w))" "list_all idle (tail_rows cfg w)"
    using session_ended_iff [OF assms(1)] fires(3) by blast+
  have d1: "d1 = d\<lparr>dt_last_fire_at := t3 - off, dt_fires_this_run := dt_fires_this_run d + 1\<rparr>"
    using assms(3) fires(1) by simp
  have "may_fire cfg w' (t1' - off) t1' d1"
    using fires(2) assms(11,12,14,15) by (simp add: may_fire_def elapsed_def d1)
  then show ?thesis
    unfolding request_iff [OF assms(1,2)]
    using still_in_lookback [OF assms(7-9,5,10,1)] still_quiet [OF before(2) assms(5,6)] before(1) fires(4) assms(5,13)
    by (simp add: d1)
qed

subsection \<open>Requests are spaced\<close>

datatype sb_step =
    Tick sb_world bool "real \<times> real \<times> real"
  | Restart bool real real real
  | Elsewhere string event_payload string string string real

definition sb_step :: "sb_cfg \<Rightarrow> sb_step \<Rightarrow> real \<times> detector \<times> enf_db \<Rightarrow> real \<times> detector \<times> enf_db" where
  "sb_step cfg st s =
     (let (off, d, db) = s in
      case st of
        Tick w f readings \<Rightarrow> (off, boundary_tick cfg w f readings off (d, db))
      | Restart fails ta tb off' \<Rightarrow> (off', detector_init fails (en_events db) ta (tb - off'), db)
      | Elsewhere ty payload source dev target t \<Rightarrow> (off, d, write_event ty payload source dev target t db))"

definition is_request :: "event_row \<Rightarrow> bool" where
  "is_request e \<longleftrightarrow> ev_type e = ''ruling_request'' \<and> ev_source e = DETECTOR"

definition requests :: "enf_db \<Rightarrow> real list" where
  "requests db = map ev_created_at (filter is_request (en_events db))"

text \<open>The clock does not go back within a step, no reading of it is the very start of the monotonic clock, no
  one else writes under the detector's name, and the recovery of a restart does not fail once there is
  something to recover.\<close>

definition sb_step_ok :: "sb_step \<Rightarrow> real \<times> detector \<times> enf_db \<Rightarrow> bool" where
  "sb_step_ok st s =
     (let (off, d, db) = s in
      case st of
        Tick w f (t1, t2, t3) \<Rightarrow> t1 \<le> t2 \<and> t2 \<le> t3 \<and> t3 \<noteq> off
      | Restart fails ta tb off' \<Rightarrow> ta \<le> tb \<and> (fails \<longrightarrow> requests db = []) \<and> list_all (\<lambda>t. tb - off' \<noteq> ta - t) (requests db)
      | Elsewhere ty payload source dev target t \<Rightarrow> source \<noteq> DETECTOR)"

fun sb_run :: "sb_cfg \<Rightarrow> sb_step list \<Rightarrow> real \<times> detector \<times> enf_db \<Rightarrow> real \<times> detector \<times> enf_db" where
  "sb_run cfg [] s = s"
| "sb_run cfg (st # sts) s = sb_run cfg sts (sb_step cfg st s)"

fun sb_run_ok :: "sb_cfg \<Rightarrow> sb_step list \<Rightarrow> real \<times> detector \<times> enf_db \<Rightarrow> bool" where
  "sb_run_ok cfg [] s \<longleftrightarrow> True"
| "sb_run_ok cfg (st # sts) s \<longleftrightarrow> sb_step_ok st s \<and> sb_run_ok cfg sts (sb_step cfg st s)"

definition spaced :: "int \<Rightarrow> real list \<Rightarrow> bool" where
  "spaced gap = successively (\<lambda>a b. a + of_int gap \<le> b)"

definition sb_inv :: "sb_cfg \<Rightarrow> real \<times> detector \<times> enf_db \<Rightarrow> bool" where
  "sb_inv cfg s =
     (let (off, d, db) = s in
      spaced (sb_min_interval_s cfg) (requests db)
      \<and> (requests db \<noteq> [] \<longrightarrow> dt_last_fire_at d \<noteq> 0 \<and> list_all (\<lambda>t. t \<le> dt_last_fire_at d + off) (requests db)))"

lemma is_request_eq: "(\<lambda>e. ev_type e = ''ruling_request'' \<and> ev_source e = DETECTOR) = is_request"
  by (simp add: fun_eq_iff is_request_def)

lemma first_row_greatest:
  assumes "first_row (order_desc key rows) = Some (y :: 'r)" and "x \<in> set rows"
  shows "key x \<le> (key y :: real)"
proof -
  obtain rest where e: "order_desc key rows = y # rest"
    using assms(1) by (cases "order_desc key rows") auto
  have "sorted (map (\<lambda>r. - key r) (order_desc key rows))" by (simp add: order_desc_def)
  moreover have "x \<in> set (y # rest)" using assms(2) set_order(2) [of key rows] e by metis
  ultimately show ?thesis using e by auto
qed

lemma last_fire_found:
  assumes "requests db \<noteq> []"
  obtains t where "get_last_sbd_fire_ts (en_events db) = Some t" and "t \<in> set (requests db)"
    and "list_all (\<lambda>x. x \<le> t) (requests db)"
proof -
  let ?rows = "filter is_request (en_events db)"
  have "order_desc ev_created_at ?rows \<noteq> []" using assms by (simp add: requests_def)
  then obtain y where y: "first_row (order_desc ev_created_at ?rows) = Some y"
    by (cases "order_desc ev_created_at ?rows") auto
  have "y \<in> set (order_desc ev_created_at ?rows)" using y by (cases "order_desc ev_created_at ?rows") auto
  then show ?thesis
    using that [of "ev_created_at y"] y first_row_greatest [OF y]
    by (simp add: get_last_sbd_fire_ts_def requests_def is_request_eq list_all_iff)
qed

lemma requests_write:
  "requests (write_event ty payload source dev target t db) =
     requests db @ (if ty = ''ruling_request'' \<and> source = DETECTOR then [t] else [])"
  by (simp add: requests_def write_event_def is_request_def)

lemma sb_inv_step:
  assumes "sb_inv cfg s" and "sb_step_ok st s" and "0 \<le> sb_min_interval_s cfg"
  shows "sb_inv cfg (sb_step cfg st s)"
proof -
  obtain off d db where s: "s = (off, d, db)" by (cases s)
  have inv: "spaced (sb_min_interval_s cfg) (requests db)"
    "requests db \<noteq> [] \<Longrightarrow> dt_last_fire_at d \<noteq> 0 \<and> list_all (\<lambda>t. t \<le> dt_last_fire_at d + off) (requests db)"
    using assms(1) by (auto simp: sb_inv_def s)
  show ?thesis
  proof (cases st)
    case (Tick w f readings)
    obtain t1 t2 t3 where r: "readings = (t1, t2, t3)" by (cases readings)
    have clock: "t1 \<le> t2" "t2 \<le> t3" "t3 \<noteq> off" using assms(2) by (simp_all add: sb_step_ok_def Tick r s)
    show ?thesis
    proof (cases rule: tick_cases [of cfg w f t1 t2 t3 off d db])
      case quiet
      then show ?thesis using inv by (cases "boundary_tick cfg w f readings off (d, db)") (simp add: sb_inv_def sb_step_def Tick s r)
    next
      case fires
      have gap: "t + of_int (sb_min_interval_s cfg) \<le> t2 \<and> t \<le> t3" if "t \<in> set (requests db)" for t
      proof -
        have "requests db \<noteq> []" using that by auto
        then have "dt_last_fire_at d \<noteq> 0" "t \<le> dt_last_fire_at d + off"
          using inv(2) that by (auto simp: list_all_iff)
        then show ?thesis using fires(2) clock assms(3) by (simp add: may_fire_def elapsed_def)
      qed
      moreover have "requests db \<noteq> [] \<Longrightarrow> last (requests db) + of_int (sb_min_interval_s cfg) \<le> t2"
        using gap last_in_set by blast
      ultimately show ?thesis
        using inv(1) fires(1) clock
        by (cases "requests db = []")
          (simp_all add: sb_inv_def sb_step_def Tick s r requests_write spaced_def successively_append_iff list_all_iff)
    qed
  next
    case (Restart fails ta tb off')
    then show ?thesis
    proof (cases "requests db = []")
      case True
      then show ?thesis using inv by (simp add: sb_inv_def sb_step_def Restart s)
    next
      case False
      then obtain t where t: "get_last_sbd_fire_ts (en_events db) = Some t" "t \<in> set (requests db)"
        "list_all (\<lambda>x. x \<le> t) (requests db)"
        by (rule last_fire_found)
      then show ?thesis
        using inv(1) assms(2)
        by (auto simp: sb_inv_def sb_step_def sb_step_ok_def Restart s detector_init_def list_all_iff)
    qed
  next
    case (Elsewhere ty payload source dev target t)
    then show ?thesis using inv assms(2) by (auto simp: sb_inv_def sb_step_def sb_step_ok_def s requests_write)
  qed
qed

lemma sb_inv_run:
  "sb_inv cfg s \<Longrightarrow> sb_run_ok cfg sts s \<Longrightarrow> 0 \<le> sb_min_interval_s cfg \<Longrightarrow> sb_inv cfg (sb_run cfg sts s)"
proof (induction sts arbitrary: s)
  case (Cons st sts)
  then show ?case using sb_inv_step [of cfg s st] by simp
qed simp

text \<open>
  C18: Whatever ticks, failing writes, events of others and restarts follow each other, two requests of
  the detector are at least the configured interval apart, provided that the recovery after a restart
  does not fail once a request was made: the time of the last one is then taken from the table, under
  another monotonic clock. (A reading of exactly zero on that clock would be taken for no request.)
\<close>

theorem requests_are_spaced:
  assumes "requests db = []" and "sb_run_ok cfg sts (off, detector_init fails (en_events db) wall mt, db)"
    and "0 \<le> sb_min_interval_s cfg" and "sb_run cfg sts (off, detector_init fails (en_events db) wall mt, db) = (off', d', db')"
  shows "spaced (sb_min_interval_s cfg) (requests db')"
proof -
  have "sb_inv cfg (off, detector_init fails (en_events db) wall mt, db)"
    using assms(1) by (simp add: sb_inv_def spaced_def)
  from sb_inv_run [OF this assms(2,3)] show ?thesis using assms(4) by (simp add: sb_inv_def)
qed

text \<open>A recovery that fails forgets the last request: the detector may ask again at once.\<close>

lemma failed_recovery_forgets: "elapsed (detector_init True evs wall mt) now = 9999"
  by (simp add: elapsed_def detector_init_def)

subsection \<open>Instances\<close>

definition demo_sb_cfg :: sb_cfg where
  "demo_sb_cfg = \<lparr>sb_enabled = True, sb_min_interval_s = 300, sb_quiescence_window = 1, sb_activity_window = 3,
     sb_grind_session_id = ''g'', sb_grind_target = 100, sb_apop_enabled = True, sb_apop_gate_mode = None\<rparr>"

definition record_row :: "int \<Rightarrow> jdict" where
  "record_row i = [(''device_id'', JStr ''d''), (''trigger_active'', JInt i)]"

definition demo_world :: "int list \<Rightarrow> sb_world" where
  "demo_world triggers = \<lparr>wo_grind = \<lparr>gd_rulings = [], gd_validations = [], gd_apop = [], gd_events = [],
       gd_erasures = [], gd_disagreements = [], gd_consent = \<lparr>cd_ledger = [], cd_events = [], cd_violations = []\<rparr>, gd_consent_ledger_enabled = False,
       gd_gic_chain_broken = False\<rparr>,
     wo_monitor = None,
     wo_health = [\<lparr>hr_capture = ''NOMINAL'', hr_host = ''EXCLUSIVE_USB'', hr_rate = 1000, hr_reason = [],
       hr_grind_mode = True, hr_session_id = [], hr_prev_session_id = [], hr_gap_ms = 0, hr_created_at = 1\<rparr>],
     wo_records = zip [1, 2, 3, 4] (map record_row triggers), wo_checkpoints = (\<lambda>d. Inr [])\<rparr>"

lemma demo_newest: "newest (demo_world [a, b, c, e]) = map record_row [e, c, b, a]"
  by (simp add: newest_def demo_world_def order_desc_def)

lemma record_row_trigger: "trigger_active (record_row i) = Inr (i = 1)"
  by (auto simp: trigger_active_def record_row_def get_truthy_def jget_def dget_or_def py_int_def)

lemma demo_readable: "list_all readable (map record_row is)"
  by (simp add: list_all_iff readable_def record_row_trigger)

lemma demo_pcc: "pcc_reading (demo_world ts) mt wall = (''NOMINAL'', ''EXCLUSIVE_USB'')"
  by (simp add: pcc_reading_def demo_world_def get_capture_health_status_def order_desc_def)

lemma demo_may_fire: "may_fire demo_sb_cfg (demo_world ts) mt wall d \<longleftrightarrow> 300 \<le> elapsed d mt"
proof -
  have "\<exists>st. get_grind_chain_status (wo_grind (demo_world ts)) ''g'' = Inr st \<and> gs_chain_length st = 0"
    by (simp add: get_grind_chain_status_def get_ruling_rows_for_chain_def stamped_rows_def join_rulings_def demo_world_def)
  then show ?thesis by (auto simp: may_fire_def demo_pcc demo_sb_cfg_def)
qed

lemma demo_device: "current_device_id (demo_world [a, b, c, e]) = ''d''"
  by (simp add: current_device_id_def get_recent_records_def sql_limit_def demo_world_def order_desc_def row_device_def
      record_row_def jget_def dget_or_def)

lemma demo_windows [simp]: "sb_quiescence_window demo_sb_cfg = 1" "sb_activity_window demo_sb_cfg = 3" "windows_ok demo_sb_cfg"
  "sb_min_interval_s demo_sb_cfg = 300"
  by (simp_all add: windows_ok_def demo_sb_cfg_def)

theorem requests_at_session_end_witness:
  "en_events (snd (boundary_tick demo_sb_cfg (demo_world [0, 1, 0, 0]) False (1000, 1001, 1002) 5 (detector_init False [] 0 0, demo_lifted)))
     \<noteq> en_events demo_lifted"
proof -
  have "list_all readable (newest (demo_world [0, 1, 0, 0]))" unfolding demo_newest by (rule demo_readable)
  then show ?thesis
    unfolding requests_at_session_end [OF demo_windows(3) \<open>list_all readable _\<close>]
    by (simp add: demo_may_fire demo_device tail_rows_def lookback_rows_def demo_newest idle_def record_row_trigger
        detector_init_def get_last_sbd_fire_ts_def elapsed_def)
qed

theorem same_session_end_fires_again_witness:
  "let (d1, db1) = boundary_tick demo_sb_cfg (demo_world [0, 1, 0, 0]) False (1000, 1001, 1002) 5 (detector_init False [] 0 0, demo_lifted)
   in en_events db1 \<noteq> en_events demo_lifted
      \<and> en_events (snd (boundary_tick demo_sb_cfg (demo_world [0, 1, 0, 0]) False (1302, 1303, 1304) 5 (d1, db1))) \<noteq> en_events db1"
proof -
  let ?w = "demo_world [0, 1, 0, 0]"
  have read: "list_all readable (newest ?w)" unfolding demo_newest by (rule demo_readable)
  obtain d1 db1 where first: "boundary_tick demo_sb_cfg ?w False (1000, 1001, 1002) 5 (detector_init False [] 0 0, demo_lifted) = (d1, db1)"
    by fastforce
  have fired: "en_events db1 \<noteq> en_events demo_lifted"
    using requests_at_session_end_witness first by simp
  have "en_events (snd (boundary_tick demo_sb_cfg ?w False (1302, 1303, 1304) 5 (d1, db1))) \<noteq> en_events db1"
    by (rule same_session_end_fires_again [OF demo_windows(3) read first fired, of "[]" 2])
      (simp_all add: demo_newest idle_def record_row_trigger demo_pcc demo_device)
  then show ?thesis using first fired by simp
qed

definition demo_detector :: "real \<Rightarrow> nat \<Rightarrow> detector" where
  "demo_detector l n = \<lparr>dt_last_fire_at = l, dt_fires_this_run = n, dt_stopped = False\<rparr>"

lemma demo_tick:
  "boundary_tick demo_sb_cfg (demo_world [0, 1, 0, 0]) False (t1, t2, t3) off (demo_detector l n, db) =
     (if 300 \<le> (if l \<noteq> 0 then t1 - off - l else 9999)
      then (demo_detector (t3 - off) (n + 1),
            write_event ''ruling_request'' (Payload ''d'' None None None) DETECTOR ''d'' ''session_adjudicator'' t2 db)
      else (demo_detector l n, db))"
proof -
  let ?w = "demo_world [0, 1, 0, 0]"
  have "list_all readable (newest ?w)" unfolding demo_newest by (rule demo_readable)
  then have ended: "session_ended demo_sb_cfg ?w = Inr Fire"
    by (subst session_ended_iff) (simp_all add: tail_rows_def lookback_rows_def demo_newest idle_def record_row_trigger)
  obtain st where "get_grind_chain_status (wo_grind ?w) (sb_grind_session_id demo_sb_cfg) = Inr st"
    "int (gs_chain_length st) < sb_grind_target demo_sb_cfg" "sb_enabled demo_sb_cfg"
    using demo_may_fire [of "[0, 1, 0, 0]" 9999 0 "demo_detector 0 0"]
    by (auto simp: may_fire_def elapsed_def demo_detector_def)
  then have "evaluate_boundary demo_sb_cfg ?w (t1 - off) t1 (demo_detector l n) =
      (demo_detector l n, if 300 \<le> elapsed (demo_detector l n) (t1 - off) then Inr Fire else Inr (Skip ''throttled''))"
    by (simp add: evaluate_boundary_def demo_pcc ended)
  then show ?thesis
    by (simp add: boundary_tick_def fire_trigger_def demo_device elapsed_def demo_detector_def)
qed

definition demo_sb_steps :: "sb_step list" where
  "demo_sb_steps =
     [Tick (demo_world [0, 1, 0, 0]) False (1000, 1001, 1002), Restart False 1100 1100 1050,
      Tick (demo_world [0, 1, 0, 0]) False (1200, 1201, 1202), Tick (demo_world [0, 1, 0, 0]) False (1310, 1311, 1312)]"

lemma demo_init: "detector_init False evs wall mt = demo_detector (case get_last_sbd_fire_ts evs of None \<Rightarrow> 0 | Some t \<Rightarrow> mt - (wall - t)) 0"
  by (simp add: detector_init_def demo_detector_def)

lemma demo_sb_run:
  "requests demo_lifted = []"
  "sb_run_ok demo_sb_cfg demo_sb_steps (5, detector_init False (en_events demo_lifted) 0 0, demo_lifted)"
  "\<exists>off d db. sb_run demo_sb_cfg demo_sb_steps (5, detector_init False (en_events demo_lifted) 0 0, demo_lifted) = (off, d, db)
     \<and> requests db = [1001, 1311]"
proof -
  show none: "requests demo_lifted = []" by (simp add: requests_def demo_lifted_def demo_event_def is_request_def)
  have never: "get_last_sbd_fire_ts (en_events demo_lifted) = None"
    using none by (simp add: get_last_sbd_fire_ts_def requests_def is_request_eq)
  have one: "get_last_sbd_fire_ts (en_events (write_event ''ruling_request'' (Payload ''d'' None None None) DETECTOR ''d'' ''session_adjudicator'' 1001 demo_lifted))
      = Some 1001"
    using none by (simp add: get_last_sbd_fire_ts_def requests_def is_request_eq write_event_def) (simp add: is_request_def order_desc_def)
  show "sb_run_ok demo_sb_cfg demo_sb_steps (5, detector_init False (en_events demo_lifted) 0 0, demo_lifted)"
    using none one never by (simp add: demo_sb_steps_def sb_step_ok_def sb_step_def demo_tick demo_init requests_write)
  show "\<exists>off d db. sb_run demo_sb_cfg demo_sb_steps (5, detector_init False (en_events demo_lifted) 0 0, demo_lifted) = (off, d, db)
     \<and> requests db = [1001, 1311]"
    using none one never by (simp add: demo_sb_steps_def sb_step_def demo_tick demo_init requests_write)
qed

theorem requests_are_spaced_witness:
  "\<exists>off d db. sb_run demo_sb_cfg demo_sb_steps (5, detector_init False (en_events demo_lifted) 0 0, demo_lifted) = (off, d, db)
     \<and> requests db = [1001, 1311] \<and> spaced 300 (requests db)"
proof -
  obtain off d db where run: "sb_run demo_sb_cfg demo_sb_steps (5, detector_init False (en_events demo_lifted) 0 0, demo_lifted) = (off, d, db)"
    "requests db = [1001, 1311]"
    using demo_sb_run(3) by blast
  have "spaced (sb_min_interval_s demo_sb_cfg) (requests db)"
    by (rule requests_are_spaced [OF demo_sb_run(1,2) _ run(1)]) (simp add: demo_sb_cfg_def)
  then show ?thesis using run by (simp add: demo_sb_cfg_def)
qed

end
