(* ===== verification/Graduation.thy ===== *)
theory Graduation
  imports ActivePlay ChainLog "HOL-Library.Product_Lexorder"
begin

section \<open>Staged graduation out of dry-run mode\<close>

text \<open>
  \<open>staged_dry_run_graduation_agent.py\<close> with the functions of \<open>store/tournament.py\<close> over its two tables:
  the stages by which agents leave dry-run mode, their false positives and rollbacks, and the log of
  automatic evaluations. What the preflight and the convergence oracle answer are arguments. The bus is
  left out: every event is published without the \<open>source\<close> that \<open>publish_sync\<close> requires, which raises and
  is ignored. A list of blockers stands for its text.
\<close>

subsection \<open>Stages\<close>

record stage_row =
  gr_id :: nat
  gr_agent_id :: string
  gr_stage_number :: int
  gr_activated_at :: real
  gr_dry_run_disabled_at :: real
  gr_rollback_triggered :: bool
  gr_rollback_triggered_at :: "real option"
  gr_rollback_reason :: "string option"
  gr_n_clean_sessions :: int
  gr_n_false_positives :: int
  gr_notes :: string
  gr_created_at :: real

definition insert_graduation_stage :: "string \<Rightarrow> int \<Rightarrow> string \<Rightarrow> real \<Rightarrow> stage_row list \<Rightarrow> stage_row list \<times> nat" where
  "insert_graduation_stage agent n notes now rows =
     (let i = length rows + 1 in
      (rows @ [\<lparr>gr_id = i, gr_agent_id = agent, gr_stage_number = n, gr_activated_at = now,
                gr_dry_run_disabled_at = now, gr_rollback_triggered = False, gr_rollback_triggered_at = None,
                gr_rollback_reason = None, gr_n_clean_sessions = 0, gr_n_false_positives = 0, gr_notes = notes,
                gr_created_at = now\<rparr>], i))"

text \<open>The newest stage of an agent that has not been rolled back.\<close>

definition active_stage :: "string \<Rightarrow> stage_row list \<Rightarrow> stage_row option" where
  "active_stage agent rows =
     first_row (order_desc (\<lambda>r. int (gr_id r)) (filter (\<lambda>r. gr_agent_id r = agent \<and> \<not> gr_rollback_triggered r) rows))"

definition update_stage :: "nat \<Rightarrow> (stage_row \<Rightarrow> stage_row) \<Rightarrow> stage_row list \<Rightarrow> stage_row list" where
  "update_stage i f rows = map (\<lambda>r. if gr_id r = i then f r else r) rows"

definition rolled_back :: "real \<Rightarrow> string \<Rightarrow> stage_row \<Rightarrow> stage_row" where
  "rolled_back now reason r =
     r\<lparr>gr_rollback_triggered := True, gr_rollback_triggered_at := Some now, gr_rollback_reason := Some reason\<rparr>"

definition record_graduation_clean_session :: "string \<Rightarrow> stage_row list \<Rightarrow> stage_row list \<times> bool" where
  "record_graduation_clean_session agent rows =
     (case active_stage agent rows of
        None \<Rightarrow> (rows, False)
      | Some s \<Rightarrow> (update_stage (gr_id s) (\<lambda>r. r\<lparr>gr_n_clean_sessions := gr_n_clean_sessions r + 1\<rparr>) rows, True))"

definition fp_reason :: "string \<Rightarrow> int \<Rightarrow> int \<Rightarrow> string" where
  "fp_reason who fp thr = who @ dec_int fp @ ''>='' @ dec_int thr @ '' false positives''"

definition record_graduation_false_positive ::
  "string \<Rightarrow> int \<Rightarrow> real \<Rightarrow> stage_row list \<Rightarrow> stage_row list \<times> bool" where
  "record_graduation_false_positive agent fp_threshold now rows =
     (case active_stage agent rows of
        None \<Rightarrow> (rows, False)
      | Some s \<Rightarrow>
          (let fp = gr_n_false_positives s + 1 in
           if fp_threshold \<le> fp
           then (update_stage (gr_id s)
                   (\<lambda>r. rolled_back now (fp_reason ''auto: '' fp fp_threshold) (r\<lparr>gr_n_false_positives := fp\<rparr>)) rows, True)
           else (update_stage (gr_id s) (\<lambda>r. r\<lparr>gr_n_false_positives := fp\<rparr>) rows, False)))"

definition trigger_graduation_rollback :: "string \<Rightarrow> string \<Rightarrow> real \<Rightarrow> stage_row list \<Rightarrow> stage_row list \<times> bool" where
  "trigger_graduation_rollback agent reason now rows =
     (case active_stage agent rows of
        None \<Rightarrow> (rows, False)
      | Some s \<Rightarrow> (update_stage (gr_id s) (rolled_back now reason) rows, True))"

definition get_graduation_stage_status :: "string \<Rightarrow> stage_row list \<Rightarrow> stage_row option" where
  "get_graduation_stage_status agent rows =
     first_row (order_desc (\<lambda>r. int (gr_id r)) (filter (\<lambda>r. gr_agent_id r = agent) rows))"

definition get_all_graduation_stages :: "stage_row list \<Rightarrow> stage_row list" where
  "get_all_graduation_stages rows = order_asc (\<lambda>r. (gr_stage_number r, gr_id r)) rows"

subsection \<open>The log of automatic evaluations\<close>

record watch_row =
  wt_id :: nat
  wt_probe_type :: string
  wt_ratio :: real
  wt_all_pairs_above_1 :: bool
  wt_trigger_fired :: bool
  wt_preconditions_evaluated :: bool
  wt_preconditions_met :: "bool option"
  wt_blockers :: "string list"
  wt_created_at :: real

definition insert_graduation_autowatch_log ::
  "string \<Rightarrow> real \<Rightarrow> bool \<Rightarrow> bool \<Rightarrow> bool \<Rightarrow> bool option \<Rightarrow> string list \<Rightarrow> real \<Rightarrow> watch_row list \<Rightarrow> watch_row list" where
  "insert_graduation_autowatch_log probe ratio high fired evaluated met blockers now wlog =
     wlog @ [\<lparr>wt_id = length wlog + 1, wt_probe_type = probe, wt_ratio = ratio, wt_all_pairs_above_1 = high,
             wt_trigger_fired = fired, wt_preconditions_evaluated = evaluated, wt_preconditions_met = met,
             wt_blockers = blockers, wt_created_at = now\<rparr>]"

record watch_status =
  ws_total_entries :: nat
  ws_trigger_count :: nat
  ws_evaluated_count :: nat
  ws_last_trigger :: "(real \<times> string) option"
  ws_last_preconditions_met :: "bool option"
  ws_last_blockers :: "string list"
  ws_entries :: "watch_row list"

definition get_graduation_autowatch_status :: "string option \<Rightarrow> int \<Rightarrow> watch_row list \<Rightarrow> watch_status" where
  "get_graduation_autowatch_status probe limit wlog =
     (let wanted = (case probe of
            Some p \<Rightarrow> if p = [] then wlog else filter (\<lambda>e. wt_probe_type e = p) wlog
          | None \<Rightarrow> wlog);
          entries = sql_limit limit (order_desc (\<lambda>e. int (wt_id e)) wanted);
          evaluated = find wt_preconditions_evaluated entries
      in \<lparr>ws_total_entries = length entries, ws_trigger_count = length (filter wt_trigger_fired entries),
          ws_evaluated_count = length (filter wt_preconditions_evaluated entries),
          ws_last_trigger = map_option (\<lambda>e. (wt_ratio e, wt_probe_type e)) (find wt_trigger_fired entries),
          ws_last_preconditions_met = (case evaluated of None \<Rightarrow> None | Some e \<Rightarrow> wt_preconditions_met e),
          ws_last_blockers = (case evaluated of None \<Rightarrow> [] | Some e \<Rightarrow> wt_blockers e),
          ws_entries = entries\<rparr>)"

subsection \<open>The agent\<close>

record grad_cfg =
  gf_staged_graduation_enabled :: bool
  gf_graduation_fp_threshold :: int
  gf_graduation_autowatch_enabled :: bool

record grad_db =
  gt_stages :: "stage_row list"
  gt_watch :: "watch_row list"

text \<open>The answers of the preflight and of the convergence oracle, empty for none.\<close>

type_synonym grad_inputs = "jdict res \<times> jdict res"

record preconditions =
  pre_met :: bool
  pre_graduation_enabled :: bool
  pre_preflight_ok :: bool
  pre_non_convergence_clear :: bool
  pre_blockers :: "string list"

definition check_graduation_preconditions :: "grad_cfg \<Rightarrow> grad_inputs \<Rightarrow> preconditions" where
  "check_graduation_preconditions cfg inputs =
     (let (preflight, convergence) = inputs;
          enabled = gf_staged_graduation_enabled cfg;
          ok = (case preflight of Inl e \<Rightarrow> False | Inr pf \<Rightarrow> get_truthy pf ''overall_pass'');
          clear = (case convergence of Inl e \<Rightarrow> True | Inr tc \<Rightarrow> \<not> get_truthy tc ''non_convergence_detected'');
          blockers =
            (if enabled then [] else [''staged_graduation_enabled=False'']) @
            (case preflight of Inl e \<Rightarrow> [''tournament_preflight_unavailable'']
             | Inr pf \<Rightarrow> if ok then [] else [''tournament_preflight overall_pass=False'']) @
            (if clear then [] else [''non_convergence_detected=True''])
      in \<lparr>pre_met = (blockers = []), pre_graduation_enabled = enabled, pre_preflight_ok = ok,
          pre_non_convergence_clear = clear, pre_blockers = blockers\<rparr>)"

record activation =
  ac_activated :: bool
  ac_row_id :: "nat option"
  ac_stage_number :: "int option"
  ac_preconditions :: preconditions

definition activate_stage ::
  "grad_cfg \<Rightarrow> grad_inputs \<Rightarrow> string \<Rightarrow> string \<Rightarrow> real \<Rightarrow> grad_db \<Rightarrow> grad_db \<times> activation" where
  "activate_stage cfg inputs agent notes now db =
     (let pre = check_graduation_preconditions cfg inputs in
      if \<not> pre_met pre
      then (db, \<lparr>ac_activated = False, ac_row_id = None, ac_stage_number = None, ac_preconditions = pre\<rparr>)
      else
        (let n = int (length (get_all_graduation_stages (gt_stages db))) + 1;
             label = (if notes \<noteq> [] then notes
                    else ''Stage '' @ dec_int n @ '' activated at '' @ dec_int (round_half_even now));
             (rows, i) = insert_graduation_stage agent n label now (gt_stages db)
         in (db\<lparr>gt_stages := rows\<rparr>,
             \<lparr>ac_activated = True, ac_row_id = Some i, ac_stage_number = Some n, ac_preconditions = pre\<rparr>)))"

text \<open>One stage of the list read at the start of the check.\<close>

definition check_rollback :: "grad_cfg \<Rightarrow> real \<Rightarrow> stage_row \<Rightarrow> stage_row list \<Rightarrow> stage_row list" where
  "check_rollback cfg now s rows =
     (if gr_rollback_triggered s \<or> gr_n_false_positives s < gf_graduation_fp_threshold cfg then rows
      else fst (trigger_graduation_rollback (gr_agent_id s)
             (fp_reason ''poll-detected: '' (gr_n_false_positives s) (gf_graduation_fp_threshold cfg)) now rows))"

definition check_rollbacks :: "grad_cfg \<Rightarrow> real \<Rightarrow> grad_db \<Rightarrow> grad_db" where
  "check_rollbacks cfg now db =
     db\<lparr>gt_stages := fold (check_rollback cfg now) (get_all_graduation_stages (gt_stages db)) (gt_stages db)\<rparr>"

definition check_autowatch_triggers :: "grad_cfg \<Rightarrow> grad_inputs \<Rightarrow> real \<Rightarrow> grad_db \<Rightarrow> grad_db" where
  "check_autowatch_triggers cfg inputs now db =
     (if \<not> gf_graduation_autowatch_enabled cfg then db
      else
        (let entries = ws_entries (get_graduation_autowatch_status None 10 (gt_watch db));
             pending = filter (\<lambda>e. wt_trigger_fired e \<and> \<not> wt_preconditions_evaluated e) entries;
             pre = check_graduation_preconditions cfg inputs
         in db\<lparr>gt_watch := fold (\<lambda>e. insert_graduation_autowatch_log (wt_probe_type e) (wt_ratio e)
                  (wt_all_pairs_above_1 e) False True (Some (pre_met pre)) (pre_blockers pre) now) pending (gt_watch db)\<rparr>))"

definition graduation_poll :: "grad_cfg \<Rightarrow> grad_inputs \<Rightarrow> real \<Rightarrow> grad_db \<Rightarrow> grad_db" where
  "graduation_poll cfg inputs now db =
     check_autowatch_triggers cfg inputs now
       (if gf_staged_graduation_enabled cfg then check_rollbacks cfg now db else db)"

subsection \<open>Histories\<close>

datatype grad_op =
    Activate grad_inputs string string real
  | CleanSession string
  | FalsePositive string real
  | ManualRollback string string real
  | ReadinessTrigger string real real
  | Poll grad_inputs real

definition grad_step :: "grad_cfg \<Rightarrow> int \<Rightarrow> grad_op \<Rightarrow> grad_db \<Rightarrow> grad_db" where
  "grad_step cfg fp_threshold op db =
     (case op of
        Activate inputs agent notes now \<Rightarrow> fst (activate_stage cfg inputs agent notes now db)
      | CleanSession agent \<Rightarrow> db\<lparr>gt_stages := fst (record_graduation_clean_session agent (gt_stages db))\<rparr>
      | FalsePositive agent now \<Rightarrow>
          db\<lparr>gt_stages := fst (record_graduation_false_positive agent fp_threshold now (gt_stages db))\<rparr>
      | ManualRollback agent reason now \<Rightarrow>
          db\<lparr>gt_stages := fst (trigger_graduation_rollback agent reason now (gt_stages db))\<rparr>
      | ReadinessTrigger probe ratio now \<Rightarrow>
          db\<lparr>gt_watch := insert_graduation_autowatch_log probe ratio True True False None [] now (gt_watch db)\<rparr>
      | Poll inputs now \<Rightarrow> graduation_poll cfg inputs now db)"

definition grad_run :: "grad_cfg \<Rightarrow> int \<Rightarrow> grad_op list \<Rightarrow> grad_db \<Rightarrow> grad_db" where
  "grad_run cfg fp_threshold ops db = fold (grad_step cfg fp_threshold) ops db"

subsection \<open>Stages stay below the threshold\<close>

definition numbered :: "stage_row list \<Rightarrow> bool" where
  "numbered rows \<longleftrightarrow> map gr_id rows = [1..<Suc (length rows)] \<and> map gr_stage_number rows = map int [1..<Suc (length rows)]"

definition below :: "int \<Rightarrow> stage_row list \<Rightarrow> bool" where
  "below thr rows \<longleftrightarrow> list_all (\<lambda>r. gr_rollback_triggered r \<or> gr_n_false_positives r < thr) rows"

lemma active_stage_Some:
  assumes "active_stage agent rows = Some s"
  shows "s \<in> set rows" and "gr_agent_id s = agent" and "\<not> gr_rollback_triggered s"
proof -
  let ?rows = "filter (\<lambda>r. gr_agent_id r = agent \<and> \<not> gr_rollback_triggered r) rows"
  obtain rest where "order_desc (\<lambda>r. int (gr_id r)) ?rows = s # rest"
    using assms by (auto simp: active_stage_def first_row_def split: list.splits)
  then have "s \<in> set ?rows" by (metis list.set_intros(1) set_order(2))
  then show "s \<in> set rows" "gr_agent_id s = agent" "\<not> gr_rollback_triggered s" by simp_all
qed

lemma length_update_stage [simp]: "length (update_stage i f rows) = length rows"
  by (simp add: update_stage_def)

lemma numbered_insert [wf_intros]: "numbered rows \<Longrightarrow> numbered (fst (insert_graduation_stage agent (int (length rows) + 1) notes now rows))"
  by (simp add: numbered_def insert_graduation_stage_def Let_def)

lemma numbered_update [wf_intros]:
  "numbered rows \<Longrightarrow> (\<And>r. gr_id (f r) = gr_id r \<and> gr_stage_number (f r) = gr_stage_number r) \<Longrightarrow> numbered (update_stage i f rows)"
proof -
  assume n: "numbered rows" and f: "\<And>r. gr_id (f r) = gr_id r \<and> gr_stage_number (f r) = gr_stage_number r"
  have "map gr_id (update_stage i f rows) = map gr_id rows" "map gr_stage_number (update_stage i f rows) = map gr_stage_number rows"
    using f by (auto simp: update_stage_def)
  then show ?thesis using n by (simp add: numbered_def del: upt_Suc)
qed

lemma below_update [wf_intros]:
  "below thr rows \<Longrightarrow> (\<And>r. gr_rollback_triggered (f r) \<or> gr_n_false_positives (f r) < thr \<or>
      (gr_rollback_triggered (f r) = gr_rollback_triggered r \<and> gr_n_false_positives (f r) = gr_n_false_positives r))
    \<Longrightarrow> below thr (update_stage i f rows)"
  by (auto simp: below_def update_stage_def list_all_iff) metis+

lemma rolled_back_fields [simp]:
  "gr_id (rolled_back now reason r) = gr_id r" "gr_stage_number (rolled_back now reason r) = gr_stage_number r"
  "gr_rollback_triggered (rolled_back now reason r)"
  by (simp_all add: rolled_back_def)

lemma stage_ops_numbered:
  assumes "numbered rows"
  shows "numbered (fst (record_graduation_clean_session agent rows))"
    and "numbered (fst (record_graduation_false_positive agent thr now rows))"
    and "numbered (fst (trigger_graduation_rollback agent reason now rows))"
  using assms by (auto simp: record_graduation_clean_session_def record_graduation_false_positive_def
      trigger_graduation_rollback_def Let_def split: option.split intro!: numbered_update)

lemma stage_ops_below:
  assumes "below thr rows"
  shows "below thr (fst (record_graduation_clean_session agent rows))"
    and "below thr (fst (record_graduation_false_positive agent thr now rows))"
    and "below thr (fst (trigger_graduation_rollback agent reason now rows))"
  using assms by (auto simp: record_graduation_clean_session_def record_graduation_false_positive_def
      trigger_graduation_rollback_def Let_def split: option.split intro!: below_update)

lemma check_rollbacks_idle:
  assumes "below thr (gt_stages db)" and "thr \<le> gf_graduation_fp_threshold cfg"
  shows "check_rollbacks cfg now db = db"
proof -
  have idle: "fold (check_rollback cfg now) ss rows = rows" if "set ss \<subseteq> set (gt_stages db)" for ss rows
    using that assms by (induction ss arbitrary: rows) (auto simp: check_rollback_def below_def list_all_iff)
  have "fold (check_rollback cfg now) (get_all_graduation_stages (gt_stages db)) (gt_stages db) = gt_stages db"
    by (rule idle) (simp add: get_all_graduation_stages_def)
  then show ?thesis by (simp add: check_rollbacks_def)
qed

lemma activate_stages:
  obtains "gt_stages (fst (activate_stage cfg inputs agent label now db)) = gt_stages db"
    | lab where "gt_stages (fst (activate_stage cfg inputs agent label now db)) =
        fst (insert_graduation_stage agent (int (length (gt_stages db)) + 1) lab now (gt_stages db))"
proof (cases "pre_met (check_graduation_preconditions cfg inputs)")
  case True
  define lab where "lab = (if label \<noteq> [] then label
      else ''Stage '' @ dec_int (int (length (gt_stages db)) + 1) @ '' activated at '' @ dec_int (round_half_even now))"
  obtain rows i where "insert_graduation_stage agent (int (length (gt_stages db)) + 1) lab now (gt_stages db) = (rows, i)"
    by fastforce
  then show ?thesis
    using that(2) [of lab] True by (simp add: activate_stage_def get_all_graduation_stages_def Let_def lab_def)
next
  case False
  then show ?thesis using that(1) by (simp add: activate_stage_def Let_def)
qed

lemma grad_step_inv:
  assumes "numbered (gt_stages db)" and "below thr (gt_stages db)" and "1 \<le> thr" and "thr \<le> gf_graduation_fp_threshold cfg"
  shows "numbered (gt_stages (grad_step cfg thr op db)) \<and> below thr (gt_stages (grad_step cfg thr op db))"
proof (cases op)
  case (Activate inputs agent label now)
  have "below thr (fst (insert_graduation_stage agent n lab now (gt_stages db)))" for n lab
    using assms(2,3) by (simp add: below_def insert_graduation_stage_def Let_def)
  then show ?thesis
    using assms(1,2) numbered_insert [OF assms(1)]
    by (cases rule: activate_stages [of cfg inputs agent label now db]) (simp_all add: Activate grad_step_def)
next
  case (Poll inputs now)
  then show ?thesis
    using assms check_rollbacks_idle [OF assms(2,4)]
    by (simp add: grad_step_def graduation_poll_def check_autowatch_triggers_def Let_def)
qed (use assms stage_ops_numbered stage_ops_below in \<open>simp_all add: grad_step_def\<close>)

lemma grad_run_inv:
  "numbered (gt_stages db) \<Longrightarrow> below thr (gt_stages db) \<Longrightarrow> 1 \<le> thr \<Longrightarrow> thr \<le> gf_graduation_fp_threshold cfg \<Longrightarrow>
     numbered (gt_stages (grad_run cfg thr ops db)) \<and> below thr (gt_stages (grad_run cfg thr ops db))"
proof (induction ops arbitrary: db)
  case Nil
  then show ?case by (simp add: grad_run_def)
next
  case (Cons op ops)
  then show ?case using grad_step_inv [of db thr cfg op] by (simp add: grad_run_def)
qed

text \<open>
  C27: When false positives are recorded with a threshold of at least one and not above the configured one,
  then whatever happens the stages are numbered in the order of their activation, an active one has
  fewer false positives than the threshold, and the rollback check of the poll never changes anything:
  the stage that reaches the threshold has been rolled back as it did.
\<close>

theorem active_stages_below_threshold:
  assumes "1 \<le> thr" and "thr \<le> gf_graduation_fp_threshold cfg"
    and "db = grad_run cfg thr ops \<lparr>gt_stages = [], gt_watch = []\<rparr>"
  shows "map gr_stage_number (gt_stages db) = map int [1..<Suc (length (gt_stages db))]
    \<and> list_all (\<lambda>r. gr_rollback_triggered r \<or> gr_n_false_positives r < thr) (gt_stages db)
    \<and> check_rollbacks cfg now db = db"
proof -
  have "numbered (gt_stages db) \<and> below thr (gt_stages db)"
    using grad_run_inv [of "\<lparr>gt_stages = [], gt_watch = []\<rparr>" thr cfg ops] assms by (simp add: numbered_def below_def)
  then show ?thesis using check_rollbacks_idle assms(2) unfolding numbered_def below_def by blast
qed

subsection \<open>A rollback is final\<close>

definition frozen :: "stage_row list \<Rightarrow> stage_row list \<Rightarrow> bool" where
  "frozen rows rows' \<longleftrightarrow> length rows \<le> length rows'
     \<and> (\<forall>i < length rows. gr_rollback_triggered (rows ! i) \<longrightarrow> rows' ! i = rows ! i)"

lemma frozen_refl [simp]: "frozen rows rows" by (simp add: frozen_def)

lemma frozen_trans: "frozen a b \<Longrightarrow> frozen b c \<Longrightarrow> frozen a c"
  unfolding frozen_def by (metis order.strict_trans2 order.trans)

lemma frozen_update:
  assumes "numbered rows" and "s \<in> set rows" and "\<not> gr_rollback_triggered s"
  shows "frozen rows (update_stage (gr_id s) f rows)"
proof -
  have "distinct (map gr_id rows)" using assms(1) by (simp add: numbered_def)
  then have "gr_id r \<noteq> gr_id s" if "r \<in> set rows" "gr_rollback_triggered r" for r
    using that assms(2,3) by (metis distinct_map inj_onD)
  then show ?thesis by (simp add: frozen_def update_stage_def)
qed

lemma stage_ops_frozen:
  assumes "numbered rows"
  shows "frozen rows (fst (record_graduation_clean_session agent rows))"
    and "frozen rows (fst (record_graduation_false_positive agent thr now rows))"
    and "frozen rows (fst (trigger_graduation_rollback agent reason now rows))"
  using assms frozen_update [OF assms active_stage_Some(1) active_stage_Some(3)]
  by (auto simp: record_graduation_clean_session_def record_graduation_false_positive_def
      trigger_graduation_rollback_def Let_def split: option.split)

lemma check_rollbacks_frozen:
  "numbered rows \<Longrightarrow> frozen rows (fold (check_rollback cfg now) ss rows) \<and> numbered (fold (check_rollback cfg now) ss rows)"
proof (induction ss arbitrary: rows)
  case (Cons s ss)
  have "frozen rows (check_rollback cfg now s rows)" "numbered (check_rollback cfg now s rows)"
    using stage_ops_frozen(3) [OF Cons.prems] stage_ops_numbered(3) [OF Cons.prems] Cons.prems
    by (auto simp: check_rollback_def)
  then show ?case using Cons.IH frozen_trans by fastforce
qed simp

lemma grad_step_frozen:
  assumes "numbered (gt_stages db)"
  shows "frozen (gt_stages db) (gt_stages (grad_step cfg thr op db)) \<and> numbered (gt_stages (grad_step cfg thr op db))"
proof (cases op)
  case (Activate inputs agent label now)
  have "frozen (gt_stages db) (fst (insert_graduation_stage agent n lab now (gt_stages db)))" for n lab
    by (simp add: frozen_def insert_graduation_stage_def Let_def nth_append)
  then show ?thesis
    using assms numbered_insert [OF assms]
    by (cases rule: activate_stages [of cfg inputs agent label now db]) (simp_all add: Activate grad_step_def)
next
  case (Poll inputs now)
  then show ?thesis
    using assms check_rollbacks_frozen [OF assms]
    by (simp add: grad_step_def graduation_poll_def check_autowatch_triggers_def check_rollbacks_def Let_def)
qed (use assms stage_ops_numbered stage_ops_frozen in \<open>simp_all add: grad_step_def\<close>)

lemma grad_run_frozen:
  "numbered (gt_stages db) \<Longrightarrow> frozen (gt_stages db) (gt_stages (grad_run cfg thr ops db)) \<and> numbered (gt_stages (grad_run cfg thr ops db))"
proof (induction ops arbitrary: db)
  case Nil
  then show ?case by (simp add: grad_run_def)
next
  case (Cons op ops)
  then show ?case using grad_step_frozen [of db cfg thr op] frozen_trans by (simp add: grad_run_def) blast
qed

text \<open>
  C28: A rollback is final: no later activation, session, false positive, rollback or poll, with whatever
  thresholds, changes the row of a stage that has been rolled back; an agent returns only by a new stage.
\<close>

theorem rollback_is_final:
  assumes "db = grad_run cfg thr ops \<lparr>gt_stages = [], gt_watch = []\<rparr>"
    and "i < length (gt_stages db)" and "gr_rollback_triggered (gt_stages db ! i)"
  shows "gt_stages (grad_run cfg' thr' ops' db) ! i = gt_stages db ! i"
proof -
  have "numbered (gt_stages db)"
    using grad_run_frozen [of "\<lparr>gt_stages = [], gt_watch = []\<rparr>" cfg thr ops] assms(1) by (simp add: numbered_def)
  then show ?thesis using grad_run_frozen [of db cfg' thr' ops'] assms(2,3) by (auto simp: frozen_def)
qed

theorem active_stages_below_threshold_witness:
  "let cfg = \<lparr>gf_staged_graduation_enabled = True, gf_graduation_fp_threshold = 2, gf_graduation_autowatch_enabled = True\<rparr>;
       ok = (Inr [(''overall_pass'', JBool True)], Inr []);
       db = grad_run cfg 2 [Activate ok ''a'' ''n'' 1, FalsePositive ''a'' 2, Activate ok ''b'' ''n'' 3, Poll ok 4]
              \<lparr>gt_stages = [], gt_watch = []\<rparr>
   in map (\<lambda>r. (gr_stage_number r, gr_n_false_positives r)) (gt_stages db) = [(1, 1), (2, 0)] \<and> check_rollbacks cfg 5 db = db"
proof -
  let ?cfg = "\<lparr>gf_staged_graduation_enabled = True, gf_graduation_fp_threshold = 2, gf_graduation_autowatch_enabled = True\<rparr>"
  let ?ok = "(Inr [(''overall_pass'', JBool True)], Inr []) :: grad_inputs"
  let ?ops = "[Activate ?ok ''a'' ''n'' 1, FalsePositive ''a'' 2, Activate ?ok ''b'' ''n'' 3, Poll ?ok 4]"
  have "map (\<lambda>r. (gr_stage_number r, gr_n_false_positives r)) (gt_stages (grad_run ?cfg 2 ?ops \<lparr>gt_stages = [], gt_watch = []\<rparr>))
      = [(1, 1), (2, 0)]"
    by code_simp
  then show ?thesis
    using active_stages_below_threshold [of 2 ?cfg _ ?ops, OF _ _ refl] by simp
qed

theorem rollback_is_final_witness:
  "let cfg = \<lparr>gf_staged_graduation_enabled = True, gf_graduation_fp_threshold = 2, gf_graduation_autowatch_enabled = True\<rparr>;
       ok = (Inr [(''overall_pass'', JBool True)], Inr []);
       db = grad_run cfg 2 [Activate ok ''a'' ''n'' 1, FalsePositive ''a'' 2, FalsePositive ''a'' 3] \<lparr>gt_stages = [], gt_watch = []\<rparr>
   in gr_rollback_triggered (gt_stages db ! 0)
      \<and> gt_stages (grad_run cfg 2 [Activate ok ''a'' ''n'' 4, CleanSession ''a'', FalsePositive ''a'' 6] db) ! 0 = gt_stages db ! 0"
proof -
  let ?cfg = "\<lparr>gf_staged_graduation_enabled = True, gf_graduation_fp_threshold = 2, gf_graduation_autowatch_enabled = True\<rparr>"
  let ?ok = "(Inr [(''overall_pass'', JBool True)], Inr []) :: grad_inputs"
  let ?db = "grad_run ?cfg 2 [Activate ?ok ''a'' ''n'' 1, FalsePositive ''a'' 2, FalsePositive ''a'' 3] \<lparr>gt_stages = [], gt_watch = []\<rparr>"
  have "length (gt_stages ?db) = 1" "gr_rollback_triggered (gt_stages ?db ! 0)" by code_simp+
  then show ?thesis using rollback_is_final [of ?db ?cfg 2 _ 0 ?cfg 2, OF refl] by simp
qed

subsection \<open>One trigger, ten evaluations\<close>

definition pending_row :: "watch_row \<Rightarrow> bool" where
  "pending_row e \<longleftrightarrow> wt_trigger_fired e \<and> \<not> wt_preconditions_evaluated e"

lemma pending_row_eq: "(\<lambda>e. wt_trigger_fired e \<and> \<not> wt_preconditions_evaluated e) = pending_row"
  by (simp add: fun_eq_iff pending_row_def)

definition watch_ids :: "watch_row list \<Rightarrow> bool" where
  "watch_ids ws \<longleftrightarrow> map wt_id ws = [1..<Suc (length ws)]"

lemma newest_entries:
  assumes "watch_ids ws"
  shows "ws_entries (get_graduation_autowatch_status None 10 ws) = take 10 (rev ws)"
proof -
  have "map (\<lambda>e. int (wt_id e)) ws = map int [1..<Suc (length ws)]"
    using assms by (metis (no_types, lifting) map_map comp_def watch_ids_def list.map_cong)
  then have "sorted_wrt (<) (map (\<lambda>e. int (wt_id e)) ws)" by (simp add: sorted_wrt_map del: upt_Suc)
  then show ?thesis by (simp add: get_graduation_autowatch_status_def Let_def sql_limit_def order_desc_sorted)
qed

definition evaluation_of :: "watch_row \<Rightarrow> preconditions \<Rightarrow> real \<Rightarrow> watch_row list \<Rightarrow> watch_row list" where
  "evaluation_of e pre now ws = insert_graduation_autowatch_log (wt_probe_type e) (wt_ratio e)
     (wt_all_pairs_above_1 e) False True (Some (pre_met pre)) (pre_blockers pre) now ws"

text \<open>The log after some evaluations of the trigger \<open>e\<close>.\<close>

definition evaluated_times :: "watch_row list \<Rightarrow> watch_row \<Rightarrow> nat \<Rightarrow> watch_row list \<Rightarrow> bool" where
  "evaluated_times old e k ws \<longleftrightarrow> watch_ids ws \<and> (\<exists>evals. ws = old @ e # evals \<and> length evals = k
     \<and> list_all (\<lambda>x. \<not> wt_trigger_fired x \<and> wt_preconditions_evaluated x) evals)"

lemma watch_poll:
  assumes "evaluated_times old e k (gt_watch db)" and "pending_row e"
    and "\<not> list_ex pending_row (take 9 (rev old))" and "gf_graduation_autowatch_enabled cfg" and "k \<le> 10"
  shows "evaluated_times old e (min 10 (k + 1)) (gt_watch (graduation_poll cfg inputs now db))"
proof -
  obtain evals where ws: "watch_ids (gt_watch db)" "gt_watch db = old @ e # evals" "length evals = k"
    "list_all (\<lambda>x. \<not> wt_trigger_fired x \<and> wt_preconditions_evaluated x) evals"
    using assms(1) by (auto simp: evaluated_times_def)
  have none: "filter pending_row (take (10 - k - 1) (rev old)) = []"
    using assms(3) set_take_subset_set_take [of "10 - k - 1" 9 "rev old"] by (auto simp: filter_empty_conv list_ex_iff)
  have quiet: "filter pending_row (take n (rev evals)) = []" for n
    using ws(4) by (auto simp: filter_empty_conv pending_row_def list_all_iff dest: in_set_takeD)
  have pend: "filter pending_row (take 10 (rev (gt_watch db))) = (if k < 10 then [e] else [])"
    using none quiet quiet [of k] ws(2,3) assms(2,5) by (auto simp: take_Cons')
  let ?pre = "check_graduation_preconditions cfg inputs"
  have same: "gt_watch (if gf_staged_graduation_enabled cfg then check_rollbacks cfg now db else db) = gt_watch db"
    by (simp add: check_rollbacks_def)
  have after: "gt_watch (graduation_poll cfg inputs now db) = (if k < 10 then evaluation_of e ?pre now (gt_watch db) else gt_watch db)"
    using pend assms(4) newest_entries [OF ws(1)]
    by (simp add: graduation_poll_def check_autowatch_triggers_def same pending_row_eq evaluation_of_def Let_def)
  show ?thesis
  proof (cases "k < 10")
    case True
    have "watch_ids (evaluation_of e ?pre now (gt_watch db))"
      using ws(1) by (simp add: watch_ids_def evaluation_of_def insert_graduation_autowatch_log_def)
    then show ?thesis using True after ws by (simp add: evaluated_times_def evaluation_of_def insert_graduation_autowatch_log_def)
  next
    case False
    then show ?thesis using after assms(1,5) by simp
  qed
qed

lemma watch_polls:
  "evaluated_times old e k (gt_watch db) \<Longrightarrow> pending_row e \<Longrightarrow> \<not> list_ex pending_row (take 9 (rev old)) \<Longrightarrow>
     gf_graduation_autowatch_enabled cfg \<Longrightarrow> k \<le> 10 \<Longrightarrow>
     evaluated_times old e (min 10 (k + length polls)) (gt_watch (fold (\<lambda>(inputs, now). graduation_poll cfg inputs now) polls db))"
proof (induction polls arbitrary: k db)
  case Nil
  then show ?case by simp
next
  case (Cons q polls)
  obtain inputs now where q: "q = (inputs, now)" by fastforce
  have "evaluated_times old e (min 10 (k + 1)) (gt_watch (graduation_poll cfg inputs now db))"
    using watch_poll Cons.prems by blast
  from Cons.IH [OF this Cons.prems(2-4)]
  have "evaluated_times old e (min 10 (min 10 (k + 1) + length polls))
      (gt_watch (fold (\<lambda>(inputs, now). graduation_poll cfg inputs now) (q # polls) db))"
    by (simp add: q)
  moreover have "min 10 (min 10 (k + 1) + length polls) = min 10 (k + length (q # polls))" by simp
  ultimately show ?case by metis
qed

text \<open>
  One trigger is evaluated ten times: when the newest entry of the log is a trigger that waits, and none
  of the nine before it does, each of the next ten polls adds an evaluation, and after them none does, as
  the trigger itself is never marked and just leaves the ten entries that are read.
\<close>

theorem trigger_evaluated_ten_times:
  assumes "watch_ids (gt_watch db)" and "gt_watch db = old @ [e]"
    and "pending_row e" and "\<not> list_ex pending_row (take 9 (rev old))" and "gf_graduation_autowatch_enabled cfg"
  shows "\<exists>evals. gt_watch (fold (\<lambda>(inputs, now). graduation_poll cfg inputs now) polls db) = old @ e # evals
    \<and> length evals = min 10 (length polls) \<and> list_all wt_preconditions_evaluated evals"
proof -
  have "evaluated_times old e 0 (gt_watch db)" using assms(1,2) by (simp add: evaluated_times_def)
  from watch_polls [OF this assms(3-5), of polls]
  show ?thesis by (auto simp: evaluated_times_def list_all_iff)
qed

theorem trigger_evaluated_ten_times_witness:
  "\<exists>e evals. gt_watch (fold (\<lambda>(inputs, now). graduation_poll
       \<lparr>gf_staged_graduation_enabled = False, gf_graduation_fp_threshold = 2, gf_graduation_autowatch_enabled = True\<rparr> inputs now)
       (replicate 25 ((Inr [], Inr []), 7))
       \<lparr>gt_stages = [], gt_watch = insert_graduation_autowatch_log ''p'' (11 / 10) True True False None [] 5 []\<rparr>) = e # evals
     \<and> length evals = 10"
  using trigger_evaluated_ten_times [of "\<lparr>gt_stages = [], gt_watch = insert_graduation_autowatch_log ''p'' (11 / 10) True True False None [] 5 []\<rparr>"
      "[]" _ "\<lparr>gf_staged_graduation_enabled = False, gf_graduation_fp_threshold = 2, gf_graduation_autowatch_enabled = True\<rparr>"
      "replicate 25 ((Inr [], Inr []), 7)"]
  by (auto simp: insert_graduation_autowatch_log_def watch_ids_def pending_row_def)

end
