(* ===== verification/Spec2Isabelle.thy ===== *)
theory Spec2Isabelle
  imports Engine GrindChain WatchdogStore Validator CircuitBreaker RateLimiter ApiKeys LlmRouting Capture CedarRuntime Pipeline Shutdown
    Reconciler ChainAudit Enforcement Federation Epistemic AgentAuth Escrow
    LogScan SessionBoundary Graduation
begin

text \<open>
  A model of the parts of the VAPI bridge and device code whose correctness carries the system: the
  proof records a controller emits, the hash chains the bridge keeps about them, the consent and
  validation decisions it takes on them, and the guards around its calls to language models. All
  paths are under \<open>src/\<close>; \<open>B/\<close> stands for \<open>bridge/vapi_bridge/\<close>.

  How the parts work together. A device builds a 228-byte signed record per inference
  (\<open>controller/dualshock_emulator.py\<close>); the bridge parses it, checks signature and link to the
  record before (\<open>B/codec.py\<close>), stores it (\<open>B/main.py\<close>) and submits it in batches (\<open>B/batcher.py\<close>). The
  adjudicator's rulings are stored (\<open>B/store/agents.py\<close>), the validation agent compares each with a rule and, for eligible sessions, stamps it into the session's grind
  chain (\<open>B/session_adjudicator_validator.py\<close>, \<open>B/grind_chain.py\<close>); the gate summary decides from the newest
  validations and the chain's state whether dry-run mode may end (\<open>B/store/_core.py\<close>). A watchdog writes
  its own chained event log (\<open>B/watchdog_chain.py\<close>, \<open>B/store/snapshots.py\<close>), audited offline
  (\<open>B/chain_integrity_verifiers.py\<close>). Consent records bound what data may be used, and erasure redacts
  rulings without breaking the chain (\<open>B/consent_categories.py\<close>, \<open>B/store/consent_mixin.py\<close>). Calls to
  models go through a router with health tracking (\<open>B/llm_routing/\<close>) and, for one provider, a circuit
  breaker, a rate limiter and rotated keys (\<open>B/security/\<close>). A monitor of the input frames says when a
  session may count (\<open>B/capture_continuity.py\<close>, stored by \<open>B/pcc_persistence.py\<close>). What an operator agent may
  do is decided by a policy bundle (\<open>B/cedar_parser.py\<close>), whose evaluation is logged and whose file is
  swept against the anchored root (\<open>B/cedar_shadow_runtime.py\<close>). Before the adjudicator proposes a block it
  asks the other agents, or a quorum of nodes, for their scores (\<open>B/session_adjudicator.py\<close>,
  \<open>B/ioswarm_consensus_aggregator.py\<close>); the enforcement agent turns stored rulings into streaks, commitments and
  suspensions (\<open>B/ruling_enforcement_agent.py\<close>), and Mode 5 of the synthesizer suspends and reinstates by the
  risk labels of devices (\<open>B/insight_synthesizer.py\<close>). Devices that resemble each other are clustered
  (\<open>B/network_correlation_detector.py\<close>) and the clusters compared with those of other bridges
  (\<open>B/federation_bus.py\<close>). Requests of operator agents carry a token and a signature, checked together with
  their time and nonce (\<open>B/agent_auth.py\<close>). Captured footage is chained per session
  (\<open>B/retina_capture_manifest.py\<close>) and, in a dispute, committed to as a whole and revealed in part
  (\<open>B/rwm_dispute_escrow.py\<close>, \<open>B/rwm_session_bind.py\<close>). A detector asks the adjudicator for a ruling when a
  session ends (\<open>B/session_boundary_detector_agent.py\<close>), reading the grind chain, the capture monitor and the
  records. Agents leave dry-run mode by stages that false positives roll back
  (\<open>B/staged_dry_run_graduation_agent.py\<close>). Events of the chain are read in chunks (\<open>B/eth_logs_chunked.py\<close>).

  Theories, in the order of their imports.
  \<^item> \<open>Prelude\<close>: exceptions as the left of a sum (\<open>res\<close>), insertion-ordered dictionaries, strings,
    rounding. \<open>Json\<close>: the values and the parser of the standard library. \<open>Bytes\<close>, \<open>Sha256\<close>: byte strings
    as \<open>8 word list\<close>, big-endian packing at fixed widths, and SHA-256 itself on \<open>32 word\<close>.
  \<^item> \<open>Codec\<close>, \<open>Engine\<close>: the wire format and the device's engine with the effects it has had when it
    raises. The lemmas show the format is a bijection on records of the right widths and that
    every emitted record links to the one before.
  \<^item> \<open>RecordsStore\<close>, \<open>Batcher\<close>, \<open>Ingest\<close>, \<open>Pipeline\<close>: the tables of devices, records and submissions, the
    batcher that submits records to the chain, the entry of a record into the bridge, and the three as
    one transition system with the phases of a start, its invariants and what follows from them.
    \<open>Shutdown\<close>: the drain of the queue, with a store that may fail in the middle of a submission.
  \<^item> \<open>Checkpoints\<close>, \<open>ReadGovernor\<close>, \<open>Reconciler\<close>: the scores committed to the chain, the cached and
    fail-open reads of the chain, and the cycles that confirm the commitments from events, with the tasks
    they spawn to look for receipts.
    \<open>ChainAudit\<close>: the audit of the stored counters.
  \<^item> \<open>Swarm\<close>, \<open>Epistemic\<close>, \<open>Enforcement\<close>: the quorum of the nodes and its coordinators, the weighted consensus
    a proposed block must pass, and what a ruling does to streaks, chain and credential. The quorum is
    shown against its declarative reading, the streaks against the runs of equal verdicts; what is
    reinstated is shown over rounds of the agent and passes of Mode 5 in any order.
  \<^item> \<open>Dbscan\<close>, \<open>Federation\<close>: the density search over devices, whose loop is shown (in the locale
    \<open>distances\<close>, interpreted on the matrix the code builds as \<open>dmat\<close>) to label by reachability, and the
    exchange of its clusters between bridges as a run of starts and answers with its invariant.
  \<^item> \<open>AgentAuth\<close>: issuer, signature and nonce tracker, and the check of a request, with a run of requests
    in which none is accepted twice.
  \<^item> \<open>Manifest\<close>, \<open>Escrow\<close>: the chain over the frames of a session (interpreted as \<open>hash_chain\<close> under the
    name \<open>mf\<close>), and the packages built from an archive, which verify and reveal only what was committed.
  \<^item> \<open>SessionBoundary\<close>: the detector over the models of the grind chain, the capture monitor, the occupancy
    classifier and the events; its requests are spaced across restarts that can read the last one.
  \<^item> \<open>Graduation\<close>: stages and rollbacks with their invariant. \<open>LogScan\<close>: the chunked scan, with its termination.
  \<^item> \<open>HashChain\<close>: what two equal links say of their inputs (equality or an explicit collision).
    \<open>ChainLog\<close>: the contract of a table that stores a chain, as the locale \<open>chain_log\<close>, with insertion,
    ordering and verification lemmas; it is interpreted on the watchdog log (\<open>wl\<close>) and on the grind
    chain (\<open>gl\<close>). \<open>GrindChain\<close>, \<open>WatchdogChain\<close>, \<open>WatchdogStore\<close>: the two formulas, the offline verifier
    against a specification, the stored event log, whose writer is split into its three transactions so
    that those of other calls come between.
  \<^item> \<open>Consent\<close>: the categories and their bitmask, the commitment, the ledger with its upsert, the gate,
    the event log, and a step relation over them. \<open>ActivePlay\<close>: the occupancy classifier.
  \<^item> \<open>GrindStore\<close>, \<open>Validator\<close>: rulings, validations, stamps, gate summary, erasure, the startup check
    and the validation agent over them. The invariant \<open>grind_inv\<close> is kept by every operation.
  \<^item> \<open>CircuitBreaker\<close>, \<open>RateLimiter\<close>, \<open>ApiKeys\<close>: the guards of one provider.
  \<^item> \<open>LlmHealth\<close>, \<open>LlmRouter\<close>, \<open>LlmRouting\<close>: backend health as a state machine, policy and chain, one
    request; the locale \<open>health_service\<close> states what the walk needs of the health cache and is
    interpreted on it (\<open>rh\<close>).

  \<^item> \<open>Capture\<close>: the capture monitor as a state machine driven by frames, disconnects and queries, its
    transition buffer and the rows it stores.
  \<^item> \<open>JsonDump\<close>, \<open>JsonRound\<close>: the canonical encoder and the proof that the parser inverts it. \<open>Cedar\<close>: schema
    check, root and decision of a bundle, the decision against its declarative reading. \<open>CedarRuntime\<close>:
    one evaluation with its log row and the two sweeps, each shown to report exactly what has drifted.

  Conventions, bounds and fuel. Clock readings are arguments and reals; where the code reads the
  clock once more in one operation the model uses one reading unless two matter. Integers of the
  wire format are words or checked against their width; others are Python's unbounded integers. Every
  function is total but the chunked scan, an option where \<open>None\<close> is not returning (shown to return for every
  positive chunk size); the only fuel is that of the JSON parser, twice the length of its text plus two:
  a nested call follows at least one consumed character and at most one call without one. Signatures and key generation are arguments. SQL tables are
  lists of rows in order of insertion, with the ordering, filters and limits of each query written out.

  Not modelled: HTTP and WebSocket servers, the dashboard, contracts and their clients, device
  drivers and transports, model training, logging, and the many tables of the store that only insert
  and read back rows. A handler runs to its end in one step except where what comes in between matters:
  the start of the batcher, the insertion into the watchdog log, the fetch of the block number and the
  tasks of the reconciler are split into steps that interleave. Failures the code swallows (of a lookup, a
  recovery, a seeding, a write) are arguments of the operations, and a property that needs the operation
  to succeed says so.
  PROJECT.json lists the parts with the reason for each.
\<close>

section \<open>Records: the device writes, the bridge reads\<close>

text \<open>
  C5: what the device serialises the bridge parses back, field by field, and the body the bridge
  hashes is the body the device hashed and signed.
\<close>

theorem parse_inverts_serialize:
  assumes "serialize_full r = Inr data" and "wire_widths r"
  shows "\<exists>p. parse_record data = Inr p \<and> poac_wire.truncate p = poac_wire.truncate r
    \<and> serialize_body r = Inr (raw_body p) \<and> record_hash p = sha256 (raw_body p)"
  using parse_serialize_full [OF assms] parse_record_Inr by blast

definition demo_wire :: poac_wire where
  "demo_wire = \<lparr>prev_poac_hash = replicate 32 1, sensor_commitment = replicate 32 2,
     model_manifest_hash = replicate 32 3, world_model_hash = replicate 32 4,
     inference_result = 40, action_code = 1, confidence = 255, battery_pct = 100,
     monotonic_ctr = 4294967295, timestamp_ms = -1, latitude = 7, longitude = 9, bounty_id = 5,
     signature = replicate 64 6\<rparr>"

lemma demo_wire_data: "\<exists>data. serialize_full demo_wire = Inr data"
  by (simp add: serialize_full_def serialize_body_def pack_fields_def demo_wire_def pack_u_def pack_s_def)

theorem parse_inverts_serialize_witness:
  "\<exists>data p. serialize_full demo_wire = Inr data \<and> parse_record data = Inr p
     \<and> monotonic_ctr p = 4294967295 \<and> timestamp_ms p = -1"
proof -
  obtain data where data: "serialize_full demo_wire = Inr data" using demo_wire_data ..
  have "wire_widths demo_wire" by (simp add: wire_widths_def demo_wire_def)
  then obtain p where p: "parse_record data = Inr p" "poac_wire.truncate p = poac_wire.truncate demo_wire"
    using parse_inverts_serialize [OF data] by blast
  then have "monotonic_ctr p = monotonic_ctr demo_wire" "timestamp_ms p = timestamp_ms demo_wire"
    by (simp_all add: poac_wire.truncate_def)
  then show ?thesis using data p(1) by (auto simp: demo_wire_def)
qed

text \<open>
  C40: the bridge accepts exactly the inputs of 228 bytes, and a record it accepts serialises back
  to the very bytes it came from: no accepted input has two readings, none is lost.
\<close>

theorem parse_accepts_exactly_records:
  "((\<exists>p. parse_record data = Inr p) \<longleftrightarrow> length data = POAC_RECORD_SIZE)
   \<and> (\<forall>p. parse_record data = Inr p \<longrightarrow> serialize_full p = Inr data \<and> wire_widths p)"
  using parse_record_raises [of data] serialize_parse [of data]
  by (auto simp: parse_record_def raised_def Let_def)

theorem parse_accepts_exactly_records_witness:
  "\<exists>p. parse_record (replicate 228 9) = Inr p \<and> serialize_full p = Inr (replicate 228 9)"
  using parse_accepts_exactly_records [of "replicate 228 9"] by simp blast

text \<open>The records of a device whose inputs have the widths of the format.\<close>

definition args_ok :: "gen_args \<Rightarrow> bool" where
  "args_ok a \<longleftrightarrow> length (ga_sensor_hash a) = 32 \<and> length (ga_wm_hash a) = 32"

definition engine_ok :: "'k engine \<Rightarrow> bool" where
  "engine_ok e \<longleftrightarrow> length (eng_chain_head e) = 32 \<and> length (eng_model_hash e) = 32"

lemma generate_ok:
  assumes "generate sign e a = (e', Inr r)" and "engine_ok e" and "args_ok a"
  shows "engine_ok e'" and "wire_widths r" and "\<exists>data. serialize_full r = Inr data"
proof -
  obtain body where g: "serialize_body r = Inr body" "length (signature r) = 64"
    "e' = e\<lparr>eng_counter := eng_counter e + 1, eng_chain_head := sha256 body\<rparr>"
    using generate_Inr [OF assms(1)] by metis
  obtain sig where "r = (unsigned_record (e\<lparr>eng_counter := eng_counter e + 1\<rparr>) a)\<lparr>signature := sig\<rparr>"
    using generate_Inr_record [OF assms(1)] ..
  then show "wire_widths r"
    using g(2) assms(2,3) by (simp add: wire_widths_def unsigned_record_def engine_ok_def args_ok_def)
  show "engine_ok e'" using g(3) assms(2) by (simp add: engine_ok_def)
  show "\<exists>data. serialize_full r = Inr data" using g(1) by (simp add: serialize_full_def)
qed

lemma generate_run_ok:
  "engine_ok e \<Longrightarrow> list_all args_ok as \<Longrightarrow>
     list_all (\<lambda>r. wire_widths r \<and> (\<exists>data. serialize_full r = Inr data)) (snd (generate_run sign e as))"
proof (induction as arbitrary: e)
  case Nil
  then show ?case by simp
next
  case (Cons a as)
  show ?case
  proof (cases rule: generate_run_step [of sign e a as])
    case (fail e' err)
    then show ?thesis using Cons by (simp add: engine_ok_def)
  next
    case (emit e' r body)
    then show ?thesis using Cons generate_ok [OF emit(1)] by simp
  qed
qed

lemma chained_nth:
  "chained h rs \<Longrightarrow> Suc i < length rs \<Longrightarrow>
     \<exists>body. serialize_body (rs ! i) = Inr body \<and> prev_poac_hash (rs ! Suc i) = sha256 body"
proof (induction rs arbitrary: h i)
  case Nil
  then show ?case by simp
next
  case (Cons r rs)
  then obtain body where b: "serialize_body r = Inr body" "chained (sha256 body) rs"
    by (auto split: sum.splits)
  show ?case
  proof (cases i)
    case 0
    then show ?thesis using b Cons.prems(2) by (cases rs) auto
  next
    case (Suc j)
    then show ?thesis using Cons.IH [OF b(2), of j] Cons.prems(2) by simp
  qed
qed

text \<open>
  C1: whatever a device emits, call after call and across calls that raise, the bridge parses,
  finds linked to the record before it, and sees with a strictly larger counter.
\<close>

theorem device_chain_verifies:
  assumes "engine_ok e" and "list_all args_ok as" and "Suc i < length (snd (generate_run sign e as))"
  shows "\<exists>d d' p p'. serialize_full (snd (generate_run sign e as) ! i) = Inr d
    \<and> serialize_full (snd (generate_run sign e as) ! Suc i) = Inr d'
    \<and> parse_record d = Inr p \<and> parse_record d' = Inr p'
    \<and> verify_chain_link p p' \<and> monotonic_ctr p < monotonic_ctr p'"
proof -
  let ?rs = "snd (generate_run sign e as)"
  have rs: "?rs ! i \<in> set ?rs" "?rs ! Suc i \<in> set ?rs" using assms(3) by simp_all
  then obtain d d' where d: "serialize_full (?rs ! i) = Inr d" "wire_widths (?rs ! i)"
    "serialize_full (?rs ! Suc i) = Inr d'" "wire_widths (?rs ! Suc i)"
    using generate_run_ok [OF assms(1,2), of sign] unfolding list_all_iff by blast
  obtain p where p: "parse_record d = Inr p" "poac_wire.truncate p = poac_wire.truncate (?rs ! i)"
    "serialize_body (?rs ! i) = Inr (raw_body p)" using parse_serialize_full [OF d(1,2)] by blast
  obtain p' where p': "parse_record d' = Inr p'" "poac_wire.truncate p' = poac_wire.truncate (?rs ! Suc i)"
    using parse_serialize_full [OF d(3,4)] by blast
  have "prev_poac_hash (?rs ! Suc i) = sha256 (raw_body p)"
    using chained_nth [OF generate_run_chained assms(3)] p(3) by auto
  then have "verify_chain_link p p'"
    using p'(2) by (simp add: verify_chain_link_def poac_wire.truncate_def)
  moreover have "monotonic_ctr (?rs ! i) < monotonic_ctr (?rs ! Suc i)"
    using sorted_wrt_nth_less [OF conjunct2 [OF generate_run_counters [of e sign as,
        unfolded list.map sorted_wrt.simps sorted_wrt_map]], of i "Suc i"] assms(3) by simp
  then have "monotonic_ctr p < monotonic_ctr p'"
    using p(2) p'(2) by (simp add: poac_wire.truncate_def)
  ultimately show ?thesis using d p p' by blast
qed

definition demo_args :: gen_args where
  "demo_args = \<lparr>ga_sensor_hash = replicate 32 1, ga_wm_hash = replicate 32 2, ga_inference = 40,
     ga_action = 1, ga_confidence = 200, ga_battery_pct = 90, ga_bounty_id = 0, ga_now_ms = 1700000000000\<rparr>"

definition no_sign :: "unit \<Rightarrow> bytes \<Rightarrow> (nat \<times> nat) res" where
  "no_sign k body = Inr (0, 0)"

lemma demo_run: "length (snd (generate_run no_sign (engine_init None) [demo_args, demo_args])) = 2"
proof -
  have step: "\<exists>e' r. generate no_sign e demo_args = (e', Inr r) \<and> eng_private_key e' = None
      \<and> length (eng_chain_head e') = 32 \<and> length (eng_model_hash e') = 32 \<and> eng_counter e' = eng_counter e + 1"
    if "eng_private_key e = None" "length (eng_chain_head e) = 32" "length (eng_model_hash e) = 32"
      "0 \<le> eng_counter e" "eng_counter e < 10" for e :: "unit engine"
    using that
    by (simp add: generate_def unsigned_record_def demo_args_def serialize_body_def serialize_full_def
        pack_fields_def pack_u_def pack_s_def assertE_def sign_record_def Let_def)
  have e0: "eng_private_key (engine_init None :: unit engine) = None"
    "length (eng_chain_head (engine_init None :: unit engine)) = 32"
    "length (eng_model_hash (engine_init None :: unit engine)) = 32"
    "eng_counter (engine_init None :: unit engine) = 0"
    by (simp_all add: engine_init_def)
  obtain e1 r1 where 1: "generate no_sign (engine_init None) demo_args = (e1, Inr r1)"
    "eng_private_key e1 = None" "length (eng_chain_head e1) = 32" "length (eng_model_hash e1) = 32"
    "eng_counter e1 = 1"
    using step [OF e0(1-3)] e0(4) by auto
  obtain e2 r2 where 2: "generate no_sign e1 demo_args = (e2, Inr r2)"
    using step [OF 1(2-4)] 1(5) by auto
  show ?thesis by (simp add: generate_run_Inr [OF 1(1)] generate_run_Inr [OF 2])
qed

theorem device_chain_verifies_witness:
  "\<exists>p p'. verify_chain_link p p' \<and> monotonic_ctr p < monotonic_ctr p'
     \<and> Inr p \<in> range parse_record \<and> Inr p' \<in> range parse_record"
proof -
  have "engine_ok (engine_init None :: unit engine)" by (simp add: engine_ok_def engine_init_def)
  moreover have "list_all args_ok [demo_args, demo_args]" by (simp add: args_ok_def demo_args_def)
  ultimately show ?thesis
    using device_chain_verifies [of "engine_init None" "[demo_args, demo_args]" 0 no_sign] demo_run
    by (metis lessI numeral_2_eq_2 rangeI)
qed

text \<open>
  In any run the counters of the emitted records increase strictly from the engine's own, and
  when no call raised they have no gap; a call that raises has used up its number.
\<close>

theorem engine_counters:
  "sorted_wrt (<) (eng_counter e # map monotonic_ctr (snd (generate_run sign e as)))
   \<and> length (snd (generate_run sign e as)) \<le> length as
   \<and> (length (snd (generate_run sign e as)) = length as \<longrightarrow>
       map monotonic_ctr (snd (generate_run sign e as)) = map (\<lambda>i. eng_counter e + 1 + int i) [0..<length as])
   \<and> (\<forall>a e' err. generate sign e a = (e', Inl err) \<longrightarrow> eng_counter e' = eng_counter e + 1
        \<and> eng_chain_head e' = eng_chain_head e)"
proof (intro conjI impI allI)
  fix a e' err
  assume "generate sign e a = (e', Inl err)"
  then have "e' = e\<lparr>eng_counter := eng_counter e + 1\<rparr>" by (rule generate_Inl)
  then show "eng_counter e' = eng_counter e + 1" "eng_chain_head e' = eng_chain_head e" by simp_all
qed (rule generate_run_counters generate_run_length generate_run_no_gap, assumption?)+

theorem engine_counters_witness:
  "map monotonic_ctr (snd (generate_run no_sign (engine_init None) [demo_args, demo_args])) = [1, 2]"
  using engine_counters [of "engine_init None" no_sign "[demo_args, demo_args]"] demo_run
  by (simp add: engine_init_def upt_rec)

section \<open>The two hash chains\<close>

text \<open>
  The head of a grind chain fixes its genesis and, link by link, the commitment, the verdict
  code, the host code and the time of every session; two runs of the same length with the same head
  and another history contain a SHA-256 collision at one position of their preimages.
\<close>

theorem gic_head_fixes_history:
  assumes "gic_run g ls = Inr h" and "gic_run g' ls' = Inr h" and "length ls = length ls'"
    and "length g = 32" and "length g' = 32"
  shows "(g = g' \<and> map gic_view ls = map gic_view ls')
    \<or> collision_between (chain_preimages gic_preimage g ls) (chain_preimages gic_preimage g' ls')"
  using assms gic.head_fixes_history [of ls ls' g g'] by (simp add: gic_run_Inr_iff)

definition demo_link :: "string \<Rightarrow> gic_link" where
  "demo_link v = \<lparr>gl_commitment_hash_hex = ''00ff'', gl_pcc_host_state = ''EXCLUSIVE_USB'',
     gl_fallback_verdict = v, gl_ts_ns = 7\<rparr>"

theorem gic_head_fixes_history_witness:
  "gic_view (demo_link ''unheard of'') = gic_view (demo_link ''FLAG'')
   \<or> collision_between (chain_preimages gic_preimage (replicate 32 0) [demo_link ''unheard of''])
        (chain_preimages gic_preimage (replicate 32 0) [demo_link ''FLAG''])"
proof -
  have ok: "gic_ok (demo_link v)" for v
  proof -
    have "fromhex ''00ff'' = Inr [0, 255]" by code_simp
    then show ?thesis by (simp add: gic_ok_def demo_link_def)
  qed
  have "verdict_code ''unheard of'' = verdict_code ''FLAG''" by code_simp
  then have "gic_preimage h (demo_link ''unheard of'') = gic_preimage h (demo_link ''FLAG'')" for h
    by (simp add: gic_preimage_def gic_input_def demo_link_def)
  then have "gic_run (replicate 32 0) [demo_link ''unheard of'']
      = Inr (chain_head gic_preimage (replicate 32 0) [demo_link ''FLAG''])"
    "gic_run (replicate 32 0) [demo_link ''FLAG'']
      = Inr (chain_head gic_preimage (replicate 32 0) [demo_link ''FLAG''])"
    using ok unfolding gic_run_Inr_iff by simp_all
  from gic_head_fixes_history [OF this] show ?thesis by simp
qed

text \<open>
  The offline verifier of the watchdog log either raises, exactly when a genesis row's time
  does not fit 64 bits, or returns the report the rows define: valid and invalid links, orphans,
  forks, tips, and the verdict that every link is valid and every parent present.
\<close>

theorem verify_wec_links_meets_spec:
  "if list_ex row_aborts rows then raised (verify_wec_links rows)
   else (\<exists>rep. verify_wec_links rows = Inr rep \<and> report_of rows rep)"
  using verify_wec_links_raises [of rows] verify_wec_links_report [of rows] by simp

text \<open>
  The verdict does not depend on the order in which the rows are read: two readings of the
  same rows agree on every count and on the verdict.
\<close>

theorem verify_wec_links_order_free:
  assumes "mset rows = mset rows'" and "verify_wec_links rows = Inr rep"
  shows "\<exists>rep'. verify_wec_links rows' = Inr rep' \<and> report_of rows rep'
    \<and> links_valid rep' = links_valid rep \<and> n_orphans rep' = n_orphans rep
    \<and> n_forks rep' = n_forks rep \<and> n_tips rep' = n_tips rep
    \<and> (report_intact rep' \<longleftrightarrow> report_intact rep)"
proof -
  have "\<not> list_ex row_aborts rows" using verify_wec_links_raises [of rows] assms(2) by auto
  then have "\<not> list_ex row_aborts rows'" using mset_eq_setD [OF assms(1)] by (simp add: list_ex_iff)
  then obtain rep' where rep': "verify_wec_links rows' = Inr rep'" "report_of rows' rep'"
    using verify_wec_links_report by blast
  have "report_of rows rep" using verify_wec_links_report [OF \<open>\<not> list_ex row_aborts rows\<close>] assms(2) by auto
  moreover have "report_of rows rep'" using rep'(2) report_of_perm [OF assms(1)] by simp
  ultimately show ?thesis using rep'(1) by (auto simp: report_of_def)
qed

definition demo_wec_row :: "int \<Rightarrow> wec_row" where
  "demo_wec_row t = \<lparr>wr_event = \<lparr>we_event_code = 1, we_pid = 1, we_session_id = ''s'', we_ts_ns = t\<rparr>,
     wr_event_name = [], wr_wec_hash = ''bb'', wr_prev_wec_hash = ''aa'', wr_metadata_json = [],
     wr_created_at = 0\<rparr>"

theorem verify_wec_links_order_free_witness:
  "\<exists>rep. verify_wec_links [demo_wec_row 2, demo_wec_row 1] = Inr rep \<and> n_forks rep = 1 \<and> n_orphans rep = 2"
proof -
  have ok: "\<not> list_ex row_aborts [demo_wec_row 1, demo_wec_row 2]"
    by (simp add: row_aborts_def demo_wec_row_def)
  obtain rep where rep: "verify_wec_links [demo_wec_row 1, demo_wec_row 2] = Inr rep"
    "report_of [demo_wec_row 1, demo_wec_row 2] rep"
    using verify_wec_links_report [OF ok] by blast
  have "{h \<in> set (prevs [demo_wec_row 1, demo_wec_row 2]).
      1 < count_list (prevs [demo_wec_row 1, demo_wec_row 2]) h} = {''aa''}"
    by (auto simp: prevs_def demo_wec_row_def)
  then have "n_forks rep = 1" "n_orphans rep = 2"
    using rep(2) by (simp_all add: report_of_def row_orphan_def) (simp add: demo_wec_row_def)
  then show ?thesis
    using verify_wec_links_order_free [OF _ rep(1), of "[demo_wec_row 2, demo_wec_row 1]"] by auto
qed

end
